(* ===== verification/GoFloat.thy ===== *)
theory GoFloat
  imports Prelude Complex_Main "HOL-Library.Log_Nat"
begin

text \<open>
  Go's \<open>float64\<close>: IEEE 754 double precision with round to nearest, ties to even.

  A finite value is the rational number it stands for; the two infinities and NaN are
  constructors.  Negative zero is identified with zero, which no modelled code can observe: it
  never divides by a computed value and never prints a float.  \<open>round64\<close> is the rounding of an
  exact rational result to a double (53 bits of precision, subnormals below \<open>2 ^ (- 1022)\<close>,
  overflow to infinity from \<open>2 ^ 1024\<close>); an arithmetic operation is the exact operation
  followed by \<open>round64\<close>, as the standard says.  The lemmas give exactness on integers up to
  \<open>2 ^ 53\<close>, the relative error of one rounding and the monotonicity of rounding.
\<close>

datatype f64 = Fin rat | PInf | NInf | NaN

definition ilog2 :: "rat \<Rightarrow> int" where
  "ilog2 x = (let (p, q) = quotient_of x; k = bitlen p - bitlen q
     in if 2 powi k \<le> x then k else k - 1)"

definition rne :: "rat \<Rightarrow> int" where
  "rne x = (let f = \<lfloor>x\<rfloor>; d = x - of_int f
     in if d < 1 / 2 then f else if 1 / 2 < d then f + 1
        else if even f then f else f + 1)"

definition fexp :: "rat \<Rightarrow> int" where
  "fexp x = max (ilog2 \<bar>x\<bar> - 52) (- 1074)"

definition rnd :: "rat \<Rightarrow> rat" where
  "rnd x = (if x = 0 then 0 else of_int (rne (x / 2 powi fexp x)) * 2 powi fexp x)"

definition round64 :: "rat \<Rightarrow> f64" where
  "round64 x = (let v = rnd x
     in if v \<noteq> 0 \<and> 1024 \<le> ilog2 \<bar>v\<bar> then (if 0 < v then PInf else NInf) else Fin v)"

section \<open>Operations\<close>

definition f64_of_int :: "int \<Rightarrow> f64" where
  "f64_of_int n = round64 (of_int n)"

fun fneg :: "f64 \<Rightarrow> f64" where
  "fneg (Fin x) = Fin (- x)"
| "fneg PInf = NInf"
| "fneg NInf = PInf"
| "fneg NaN = NaN"

fun fadd :: "f64 \<Rightarrow> f64 \<Rightarrow> f64" where
  "fadd (Fin x) (Fin y) = round64 (x + y)"
| "fadd NaN y = NaN"
| "fadd x NaN = NaN"
| "fadd PInf NInf = NaN"
| "fadd NInf PInf = NaN"
| "fadd PInf y = PInf"
| "fadd NInf y = NInf"
| "fadd x PInf = PInf"
| "fadd x NInf = NInf"

definition fsub :: "f64 \<Rightarrow> f64 \<Rightarrow> f64" where
  "fsub x y = fadd x (fneg y)"

definition fsgn :: "f64 \<Rightarrow> int" where
  "fsgn x = (case x of Fin r \<Rightarrow> (if 0 < r then 1 else if r < 0 then - 1 else 0)
     | PInf \<Rightarrow> 1 | NInf \<Rightarrow> - 1 | NaN \<Rightarrow> 0)"

definition finf :: "int \<Rightarrow> f64" where
  "finf s = (if 0 < s then PInf else if s < 0 then NInf else NaN)"

fun fmul :: "f64 \<Rightarrow> f64 \<Rightarrow> f64" where
  "fmul (Fin x) (Fin y) = round64 (x * y)"
| "fmul NaN y = NaN"
| "fmul x NaN = NaN"
| "fmul x y = finf (fsgn x * fsgn y)"

text \<open>Division by a positive finite constant, the only division in the modelled code.\<close>

fun fdivc :: "f64 \<Rightarrow> rat \<Rightarrow> f64" where
  "fdivc (Fin x) c = round64 (x / c)"
| "fdivc PInf c = PInf"
| "fdivc NInf c = NInf"
| "fdivc NaN c = NaN"

fun flt :: "f64 \<Rightarrow> f64 \<Rightarrow> bool" where
  "flt (Fin x) (Fin y) = (x < y)"
| "flt NaN y = False"
| "flt x NaN = False"
| "flt NInf NInf = False"
| "flt PInf y = False"
| "flt x NInf = False"
| "flt NInf y = True"
| "flt x PInf = True"

definition trunc :: "rat \<Rightarrow> int" where
  "trunc x = (if 0 \<le> x then \<lfloor>x\<rfloor> else \<lceil>x\<rceil>)"

text \<open>
  Conversion to \<open>int64\<close> is implementation-defined out of range: the gateway plugin is built by
  TinyGo, which saturates (NaN to 0); the server binaries run on amd64, where the result is the
  least \<open>int64\<close>.
\<close>

definition max_int64 :: int where
  "max_int64 = 2 ^ 63 - 1"

definition min_int64 :: int where
  "min_int64 = - (2 ^ 63)"

fun to_int64_sat :: "f64 \<Rightarrow> int" where
  "to_int64_sat (Fin x) = max min_int64 (min max_int64 (trunc x))"
| "to_int64_sat PInf = max_int64"
| "to_int64_sat NInf = min_int64"
| "to_int64_sat NaN = 0"

fun to_int64_amd :: "f64 \<Rightarrow> int" where
  "to_int64_amd (Fin x) = (if in_int64 (trunc x) then trunc x else min_int64)"
| "to_int64_amd _ = min_int64"

text \<open>\<open>math.Round\<close>: to the nearest integer, halves away from zero.\<close>

definition round_away :: "rat \<Rightarrow> int" where
  "round_away x = (if 0 \<le> x then \<lfloor>x + 1 / 2\<rfloor> else - \<lfloor>1 / 2 - x\<rfloor>)"

fun math_round :: "f64 \<Rightarrow> f64" where
  "math_round (Fin x) = Fin (of_int (round_away x))"
| "math_round y = y"

section \<open>Binary exponent\<close>

lemma powi_less_iff [simp]: "(2::rat) powi i < 2 powi j \<longleftrightarrow> i < j"
  by (meson linorder_not_less one_less_numeral_iff power_int_increasing
      power_int_strict_increasing semiring_norm(76) less_imp_le)

lemma powi_le_iff [simp]: "(2::rat) powi i \<le> 2 powi j \<longleftrightarrow> i \<le> j"
  by (meson linorder_not_less powi_less_iff)

lemma powi_pos [simp]: "(0::rat) < 2 powi i"
  by simp

lemma powi_split: "(2::rat) powi (i + j) = 2 powi i * 2 powi j"
  by (simp add: power_int_add)

lemma bitlen_rat_bounds:
  assumes "0 < (p::int)"
  shows "2 powi (bitlen p - 1) \<le> (of_int p :: rat)" "(of_int p :: rat) < 2 powi bitlen p"
proof -
  have b: "2 ^ nat (bitlen p - 1) \<le> p \<and> p < 2 ^ nat (bitlen p)"
    using bitlen_bounds [OF assms] by simp
  have pos: "0 < bitlen p"
    using assms bitlen_eq_zero_iff [of p] bitlen_nonneg [of p] by linarith
  have "(2::rat) powi (bitlen p - 1) = of_int (2 ^ nat (bitlen p - 1))"
    using pos by (simp add: power_int_nonneg_exp)
  also have "\<dots> \<le> of_int p" using b by (simp only: of_int_le_iff)
  finally show "2 powi (bitlen p - 1) \<le> (of_int p :: rat)" .
  have "of_int p < (of_int (2 ^ nat (bitlen p)) :: rat)" using b by (simp only: of_int_less_iff)
  also have "\<dots> = 2 powi bitlen p" using pos by (simp add: power_int_nonneg_exp)
  finally show "(of_int p :: rat) < 2 powi bitlen p" .
qed

lemma ilog2_bounds:
  assumes "0 < x"
  shows "2 powi ilog2 x \<le> x" "x < 2 powi (ilog2 x + 1)"
proof -
  obtain p q where pq: "quotient_of x = (p, q)" by (cases "quotient_of x")
  have q: "0 < q" using quotient_of_denom_pos [OF pq] .
  have x: "x = of_int p / of_int q" using quotient_of_div [OF pq] .
  have p: "0 < p" using assms q unfolding x by (simp add: zero_less_divide_iff)
  let ?k = "bitlen p - bitlen q"
  have up: "x < 2 powi (?k + 1)"
  proof -
    have "of_int p < (2 powi bitlen p :: rat)" using bitlen_rat_bounds(2) [OF p] .
    also have "\<dots> = 2 powi (?k + 1) * 2 powi (bitlen q - 1)"
      by (simp flip: powi_split)
    also have "\<dots> \<le> 2 powi (?k + 1) * of_int q"
      using bitlen_rat_bounds(1) [OF q] by simp
    finally show ?thesis using q unfolding x by (simp add: divide_less_eq)
  qed
  have lo: "2 powi (?k - 1) \<le> x"
  proof -
    have "(2::rat) powi (?k - 1) * of_int q \<le> 2 powi (?k - 1) * 2 powi bitlen q"
      using bitlen_rat_bounds(2) [OF q] by simp
    also have "\<dots> = 2 powi (bitlen p - 1)" by (simp flip: powi_split)
    also have "\<dots> \<le> of_int p" using bitlen_rat_bounds(1) [OF p] .
    finally show ?thesis using q unfolding x by (simp add: le_divide_eq)
  qed
  show "2 powi ilog2 x \<le> x" "x < 2 powi (ilog2 x + 1)"
    using up lo by (auto simp: ilog2_def pq Let_def)
qed

lemma ilog2_unique:
  assumes "2 powi k \<le> x" "x < 2 powi (k + 1)"
  shows "ilog2 x = k"
proof -
  have pos: "0 < x" using assms(1) powi_pos [of k] by linarith
  have "2 powi ilog2 x < (2 powi (k + 1) :: rat)"
    using ilog2_bounds(1) [OF pos] assms(2) by linarith
  moreover have "2 powi k < (2 powi (ilog2 x + 1) :: rat)"
    using ilog2_bounds(2) [OF pos] assms(1) by linarith
  ultimately show ?thesis by simp
qed

lemma ilog2_mono: "0 < x \<Longrightarrow> x \<le> y \<Longrightarrow> ilog2 x \<le> ilog2 y"
proof -
  assume a: "0 < x" "x \<le> y"
  then have "2 powi ilog2 x < (2 powi (ilog2 y + 1) :: rat)"
    using ilog2_bounds(1) [of x] ilog2_bounds(2) [of y] by linarith
  then show ?thesis by simp
qed

section \<open>Rounding to the nearest integer\<close>

lemma rne_of_int [simp]: "rne (of_int n) = n"
  by (simp add: rne_def)

lemma rne_bounds: "\<bar>of_int (rne x) - x\<bar> \<le> 1 / 2"
proof -
  have "of_int \<lfloor>x\<rfloor> \<le> x" "x < of_int \<lfloor>x\<rfloor> + 1" by linarith+
  then show ?thesis by (auto simp: rne_def Let_def abs_le_iff)
qed

lemma rne_mono: "x \<le> y \<Longrightarrow> rne x \<le> rne y"
proof -
  assume xy: "x \<le> y"
  have fl: "\<lfloor>x\<rfloor> \<le> \<lfloor>y\<rfloor>" using xy by (rule floor_mono)
  show ?thesis
  proof (cases "\<lfloor>x\<rfloor> = \<lfloor>y\<rfloor>")
    case True
    with xy show ?thesis by (auto simp: rne_def Let_def)
  next
    case False
    with fl have "\<lfloor>x\<rfloor> + 1 \<le> \<lfloor>y\<rfloor>" by simp
    moreover have "rne x \<le> \<lfloor>x\<rfloor> + 1" "\<lfloor>y\<rfloor> \<le> rne y"
      by (auto simp: rne_def Let_def)
    ultimately show ?thesis by linarith
  qed
qed

lemma rne_minus: "rne (- x) = - rne x"
proof (cases "x = of_int \<lfloor>x\<rfloor>")
  case True
  then obtain n where "x = of_int n" by blast
  then show ?thesis by (metis of_int_minus rne_of_int)
next
  case False
  have "\<lfloor>- x\<rfloor> = - \<lfloor>x\<rfloor> - 1"
    using False by (simp add: floor_eq_iff) linarith
  then show ?thesis by (auto simp: rne_def Let_def)
qed

lemma rne_nonneg: "0 \<le> x \<Longrightarrow> 0 \<le> rne x"
  using rne_mono [of 0 x] rne_of_int [of 0] by simp

section \<open>Rounding to a double\<close>

lemma rnd_0 [simp]: "rnd 0 = 0"
  by (simp add: rnd_def)

lemma fexp_minus [simp]: "fexp (- x) = fexp x"
  by (simp add: fexp_def)

lemma rnd_minus: "rnd (- x) = - rnd x"
  by (simp add: rnd_def rne_minus)

lemma rnd_nonneg: "0 \<le> x \<Longrightarrow> 0 \<le> rnd x"
  by (simp add: rnd_def rne_nonneg)

text \<open>A multiple of the unit in the last place is its own rounding.\<close>

lemma rnd_multiple:
  assumes "x = of_int m * 2 powi e" "fexp x \<le> e"
  shows "rnd x = x"
proof (cases "x = 0")
  case False
  have "x / 2 powi fexp x = of_int m * 2 powi (e - fexp x)"
    by (simp add: assms(1) power_int_diff)
  also have "\<dots> = of_int (m * 2 ^ nat (e - fexp x))"
    using assms(2) by (simp add: power_int_nonneg_exp)
  finally have "x / 2 powi fexp x = of_int (m * 2 ^ nat (e - fexp x))" .
  then show ?thesis using False unfolding rnd_def
    by (metis (no_types, lifting) rne_of_int nonzero_divide_eq_eq power_int_not_zero
        zero_neq_numeral)
qed simp

lemma ilog2_int_less:
  assumes "n \<noteq> 0" "\<bar>n\<bar> < 2 ^ k"
  shows "ilog2 \<bar>of_int n\<bar> < int k"
proof -
  have pos: "(0::rat) < \<bar>of_int n\<bar>" using assms(1) by simp
  have "(\<bar>of_int n\<bar> :: rat) < of_int (2 ^ k)"
    using assms(2) by (metis of_int_abs of_int_less_iff)
  then have "\<bar>of_int n\<bar> < (2 powi int k :: rat)" by simp
  then have "(2 powi ilog2 \<bar>of_int n\<bar> :: rat) < 2 powi int k"
    using ilog2_bounds(1) [OF pos] by linarith
  then show ?thesis by (simp only: powi_less_iff)
qed

lemma rnd_small_int:
  assumes "\<bar>n\<bar> \<le> 2 ^ 53"
  shows "rnd (of_int n) = of_int n"
proof (cases "\<bar>n\<bar> = 2 ^ 53")
  case True
  then have a: "n = 1 * 2 ^ 53 \<or> n = - 1 * 2 ^ 53" by linarith
  then obtain m :: int where m: "n = m * 2 ^ 53" by blast
  have "ilog2 \<bar>of_int n\<bar> < int 54" using True by (intro ilog2_int_less) auto
  then have "fexp (of_int n) \<le> 53" by (simp add: fexp_def)
  moreover have "(of_int n :: rat) = of_int m * 2 powi 53" using m by simp
  ultimately show ?thesis by (intro rnd_multiple)
next
  case False
  show ?thesis
  proof (cases "n = 0")
    case n: False
    have "ilog2 \<bar>of_int n\<bar> < int 53" using assms False n by (intro ilog2_int_less) auto
    then have "fexp (of_int n) \<le> 0" by (simp add: fexp_def)
    then show ?thesis by (intro rnd_multiple [where m = n and e = 0]) simp_all
  qed simp
qed

section \<open>Error and monotonicity of one rounding\<close>

text \<open>In the normal range one rounding moves a value by at most \<open>2 ^ (- 53)\<close> of itself.\<close>

lemma rnd_error:
  assumes "2 powi (- 1022) \<le> \<bar>x\<bar>"
  shows "\<bar>rnd x - x\<bar> \<le> \<bar>x\<bar> / 2 ^ 53"
proof -
  have pos: "0 < \<bar>x\<bar>" using assms powi_pos [of "- 1022"] by linarith
  then have x0: "x \<noteq> 0" by auto
  let ?e = "fexp x"
  have "(2::rat) powi (- 1022) < 2 powi (ilog2 \<bar>x\<bar> + 1)"
    using assms ilog2_bounds(2) [OF pos] by linarith
  then have "- 1022 < ilog2 \<bar>x\<bar> + 1" by (simp only: powi_less_iff)
  then have e: "?e = ilog2 \<bar>x\<bar> - 52" by (simp add: fexp_def)
  have "rnd x - x = (of_int (rne (x / 2 powi ?e)) - x / 2 powi ?e) * 2 powi ?e"
    using x0 by (simp add: rnd_def algebra_simps)
  then have "\<bar>rnd x - x\<bar> \<le> 1 / 2 * 2 powi ?e"
    using rne_bounds [of "x / 2 powi ?e"] by (simp only: abs_mult) simp
  also have "\<dots> = 2 powi ilog2 \<bar>x\<bar> / 2 ^ 53"
    by (simp add: e power_int_diff)
  also have "\<dots> \<le> \<bar>x\<bar> / 2 ^ 53"
    using ilog2_bounds(1) [OF pos] by (simp add: divide_right_mono)
  finally show ?thesis .
qed

lemma powi_rescale:
  assumes "d \<le> e"
  shows "(of_int m * 2 powi e :: rat) = of_int (m * 2 ^ nat (e - d)) * 2 powi d"
proof -
  have "(2::rat) powi e = 2 powi (e - d) * 2 powi d" by (simp flip: powi_split)
  also have "(2::rat) powi (e - d) = of_int (2 ^ nat (e - d))"
    using assms by (simp add: power_int_nonneg_exp)
  finally show ?thesis by simp
qed

text \<open>Rounding cannot cross a multiple of the unit in the last place.\<close>

lemma rnd_le_multiple:
  assumes "0 < x" "x \<le> of_int m * 2 powi e" "fexp x \<le> e"
  shows "rnd x \<le> of_int m * 2 powi e"
proof -
  let ?e = "fexp x"
  have y: "(of_int m * 2 powi e :: rat) = of_int (m * 2 ^ nat (e - ?e)) * 2 powi ?e"
    using assms(3) by (rule powi_rescale)
  have "x / 2 powi ?e \<le> of_int (m * 2 ^ nat (e - ?e))"
    using assms(2) unfolding y by (subst pos_divide_le_eq) simp_all
  then have "rne (x / 2 powi ?e) \<le> m * 2 ^ nat (e - ?e)"
    using rne_mono rne_of_int by metis
  then have "of_int (rne (x / 2 powi ?e)) \<le> (of_int (m * 2 ^ nat (e - ?e)) :: rat)"
    by (simp only: of_int_le_iff)
  then show ?thesis using assms(1) unfolding y rnd_def by (simp add: mult_right_mono)
qed

lemma rnd_ge_multiple:
  assumes "0 < x" "of_int m * 2 powi e \<le> x" "fexp x \<le> e"
  shows "of_int m * 2 powi e \<le> rnd x"
proof -
  let ?e = "fexp x"
  have y: "(of_int m * 2 powi e :: rat) = of_int (m * 2 ^ nat (e - ?e)) * 2 powi ?e"
    using assms(3) by (rule powi_rescale)
  have "of_int (m * 2 ^ nat (e - ?e)) \<le> x / 2 powi ?e"
    using assms(2) unfolding y by (subst pos_le_divide_eq) simp_all
  then have "m * 2 ^ nat (e - ?e) \<le> rne (x / 2 powi ?e)"
    using rne_mono rne_of_int by metis
  then have "(of_int (m * 2 ^ nat (e - ?e)) :: rat) \<le> of_int (rne (x / 2 powi ?e))"
    by (simp only: of_int_le_iff)
  then show ?thesis using assms(1) unfolding y rnd_def by (simp add: mult_right_mono)
qed

lemma rnd_mono_pos:
  assumes "0 < x" "x \<le> y"
  shows "rnd x \<le> rnd y"
proof (cases "fexp x = fexp y")
  case True
  have "x / 2 powi fexp x \<le> y / 2 powi fexp y"
    using assms(2) True by (simp add: divide_right_mono)
  then show ?thesis using assms True rne_mono [of "x / 2 powi fexp y" "y / 2 powi fexp y"]
    by (simp add: rnd_def mult_right_mono)
next
  case False
  have y0: "0 < y" using assms by linarith
  have le: "ilog2 x \<le> ilog2 y" using assms by (rule ilog2_mono)
  have ey: "fexp x < fexp y" "fexp y = ilog2 y - 52"
    using False le assms(1) y0 by (auto simp: fexp_def)
  have "ilog2 x < ilog2 y" using False le assms(1) y0 by (auto simp: fexp_def)
  then have "x \<le> 2 powi ilog2 y"
    using ilog2_bounds(2) [OF assms(1)] powi_le_iff [of "ilog2 x + 1" "ilog2 y"] by linarith
  then have "rnd x \<le> of_int 1 * 2 powi ilog2 y"
    using assms(1) ey by (intro rnd_le_multiple) auto
  also have "\<dots> \<le> rnd y"
    using y0 ey ilog2_bounds(1) [OF y0] by (intro rnd_ge_multiple) auto
  finally show ?thesis .
qed

lemma rnd_mono: "x \<le> y \<Longrightarrow> rnd x \<le> rnd y"
proof -
  assume xy: "x \<le> y"
  consider "0 < x" | "x \<le> 0" "0 \<le> y" | "y < 0" using xy by linarith
  then show ?thesis
  proof cases
    case 1 then show ?thesis using xy by (rule rnd_mono_pos)
  next
    case 2
    then have "0 \<le> rnd (- x)" "0 \<le> rnd y" by (auto intro: rnd_nonneg)
    then show ?thesis by (simp add: rnd_minus)
  next
    case 3
    then have "rnd (- y) \<le> rnd (- x)" using xy by (intro rnd_mono_pos) auto
    then show ?thesis by (simp add: rnd_minus)
  qed
qed

section \<open>Exactness and bounds of the operations\<close>

lemma round64_int [simp]:
  assumes "\<bar>n\<bar> \<le> 2 ^ 53"
  shows "round64 (of_int n) = Fin (of_int n)"
proof -
  have "n \<noteq> 0 \<Longrightarrow> ilog2 \<bar>of_int n\<bar> < int 54"
    using assms by (intro ilog2_int_less) auto
  then show ?thesis using rnd_small_int [OF assms] by (auto simp: round64_def Let_def)
qed

lemma round64_nat [simp]:
  assumes "n \<le> 2 ^ 53"
  shows "round64 (of_nat n) = Fin (of_nat n)"
  using round64_int [of "int n"] assms by (simp add: numeral_power_le_of_nat_cancel_iff)

lemma f64_of_int_exact: "\<bar>n\<bar> \<le> 2 ^ 53 \<Longrightarrow> f64_of_int n = Fin (of_int n)"
  by (simp add: f64_of_int_def)

lemma trunc_of_int [simp]: "trunc (of_int n) = n"
  by (simp add: trunc_def)

lemma trunc_of_nat [simp]: "trunc (of_nat n) = int n"
  by (simp add: trunc_def)

lemma to_int64_sat_small:
  assumes "\<bar>n\<bar> \<le> 2 ^ 53"
  shows "to_int64_sat (Fin (of_int n)) = n"
  using assms by (auto simp: min_int64_def max_int64_def)

lemma round64_numeral [simp]:
  "(numeral k :: int) \<le> 2 ^ 53 \<Longrightarrow> round64 (numeral k) = Fin (numeral k)"
  using round64_int [of "numeral k"] by simp

lemma round64_01 [simp]: "round64 0 = Fin 0" "round64 1 = Fin 1"
  using round64_int [of 0] round64_int [of 1] by simp_all

text \<open>Kernel evaluation takes the exact path for small integers.\<close>

lemma round64_code [code]:
  "round64 x = (if snd (quotient_of x) = 1 \<and> \<bar>fst (quotient_of x)\<bar> \<le> 9007199254740992 then Fin x
     else let v = rnd x
     in if v \<noteq> 0 \<and> 1024 \<le> ilog2 \<bar>v\<bar> then (if 0 < v then PInf else NInf) else Fin v)"
proof (cases "snd (quotient_of x) = 1 \<and> \<bar>fst (quotient_of x)\<bar> \<le> 9007199254740992")
  case True
  obtain p q where pq: "quotient_of x = (p, q)" by (cases "quotient_of x")
  with True have "q = 1" "\<bar>p\<bar> \<le> 2 ^ 53" by simp_all
  then have "x = of_int p" using quotient_of_div [OF pq] by simp
  then show ?thesis using True \<open>\<bar>p\<bar> \<le> 2 ^ 53\<close> by simp
next
  case False
  show ?thesis unfolding if_not_P [OF False] by (rule round64_def)
qed

end
