(* ===== verification/GatewayJson.thy ===== *)
theory GatewayJson
  imports GoFloat
begin

text \<open>
  The gateway plugin's JSON reader and writer (\<open>wasm/gateway/jsonlite.go\<close>, with
  \<open>formatInt\<close> of \<open>usage.go\<close>).

  The Go parser keeps a position in the source; here the state is the remaining input, so a
  parser takes a string and returns the value and what is left.  A JSON object is a Go map built
  by assignments, so it is an association list updated key by key: a later duplicate replaces the
  earlier value.  The three mutually recursive parsers take fuel; \<open>parse_json\<close> starts with
  \<open>2 * length s + 2\<close>, and \<open>parse_fuel\<close> shows that any larger amount gives the same answer.
\<close>

datatype json = JNull | JString string | JNumber f64 | JBool bool
  | JObject "(string \<times> json) list" | JArray "json list"

section \<open>Access\<close>

fun get :: "json \<Rightarrow> string \<Rightarrow> json option" where
  "get (JObject kvs) key = map_of kvs key"
| "get _ key = None"

definition string_or :: "json \<Rightarrow> string \<Rightarrow> string" where
  "string_or v key = (case get v key of Some (JString s) \<Rightarrow> s | _ \<Rightarrow> [])"

definition int_or :: "json \<Rightarrow> string \<Rightarrow> int" where
  "int_or v key = (case get v key of Some (JNumber x) \<Rightarrow> to_int64_sat x | _ \<Rightarrow> 0)"

definition bool_or :: "json \<Rightarrow> string \<Rightarrow> bool" where
  "bool_or v key = (case get v key of Some (JBool b) \<Rightarrow> b | _ \<Rightarrow> False)"

section \<open>Numbers\<close>

fun int_digits :: "f64 \<Rightarrow> nat \<Rightarrow> string \<Rightarrow> f64 \<times> nat \<times> string" where
  "int_digits x k [] = (x, k, [])"
| "int_digits x k (c # s) =
     (if is_digit c
      then int_digits (fadd (fmul x (Fin 10)) (f64_of_int (int (digit_val c)))) (Suc k) s
      else (x, k, c # s))"

fun frac_digits :: "f64 \<Rightarrow> f64 \<Rightarrow> nat \<Rightarrow> string \<Rightarrow> f64 \<times> nat \<times> string" where
  "frac_digits x scale k [] = (x, k, [])"
| "frac_digits x scale k (c # s) =
     (if is_digit c
      then frac_digits (fadd x (fmul (f64_of_int (int (digit_val c))) scale))
             (fdivc scale 10) (Suc k) s
      else (x, k, c # s))"

fun exp_digits :: "nat \<Rightarrow> nat \<Rightarrow> string \<Rightarrow> (nat \<times> nat \<times> string) option" where
  "exp_digits e k [] = Some (e, k, [])"
| "exp_digits e k (c # s) =
     (if is_digit c
      then (let e' = e * 10 + digit_val c in if 308 < e' then None else exp_digits e' (Suc k) s)
      else Some (e, k, c # s))"

text \<open>The optional exponent: sign and digits, at least one of them.\<close>

definition parse_exp :: "string \<Rightarrow> (int \<times> string) option" where
  "parse_exp s =
     (case s of
        [] \<Rightarrow> Some (0, [])
      | c # t \<Rightarrow>
          if c = CHR ''e'' \<or> c = CHR ''E'' then
            (let signed = (t \<noteq> [] \<and> (hd t = CHR ''-'' \<or> hd t = CHR ''+''));
                 exp_neg = (t \<noteq> [] \<and> hd t = CHR ''-'')
             in case exp_digits 0 0 (if signed then tl t else t) of
                  None \<Rightarrow> None
                | Some (e, k, r) \<Rightarrow>
                    if k = 0 then None
                    else Some (if exp_neg then - int e else int e, r))
          else Some (0, s))"

definition scale10 :: "f64 \<Rightarrow> int \<Rightarrow> f64" where
  "scale10 x e = (if 0 \<le> e then ((\<lambda>y. fmul y (Fin 10)) ^^ nat e) x
     else ((\<lambda>y. fdivc y 10) ^^ nat (- e)) x)"

definition parse_float :: "string \<Rightarrow> f64 option" where
  "parse_float raw =
     (let neg = (raw \<noteq> [] \<and> hd raw = CHR ''-'');
          (ip, k1, r1) = int_digits (Fin 0) 0 (if neg then tl raw else raw);
          (fp, k2, r2) = (if r1 \<noteq> [] \<and> hd r1 = CHR ''.''
                          then frac_digits (Fin 0) (round64 (1 / 10)) k1 (tl r1)
                          else (Fin 0, k1, r1))
      in case parse_exp r2 of
           None \<Rightarrow> None
         | Some (e, r3) \<Rightarrow>
             if r3 \<noteq> [] \<or> k2 = 0 then None
             else (let out = scale10 (fadd ip fp) e in Some (if neg then fneg out else out)))"

section \<open>Strings\<close>

definition skip_space :: "string \<Rightarrow> string" where
  "skip_space s = dropWhile (\<lambda>c. c = CHR '' '' \<or> c = CHR 0x09 \<or> c = CHR 0x0A \<or> c = CHR 0x0D) s"

definition next_is :: "char \<Rightarrow> string \<Rightarrow> bool" where
  "next_is c s = (case s of [] \<Rightarrow> False | x # _ \<Rightarrow> x = c)"

definition unescape :: "char \<Rightarrow> char option" where
  "unescape e =
     (if e = CHR ''\"'' \<or> e = CHR 0x5C \<or> e = CHR ''/'' then Some e
      else if e = CHR ''b'' then Some (CHR 0x08)
      else if e = CHR ''f'' then Some (CHR 0x0C)
      else if e = CHR ''n'' then Some (CHR 0x0A)
      else if e = CHR ''r'' then Some (CHR 0x0D)
      else if e = CHR ''t'' then Some (CHR 0x09)
      else None)"

text \<open>
  The string loop after the opening quote.  A \<open>\u\<close> escape skips its four characters, whatever
  they are, and writes nothing.
\<close>

fun string_loop :: "string \<Rightarrow> (string \<times> string) option" where
  "string_loop [] = None"
| "string_loop (c # s) =
     (if c = CHR ''\"'' then Some ([], s)
      else if c = CHR 0x5C then
        (case s of
           [] \<Rightarrow> None
         | e # t \<Rightarrow>
             (case unescape e of
                Some x \<Rightarrow> map_option (apfst ((#) x)) (string_loop t)
              | None \<Rightarrow>
                  if e = CHR ''u'' then (if length t < 4 then None else string_loop (drop 4 t))
                  else None))
      else map_option (apfst ((#) c)) (string_loop s))"

definition parse_string :: "string \<Rightarrow> (string \<times> string) option" where
  "parse_string s = (case s of [] \<Rightarrow> None | c # t \<Rightarrow> if c = CHR ''\"'' then string_loop t else None)"

section \<open>Values\<close>

definition num_char :: "char \<Rightarrow> bool" where
  "num_char c = (is_digit c \<or> c \<in> {CHR ''.'', CHR ''e'', CHR ''E'', CHR ''-'', CHR ''+''})"

definition parse_number :: "string \<Rightarrow> (json \<times> string) option" where
  "parse_number s =
     (let raw = takeWhile num_char s
      in if raw = [] then None
         else map_option (\<lambda>n. (JNumber n, dropWhile num_char s)) (parse_float raw))"

fun parse_value :: "nat \<Rightarrow> string \<Rightarrow> (json \<times> string) option"
  and parse_members :: "nat \<Rightarrow> (string \<times> json) list \<Rightarrow> string \<Rightarrow> (json \<times> string) option"
  and parse_elems :: "nat \<Rightarrow> json list \<Rightarrow> string \<Rightarrow> (json \<times> string) option" where
  "parse_value 0 s = None"
| "parse_value (Suc n) s =
     (let u = skip_space s in
      if u = [] then None
      else if next_is (CHR ''{'') u then
        (let w = skip_space (tl u)
         in if next_is (CHR ''}'') w then Some (JObject [], tl w) else parse_members n [] w)
      else if next_is (CHR ''['') u then
        (let w = skip_space (tl u)
         in if next_is (CHR '']'') w then Some (JArray [], tl w) else parse_elems n [] w)
      else if next_is (CHR ''\"'') u then map_option (apfst JString) (parse_string u)
      else if next_is (CHR ''t'') u then
        (if has_prefix u ''true'' then Some (JBool True, drop 4 u) else None)
      else if next_is (CHR ''f'') u then
        (if has_prefix u ''false'' then Some (JBool False, drop 5 u) else None)
      else if next_is (CHR ''n'') u then
        (if has_prefix u ''null'' then Some (JNull, drop 4 u) else None)
      else parse_number u)"
| "parse_members 0 acc s = None"
| "parse_members (Suc n) acc s =
     (case parse_string (skip_space s) of
        None \<Rightarrow> None
      | Some (key, r) \<Rightarrow>
          let u = skip_space r in
          if \<not> next_is (CHR '':'') u then None
          else (case parse_value n (tl u) of
                  None \<Rightarrow> None
                | Some (v, r2) \<Rightarrow>
                    let acc' = AList.update key v acc; w = skip_space r2 in
                    if next_is (CHR '','') w then parse_members n acc' (tl w)
                    else if next_is (CHR ''}'') w then Some (JObject acc', tl w)
                    else None))"
| "parse_elems 0 acc s = None"
| "parse_elems (Suc n) acc s =
     (case parse_value n s of
        None \<Rightarrow> None
      | Some (v, r) \<Rightarrow>
          let w = skip_space r in
          if next_is (CHR '','') w then parse_elems n (acc @ [v]) (tl w)
          else if next_is (CHR '']'') w then Some (JArray (acc @ [v]), tl w)
          else None)"

declare parse_value.simps(2) [simp del] parse_members.simps(2) [simp del]
declare parse_elems.simps(2) [simp del]

definition json_fuel :: "string \<Rightarrow> nat" where
  "json_fuel s = 2 * length s + 2"

definition parse_json :: "string \<Rightarrow> json option" where
  "parse_json s =
     (case parse_value (json_fuel s) s of
        None \<Rightarrow> None
      | Some (v, r) \<Rightarrow> if skip_space r = [] then Some v else None)"

section \<open>Writing\<close>

definition escape_char :: "char \<Rightarrow> string" where
  "escape_char c =
     (if c = CHR ''\"'' then [CHR 0x5C, CHR ''\"'']
      else if c = CHR 0x5C then [CHR 0x5C, CHR 0x5C]
      else if c = CHR 0x0A then [CHR 0x5C, CHR ''n'']
      else if c = CHR 0x0D then [CHR 0x5C, CHR ''r'']
      else if c = CHR 0x09 then [CHR 0x5C, CHR ''t'']
      else if byte c < 32 then '' ''
      else [c])"

definition json_escape :: "string \<Rightarrow> string" where
  "json_escape s = concat (map escape_char s)"

text \<open>\<open>formatInt\<close>: the digits of a positive integer; a negative one prints nothing.\<close>

function format_loop :: "int \<Rightarrow> string \<Rightarrow> string" where
  "format_loop v acc =
     (if 0 < v then format_loop (v div 10) (digit_char (nat (v mod 10)) # acc) else acc)"
  by pat_completeness auto
termination
  by (relation "measure (\<lambda>(v, acc). nat v)") auto

declare format_loop.simps [simp del]

definition format_int :: "int \<Rightarrow> string" where
  "format_int v = (if v = 0 then ''0'' else format_loop v [])"

section \<open>The last object of a stream\<close>

text \<open>
  The backward scan: \<open>scan_back\<close> walks the reversed text with the brace depth and the two
  string flags; \<open>acc\<close> is the text already walked, in order.
\<close>

fun scan_back :: "int \<Rightarrow> bool \<Rightarrow> bool \<Rightarrow> string \<Rightarrow> string \<Rightarrow> string option" where
  "scan_back depth in_string escaped [] acc = None"
| "scan_back depth in_string escaped (c # s) acc =
     (if in_string then
        (if escaped then scan_back depth True False s (c # acc)
         else if c = CHR 0x5C then scan_back depth True True s (c # acc)
         else if c = CHR ''\"'' then scan_back depth False False s (c # acc)
         else scan_back depth True False s (c # acc))
      else if c = CHR ''\"'' then scan_back depth True escaped s (c # acc)
      else if c = CHR ''}'' then scan_back (depth + 1) False escaped s (c # acc)
      else if c = CHR ''{'' then
        (if depth - 1 = 0 then Some (c # acc) else scan_back (depth - 1) False escaped s (c # acc))
      else scan_back depth False escaped s (c # acc))"

definition last_json_object :: "string \<Rightarrow> json option" where
  "last_json_object s =
     (let r = dropWhile (\<lambda>c. c \<noteq> CHR ''}'') (rev s)
      in if r = [] then None
         else case scan_back 0 False False r [] of None \<Rightarrow> None | Some t \<Rightarrow> parse_json t)"

section \<open>Escaped strings read back\<close>

definition plain_char :: "char \<Rightarrow> char" where
  "plain_char c = (if byte c < 32 \<and> c \<noteq> CHR 0x0A \<and> c \<noteq> CHR 0x0D \<and> c \<noteq> CHR 0x09
     then CHR '' '' else c)"

lemma string_loop_escape_char:
  "string_loop (escape_char c @ s) = map_option (apfst ((#) (plain_char c))) (string_loop s)"
proof -
  consider "c = CHR ''\"''" | "c = CHR 0x5C" | "c = CHR 0x0A" | "c = CHR 0x0D" | "c = CHR 0x09"
    | "byte c < 32" "c \<notin> {CHR ''\"'', CHR 0x5C, CHR 0x0A, CHR 0x0D, CHR 0x09}"
    | "\<not> byte c < 32" "c \<notin> {CHR ''\"'', CHR 0x5C, CHR 0x0A, CHR 0x0D, CHR 0x09}"
    by blast
  then show ?thesis
    by cases (simp_all add: escape_char_def plain_char_def unescape_def byte_def)
qed

lemma string_loop_escape:
  "string_loop (json_escape s @ CHR ''\"'' # r) = Some (map plain_char s, r)"
  by (induction s) (simp_all add: json_escape_def string_loop_escape_char)

lemma parse_string_escape:
  "parse_string (CHR ''\"'' # json_escape s @ CHR ''\"'' # r) = Some (map plain_char s, r)"
  by (simp add: parse_string_def string_loop_escape)

lemma skip_space_idem [simp]: "skip_space (skip_space s) = skip_space s"
  by (simp add: skip_space_def)

lemma skip_space_le: "length (skip_space s) \<le> length s"
  by (simp add: skip_space_def length_dropWhile_le)

section \<open>Parsers consume\<close>

lemma string_loop_shrinks: "string_loop s = Some (v, r) \<Longrightarrow> length r < length s"
proof (induction s arbitrary: v r rule: length_induct)
  case (1 s)
  have IH: "string_loop u = Some (v, r) \<Longrightarrow> length u < length s \<Longrightarrow> length r < length s" for u v r
    using "1.IH" by force
  obtain c t where s: "s = c # t" using "1.prems" by (cases s) auto
  show ?case
  proof (cases "c = CHR 0x5C")
    case False
    then show ?thesis using "1.prems" s by (auto split: if_split_asm dest: IH)
  next
    case True
    with "1.prems" s obtain e w where t: "t = e # w" by (cases t) auto
    show ?thesis
    proof (cases "unescape e")
      case None
      then have "string_loop (drop 4 w) = Some (v, r)"
        using "1.prems" s t True by (simp split: if_split_asm)
      then show ?thesis using IH [of "drop 4 w"] s t by simp
    next
      case (Some x)
      then show ?thesis using "1.prems" s t True IH [of w] by auto
    qed
  qed
qed

lemma parse_string_shrinks [shrink]: "parse_string s = Some (v, r) \<Longrightarrow> length r < length s"
  by (auto simp: parse_string_def split: list.splits if_splits dest: string_loop_shrinks)

lemma parse_number_shrinks: "parse_number s = Some (v, r) \<Longrightarrow> length r < length s"
proof -
  assume "parse_number s = Some (v, r)"
  then have a: "takeWhile num_char s \<noteq> []" "r = dropWhile num_char s"
    by (auto simp: parse_number_def Let_def split: if_splits)
  have "length s = length (takeWhile num_char s) + length (dropWhile num_char s)"
    by (metis length_append takeWhile_dropWhile_id)
  with a show ?thesis by simp
qed

lemma next_isD: "next_is c s \<Longrightarrow> s = c # tl s"
  by (cases s) (simp_all add: next_is_def)

lemma next_is_less [simp]: "next_is c s \<Longrightarrow> length (tl s) < length s"
  by (cases s) (simp_all add: next_is_def)


lemma parse_value_shrinks_aux:
  "(\<forall>s v r. parse_value n s = Some (v, r) \<longrightarrow> length r < length s)
   \<and> (\<forall>acc s v r. parse_members n acc s = Some (v, r) \<longrightarrow> length r < length s)
   \<and> (\<forall>acc s v r. parse_elems n acc s = Some (v, r) \<longrightarrow> length r < length s)"
proof (induction n)
  case (Suc n)
  have v: "parse_value n s = Some (v, r) \<Longrightarrow> length r < length s"
    and m: "parse_members n acc s = Some (v, r) \<Longrightarrow> length r < length s"
    and e: "parse_elems n accs s = Some (v, r) \<Longrightarrow> length r < length s" for s v r acc accs
    using Suc.IH by blast+
  have "length r < length s" if "parse_value (Suc n) s = Some (v, r)" for s v r
  proof -
    define u where "u = skip_space s"
    have u: "length u \<le> length s" "length (skip_space (tl u)) \<le> length (tl u)"
      "u \<noteq> [] \<Longrightarrow> length (tl u) < length u"
      by (simp_all only: u_def skip_space_le) (cases "skip_space s", simp_all)
    have "length r < length u"
      using that u(2,3) unfolding parse_value.simps(2) Let_def u_def [symmetric]
      by (auto split: if_split_asm dest!: m e parse_string_shrinks parse_number_shrinks
          dest: next_is_less)
    with u(1) show ?thesis by linarith
  qed
  moreover have "length r < length s" if p: "parse_members (Suc n) acc s = Some (v, r)"
    for acc s v r
  proof -
    from p obtain key q where q: "parse_string (skip_space s) = Some (key, q)"
      by (auto simp: parse_members.simps(2) split: option.splits)
    with p obtain x q2 where x: "parse_value n (tl (skip_space q)) = Some (x, q2)"
      by (auto simp: parse_members.simps(2) Let_def split: option.splits if_split_asm)
    have "length q < length s"
      using parse_string_shrinks [OF q] skip_space_le [of s] by linarith
    moreover have "length q2 < length q"
      using v [OF x] skip_space_le [of q] by (simp add: less_diff_conv)
    moreover have "length r < length q2"
      using p q x skip_space_le [of q2]
      by (auto simp: parse_members.simps(2) Let_def split: if_split_asm
          dest!: m dest: next_is_less)
    ultimately show ?thesis by linarith
  qed
  moreover have "length r < length s" if p: "parse_elems (Suc n) acc s = Some (v, r)"
    for acc s v r
  proof -
    from p obtain x q where x: "parse_value n s = Some (x, q)"
      by (auto simp: parse_elems.simps(2) split: option.splits)
    have "length q < length s" by (rule v [OF x])
    moreover have "length r < length q"
      using p x skip_space_le [of q]
      by (auto simp: parse_elems.simps(2) Let_def split: if_split_asm
          dest!: e dest: next_is_less)
    ultimately show ?thesis by linarith
  qed
  ultimately show ?case by blast
qed simp

lemma parse_value_shrinks [shrink]: "parse_value n s = Some (v, r) \<Longrightarrow> length r < length s"
  and parse_members_shrinks [shrink]: "parse_members n acc s = Some (v, r) \<Longrightarrow> length r < length s"
  and parse_elems_shrinks [shrink]: "parse_elems n accs s = Some (v, r) \<Longrightarrow> length r < length s"
  using parse_value_shrinks_aux by blast+

section \<open>Fuel\<close>

lemma fuel_step:
  "(\<forall>s. 2 * length s < n \<longrightarrow> parse_value (Suc n) s = parse_value n s)
   \<and> (\<forall>acc s. 2 * length s < n \<longrightarrow> parse_members (Suc n) acc s = parse_members n acc s)
   \<and> (\<forall>acc s. 2 * length s + 1 < n \<longrightarrow> parse_elems (Suc n) acc s = parse_elems n acc s)"
proof (induction n)
  case (Suc n)
  have v: "2 * length s < n \<Longrightarrow> parse_value (Suc n) s = parse_value n s"
    and m: "2 * length s < n \<Longrightarrow> parse_members (Suc n) acc s = parse_members n acc s"
    and e: "2 * length s + 1 < n \<Longrightarrow> parse_elems (Suc n) accs s = parse_elems n accs s" for s acc accs
    using Suc.IH by blast+
  have "parse_value (Suc (Suc n)) s = parse_value (Suc n) s" if l: "2 * length s < Suc n" for s
  proof -
    let ?w = "skip_space (tl (skip_space s))"
    have "skip_space s \<noteq> [] \<Longrightarrow> 2 * length ?w + 1 < n"
      using l skip_space_le [of s] skip_space_le [of "tl (skip_space s)"]
      by (cases "skip_space s") auto
    then have "skip_space s \<noteq> [] \<Longrightarrow> parse_members (Suc n) [] ?w = parse_members n [] ?w"
      "skip_space s \<noteq> [] \<Longrightarrow> parse_elems (Suc n) [] ?w = parse_elems n [] ?w"
      by (auto intro: m e)
    then show ?thesis by (simp add: parse_value.simps(2) Let_def)
  qed
  moreover have "parse_members (Suc (Suc n)) acc s = parse_members (Suc n) acc s"
    if l: "2 * length s < Suc n" for acc s
  proof (cases "parse_string (skip_space s)")
    case (Some kq)
    obtain key q where kq: "kq = (key, q)" by (cases kq)
    have q: "length q < length s"
      using parse_string_shrinks [of "skip_space s" key q] Some kq skip_space_le [of s] by simp
    show ?thesis
    proof (cases "next_is (CHR '':'') (skip_space q)")
      case True
      have t: "length (tl (skip_space q)) < length q"
        using next_is_less [OF True] skip_space_le [of q] by linarith
      have eq: "parse_value (Suc n) (tl (skip_space q)) = parse_value n (tl (skip_space q))"
        using l q t by (intro v) linarith
      show ?thesis
      proof (cases "parse_value n (tl (skip_space q))")
        case (Some xr)
        obtain x r where xr: "xr = (x, r)" by (cases xr)
        have "length r < length (tl (skip_space q))" using Some xr by (auto dest: shrink)
        then have "length (tl (skip_space r)) < length q"
          using t skip_space_le [of r] by (simp add: less_diff_conv)
        then have "parse_members (Suc n) a (tl (skip_space r)) = parse_members n a (tl (skip_space r))"
          for a using l q by (intro m) linarith
        then show ?thesis
          using \<open>parse_string (skip_space s) = Some kq\<close> kq eq Some xr
          by (simp add: parse_members.simps(2) Let_def)
      qed (use \<open>parse_string (skip_space s) = Some kq\<close> kq eq in
          \<open>simp add: parse_members.simps(2) Let_def\<close>)
    qed (use Some kq in \<open>simp add: parse_members.simps(2) Let_def\<close>)
  qed (simp add: parse_members.simps(2))
  moreover have "parse_elems (Suc (Suc n)) acc s = parse_elems (Suc n) acc s"
    if l: "2 * length s + 1 < Suc n" for acc s
  proof -
    have eq: "parse_value (Suc n) s = parse_value n s" using l by (intro v) linarith
    show ?thesis
    proof (cases "parse_value n s")
      case (Some xr)
      obtain x r where xr: "xr = (x, r)" by (cases xr)
      have r: "length r < length s" using Some xr by (auto dest: shrink)
      have "next_is c (skip_space r) \<Longrightarrow> 2 * length (tl (skip_space r)) + 1 < n" for c
        using l r skip_space_le [of r] next_is_less [of c "skip_space r"] by linarith
      then have "next_is c (skip_space r) \<Longrightarrow>
          parse_elems (Suc n) a (tl (skip_space r)) = parse_elems n a (tl (skip_space r))" for a c
        by (intro e) blast
      then show ?thesis using eq Some xr by (simp add: parse_elems.simps(2) Let_def)
    qed (use eq in \<open>simp add: parse_elems.simps(2)\<close>)
  qed
  ultimately show ?case by blast
qed simp

lemma parse_value_fuel:
  assumes "2 * length s < n" "n \<le> m"
  shows "parse_value m s = parse_value n s"
  using assms(2)
proof (induction m rule: dec_induct)
  case (step k)
  then have "2 * length s < k" using assms(1) by linarith
  then show ?case using fuel_step [of k] step.IH by simp
qed simp

lemma parse_fuel: "json_fuel s \<le> n \<Longrightarrow> parse_value n s = parse_value (json_fuel s) s"
  by (rule parse_value_fuel) (simp_all add: json_fuel_def)


section \<open>Integers print and read back\<close>

definition dec_val :: "nat \<Rightarrow> string \<Rightarrow> nat" where
  "dec_val a ds = foldl (\<lambda>a c. a * 10 + digit_val c) a ds"

lemma dec_val_simps [simp]:
  "dec_val a [] = a" "dec_val a (c # ds) = dec_val (a * 10 + digit_val c) ds"
  "dec_val a (ds @ es) = dec_val (dec_val a ds) es"
  by (simp_all add: dec_val_def)

lemma dec_val_ge: "a \<le> dec_val a ds"
proof (induction ds arbitrary: a)
  case (Cons c ds)
  have "a \<le> a * 10 + digit_val c" by simp
  also have "\<dots> \<le> dec_val (a * 10 + digit_val c) ds" by (rule Cons.IH)
  finally show ?case by simp
qed simp

lemma format_loop_digits:
  "0 \<le> v \<Longrightarrow> \<exists>ds. format_loop v acc = ds @ acc \<and> (\<forall>c\<in>set ds. is_digit c)
     \<and> dec_val 0 ds = nat v \<and> (0 < v \<longrightarrow> ds \<noteq> [])"
proof (induction v acc rule: format_loop.induct)
  case (1 v acc)
  show ?case
  proof (cases "0 < v")
    case True
    let ?c = "digit_char (nat (v mod 10))"
    have c: "is_digit ?c" "digit_val ?c = nat (v mod 10)" by simp_all
    obtain ds where ds: "format_loop (v div 10) (?c # acc) = ds @ ?c # acc"
      "\<forall>c\<in>set ds. is_digit c" "dec_val 0 ds = nat (v div 10)"
      using "1.IH" [OF True] True by (auto simp: pos_imp_zdiv_nonneg_iff)
    have "dec_val 0 (ds @ [?c]) = nat (v div 10) * 10 + nat (v mod 10)"
      using ds(3) c by simp
    also have "\<dots> = nat v"
    proof -
      have "int (nat (v div 10) * 10 + nat (v mod 10)) = v" using True by simp
      then show ?thesis by linarith
    qed
    finally have "dec_val 0 (ds @ [?c]) = nat v" .
    moreover have "format_loop v acc = (ds @ [?c]) @ acc"
      using True ds(1) by (simp add: format_loop.simps [of v acc])
    ultimately show ?thesis using c(1) ds(2)
      by (intro exI [where x = "ds @ [?c]"]) (simp del: dec_val_simps)
  next
    case False
    then have "format_loop v acc = [] @ acc" by (simp add: format_loop.simps [of v acc])
    with False "1.prems" show ?thesis by fastforce
  qed
qed

lemma format_int_digits:
  assumes "0 \<le> v"
  shows "format_int v \<noteq> []" "\<forall>c\<in>set (format_int v). is_digit c" "dec_val 0 (format_int v) = nat v"
proof -
  have zero: "is_digit (CHR ''0'')" "digit_val (CHR ''0'') = 0"
    by (simp_all add: is_digit_def digit_val_def byte_def)
  obtain ds where "format_loop v [] = ds" "\<forall>c\<in>set ds. is_digit c" "dec_val 0 ds = nat v"
      "0 < v \<longrightarrow> ds \<noteq> []"
    using format_loop_digits [OF assms, of "[]"] by auto
  then show "format_int v \<noteq> []" "\<forall>c\<in>set (format_int v). is_digit c"
    "dec_val 0 (format_int v) = nat v"
    using assms zero by (auto simp: format_int_def simp del: zero)
qed

lemma int_digits_exact:
  assumes "\<forall>c\<in>set ds. is_digit c" "dec_val a ds \<le> 2 ^ 53" "s = [] \<or> \<not> is_digit (hd s)"
  shows "int_digits (Fin (of_nat a)) k (ds @ s) = (Fin (of_nat (dec_val a ds)), k + length ds, s)"
  using assms(1,2)
proof (induction ds arbitrary: a k)
  case Nil
  then show ?case using assms(3) by (cases s) auto
next
  case (Cons c ds)
  let ?b = "a * 10 + digit_val c"
  have d: "digit_val c < 10" using Cons.prems(1) by (simp add: digit_val_less)
  have b: "?b \<le> 2 ^ 53" using Cons.prems(2) dec_val_ge [of ?b ds] by simp
  have "round64 (of_nat a * 10) = Fin (of_nat (a * 10))"
    using round64_nat [of "a * 10"] b by simp
  moreover have "f64_of_int (int (digit_val c)) = Fin (of_nat (digit_val c))"
    using d f64_of_int_exact [of "int (digit_val c)"] by simp
  moreover have "round64 (of_nat (a * 10) + of_nat (digit_val c)) = Fin (of_nat ?b)"
    using round64_nat [OF b] by simp
  ultimately have "fadd (fmul (Fin (of_nat a)) (Fin 10)) (f64_of_int (int (digit_val c))) = Fin (of_nat ?b)"
    by simp
  then show ?case using Cons by (simp del: of_nat_add of_nat_mult fadd.simps fmul.simps)
qed

lemma parse_exp_Nil [simp]: "parse_exp [] = Some (0, [])"
  by (simp add: parse_exp_def)

lemma scale10_0 [simp]: "scale10 x 0 = x"
  by (simp add: scale10_def)

lemma parse_float_format:
  assumes "0 \<le> n" "n \<le> 2 ^ 53"
  shows "parse_float (format_int n) = Some (Fin (of_int n))"
proof -
  note f = format_int_digits [OF assms(1)]
  have m: "is_digit (hd (format_int n))" using f(1,2) by (cases "format_int n") auto
  then have neg: "hd (format_int n) \<noteq> CHR ''-''"
    by (auto simp: is_digit_def byte_def)
  have "nat n \<le> 2 ^ 53" using assms by (simp add: nat_le_iff)
  then have "int_digits (Fin 0) 0 (format_int n) = (Fin (of_nat (nat n)), length (format_int n), [])"
    using int_digits_exact [of "format_int n" 0 "[]" 0] f by simp
  then show ?thesis using f(1) neg assms round64_int [of n]
    by (simp add: parse_float_def Let_def)
qed


section \<open>Texts that read as values\<close>

text \<open>
  \<open>reads t v\<close>: wherever the text \<open>t\<close> is followed by a member or element separator, the parser
  with enough fuel reads \<open>v\<close> from it and stops at the separator.
\<close>

definition delim :: "string \<Rightarrow> bool" where
  "delim r = (r = [] \<or> \<not> num_char (hd r))"

definition reads :: "string \<Rightarrow> json \<Rightarrow> bool" where
  "reads t v = (\<forall>n r. delim r \<longrightarrow> 2 * length (t @ r) < n \<longrightarrow> parse_value n (t @ r) = Some (v, r))"

lemma skip_space_simps [simp]:
  "skip_space (CHR ''\"'' # s) = CHR ''\"'' # s"
  "skip_space (CHR ''{'' # s) = CHR ''{'' # s"
  "skip_space (CHR ''}'' # s) = CHR ''}'' # s"
  "skip_space (CHR '','' # s) = CHR '','' # s"
  "skip_space (CHR '':'' # s) = CHR '':'' # s"
  "skip_space (CHR '' '' # s) = skip_space s"
  "skip_space [] = []"
  by (simp_all add: skip_space_def)

lemma next_is_Cons [simp]: "next_is c (x # s) = (x = c)" "\<not> next_is c []"
  by (simp_all add: next_is_def)

lemma delim_simps [simp]: "delim []" "delim (CHR '','' # s)" "delim (CHR ''}'' # s)"
  by (simp_all add: delim_def num_char_def is_digit_def byte_def)

lemma reads_string: "reads (CHR ''\"'' # json_escape s @ [CHR ''\"'']) (JString (map plain_char s))"
proof (unfold reads_def, intro allI impI)
  fix n r assume "2 * length ((CHR ''\"'' # json_escape s @ [CHR ''\"'']) @ r) < n"
  then obtain k where "n = Suc k" by (cases n) auto
  then show "parse_value n ((CHR ''\"'' # json_escape s @ [CHR ''\"'']) @ r)
      = Some (JString (map plain_char s), r)"
    by (simp add: parse_value.simps(2) parse_string_escape)
qed

lemma digit_not_special:
  "is_digit c \<Longrightarrow> c \<notin> {CHR '' '', CHR 0x09, CHR 0x0A, CHR 0x0D, CHR ''{'', CHR ''['', CHR ''\"'',
     CHR ''t'', CHR ''f'', CHR ''n''}"
  by (auto simp: is_digit_def byte_def)

lemma reads_int:
  assumes "0 \<le> i" "i \<le> 2 ^ 53"
  shows "reads (format_int i) (JNumber (Fin (of_int i)))"
proof (unfold reads_def, intro allI impI)
  fix n r assume d: "delim r" and "2 * length (format_int i @ r) < n"
  note f = format_int_digits [OF assms(1)]
  from f(1) obtain c ds where cs: "format_int i = c # ds" by (cases "format_int i") auto
  with \<open>2 * length (format_int i @ r) < n\<close> obtain k where n: "n = Suc k" by (cases n) auto
  have num: "\<forall>x\<in>set (format_int i). num_char x" using f(2) by (simp add: num_char_def)
  have "takeWhile num_char (format_int i @ r) = format_int i"
    "dropWhile num_char (format_int i @ r) = r"
    using num d by (cases r; simp add: delim_def)+
  then have p: "parse_number (format_int i @ r) = Some (JNumber (Fin (of_int i)), r)"
    using f(1) parse_float_format [OF assms] by (simp add: parse_number_def)
  have c: "is_digit c" using f(2) cs by simp
  have "skip_space (c # ds @ r) = c # ds @ r"
    using digit_not_special [OF c] by (simp add: skip_space_def)
  with digit_not_special [OF c] show "parse_value n (format_int i @ r) = Some (JNumber (Fin (of_int i)), r)"
    using p by (simp add: n cs parse_value.simps(2))
qed

text \<open>The text of an object: quoted keys, value texts, commas.\<close>

definition member_text :: "string \<times> string \<Rightarrow> string" where
  "member_text m = CHR ''\"'' # json_escape (fst m) @ ''\":'' @ snd m"

fun members_text :: "(string \<times> string) list \<Rightarrow> string" where
  "members_text [] = []"
| "members_text [m] = member_text m"
| "members_text (m # m' # ms) = member_text m @ CHR '','' # members_text (m' # ms)"

definition object_text :: "(string \<times> string) list \<Rightarrow> string" where
  "object_text ms = CHR ''{'' # members_text ms @ ''}''"

definition read_members :: "(string \<times> string \<times> json) list \<Rightarrow> (string \<times> json) list \<Rightarrow> (string \<times> json) list" where
  "read_members ms acc = fold (\<lambda>(k, t, v). AList.update (map plain_char k) v) ms acc"

definition texts :: "(string \<times> string \<times> 'v) list \<Rightarrow> (string \<times> string) list" where
  "texts ms = map (\<lambda>(k, t, v). (k, t)) ms"

lemma parse_member_text:
  assumes "reads t v" "delim r" "2 * length (member_text (k, t) @ r) < Suc n"
  shows "parse_members (Suc n) acc (member_text (k, t) @ r) =
    (let acc' = AList.update (map plain_char k) v acc; w = skip_space r in
     if next_is (CHR '','') w then parse_members n acc' (tl w)
     else if next_is (CHR ''}'') w then Some (JObject acc', tl w) else None)"
proof -
  have "parse_value n (t @ r) = Some (v, r)"
    using assms unfolding reads_def member_text_def by simp
  then show ?thesis
    by (simp add: member_text_def parse_members.simps(2) parse_string_escape)
qed

lemma parse_members_text:
  assumes "ms \<noteq> []" "\<forall>(k, t, v)\<in>set ms. reads t v"
    "2 * length (members_text (texts ms) @ CHR ''}'' # r) < n"
  shows "parse_members n acc (members_text (texts ms) @ CHR ''}'' # r)
    = Some (JObject (read_members ms acc), r)"
  using assms
proof (induction ms arbitrary: acc n)
  case (Cons m ms)
  obtain k t v where m: "m = (k, t, v)" by (cases m)
  have rd: "reads t v" using Cons.prems(2) m by simp
  obtain n' where n: "n = Suc n'" using Cons.prems(3) by (cases n) auto
  show ?case
  proof (cases ms)
    case Nil
    then show ?thesis using Cons.prems(3) m n parse_member_text [OF rd, of "CHR ''}'' # r" k n' acc]
      by (simp add: texts_def read_members_def)
  next
    case (Cons m' ms')
    then have split: "members_text (texts (m # ms)) @ CHR ''}'' # r
        = member_text (k, t) @ CHR '','' # members_text (texts ms) @ CHR ''}'' # r"
      using m by (cases m') (simp add: texts_def)
    have "parse_members n' (AList.update (map plain_char k) v acc) (members_text (texts ms) @ CHR ''}'' # r)
        = Some (JObject (read_members ms (AList.update (map plain_char k) v acc)), r)"
      using Cons.prems Cons n unfolding split by (intro Cons.IH) auto
    then show ?thesis
      using Cons.prems(3) n parse_member_text [OF rd, of "CHR '','' # members_text (texts ms) @ CHR ''}'' # r" k n' acc]
      unfolding split by (simp add: m read_members_def)
  qed
qed simp

lemma reads_object:
  assumes "ms \<noteq> []" "\<forall>(k, t, v)\<in>set ms. reads t v"
  shows "reads (object_text (texts ms)) (JObject (read_members ms []))"
proof (unfold reads_def, intro allI impI)
  fix n r assume l: "2 * length (object_text (texts ms) @ r) < n"
  then obtain k where n: "n = Suc k" by (cases n) auto
  obtain q where q: "members_text (texts ms) = CHR ''\"'' # q"
    using assms(1) by (cases ms; cases "tl ms") (auto simp: texts_def member_text_def)
  have "parse_members k [] (members_text (texts ms) @ CHR ''}'' # r)
      = Some (JObject (read_members ms []), r)"
    using l by (intro parse_members_text assms) (simp add: n object_text_def)
  then show "parse_value n (object_text (texts ms) @ r) = Some (JObject (read_members ms []), r)"
    by (simp add: n object_text_def parse_value.simps(2) q)
qed

lemma parse_json_reads:
  assumes "reads t v"
  shows "parse_json t = Some v"
proof -
  have "parse_value (2 * length t + 2) (t @ []) = Some (v, [])"
    using assms [unfolded reads_def, rule_format, of "[]" "2 * length t + 2"] by simp
  then show ?thesis by (simp add: parse_json_def json_fuel_def)
qed


end
