(* ===== verification/GatewayUsage.thy ===== *)
theory GatewayUsage
  imports GatewayJson
begin

text \<open>
  The metering half of the gateway plugin (\<open>wasm/gateway/usage.go\<close>): reading the engine's
  \<open>usage\<close> object, the request rewrites (the \<open>max_tokens\<close> clamp and the streamed usage flag)
  and the usage report sent to the platform.
\<close>

section \<open>The engine's usage object\<close>

record token_usage =
  prompt :: int
  completion :: int
  cached :: int
  reasoning :: int

definition usage_empty :: "token_usage \<Rightarrow> bool" where
  "usage_empty u = (prompt u = 0 \<and> completion u = 0 \<and> cached u = 0 \<and> reasoning u = 0)"

record usage_report =
  request_id :: string
  organization_id :: string
  report_key :: string
  owner_user_id :: string
  project_id :: string
  model :: string
  usage :: token_usage
  status :: string
  err_message :: string
  completed_at :: int
  latency_ms :: int
  ttft_ms :: int
  generation_ms :: int

definition extract_usage :: "string \<Rightarrow> token_usage option" where
  "extract_usage body =
     (case last_json_object body of
        None \<Rightarrow> None
      | Some doc \<Rightarrow>
          (case get doc ''usage'' of
             Some (JObject kvs) \<Rightarrow>
               (let node = JObject kvs;
                    base = \<lparr>prompt = int_or node ''prompt_tokens'',
                            completion = int_or node ''completion_tokens'',
                            cached = int_or node ''cached_tokens'',
                            reasoning = int_or node ''reasoning_tokens''\<rparr>;
                    u = (if get node ''cached_tokens'' = None then
                           (case get node ''prompt_tokens_details'' of
                              None \<Rightarrow> base
                            | Some details \<Rightarrow> base\<lparr>cached := int_or details ''cached_tokens''\<rparr>)
                         else base)
                in if usage_empty u then None else Some u)
           | _ \<Rightarrow> None))"

section \<open>The request body\<close>

definition request_identity :: "string \<Rightarrow> (string \<times> int) option" where
  "request_identity body =
     (case parse_json body of
        Some (JObject kvs) \<Rightarrow>
          Some (string_or (JObject kvs) ''model'', int_or (JObject kvs) ''max_tokens'')
      | _ \<Rightarrow> None)"

definition int_char :: "char \<Rightarrow> bool" where
  "int_char c = (c = CHR ''-'' \<or> is_digit c)"

text \<open>The targeted splice: the first occurrence of the quoted key, a colon, an integer.\<close>

definition replace_json_int :: "string \<Rightarrow> string \<Rightarrow> int \<Rightarrow> string option" where
  "replace_json_int body key v =
     (let needle = CHR ''\"'' # key @ [CHR ''\"''] in
      case index_of body needle of
        None \<Rightarrow> None
      | Some idx \<Rightarrow>
          (let after_key = skip_space (drop (idx + length needle) body) in
           if \<not> next_is (CHR '':'') after_key then None
           else
             (let rest = skip_space (tl after_key);
                  num = takeWhile int_char rest;
                  start = length body - length rest
              in if num = [] then None
                 else Some (take start body @ format_int v @ dropWhile int_char rest))))"

text \<open>The result is the body, whether it was clamped, and whether it could be read.\<close>

definition clamp_max_tokens :: "string \<Rightarrow> int \<Rightarrow> string \<times> bool \<times> bool" where
  "clamp_max_tokens body cap =
     (case request_identity body of
        None \<Rightarrow> (body, False, False)
      | Some (m, max_tokens) \<Rightarrow>
          if max_tokens \<le> 0 \<or> cap \<le> 0 \<or> max_tokens \<le> cap then (body, False, True)
          else (case replace_json_int body ''max_tokens'' cap of
                  None \<Rightarrow> (body, False, False)
                | Some b \<Rightarrow> (b, True, True)))"

definition json_ws :: "char \<Rightarrow> bool" where
  "json_ws c = (c = CHR '' '' \<or> c = CHR 0x09 \<or> c = CHR 0x0D \<or> c = CHR 0x0A)"

definition ensure_stream_usage :: "string \<Rightarrow> string \<times> bool" where
  "ensure_stream_usage body =
     (case parse_json body of
        Some (JObject kvs) \<Rightarrow>
          if \<not> bool_or (JObject kvs) ''stream'' then (body, False)
          else if get (JObject kvs) ''stream_options'' \<noteq> None then (body, False)
          else
            (let trimmed = trim_right json_ws body in
             if length trimmed < 2 \<or> last trimmed \<noteq> CHR ''}'' then (body, False)
             else
               (let inner = trim_right json_ws (butlast trimmed) in
                (inner @ (if has_suffix inner ''{'' then [] else '','')
                   @ ''\"stream_options\":{\"include_usage\":true}}'', True)))
      | _ \<Rightarrow> (body, False))"

definition wants_stream :: "string \<Rightarrow> bool" where
  "wants_stream body =
     (case parse_json body of Some (JObject kvs) \<Rightarrow> bool_or (JObject kvs) ''stream'' | _ \<Rightarrow> False)"

section \<open>The report\<close>

definition usage_body :: "usage_report \<Rightarrow> string" where
  "usage_body rep =
     ''{\"request_id\":\"'' @ json_escape (request_id rep)
     @ ''\",\"organization_id\":\"'' @ json_escape (organization_id rep)
     @ ''\",\"api_key_id\":\"'' @ json_escape (report_key rep)
     @ ''\",\"owner_user_id\":\"'' @ json_escape (owner_user_id rep)
     @ ''\",\"project_id\":\"'' @ json_escape (project_id rep)
     @ ''\",\"model\":\"'' @ json_escape (model rep)
     @ ''\",\"usage\":{\"prompt_tokens\":'' @ format_int (prompt (usage rep))
     @ '',\"completion_tokens\":'' @ format_int (completion (usage rep))
     @ '',\"cached_tokens\":'' @ format_int (cached (usage rep))
     @ '',\"reasoning_tokens\":'' @ format_int (reasoning (usage rep))
     @ ''},\"completed_at\":'' @ format_int (completed_at rep)
     @ '',\"latency_ms\":'' @ format_int (latency_ms rep)
     @ '',\"ttft_ms\":'' @ format_int (ttft_ms rep)
     @ '',\"generation_ms\":'' @ format_int (generation_ms rep)
     @ '',\"status\":\"'' @ json_escape (status rep)
     @ ''\",\"error\":\"'' @ json_escape (err_message rep)
     @ ''\"}''"

section \<open>The report reads back\<close>

lemma json_escape_append [simp]: "json_escape (s @ t) = json_escape s @ json_escape t"
  by (simp add: json_escape_def)

lemma json_escape_Nil [simp]: "json_escape [] = []"
  by (simp add: json_escape_def)

text \<open>A key made of letters and underscores is written and read as it is.\<close>

definition key_char :: "char \<Rightarrow> bool" where
  "key_char c = (64 < byte c \<and> byte c < 128 \<and> c \<noteq> CHR 0x5C)"

lemma byte_literals:
  "byte (CHR ''\"'') = 34" "byte (CHR 0x0A) = 10" "byte (CHR 0x0D) = 13" "byte (CHR 0x09) = 9"
  by (simp_all add: byte_def)

lemma key_char_same:
  assumes "key_char c"
  shows "escape_char c = [c]" "plain_char c = c"
proof -
  have b: "64 < byte c" "c \<noteq> CHR 0x5C" using assms by (simp_all add: key_char_def)
  then have "c \<noteq> CHR ''\"''" "c \<noteq> CHR 0x0A" "c \<noteq> CHR 0x0D" "c \<noteq> CHR 0x09"
    using byte_literals by force+
  with b show "escape_char c = [c]" "plain_char c = c"
    by (simp_all add: escape_char_def plain_char_def)
qed

lemma key_plain:
  assumes "\<forall>c\<in>set k. key_char c"
  shows "json_escape k = k" "map plain_char k = k"
  using assms by (induction k) (simp_all add: json_escape_def key_char_same)

definition report_usage_members :: "token_usage \<Rightarrow> (string \<times> string \<times> json) list" where
  "report_usage_members u =
     [(''prompt_tokens'', format_int (prompt u), JNumber (Fin (of_int (prompt u)))),
      (''completion_tokens'', format_int (completion u), JNumber (Fin (of_int (completion u)))),
      (''cached_tokens'', format_int (cached u), JNumber (Fin (of_int (cached u)))),
      (''reasoning_tokens'', format_int (reasoning u), JNumber (Fin (of_int (reasoning u))))]"

definition quoted :: "string \<Rightarrow> string" where
  "quoted s = CHR ''\"'' # json_escape s @ [CHR ''\"'']"

definition str_member :: "string \<Rightarrow> string \<Rightarrow> string \<times> string \<times> json" where
  "str_member k s = (k, quoted s, JString (map plain_char s))"

definition int_member :: "string \<Rightarrow> int \<Rightarrow> string \<times> string \<times> json" where
  "int_member k i = (k, format_int i, JNumber (Fin (of_int i)))"

definition report_members :: "usage_report \<Rightarrow> (string \<times> string \<times> json) list" where
  "report_members rep =
     [str_member ''request_id'' (request_id rep), str_member ''organization_id'' (organization_id rep),
      str_member ''api_key_id'' (report_key rep), str_member ''owner_user_id'' (owner_user_id rep),
      str_member ''project_id'' (project_id rep), str_member ''model'' (model rep),
      (''usage'', object_text (texts (report_usage_members (usage rep))),
         JObject (read_members (report_usage_members (usage rep)) [])),
      int_member ''completed_at'' (completed_at rep), int_member ''latency_ms'' (latency_ms rep),
      int_member ''ttft_ms'' (ttft_ms rep), int_member ''generation_ms'' (generation_ms rep),
      str_member ''status'' (status rep), str_member ''error'' (err_message rep)]"

lemma literal_keys:
  "json_escape ''request_id'' = ''request_id''"
  "json_escape ''organization_id'' = ''organization_id''"
  "json_escape ''api_key_id'' = ''api_key_id''"
  "json_escape ''owner_user_id'' = ''owner_user_id''"
  "json_escape ''project_id'' = ''project_id''"
  "json_escape ''model'' = ''model''"
  "json_escape ''usage'' = ''usage''"
  "json_escape ''completed_at'' = ''completed_at''"
  "json_escape ''latency_ms'' = ''latency_ms''"
  "json_escape ''ttft_ms'' = ''ttft_ms''"
  "json_escape ''generation_ms'' = ''generation_ms''"
  "json_escape ''status'' = ''status''"
  "json_escape ''error'' = ''error''"
  "json_escape ''prompt_tokens'' = ''prompt_tokens''"
  "json_escape ''completion_tokens'' = ''completion_tokens''"
  "json_escape ''cached_tokens'' = ''cached_tokens''"
  "json_escape ''reasoning_tokens'' = ''reasoning_tokens''"
  by (rule key_plain, simp add: key_char_def byte_def)+

lemma usage_body_text: "usage_body rep = object_text (texts (report_members rep))"
  by (simp add: usage_body_def object_text_def texts_def report_members_def str_member_def
      int_member_def report_usage_members_def member_text_def literal_keys quoted_def)


lemma literal_keys_read:
  "map plain_char ''request_id'' = ''request_id''"
  "map plain_char ''organization_id'' = ''organization_id''"
  "map plain_char ''api_key_id'' = ''api_key_id''"
  "map plain_char ''owner_user_id'' = ''owner_user_id''"
  "map plain_char ''project_id'' = ''project_id''"
  "map plain_char ''model'' = ''model''"
  "map plain_char ''usage'' = ''usage''"
  "map plain_char ''completed_at'' = ''completed_at''"
  "map plain_char ''latency_ms'' = ''latency_ms''"
  "map plain_char ''ttft_ms'' = ''ttft_ms''"
  "map plain_char ''generation_ms'' = ''generation_ms''"
  "map plain_char ''status'' = ''status''"
  "map plain_char ''error'' = ''error''"
  "map plain_char ''prompt_tokens'' = ''prompt_tokens''"
  "map plain_char ''completion_tokens'' = ''completion_tokens''"
  "map plain_char ''cached_tokens'' = ''cached_tokens''"
  "map plain_char ''reasoning_tokens'' = ''reasoning_tokens''"
  by (rule key_plain, simp add: key_char_def byte_def)+

definition report_number :: "int \<Rightarrow> bool" where
  "report_number i = (0 \<le> i \<and> i \<le> 2 ^ 53)"

definition report_numbers :: "usage_report \<Rightarrow> bool" where
  "report_numbers rep = (\<forall>i\<in>set [prompt (usage rep), completion (usage rep), cached (usage rep),
     reasoning (usage rep), completed_at rep, latency_ms rep, ttft_ms rep, generation_ms rep].
       report_number i)"

definition report_json :: "usage_report \<Rightarrow> json" where
  "report_json rep = (let str = \<lambda>s. JString (map plain_char s); num = \<lambda>i. JNumber (Fin (of_int i)) in
     JObject [(''request_id'', str (request_id rep)), (''organization_id'', str (organization_id rep)),
       (''api_key_id'', str (report_key rep)), (''owner_user_id'', str (owner_user_id rep)),
       (''project_id'', str (project_id rep)), (''model'', str (model rep)),
       (''usage'', JObject [(''prompt_tokens'', num (prompt (usage rep))),
          (''completion_tokens'', num (completion (usage rep))),
          (''cached_tokens'', num (cached (usage rep))),
          (''reasoning_tokens'', num (reasoning (usage rep)))]),
       (''completed_at'', num (completed_at rep)), (''latency_ms'', num (latency_ms rep)),
       (''ttft_ms'', num (ttft_ms rep)), (''generation_ms'', num (generation_ms rep)),
       (''status'', str (status rep)), (''error'', str (err_message rep))])"

lemma reads_usage:
  assumes "report_numbers rep"
  shows "reads (object_text (texts (report_members rep))) (report_json rep)"
proof -
  have u: "reads (object_text (texts (report_usage_members (usage rep))))
      (JObject (read_members (report_usage_members (usage rep)) []))"
    using assms by (intro reads_object)
      (auto simp: report_usage_members_def report_numbers_def report_number_def intro: reads_int)
  have "reads (object_text (texts (report_members rep))) (JObject (read_members (report_members rep) []))"
    using assms u by (intro reads_object)
      (auto simp: report_members_def str_member_def int_member_def quoted_def report_numbers_def
        report_number_def intro: reads_int reads_string [simplified])
  moreover have "JObject (read_members (report_members rep) []) = report_json rep"
    by (simp add: read_members_def report_members_def report_usage_members_def str_member_def
        int_member_def report_json_def Let_def literal_keys_read del: list.map(2))
  ultimately show ?thesis by simp
qed

text \<open>The usage report the plugin sends always parses, as one JSON object that carries every
  field of the report: the four token counts and the times exactly, the strings with control
  characters as spaces, whatever bytes the model name, the ids or the error text hold.\<close>
theorem usage_body_reads:
  assumes "report_numbers rep"
  shows "parse_json (usage_body rep) = Some (report_json rep)"
  unfolding usage_body_text using reads_usage [OF assms] by (rule parse_json_reads)

theorem usage_body_reads_witness:
  "parse_json (usage_body \<lparr>request_id = ''r1'', organization_id = ''o'', report_key = ''k'', owner_user_id = [],
     project_id = [], model = ''qwen'', usage = \<lparr>prompt = 7, completion = 11, cached = 0, reasoning = 0\<rparr>,
     status = ''success'', err_message = [], completed_at = 0, latency_ms = 2000, ttft_ms = 0,
     generation_ms = 0\<rparr>)
   = Some (report_json \<lparr>request_id = ''r1'', organization_id = ''o'', report_key = ''k'', owner_user_id = [],
     project_id = [], model = ''qwen'', usage = \<lparr>prompt = 7, completion = 11, cached = 0, reasoning = 0\<rparr>,
     status = ''success'', err_message = [], completed_at = 0, latency_ms = 2000, ttft_ms = 0,
     generation_ms = 0\<rparr>)"
  by (rule usage_body_reads) (simp add: report_numbers_def report_number_def)

section \<open>The clamp\<close>

lemma index_of_append:
  assumes "index_of p n = None" "p = [] \<or> last p \<notin> set n" "n \<noteq> []"
  shows "index_of (p @ n @ t) n = Some (length p)"
  using assms
proof (induction p)
  case Nil
  then show ?case by (cases n) (simp_all add: has_prefix_def)
next
  case (Cons c p)
  have np: "\<not> has_prefix (c # p) n" and i: "index_of p n = None"
    using Cons.prems(1) by (auto split: if_splits)
  have "\<not> has_prefix ((c # p) @ n @ t) n"
  proof
    assume "has_prefix ((c # p) @ n @ t) n"
    then have tk: "take (length n) ((c # p) @ n @ t) = n" by (simp add: has_prefix_def)
    show False
    proof (cases "length n \<le> length (c # p)")
      case True
      then have "take (length n) (c # p) = n" using tk unfolding take_append by simp
      then show False using np by (simp add: has_prefix_def)
    next
      case False
      then have "set (c # p) \<subseteq> set n" using tk by (metis Un_upper1 nat_le_linear set_append take_all_iff take_append)
      then show False using Cons.prems(2) by (metis last_in_set list.distinct(1) subsetD)
    qed
  qed
  then have "index_of ((c # p) @ n @ t) n = map_option Suc (index_of (p @ n @ t) n)"
    by (simp add: has_prefix_def)
  moreover have "index_of (p @ n @ t) n = Some (length p)"
    using Cons.prems i by (intro Cons.IH) auto
  ultimately show ?case by simp
qed

lemma takeWhile_int_char:
  assumes "0 \<le> n" "r = [] \<or> \<not> int_char (hd r)"
  shows "takeWhile int_char (format_int n @ r) = format_int n"
    "dropWhile int_char (format_int n @ r) = r"
proof -
  have "\<forall>c\<in>set (format_int n). int_char c"
    using format_int_digits(2) [OF assms(1)] by (simp add: int_char_def)
  then show "takeWhile int_char (format_int n @ r) = format_int n"
    "dropWhile int_char (format_int n @ r) = r"
    using assms(2) by (cases r; simp)+
qed

lemma take_all_but: "take (length (x @ q) - length q) (x @ q) = x"
  by simp

lemma replace_json_int_splice:
  assumes "replace_json_int body key v = Some b"
  shows "\<exists>p sp1 sp2 num t. body = p @ CHR ''\"'' # key @ CHR ''\"'' # sp1 @ CHR '':'' # sp2 @ num @ t
     \<and> b = p @ CHR ''\"'' # key @ CHR ''\"'' # sp1 @ CHR '':'' # sp2 @ format_int v @ t
     \<and> num \<noteq> [] \<and> (\<forall>c\<in>set num. int_char c) \<and> (\<forall>c\<in>set (sp1 @ sp2). json_ws c)"
proof -
  let ?n = "CHR ''\"'' # key @ [CHR ''\"'']"
  obtain i where i: "index_of body ?n = Some i"
    using assms by (auto simp: replace_json_int_def Let_def split: option.splits)
  obtain p r where r: "body = p @ ?n @ r" and il: "length p = i"
    using index_of_Some [OF i] by (metis length_take min.absorb2)
  have dr: "drop (i + length ?n) body = r"
    unfolding r using il by simp
  note dr' = dr [simplified]
  have ws: "\<exists>sp. s = sp @ skip_space s \<and> (\<forall>c\<in>set sp. json_ws c)" for s
  proof -
    have "s = takeWhile (\<lambda>c. c = CHR '' '' \<or> c = CHR 0x09 \<or> c = CHR 0x0A \<or> c = CHR 0x0D) s @ skip_space s"
      by (simp add: skip_space_def)
    moreover have "\<forall>c\<in>set (takeWhile (\<lambda>c. c = CHR '' '' \<or> c = CHR 0x09 \<or> c = CHR 0x0A \<or> c = CHR 0x0D) s). json_ws c"
      by (auto simp: json_ws_def dest: set_takeWhileD)
    ultimately show ?thesis by blast
  qed
  define a where "a = skip_space r"
  have a: "next_is (CHR '':'') a"
    using assms i by (auto simp: replace_json_int_def dr' a_def Let_def split: if_splits)
  define q where "q = skip_space (tl a)"
  let ?num = "takeWhile int_char q"
  have b: "?num \<noteq> []" "b = take (length body - length q) body @ format_int v @ dropWhile int_char q"
    using assms i a by (auto simp: replace_json_int_def dr' a_def q_def Let_def split: if_splits)
  obtain sp1 where sp1: "r = sp1 @ a" "\<forall>c\<in>set sp1. json_ws c" using ws [of r] a_def by auto
  obtain sp2 where sp2: "tl a = sp2 @ q" "\<forall>c\<in>set sp2. json_ws c" using ws [of "tl a"] q_def by auto
  have body: "body = (p @ ?n @ sp1 @ CHR '':'' # sp2) @ q"
    unfolding r sp1(1) using sp2(1) next_isD [OF a] by simp
  have tk: "take (length body - length q) body = p @ ?n @ sp1 @ CHR '':'' # sp2"
    unfolding body by (rule take_all_but)
  have "q = ?num @ dropWhile int_char q" by simp
  then have "body = p @ CHR ''\"'' # key @ CHR ''\"'' # sp1 @ CHR '':'' # sp2 @ ?num @ dropWhile int_char q"
    using body by simp
  moreover have "b = p @ CHR ''\"'' # key @ CHR ''\"'' # sp1 @ CHR '':'' # sp2 @ format_int v
      @ dropWhile int_char q"
    using b(2) unfolding tk by simp
  moreover have "\<forall>c\<in>set ?num. int_char c" by (auto dest: set_takeWhileD)
  moreover have "\<forall>c\<in>set (sp1 @ sp2). json_ws c" using sp1(2) sp2(2) by auto
  ultimately show ?thesis using b(1) by blast
qed

section \<open>Clamping an object\<close>

definition max_tokens_member :: "int \<Rightarrow> string \<times> string \<times> json" where
  "max_tokens_member n = int_member ''max_tokens'' n"

definition needle :: string where
  "needle = CHR ''\"'' # ''max_tokens'' @ [CHR ''\"'']"

text \<open>The text before the \<open>max_tokens\<close> member: the opening brace and the members before it.\<close>

definition before :: "(string \<times> string) list \<Rightarrow> string" where
  "before ms = CHR ''{'' # concat (map (\<lambda>m. member_text m @ '','') ms)"

lemma members_text_Cons:
  "members_text (m # ms) = member_text m @ (if ms = [] then [] else CHR '','' # members_text ms)"
  by (cases ms) simp_all

lemma members_text_app:
  "members_text (ms @ m # ns) = concat (map (\<lambda>m. member_text m @ '','') ms) @ members_text (m # ns)"
  by (induction ms) (simp_all add: members_text_Cons)

definition after :: "(string \<times> string) list \<Rightarrow> string" where
  "after ns = (if ns = [] then ''}'' else CHR '','' # members_text ns @ ''}'')"

lemma object_text_split:
  "object_text (ms @ (''max_tokens'', t) # ns) = before ms @ needle @ CHR '':'' # t @ after ns"
proof -
  have "json_escape ''max_tokens'' = ''max_tokens''"
    by (rule key_plain) (simp add: key_char_def byte_def)
  then show ?thesis
    by (cases ns) (simp_all add: object_text_def members_text_app before_def after_def needle_def
        member_text_def)
qed

lemma last_before: "last (before ms) \<notin> set needle"
proof -
  have "last (before ms) = CHR ''{'' \<or> last (before ms) = CHR '',''"
    by (induction ms rule: rev_induct) (simp_all add: before_def)
  then show ?thesis by (auto simp: needle_def)
qed

lemma after_delim: "after ns = [] \<or> \<not> int_char (hd (after ns))"
  by (simp add: after_def int_char_def is_digit_def byte_def)

lemma replace_in_object:
  assumes "index_of (before ms) needle = None" "0 \<le> n"
  shows "replace_json_int (object_text (ms @ (''max_tokens'', format_int n) # ns)) ''max_tokens'' cap
    = Some (object_text (ms @ (''max_tokens'', format_int cap) # ns))"
proof -
  let ?tail = "CHR '':'' # format_int n @ after ns"
  have idx: "index_of (before ms @ needle @ ?tail) needle = Some (length (before ms))"
    using assms(1) last_before by (intro index_of_append) (auto simp: needle_def)
  have d: "drop (length (before ms) + length needle) (before ms @ needle @ ?tail) = ?tail"
    by simp
  have f: "format_int n \<noteq> []" "is_digit (hd (format_int n))"
    using format_int_digits(1,2) [OF assms(2)] by (cases "format_int n"; simp)+
  have sp: "skip_space (format_int n @ after ns) = format_int n @ after ns"
    using f digit_not_special [of "hd (format_int n)"]
    by (cases "format_int n") (simp_all add: skip_space_def)
  have len: "length (before ms @ needle @ ?tail) - length (format_int n @ after ns)
      = length (before ms @ needle @ '':'')"
    by simp
  have tk: "take (length (before ms @ needle @ '':'')) (before ms @ needle @ ?tail)
      = before ms @ needle @ '':''"
    by simp
  show ?thesis
    unfolding object_text_split replace_json_int_def needle_def [symmetric]
    using idx f(1) takeWhile_int_char [OF assms(2) after_delim]
    by (simp only: Let_def needle_def [symmetric] idx d option.case next_is_Cons skip_space_simps
        list.sel simp_thms if_True if_False sp len tk append_Cons append_Nil append_assoc)
qed


definition keys :: "(string \<times> string \<times> json) list \<Rightarrow> string set" where
  "keys ms = (\<lambda>m. map plain_char (fst m)) ` set ms"

lemma map_of_read_members:
  "k \<notin> keys ms \<Longrightarrow> map_of (read_members ms acc) k = map_of acc k"
proof (induction ms arbitrary: acc)
  case (Cons m ms)
  obtain k' t v where m: "m = (k', t, v)" by (cases m)
  have "map_of (read_members (m # ms) acc) k = map_of (read_members ms (AList.update (map plain_char k') v acc)) k"
    by (simp add: read_members_def m)
  also have "\<dots> = map_of (AList.update (map plain_char k') v acc) k"
    using Cons by (simp add: keys_def)
  also have "\<dots> = map_of acc k" using Cons.prems by (simp add: keys_def m update_conv')
  finally show ?case .
qed (simp add: read_members_def)

lemma read_members_app: "read_members (ms @ ns) acc = read_members ns (read_members ms acc)"
  by (simp add: read_members_def)

lemma read_members_Cons:
  "read_members ((k, t, v) # ns) acc = read_members ns (AList.update (map plain_char k) v acc)"
  by (simp add: read_members_def)

lemma plain_literals: "map plain_char ''max_tokens'' = ''max_tokens''"
  by (rule key_plain) (simp add: key_char_def byte_def)

lemma int_or_max_tokens:
  assumes "''max_tokens'' \<notin> keys ns" "\<bar>n\<bar> \<le> 2 ^ 53"
  shows "int_or (JObject (read_members (ms @ int_member ''max_tokens'' n # ns) [])) ''max_tokens'' = n"
  using assms(1) to_int64_sat_small [OF assms(2)]
  by (simp add: int_or_def read_members_app int_member_def read_members_Cons map_of_read_members
      plain_literals update_conv' del: to_int64_sat.simps list.map(2))

lemma string_or_other:
  assumes "k \<noteq> ''max_tokens''"
  shows "string_or (JObject (read_members (ms @ int_member ''max_tokens'' n # ns) [])) k
    = string_or (JObject (read_members (ms @ int_member ''max_tokens'' n' # ns) [])) k"
proof -
  have "map_of (read_members ns acc) k = map_of (read_members ns acc') k"
    if "map_of acc k = map_of acc' k" for acc acc'
    using that
  proof (induction ns arbitrary: acc acc')
    case (Cons m ns)
    obtain k' t v where m: "m = (k', t, v)" by (cases m)
    show ?case unfolding m read_members_Cons
      by (rule Cons.IH) (simp add: Cons.prems update_conv')
  qed (simp add: read_members_def)
  from this [of "AList.update ''max_tokens'' (JNumber (Fin (of_int n))) (read_members ms [])"
      "AList.update ''max_tokens'' (JNumber (Fin (of_int n'))) (read_members ms [])"]
  show ?thesis using assms
    by (simp add: string_or_def read_members_app int_member_def read_members_Cons plain_literals
        update_conv' del: list.map(2))
qed

lemma identity_of_object:
  assumes "ms \<noteq> []" "\<forall>(k, t, v)\<in>set ms. reads t v"
  shows "request_identity (object_text (texts ms))
    = Some (string_or (JObject (read_members ms [])) ''model'',
        int_or (JObject (read_members ms [])) ''max_tokens'')"
  using parse_json_reads [OF reads_object [OF assms]] by (simp add: request_identity_def)

lemma reads_with_int:
  assumes "\<forall>(k, t, v)\<in>set (ms @ ns). reads t v" "report_number n"
  shows "\<forall>(k, t, v)\<in>set (ms @ int_member ''max_tokens'' n # ns). reads t v"
  using assms reads_int [of n] by (auto simp: int_member_def report_number_def)

text \<open>On a request object whose \<open>max_tokens\<close> member asks for more than the organization's cap,
  the clamp succeeds: the rewritten request names the same model and asks for exactly the cap.  The
  members before it may hold anything that does not spell the quoted key, the ones after it
  anything but a second \<open>max_tokens\<close>.\<close>
theorem clamp_caps:
  assumes "\<forall>(k, t, v)\<in>set (ms @ ns). reads t v"
    and "index_of (before (texts ms)) needle = None" and "''max_tokens'' \<notin> keys ns"
    and "report_number n" and "report_number cap" and "0 < cap" and "cap < n"
  shows "\<exists>b m. clamp_max_tokens (object_text (texts (ms @ int_member ''max_tokens'' n # ns))) cap
      = (b, True, True)
    \<and> request_identity (object_text (texts (ms @ int_member ''max_tokens'' n # ns))) = Some (m, n)
    \<and> request_identity b = Some (m, cap)"
proof -
  let ?obj = "\<lambda>i. ms @ int_member ''max_tokens'' i # ns"
  have ne: "?obj i \<noteq> []" for i by simp
  have id: "request_identity (object_text (texts (?obj i)))
      = Some (string_or (JObject (read_members (?obj 0) [])) ''model'', i)" if "report_number i" for i
    using identity_of_object [OF ne reads_with_int [OF assms(1) that]] that
      int_or_max_tokens [OF assms(3), of i ms] string_or_other [of "''model''" ms i ns 0]
    by (simp add: report_number_def)
  have "texts (?obj i) = texts ms @ (''max_tokens'', format_int i) # texts ns" for i
    by (simp add: texts_def int_member_def)
  then have "replace_json_int (object_text (texts (?obj n))) ''max_tokens'' cap
      = Some (object_text (texts (?obj cap)))"
    using replace_in_object [OF assms(2), of n "texts ns" cap] assms(4)
    by (simp add: report_number_def)
  then have "clamp_max_tokens (object_text (texts (?obj n))) cap
      = (object_text (texts (?obj cap)), True, True)"
    using id [OF assms(4)] assms(6,7) by (simp add: clamp_max_tokens_def)
  with id [OF assms(4)] id [OF assms(5)] show ?thesis by blast
qed

lemma parse_member_example: "reads (quoted ''qwen'') (JString (map plain_char ''qwen''))"
  unfolding quoted_def by (rule reads_string)

theorem clamp_caps_witness:
  "\<exists>b m. clamp_max_tokens (object_text (texts ([str_member ''model'' ''qwen''] @ int_member ''max_tokens'' 1000 # []))) 100
      = (b, True, True)
    \<and> request_identity (object_text (texts ([str_member ''model'' ''qwen''] @ int_member ''max_tokens'' 1000 # [])))
      = Some (m, 1000)
    \<and> request_identity b = Some (m, 100)"
proof (rule clamp_caps)
  show "\<forall>(k, t, v)\<in>set ([str_member ''model'' ''qwen''] @ []). reads t v"
    using parse_member_example by (simp add: str_member_def del: list.map(2))
  show "index_of (before (texts [str_member ''model'' ''qwen''])) needle = None" by code_simp
qed (simp_all add: keys_def report_number_def)

text \<open>The clamp can be defeated: the splice replaces the digits after the first occurrence of the
  quoted key wherever it stands.  A request for \<open>1e6\<close> tokens under a cap of 100 is rewritten to ask
  for \<open>100e6\<close>, and a nested \<open>max_tokens\<close> is clamped in place of the top-level one; in both cases
  the plugin reports a successful clamp.\<close>
theorem clamp_bypass:
  "(\<exists>body b m. clamp_max_tokens body 100 = (b, True, True)
      \<and> request_identity body = Some (m, 1000000) \<and> request_identity b = Some (m, 100000000))
   \<and> (\<exists>body b m. clamp_max_tokens body 100 = (b, True, True)
      \<and> request_identity b = Some (m, 100000))"
proof (rule conjI)
  have "clamp_max_tokens ''{\"max_tokens\":1e6}'' 100 = (''{\"max_tokens\":100e6}'', True, True)"
    "request_identity ''{\"max_tokens\":1e6}'' = Some ([], 1000000)"
    "request_identity ''{\"max_tokens\":100e6}'' = Some ([], 100000000)"
    by code_simp+
  then show "\<exists>body b m. clamp_max_tokens body 100 = (b, True, True)
      \<and> request_identity body = Some (m, 1000000) \<and> request_identity b = Some (m, 100000000)" by blast
next
  have "clamp_max_tokens ''{\"m\":{\"max_tokens\":5},\"max_tokens\":100000}'' 100
      = (''{\"m\":{\"max_tokens\":100},\"max_tokens\":100000}'', True, True)"
    "request_identity ''{\"m\":{\"max_tokens\":100},\"max_tokens\":100000}'' = Some ([], 100000)"
    by code_simp+
  then show "\<exists>body b m. clamp_max_tokens body 100 = (b, True, True)
      \<and> request_identity b = Some (m, 100000)" by blast
qed

section \<open>Finding the usage object\<close>

text \<open>A text the backward scan crosses without changing depth or mode.\<close>

definition neutral :: "string \<Rightarrow> bool" where
  "neutral t = (\<forall>d r acc. 1 \<le> d \<longrightarrow>
     scan_back d False False (rev t @ r) acc = scan_back d False False r (t @ acc))"

lemma neutral_Nil [simp]: "neutral []"
  by (simp add: neutral_def)

lemma neutral_append: "neutral s \<Longrightarrow> neutral t \<Longrightarrow> neutral (s @ t)"
  by (simp add: neutral_def)

lemma neutral_chars: "\<forall>c\<in>set t. c \<notin> {CHR ''\"'', CHR ''{'', CHR ''}''} \<Longrightarrow> neutral t"
proof (induction t)
  case (Cons c t)
  have "neutral [c]" using Cons.prems by (simp add: neutral_def)
  then have "neutral ([c] @ t)" using Cons by (intro neutral_append) auto
  then show ?case by simp
qed simp

lemma scan_in_string:
  "\<forall>c\<in>set t. c \<notin> {CHR ''\"'', CHR 0x5C} \<Longrightarrow>
   scan_back d True False (rev t @ r) acc = scan_back d True False r (t @ acc)"
  by (induction t arbitrary: r acc rule: rev_induct) simp_all

lemma neutral_quoted:
  assumes "\<forall>c\<in>set t. c \<notin> {CHR ''\"'', CHR 0x5C}"
  shows "neutral (CHR ''\"'' # t @ [CHR ''\"''])"
  using scan_in_string [OF assms] by (simp add: neutral_def)

lemma neutral_braces: "neutral t \<Longrightarrow> neutral (CHR ''{'' # t @ ''}'')"
  by (simp add: neutral_def)

lemma neutral_format_int:
  assumes "0 \<le> i"
  shows "neutral (format_int i)"
proof (rule neutral_chars, rule ballI)
  fix c assume "c \<in> set (format_int i)"
  then have "is_digit c" using format_int_digits(2) [OF assms] by blast
  then show "c \<notin> {CHR ''\"'', CHR ''{'', CHR ''}''}" by (auto simp: is_digit_def byte_def)
qed

lemma neutral_member:
  assumes "\<forall>c\<in>set k. key_char c" "neutral t" "\<forall>c\<in>set k. c \<notin> {CHR ''\"'', CHR 0x5C}"
  shows "neutral (member_text (k, t))"
proof -
  have a: "neutral (CHR ''\"'' # k @ [CHR ''\"''])" by (rule neutral_quoted) (rule assms(3))
  have b: "neutral '':''" by (rule neutral_chars) simp
  have "neutral ((CHR ''\"'' # k @ [CHR ''\"'']) @ '':'' @ t)"
    by (rule neutral_append [OF a neutral_append [OF b assms(2)]])
  then show ?thesis by (simp add: member_text_def key_plain(1) [OF assms(1)])
qed

lemma key_char_no_quote: "key_char c \<Longrightarrow> c \<notin> {CHR ''\"'', CHR 0x5C}"
proof -
  assume "key_char c"
  then have "64 < byte c" "c \<noteq> CHR 0x5C" by (simp_all add: key_char_def)
  moreover from this have "c \<noteq> CHR ''\"''" using byte_literals(1) by force
  ultimately show ?thesis by simp
qed

lemma neutral_members:
  assumes "\<forall>(k, t)\<in>set ms. (\<forall>c\<in>set k. key_char c) \<and> neutral t"
  shows "neutral (members_text ms)"
  using assms
proof (induction ms)
  case (Cons m ms)
  obtain k t where m: "m = (k, t)" by (cases m)
  have "neutral (member_text (k, t))"
    using Cons.prems key_char_no_quote by (intro neutral_member) (auto simp: m)
  moreover have "neutral (CHR '','' # members_text ms)"
    using neutral_append [of "'',''" "members_text ms"] Cons by (simp add: neutral_chars)
  ultimately show ?case by (simp add: m members_text_Cons neutral_append)
qed simp

lemma last_json_object_found:
  assumes "neutral t" "CHR ''}'' \<notin> set post"
  shows "last_json_object (pre @ (CHR ''{'' # t @ ''}'') @ post) = parse_json (CHR ''{'' # t @ ''}'')"
proof -
  have "dropWhile (\<lambda>c. c \<noteq> CHR ''}'') (rev (pre @ (CHR ''{'' # t @ ''}'') @ post))
      = CHR ''}'' # rev t @ CHR ''{'' # rev pre"
  proof -
    have "\<forall>c\<in>set (rev post). c \<noteq> CHR ''}''" using assms(2) by auto
    then show ?thesis by (simp only: rev_append append_assoc) (subst dropWhile_append2, auto)
  qed
  moreover have "scan_back 1 False False (rev t @ CHR ''{'' # rev pre) ''}'' = Some (CHR ''{'' # t @ ''}'')"
    using assms(1) by (simp add: neutral_def)
  ultimately show ?thesis by (simp add: last_json_object_def Let_def)
qed

definition usage_member :: "token_usage \<Rightarrow> string \<times> string \<times> json" where
  "usage_member u = (''usage'', object_text (texts (report_usage_members u)),
     JObject (read_members (report_usage_members u) []))"

definition usage_numbers :: "token_usage \<Rightarrow> bool" where
  "usage_numbers u = (\<forall>i\<in>set [prompt u, completion u, cached u, reasoning u]. report_number i)"

definition plain_member :: "string \<times> string \<times> json \<Rightarrow> bool" where
  "plain_member m = (case m of (k, t, v) \<Rightarrow> reads t v \<and> neutral t \<and> (\<forall>c\<in>set k. key_char c))"

lemma usage_keys: "\<forall>m\<in>set (report_usage_members u). \<forall>c\<in>set (fst m). key_char c"
  by (simp add: report_usage_members_def key_char_def byte_def)

lemma plain_usage_member:
  assumes "usage_numbers u"
  shows "plain_member (usage_member u)"
proof -
  have n: "neutral (members_text (texts (report_usage_members u)))"
    using usage_keys [of u] assms
    by (intro neutral_members) (auto simp: report_usage_members_def texts_def usage_numbers_def
        report_number_def intro: neutral_format_int)
  have r: "reads (object_text (texts (report_usage_members u))) (JObject (read_members (report_usage_members u) []))"
    using assms by (intro reads_object)
      (auto simp: report_usage_members_def usage_numbers_def report_number_def intro: reads_int)
  have k: "\<forall>c\<in>set ''usage''. key_char c" by (simp add: key_char_def byte_def)
  show ?thesis using n r k neutral_braces [OF n]
    by (simp add: plain_member_def usage_member_def object_text_def del: list.set(2))
qed

lemma usage_read_back:
  assumes "usage_numbers u"
  shows "int_or (JObject (read_members (report_usage_members u) [])) ''prompt_tokens'' = prompt u"
    "int_or (JObject (read_members (report_usage_members u) [])) ''completion_tokens'' = completion u"
    "int_or (JObject (read_members (report_usage_members u) [])) ''cached_tokens'' = cached u"
    "int_or (JObject (read_members (report_usage_members u) [])) ''reasoning_tokens'' = reasoning u"
    "get (JObject (read_members (report_usage_members u) [])) ''cached_tokens''
      = Some (JNumber (Fin (of_int (cached u))))"
  using assms to_int64_sat_small
  by (simp_all add: read_members_def report_usage_members_def literal_keys_read int_or_def
      usage_numbers_def report_number_def del: list.map(2) to_int64_sat.simps)

text \<open>Metering finds the engine's numbers: whatever was streamed before, when the last object of
  the response is one whose texts hold no escape and which carries the four token counts under
  \<open>usage\<close>, and no brace follows it (as in the \<open>[DONE]\<close> line), \<open>extractUsage\<close> returns exactly those
  counts.\<close>
theorem extract_usage_found:
  assumes "\<forall>m\<in>set (ms @ ns). plain_member m" and "''usage'' \<notin> keys ns"
    and "usage_numbers u" and "\<not> usage_empty u" and "CHR ''}'' \<notin> set post"
  shows "extract_usage (pre @ object_text (texts (ms @ usage_member u # ns)) @ post) = Some u"
proof -
  let ?ms = "ms @ usage_member u # ns"
  have pm: "\<forall>m\<in>set ?ms. plain_member m"
    using assms(1) plain_usage_member [OF assms(3)] by auto
  have rd: "\<forall>(k, t, v)\<in>set ?ms. reads t v"
  proof clarify
    fix k t v assume "(k, t, v) \<in> set ?ms"
    then have "plain_member (k, t, v)" using pm by blast
    then show "reads t v" by (simp add: plain_member_def)
  qed
  have "\<forall>(k, t)\<in>set (texts ?ms). (\<forall>c\<in>set k. key_char c) \<and> neutral t"
  proof (clarify)
    fix k t assume "(k, t) \<in> set (texts ?ms)"
    then obtain m where "m \<in> set ?ms" "(k, t) = (\<lambda>(k, t, v). (k, t)) m"
      by (auto simp only: texts_def set_map image_iff)
    moreover obtain k' t' v where "m = (k', t', v)" by (cases m)
    ultimately have "(k, t, v) \<in> set ?ms" by simp
    then have "plain_member (k, t, v)" using pm by blast
    then show "(\<forall>c\<in>set k. key_char c) \<and> neutral t" by (simp add: plain_member_def)
  qed
  then have "neutral (members_text (texts ?ms))" by (rule neutral_members)
  then have "last_json_object (pre @ object_text (texts ?ms) @ post) = parse_json (object_text (texts ?ms))"
    using last_json_object_found [OF _ assms(5)] unfolding object_text_def by blast
  also have "\<dots> = Some (JObject (read_members ?ms []))"
    using rd by (intro parse_json_reads reads_object) auto
  finally have l: "last_json_object (pre @ object_text (texts ?ms) @ post) = Some (JObject (read_members ?ms []))" .
  have g: "get (JObject (read_members ?ms [])) ''usage'' = Some (JObject (read_members (report_usage_members u) []))"
    using assms(2) by (simp add: read_members_app usage_member_def read_members_Cons
        map_of_read_members literal_keys_read update_conv' del: list.map(2))
  show ?thesis unfolding extract_usage_def l option.case g json.case Let_def
    using assms(4) by (simp add: usage_read_back [OF assms(3)] usage_empty_def del: get.simps)
qed

text \<open>A response with an escaped quote inside a string loses its usage: the backward scan meets
  the quote before the backslash that escapes it.  The same response without the escape is metered,
  and the plugin's own parser reads both.\<close>
theorem extract_usage_lost:
  "\<exists>h t. extract_usage (h @ t) = Some \<lparr>prompt = 5, completion = 0, cached = 0, reasoning = 0\<rparr>
     \<and> extract_usage (h @ [CHR 0x5C, CHR ''\"''] @ t) = None
     \<and> map_option (\<lambda>doc. map_option (\<lambda>n. int_or n ''prompt_tokens'') (get doc ''usage''))
         (parse_json (h @ [CHR 0x5C, CHR ''\"''] @ t)) = Some (Some 5)"
proof -
  let ?h = "''{\"x\":\"''"
  let ?t = "''\",\"usage\":{\"prompt_tokens\":5}}''"
  have "extract_usage (?h @ ?t) = Some \<lparr>prompt = 5, completion = 0, cached = 0, reasoning = 0\<rparr>"
    "extract_usage (?h @ [CHR 0x5C, CHR ''\"''] @ ?t) = None"
    "map_option (\<lambda>doc. map_option (\<lambda>n. int_or n ''prompt_tokens'') (get doc ''usage''))
         (parse_json (?h @ [CHR 0x5C, CHR ''\"''] @ ?t)) = Some (Some 5)"
    by code_simp+
  then show ?thesis by blast
qed

text \<open>Unicode escapes are dropped, so the gateway can authorize a model the caller did not name:
  of the model \<open>gpt\u0034\<close>, which JSON reads as \<open>gpt4\<close>, it sees \<open>gpt\<close>.\<close>
theorem escaped_model_name:
  "request_identity (''{\"model\":\"gpt'' @ CHR 0x5C # ''u0034\"}'') = Some (''gpt'', 0)"
  by code_simp

theorem extract_usage_found_witness:
  "extract_usage (''data: {}'' @ object_text (texts ([int_member ''id'' 1]
       @ usage_member \<lparr>prompt = 3, completion = 4, cached = 0, reasoning = 0\<rparr> # [])) @ ''data: [DONE]'')
   = Some \<lparr>prompt = 3, completion = 4, cached = 0, reasoning = 0\<rparr>"
proof (rule extract_usage_found)
  have "neutral (format_int 1)" "reads (format_int 1) (JNumber (Fin (of_int 1)))"
    by (rule neutral_format_int, simp) (rule reads_int, simp_all)
  moreover have "\<forall>c\<in>set ''id''. key_char c" by (simp add: key_char_def byte_def)
  ultimately show "\<forall>m\<in>set ([int_member ''id'' 1] @ []). plain_member m"
    by (simp add: plain_member_def int_member_def del: of_int_1)
qed (simp_all add: keys_def usage_numbers_def report_number_def usage_empty_def)

end
