(* ===== verification/GatewayAuth.thy ===== *)
theory GatewayAuth
  imports GatewayUsage
begin

text \<open>
  The authentication half of the gateway plugin: credentials and verdicts (\<open>auth.go\<close>), the
  plugin configuration (\<open>config.go\<close>), the verdict cache codec (\<open>verdict_cache.go\<close>) and the
  per-key token bucket (\<open>ratelimit.go\<close>), all under \<open>wasm/gateway\<close>.

  The plugin is built by TinyGo for a 32-bit Wasm target, so Go's \<open>int\<close> has 32 bits and a
  conversion to it is \<open>wrap32\<close>.  SHA-256 is a parameter of the definitions that use it.
\<close>

section \<open>Credentials\<close>

definition bearer_token :: "string \<Rightarrow> string" where
  "bearer_token raw =
     (let header = trim_space raw
      in if length header \<le> 7 then []
         else if to_lower (take 7 header) \<noteq> ''bearer '' then []
         else trim_space (drop 7 header))"

definition base62 :: "char \<Rightarrow> bool" where
  "base62 c = (is_digit c \<or> (97 \<le> byte c \<and> byte c \<le> 122) \<or> (65 \<le> byte c \<and> byte c \<le> 90))"

definition looks_like_api_key :: "string \<Rightarrow> bool" where
  "looks_like_api_key key =
     (length key = 46 \<and> has_prefix key ''sk-'' \<and> (\<forall>c\<in>set (drop 3 key). base62 c))"

definition key_digest :: "(string \<Rightarrow> string) \<Rightarrow> string \<Rightarrow> string" where
  "key_digest sha256_hex key = sha256_hex key"

section \<open>Verdicts\<close>

definition rejection :: "int \<Rightarrow> int \<times> string \<times> string" where
  "rejection code =
     (if code = 10007 \<or> code = 10008 then (401, ''invalid_request_error'', ''invalid_api_key'')
      else if code = 10009 then (401, ''invalid_request_error'', ''api_key_revoked'')
      else if code = 10010 then (401, ''invalid_request_error'', ''api_key_expired'')
      else if code = 10037 then (429, ''rate_limit_error'', ''rate_limit_exceeded'')
      else if code = 10036 \<or> code = 10039 \<or> code = 10101 \<or> code = 10105
        then (403, ''permission_error'', ''model_not_allowed'')
      else if code = 13304 then (400, ''invalid_request_error'', ''max_tokens_exceeded'')
      else if code = 10502 then (402, ''insufficient_quota'', ''insufficient_funds'')
      else (503, ''server_error'', ''service_unavailable''))"

definition error_body :: "string \<Rightarrow> string \<Rightarrow> string \<Rightarrow> string" where
  "error_body message err_type err_code =
     ''{\"error\":{\"message\":\"'' @ json_escape message @ ''\",\"type\":\"'' @ json_escape err_type
     @ ''\",\"code\":\"'' @ json_escape err_code @ ''\"}}''"

record verdict =
  v_allowed :: bool
  v_code :: int
  v_message :: string
  v_organization_id :: string
  v_key_id :: string
  v_role :: string
  v_rate_limit_rpm :: int
  v_rate_limit_tpm :: int
  v_max_concurrent :: int
  v_max_output_tokens :: int
  v_owner_user_id :: string
  v_project_id :: string
  v_fetched_at :: int
  v_reserve :: bool

definition parse_verdict :: "string \<Rightarrow> verdict option" where
  "parse_verdict body =
     (case parse_json body of
        Some (JObject kvs) \<Rightarrow>
          (let doc = JObject kvs in
           Some \<lparr>v_allowed = bool_or doc ''allowed'',
             v_code = wrap32 (int_or doc ''code''),
             v_message = string_or doc ''message'',
             v_organization_id = string_or doc ''organization_id'',
             v_key_id = string_or doc ''key_id'',
             v_role = string_or doc ''role'',
             v_rate_limit_rpm = int_or doc ''rate_limit_rpm'',
             v_rate_limit_tpm = int_or doc ''rate_limit_tpm'',
             v_max_concurrent = int_or doc ''max_concurrent_requests'',
             v_max_output_tokens = int_or doc ''max_output_tokens_per_request'',
             v_owner_user_id = string_or doc ''owner_user_id'',
             v_project_id = string_or doc ''project_id'',
             v_fetched_at = 0,
             v_reserve = bool_or doc ''reserve''\<rparr>)
      | _ \<Rightarrow> None)"

definition cache_key :: "string \<Rightarrow> string \<Rightarrow> string" where
  "cache_key digest model_name =
     (if model_name = [] then digest else digest @ CHR 0x00 # model_name)"

section \<open>The verdict cache codec\<close>

definition bool_field :: "bool \<Rightarrow> string" where
  "bool_field b = (if b then ''true'' else ''false'')"

definition sanitize_field :: "string \<Rightarrow> string" where
  "sanitize_field s = filter (\<lambda>c. c \<noteq> CHR ''|'') s"

definition encode_verdict :: "verdict \<Rightarrow> string" where
  "encode_verdict v = join_with (CHR ''|'')
     [bool_field (v_allowed v), format_int (v_code v), format_int (v_rate_limit_rpm v),
      format_int (v_rate_limit_tpm v), format_int (v_max_concurrent v),
      format_int (v_max_output_tokens v), format_int (v_fetched_at v),
      sanitize_field (v_organization_id v), sanitize_field (v_key_id v),
      sanitize_field (v_owner_user_id v), sanitize_field (v_project_id v),
      bool_field (v_reserve v)]"

definition bool_text :: "string \<Rightarrow> bool option" where
  "bool_text s = (if s = ''true'' \<or> s = ''1'' then Some True
     else if s = ''false'' \<or> s = ''0'' then Some False else None)"

text \<open>The six numeric fields; the first unreadable one makes the whole entry a miss.\<close>

fun parse_ints :: "string list \<Rightarrow> int list option" where
  "parse_ints [] = Some []"
| "parse_ints (s # ss) =
     (case parse_float s of
        None \<Rightarrow> None
      | Some x \<Rightarrow> map_option ((#) (to_int64_sat x)) (parse_ints ss))"

definition decode_verdict :: "string \<Rightarrow> verdict option" where
  "decode_verdict raw =
     (let parts = split_at (CHR ''|'') raw in
      if length parts \<noteq> 12 then None
      else
        (case parse_ints (take 6 (drop 1 parts)) of
           None \<Rightarrow> None
         | Some nums \<Rightarrow>
             (case bool_text (parts ! 0) of
                None \<Rightarrow> None
              | Some allowed \<Rightarrow>
                  (case bool_text (parts ! 11) of
                     None \<Rightarrow> None
                   | Some reserve \<Rightarrow>
                       Some \<lparr>v_allowed = allowed, v_code = wrap32 (nums ! 0), v_message = [],
                         v_organization_id = parts ! 7, v_key_id = parts ! 8, v_role = [],
                         v_rate_limit_rpm = nums ! 1, v_rate_limit_tpm = nums ! 2,
                         v_max_concurrent = nums ! 3, v_max_output_tokens = nums ! 4,
                         v_owner_user_id = parts ! 9, v_project_id = parts ! 10,
                         v_fetched_at = nums ! 5, v_reserve = reserve\<rparr>))))"

section \<open>Configuration\<close>

record config =
  cluster :: string
  host :: string
  verify_path :: string
  usage_path :: string
  token :: string
  cache_ttl_ms :: int
  verify_timeout_ms :: int
  protected_prefixes :: "string list"
  max_body_bytes :: int
  rate_limit_state_ttl_ms :: int

definition default_protected_prefixes :: "string list" where
  "default_protected_prefixes = [''/v1/'']"

definition default_config :: config where
  "default_config = \<lparr>cluster = [], host = [], verify_path = ''/internal/gateway/verify'',
     usage_path = ''/internal/gateway/usage'', token = [], cache_ttl_ms = 5000,
     verify_timeout_ms = 500, protected_prefixes = default_protected_prefixes,
     max_body_bytes = 1048576, rate_limit_state_ttl_ms = 600000\<rparr>"

definition json_strings :: "json list \<Rightarrow> string list" where
  "json_strings vs = concat (map (\<lambda>v. case v of JString s \<Rightarrow> if s = [] then [] else [s] | _ \<Rightarrow> []) vs)"

text \<open>\<open>None\<close> is the malformed-configuration error.\<close>

definition parse_config :: "string \<Rightarrow> config option" where
  "parse_config raw =
     (if raw = [] then Some default_config
      else case parse_json raw of
        Some (JObject kvs) \<Rightarrow>
          (let doc = JObject kvs;
               str = (\<lambda>k d. if string_or doc k \<noteq> [] then string_or doc k else d);
               num = (\<lambda>k d. if 0 < int_or doc k then wrap32 (int_or doc k) else d)
           in Some \<lparr>cluster = str ''cluster'' [], host = str ''host'' [],
                verify_path = str ''verify_path'' (verify_path default_config),
                usage_path = str ''usage_path'' (usage_path default_config),
                token = str ''token'' [],
                cache_ttl_ms = num ''cache_ttl_ms'' 5000,
                verify_timeout_ms = num ''verify_timeout_ms'' 500,
                protected_prefixes = (case get doc ''protected_prefixes'' of
                    Some (JArray vs) \<Rightarrow> json_strings vs | _ \<Rightarrow> default_protected_prefixes),
                max_body_bytes = num ''max_body_bytes'' 1048576,
                rate_limit_state_ttl_ms = num ''rate_limit_state_ttl_ms'' 600000\<rparr>)
      | _ \<Rightarrow> None)"

definition config_valid :: "config \<Rightarrow> bool" where
  "config_valid c = (cluster c \<noteq> [] \<and> host c \<noteq> [] \<and> token c \<noteq> [])"

definition config_protects :: "config \<Rightarrow> string \<Rightarrow> bool" where
  "config_protects c path = (\<exists>p\<in>set (protected_prefixes c). p = ''/'' \<or> has_prefix path p)"

section \<open>The token bucket\<close>

record rate_state =
  tokens :: f64
  last_refill :: int

definition allow_request :: "rate_state option \<Rightarrow> int \<Rightarrow> int \<Rightarrow> bool \<times> rate_state option" where
  "allow_request state rpm now =
     (if rpm \<le> 0 then (True, state)
      else
        (let capacity = f64_of_int rpm in
         case state of
           None \<Rightarrow> (True, Some \<lparr>tokens = fsub capacity (Fin 1), last_refill = now\<rparr>)
         | Some s \<Rightarrow>
             (let elapsed = (if now - last_refill s < 0 then 0 else now - last_refill s);
                  t0 = fadd (tokens s) (fmul (fdivc (f64_of_int elapsed) 60) capacity);
                  t = (if flt capacity t0 then capacity else t0)
              in if flt t (Fin 1) then (False, Some \<lparr>tokens = t, last_refill = now\<rparr>)
                 else (True, Some \<lparr>tokens = fsub t (Fin 1), last_refill = now\<rparr>))))"

definition encode_rate_state :: "rate_state \<Rightarrow> string" where
  "encode_rate_state s =
     format_int (to_int64_sat (fmul (tokens s) (Fin 1000))) @ CHR '':'' # format_int (last_refill s)"

definition decode_rate_state :: "string \<Rightarrow> rate_state option" where
  "decode_rate_state raw =
     (let before_colon = takeWhile (\<lambda>c. c \<noteq> CHR '':'') raw;
          rest = dropWhile (\<lambda>c. c \<noteq> CHR '':'') raw
      in if rest = [] \<or> before_colon = [] then None
         else case parse_float before_colon of
                None \<Rightarrow> None
              | Some milli \<Rightarrow>
                  (case parse_float (tl rest) of
                     None \<Rightarrow> None
                   | Some ts \<Rightarrow> Some \<lparr>tokens = fdivc milli 1000, last_refill = to_int64_sat ts\<rparr>))"

section \<open>The cache codec\<close>

definition verdict_numbers :: "verdict \<Rightarrow> bool" where
  "verdict_numbers v = (0 \<le> v_code v \<and> v_code v < 2 ^ 31 \<and>
     (\<forall>i\<in>set [v_rate_limit_rpm v, v_rate_limit_tpm v, v_max_concurrent v, v_max_output_tokens v,
        v_fetched_at v]. report_number i))"

lemma digits_no_bar: "0 \<le> i \<Longrightarrow> CHR ''|'' \<notin> set (format_int i)"
  using format_int_digits(2) [of i] by (auto simp: is_digit_def byte_def)

lemma digits_no_colon: "0 \<le> i \<Longrightarrow> CHR '':'' \<notin> set (format_int i)"
  using format_int_digits(2) [of i] by (auto simp: is_digit_def byte_def)

lemma parse_ints_format:
  "\<forall>i\<in>set is. report_number i \<Longrightarrow> parse_ints (map format_int is) = Some is"
  by (induction "is") (simp_all add: parse_float_format to_int64_sat_small report_number_def
      del: to_int64_sat.simps)

lemma bool_text_field [simp]: "bool_text (bool_field b) = Some b"
  by (simp add: bool_text_def bool_field_def)

lemma decode_encoded:
  assumes "verdict_numbers v"
  shows "decode_verdict (encode_verdict v) = Some (v\<lparr>v_message := [], v_role := [],
     v_organization_id := sanitize_field (v_organization_id v),
     v_key_id := sanitize_field (v_key_id v),
     v_owner_user_id := sanitize_field (v_owner_user_id v),
     v_project_id := sanitize_field (v_project_id v)\<rparr>)"
proof -
  let ?nums = "[v_code v, v_rate_limit_rpm v, v_rate_limit_tpm v, v_max_concurrent v,
      v_max_output_tokens v, v_fetched_at v]"
  let ?parts = "[bool_field (v_allowed v)] @ map format_int ?nums
      @ [sanitize_field (v_organization_id v), sanitize_field (v_key_id v),
         sanitize_field (v_owner_user_id v), sanitize_field (v_project_id v), bool_field (v_reserve v)]"
  have nums: "\<forall>i\<in>set ?nums. report_number i"
    using assms by (auto simp: verdict_numbers_def report_number_def)
  have "\<forall>w\<in>set ?parts. CHR ''|'' \<notin> set w"
    using nums digits_no_bar by (simp add: report_number_def sanitize_field_def bool_field_def)
  then have "split_at (CHR ''|'') (join_with (CHR ''|'') ?parts) = ?parts"
    by (intro split_join) simp_all
  then have s: "split_at (CHR ''|'') (encode_verdict v) = ?parts"
    by (simp add: encode_verdict_def)
  have p: "parse_ints (take 6 (drop 1 ?parts)) = Some ?nums"
    using parse_ints_format [OF nums] by simp
  have "wrap32 (v_code v) = v_code v"
    using assms by (intro wrap32_id) (simp_all add: verdict_numbers_def)
  then show ?thesis
    unfolding decode_verdict_def s Let_def p by (simp add: nth_Cons')
qed

text \<open>C6. A cached verdict survives the cache: decoding what was encoded gives the same decision,
  code, limits, cap, attribution and clock; only the message and the role are not kept, and a
  separator inside an id is dropped rather than shifting the fields around it.\<close>
theorem decode_encode_verdict:
  assumes "verdict_numbers v"
  shows "decode_verdict (encode_verdict v) = Some (v\<lparr>v_message := [], v_role := [],
     v_organization_id := sanitize_field (v_organization_id v),
     v_key_id := sanitize_field (v_key_id v),
     v_owner_user_id := sanitize_field (v_owner_user_id v),
     v_project_id := sanitize_field (v_project_id v)\<rparr>)"
  using assms by (rule decode_encoded)

theorem decode_encode_verdict_witness:
  "decode_verdict (encode_verdict \<lparr>v_allowed = True, v_code = 0, v_message = ''ok'',
     v_organization_id = ''o|1'', v_key_id = ''k'', v_role = ''admin'', v_rate_limit_rpm = 60,
     v_rate_limit_tpm = 0, v_max_concurrent = 4, v_max_output_tokens = 100, v_owner_user_id = ''u'',
     v_project_id = [], v_fetched_at = 7, v_reserve = False\<rparr>)
   = Some \<lparr>v_allowed = True, v_code = 0, v_message = [],
     v_organization_id = ''o1'', v_key_id = ''k'', v_role = [], v_rate_limit_rpm = 60,
     v_rate_limit_tpm = 0, v_max_concurrent = 4, v_max_output_tokens = 100, v_owner_user_id = ''u'',
     v_project_id = [], v_fetched_at = 7, v_reserve = False\<rparr>"
  by (subst decode_encode_verdict)
    (simp_all add: verdict_numbers_def report_number_def sanitize_field_def)

section \<open>The error envelope\<close>

definition error_members :: "string \<Rightarrow> string \<Rightarrow> string \<Rightarrow> (string \<times> string \<times> json) list" where
  "error_members message err_type err_code =
     [str_member ''message'' message, str_member ''type'' err_type, str_member ''code'' err_code]"

lemma error_keys:
  "json_escape ''message'' = ''message''" "json_escape ''type'' = ''type''"
  "json_escape ''code'' = ''code''" "json_escape ''error'' = ''error''"
  by (rule key_plain, simp add: key_char_def byte_def)+

lemma error_keys_read:
  "map plain_char ''message'' = ''message''" "map plain_char ''type'' = ''type''"
  "map plain_char ''code'' = ''code''" "map plain_char ''error'' = ''error''"
  by (rule key_plain, simp add: key_char_def byte_def)+

text \<open>The error envelope is always one well-formed OpenAI error object with exactly the given
  message, type and code: nothing in a platform message can break out of it.\<close>
theorem error_body_reads:
  "parse_json (error_body message err_type err_code) = Some (JObject [(''error'', JObject
     [(''message'', JString (map plain_char message)), (''type'', JString (map plain_char err_type)),
      (''code'', JString (map plain_char err_code))])])"
proof -
  let ?ms = "error_members message err_type err_code"
  let ?outer = "[(''error'', object_text (texts ?ms), JObject (read_members ?ms []))]"
  have t: "error_body message err_type err_code = object_text (texts ?outer)"
    by (simp add: error_body_def error_members_def object_text_def texts_def str_member_def
        member_text_def error_keys quoted_def)
  have "\<forall>(k, t, v)\<in>set ?ms. reads t v"
    using reads_string by (simp add: error_members_def str_member_def quoted_def del: list.map(2))
  then have r: "reads (object_text (texts ?ms)) (JObject (read_members ?ms []))"
    by (intro reads_object) (simp_all add: error_members_def)
  have o: "\<forall>(k, t, v)\<in>set ?outer. reads t v" using r by simp
  have "reads (object_text (texts ?outer)) (JObject (read_members ?outer []))"
    by (rule reads_object [OF _ o]) simp
  then have p: "parse_json (object_text (texts ?outer)) = Some (JObject (read_members ?outer []))"
    by (rule parse_json_reads)
  show ?thesis unfolding t p
    by (simp add: read_members_def error_members_def str_member_def error_keys_read del: list.map(2))
qed

text \<open>Verification answers fail closed: an allowing verdict comes only from an answer that is one
  complete JSON object whose \<open>allowed\<close> member is the literal \<open>true\<close>; a truncated, non-object or
  differently typed answer never allows.\<close>
theorem parse_verdict_allows:
  "(\<exists>v. parse_verdict body = Some v \<and> v_allowed v)
   \<longleftrightarrow> (\<exists>kvs. parse_json body = Some (JObject kvs) \<and> map_of kvs ''allowed'' = Some (JBool True))"
  by (auto simp: parse_verdict_def bool_or_def Let_def split: option.splits json.splits)

section \<open>Bursts\<close>

text \<open>One admission through the stored bucket: what \<open>allowRate\<close> does to a key's entry.\<close>

definition bucket_step :: "int \<Rightarrow> int \<Rightarrow> string option \<Rightarrow> bool \<times> string option" where
  "bucket_step rpm now raw =
     (let (ok, next) = allow_request (Option.bind raw decode_rate_state) rpm now
      in (ok, case next of None \<Rightarrow> raw | Some s \<Rightarrow> Some (encode_rate_state s)))"

fun bucket_run :: "int \<Rightarrow> int \<Rightarrow> nat \<Rightarrow> string option \<Rightarrow> nat" where
  "bucket_run rpm now 0 raw = 0"
| "bucket_run rpm now (Suc n) raw =
     (let (ok, raw') = bucket_step rpm now raw in (if ok then 1 else 0) + bucket_run rpm now n raw')"

lemma decode_encode_rate_state:
  assumes "0 \<le> k" "k * 1000 \<le> 2 ^ 53" "0 \<le> t" "t \<le> 2 ^ 53"
  shows "decode_rate_state (encode_rate_state \<lparr>tokens = Fin (of_int k), last_refill = t\<rparr>)
    = Some \<lparr>tokens = Fin (of_int k), last_refill = t\<rparr>"
proof -
  have m: "fmul (Fin (of_int k)) (Fin 1000) = Fin (of_int (k * 1000))"
    using round64_int [of "k * 1000"] assms by simp
  have tw: "takeWhile (\<lambda>c. c \<noteq> CHR '':'') (format_int (k * 1000) @ CHR '':'' # r) = format_int (k * 1000)"
    "dropWhile (\<lambda>c. c \<noteq> CHR '':'') (format_int (k * 1000) @ CHR '':'' # r) = CHR '':'' # r" for r
    using digits_no_colon [of "k * 1000"] assms(1)
    by (auto simp: takeWhile_append dropWhile_append)
  have d: "fdivc (Fin (of_int (k * 1000))) 1000 = Fin (of_int k)"
    using round64_int [of k] assms by simp
  show ?thesis
    using assms format_int_digits(1) [of "k * 1000"]
    by (simp add: encode_rate_state_def decode_rate_state_def m to_int64_sat_small tw d
        parse_float_format del: to_int64_sat.simps fmul.simps fdivc.simps of_int_mult)
qed

definition bucket_bounds :: "int \<Rightarrow> int \<Rightarrow> bool" where
  "bucket_bounds rpm now = (0 < rpm \<and> rpm * 1000 \<le> 2 ^ 53 \<and> 0 \<le> now \<and> now \<le> 2 ^ 53)"

definition bucket :: "int \<Rightarrow> int \<Rightarrow> string option" where
  "bucket k now = Some (encode_rate_state \<lparr>tokens = Fin (of_int k), last_refill = now\<rparr>)"

lemma bucket_step_same_second:
  assumes "bucket_bounds rpm now" "0 \<le> k" "k \<le> rpm"
  shows "bucket_step rpm now (bucket k now) = (if k = 0 then (False, bucket 0 now)
     else (True, bucket (k - 1) now))"
proof -
  have b: "0 < rpm" "rpm \<le> 2 ^ 53" "k \<le> 2 ^ 53" "k * 1000 \<le> 2 ^ 53" "0 \<le> now" "now \<le> 2 ^ 53"
    using assms by (simp_all add: bucket_bounds_def)
  have r: "f64_of_int rpm = Fin (of_int rpm)" "f64_of_int 0 = Fin 0"
    using b f64_of_int_exact [of 0] by (simp_all add: f64_of_int_exact)
  have f: "fadd (Fin (of_int k)) (Fin 0) = Fin (of_int k)"
    "fsub (Fin (of_int k)) (Fin 1) = Fin (of_int (k - 1))"
    using round64_int [of k] round64_int [of "k - 1"] assms(2) b by (simp_all add: fsub_def)
  show ?thesis
    using decode_encode_rate_state [OF assms(2) b(4-6)] b(1) assms(2,3) f
    by (auto simp: bucket_step_def allow_request_def bucket_def r Let_def)
qed

lemma bucket_run_same_second:
  assumes "bucket_bounds rpm now"
  shows "0 \<le> k \<Longrightarrow> k \<le> rpm \<Longrightarrow> int (bucket_run rpm now n (bucket k now)) = min (int n) k"
proof (induction n arbitrary: k)
  case (Suc n)
  show ?case using Suc.IH [of "k - 1"] Suc.IH [of k] Suc.prems
    by (auto simp: bucket_step_same_second [OF assms Suc.prems] min_def split: if_splits)
qed simp

text \<open>C13. A cold key's burst is exactly its budget: of \<open>n\<close> requests in one clock second, with the
  bucket written to and read back from shared data after each, exactly \<open>min n rpm\<close> are admitted.\<close>
theorem burst_is_budget:
  assumes "bucket_bounds rpm now"
  shows "int (bucket_run rpm now n None) = min (int n) rpm"
proof (cases n)
  case (Suc m)
  have b: "0 < rpm" "rpm \<le> 2 ^ 53" using assms by (simp_all add: bucket_bounds_def)
  have "bucket_step rpm now None = (True, bucket (rpm - 1) now)"
    using b round64_int [of "rpm - 1"]
    by (simp add: bucket_step_def allow_request_def bucket_def f64_of_int_exact fsub_def)
  then show ?thesis using bucket_run_same_second [OF assms, of "rpm - 1" m] b Suc by auto
qed (use assms in \<open>simp add: bucket_bounds_def\<close>)

theorem burst_is_budget_witness: "int (bucket_run 3 10 5 None) = 3"
  using burst_is_budget [of 3 10 5] by (simp add: bucket_bounds_def)

end
