(* ===== verification/GatewayPlugin.thy ===== *)
theory GatewayPlugin
  imports GatewayAuth
begin

text \<open>
  The request state machine of the gateway plugin (\<open>wasm/gateway/plugin.go\<close> and \<open>time.go\<close>).

  A worker is one Wasm VM: its configuration, coarse clock, request counter and the shared data
  the host keeps for it.  An \<open>http_ctx\<close> is one request.  A handler takes the host's answers to
  the calls it makes (\<open>host\<close>: header values, the buffered body, whether a call could be
  dispatched, whether a write was accepted), the worker and the request, and returns them updated;
  what it tells the host to do is appended to \<open>effects\<close>.  \<open>panicked\<close> records a nil dereference of
  the configuration, which no reachable state shows.
\<close>

datatype effect = SendResponse int string | Resume | DispatchVerify string | DispatchUsage string
  | ReplaceBody string | SetRequestId string | RemoveContentLength

datatype action = Continue | Pause

record worker =
  cfg :: "config option"
  vm_id :: int
  clock :: int
  shared :: "string \<rightharpoonup> string"

record http_ctx =
  path :: string
  rq_id :: string
  rq_model :: string
  rq_max_tokens :: int
  is_protected :: bool
  last_digest :: string
  the_verdict :: "verdict option"
  verify_call_id :: int
  verify_pending :: bool
  request_body :: string
  body_too_large :: bool
  response_tail :: string
  usage_emitted :: bool
  started_at :: int
  rejected :: bool
  panicked :: bool
  effects :: "effect list"

record host =
  hdr :: "string \<Rightarrow> string"
  body_read :: "string option"
  dispatch_id :: "int option"
  replace_ok :: bool
  set_ok :: bool

definition new_http_context :: http_ctx where
  "new_http_context = \<lparr>path = [], rq_id = [], rq_model = [], rq_max_tokens = 0,
     is_protected = False, last_digest = [], the_verdict = None, verify_call_id = 0,
     verify_pending = False, request_body = [], body_too_large = False, response_tail = [],
     usage_emitted = False, started_at = 0, rejected = False, panicked = False, effects = []\<rparr>"

section \<open>The worker\<close>

definition now_seconds :: "worker \<Rightarrow> int" where
  "now_seconds w = (if clock w < 1 then 1 else clock w)"

definition on_tick :: "worker \<Rightarrow> worker" where
  "on_tick w = w\<lparr>clock := clock w + 1\<rparr>"

definition on_plugin_start :: "string \<Rightarrow> worker \<Rightarrow> bool \<times> worker" where
  "on_plugin_start raw w =
     (case parse_config raw of
        None \<Rightarrow> (False, w)
      | Some c \<Rightarrow> if config_valid c then (True, w\<lparr>cfg := Some c\<rparr>) else (False, w))"

definition protects :: "worker \<Rightarrow> string \<Rightarrow> bool" where
  "protects w p =
     (case cfg w of
        Some c \<Rightarrow> config_protects c p
      | None \<Rightarrow> (\<exists>q\<in>set default_protected_prefixes. has_prefix p q))"

definition set_shared :: "bool \<Rightarrow> string \<Rightarrow> string \<Rightarrow> worker \<Rightarrow> worker" where
  "set_shared ok key v w = (if ok then w\<lparr>shared := (shared w)(key \<mapsto> v)\<rparr> else w)"

definition shared_prefix_verdict :: string where
  "shared_prefix_verdict = ''go-taas:verdict:''"

definition shared_prefix_rate_limit :: string where
  "shared_prefix_rate_limit = ''go-taas:rpm:''"

definition base36_digit :: "nat \<Rightarrow> char" where
  "base36_digit d = (if d < 10 then digit_char d else char_of (87 + d))"

fun base36_loop :: "nat \<Rightarrow> string \<Rightarrow> string" where
  "base36_loop v acc = (if v = 0 then acc else base36_loop (v div 36) (base36_digit (v mod 36) # acc))"

declare base36_loop.simps [simp del]

definition format_base36 :: "int \<Rightarrow> string" where
  "format_base36 v = (if v = 0 then ''0'' else base36_loop (nat v) [])"

definition generate_request_id :: "worker \<Rightarrow> http_ctx \<Rightarrow> worker \<times> string" where
  "generate_request_id w h =
     (let w' = w\<lparr>vm_id := (vm_id w + 1) mod 2 ^ 32\<rparr>
      in (w', ''gw-'' @ format_base36 (started_at h) @ ''-'' @ format_base36 (vm_id w')))"

section \<open>Local answers, cache and rate limit\<close>

definition emit :: "effect \<Rightarrow> http_ctx \<Rightarrow> http_ctx" where
  "emit e h = h\<lparr>effects := effects h @ [e]\<rparr>"

definition reject_local :: "int \<Rightarrow> string \<Rightarrow> string \<Rightarrow> string \<Rightarrow> http_ctx \<Rightarrow> http_ctx" where
  "reject_local code message err_type err_code h =
     emit (SendResponse code (error_body message err_type err_code)) (h\<lparr>rejected := True\<rparr>)"

definition unavailable :: "http_ctx \<Rightarrow> http_ctx" where
  "unavailable h = reject_local 503 ''authorization unavailable'' ''server_error'' ''service_unavailable'' h"

definition store_verdict :: "host \<Rightarrow> config \<Rightarrow> verdict \<Rightarrow> http_ctx \<Rightarrow> worker \<Rightarrow> worker" where
  "store_verdict env c v h w =
     (if cache_ttl_ms c \<le> 0 then w
      else if v_reserve v then w
      else set_shared (set_ok env) (shared_prefix_verdict @ cache_key (last_digest h) (rq_model h))
             (encode_verdict v) w)"

definition cached_verdict :: "config \<Rightarrow> http_ctx \<Rightarrow> worker \<Rightarrow> verdict option" where
  "cached_verdict c h w =
     (if cache_ttl_ms c \<le> 0 \<or> last_digest h = [] then None
      else (case shared w (shared_prefix_verdict @ cache_key (last_digest h) (rq_model h)) of
              None \<Rightarrow> None
            | Some raw \<Rightarrow>
                if raw = [] then None
                else (case decode_verdict raw of
                        None \<Rightarrow> None
                      | Some v \<Rightarrow>
                          if cache_ttl_ms c div 1000 < now_seconds w - v_fetched_at v then None
                          else Some v)))"

definition allow_rate :: "host \<Rightarrow> verdict \<Rightarrow> worker \<Rightarrow> bool \<times> worker" where
  "allow_rate env v w =
     (let rpm = v_rate_limit_rpm v in
      if rpm \<le> 0 then (True, w)
      else
        (let key = shared_prefix_rate_limit @ v_key_id v;
             (ok, next) = allow_request (Option.bind (shared w key) decode_rate_state) rpm (now_seconds w)
         in (ok, case next of None \<Rightarrow> w | Some s \<Rightarrow> set_shared (set_ok env) key (encode_rate_state s) w)))"

section \<open>Applying a verdict\<close>

text \<open>The rewritten body and whether it changed: the clamp, then the streamed usage flag.\<close>

definition rewrite_body :: "verdict \<Rightarrow> string \<Rightarrow> string \<times> bool" where
  "rewrite_body v body =
     (let (b1, c1) =
        (if 0 < v_max_output_tokens v then
           (case clamp_max_tokens body (v_max_output_tokens v) of
              (b, clamped, ok) \<Rightarrow> if ok \<and> clamped then (b, True) else (body, False))
         else (body, False));
          (b2, injected) = ensure_stream_usage b1
      in if injected then (b2, True) else (b1, c1))"

definition apply_verdict :: "host \<Rightarrow> verdict \<Rightarrow> worker \<Rightarrow> http_ctx \<Rightarrow> worker \<times> http_ctx" where
  "apply_verdict env v w h =
     (if \<not> v_allowed v then
        (case rejection (v_code v) of
           (http, err_type, err_code) \<Rightarrow>
             (w, reject_local http
                   (if v_message v = [] then ''request not authorized'' else v_message v)
                   err_type err_code h))
      else
        (let h1 = h\<lparr>the_verdict := Some v\<rparr>;
             (ok, w1) = allow_rate env v w
         in if \<not> ok then
              (w1, reject_local 429 ''rate limit exceeded'' ''rate_limit_error'' ''rate_limit_exceeded'' h1)
            else if \<not> body_too_large h1 \<and> request_body h1 \<noteq> [] then
              (case rewrite_body v (request_body h1) of
                 (body, changed) \<Rightarrow>
                   if \<not> changed then (w1, emit Resume h1)
                   else if \<not> replace_ok env then (w1, h1)
                   else (w1, emit Resume (emit (ReplaceBody body) h1)))
            else (w1, emit Resume h1)))"

definition verify_payload :: "http_ctx \<Rightarrow> string" where
  "verify_payload h =
     ''{\"key_digest\":\"'' @ json_escape (last_digest h) @ ''\",\"model\":\"'' @ json_escape (rq_model h)
     @ ''\",\"request_id\":\"'' @ json_escape (rq_id h) @ ''\",\"max_tokens\":''
     @ format_int (rq_max_tokens h) @ ''}''"

definition dispatch_verify :: "host \<Rightarrow> worker \<Rightarrow> http_ctx \<Rightarrow> worker \<times> http_ctx" where
  "dispatch_verify env w h =
     (case cfg w of
        None \<Rightarrow> (w, h\<lparr>panicked := True\<rparr>)
      | Some c \<Rightarrow>
          (case cached_verdict c h w of
             Some v \<Rightarrow> apply_verdict env v w h
           | None \<Rightarrow>
               (case dispatch_id env of
                  None \<Rightarrow> (w, unavailable h)
                | Some i \<Rightarrow>
                    (w, (emit (DispatchVerify (verify_payload h)) h)
                          \<lparr>verify_call_id := i, verify_pending := True\<rparr>))))"

section \<open>Request handlers\<close>

definition strip_query :: "string \<Rightarrow> string" where
  "strip_query p = takeWhile (\<lambda>c. c \<noteq> CHR ''?'') p"

definition on_request_headers ::
  "(string \<Rightarrow> string) \<Rightarrow> host \<Rightarrow> bool \<Rightarrow> worker \<Rightarrow> http_ctx \<Rightarrow> action \<times> worker \<times> http_ctx" where
  "on_request_headers sha env end_of_stream w h0 =
     (let h1 = h0\<lparr>started_at := now_seconds w\<rparr>;
          p0 = hdr env '':path'';
          p = strip_query (if p0 = [] then hdr env ''x-envoy-original-path'' else p0);
          (w1, rid) = (if hdr env ''x-request-id'' = [] then generate_request_id w h1
                       else (w, hdr env ''x-request-id''));
          h2 = emit (SetRequestId rid)
                 (h1\<lparr>path := p, rq_id := rid, is_protected := protects w1 p\<rparr>)
      in if \<not> is_protected h2 then (Continue, w1, h2)
         else if cfg w1 = None then (Continue, w1, unavailable h2)
         else
           (let tok = bearer_token (hdr env ''authorization'') in
            if tok = [] then
              (Continue, w1, reject_local 401 ''missing api key'' ''invalid_request_error'' ''invalid_api_key'' h2)
            else if \<not> looks_like_api_key tok then
              (Continue, w1, reject_local 401 ''invalid api key'' ''invalid_request_error'' ''invalid_api_key'' h2)
            else
              (let h3 = emit RemoveContentLength (h2\<lparr>last_digest := key_digest sha tok\<rparr>) in
               if end_of_stream then
                 (case dispatch_verify env w1 h3 of (w2, h4) \<Rightarrow> (Pause, w2, h4))
               else (Continue, w1, h3\<lparr>request_body := []\<rparr>))))"

definition on_request_body :: "host \<Rightarrow> bool \<Rightarrow> worker \<Rightarrow> http_ctx \<Rightarrow> action \<times> worker \<times> http_ctx" where
  "on_request_body env end_of_stream w h =
     (if rejected h then (Continue, w, h)
      else if \<not> is_protected h then (Continue, w, h)
      else if \<not> end_of_stream then (Pause, w, h)
      else
        (let h1 = (case body_read env of
                     None \<Rightarrow> h\<lparr>body_too_large := True\<rparr>
                   | Some b \<Rightarrow> h\<lparr>request_body := b\<rparr>);
             h2 = (if body_too_large h1 then h1
                   else case request_identity (request_body h1) of
                     None \<Rightarrow> h1
                   | Some (m, n) \<Rightarrow>
                       h1\<lparr>rq_model := m, rq_max_tokens := (if 0 < n then n else rq_max_tokens h1)\<rparr>)
         in case dispatch_verify env w h2 of (w', h3) \<Rightarrow> (Pause, w', h3)))"

definition http_status_ok :: "(string \<times> string) list \<Rightarrow> bool" where
  "http_status_ok headers =
     (case find (\<lambda>kv. to_lower (fst kv) = '':status'') headers of
        None \<Rightarrow> False
      | Some (k, v) \<Rightarrow> length v = 3 \<and> hd v = CHR ''2'')"

definition on_call_response ::
  "host \<Rightarrow> int \<Rightarrow> (string \<times> string) list \<Rightarrow> string option \<Rightarrow> worker \<Rightarrow> http_ctx \<Rightarrow> worker \<times> http_ctx" where
  "on_call_response env callout headers body w h =
     (if callout \<noteq> verify_call_id h then (w, h)
      else
        (let h1 = h\<lparr>verify_pending := False\<rparr> in
         if \<not> http_status_ok headers then (w, unavailable h1)
         else (case body of
                 None \<Rightarrow> (w, unavailable h1)
               | Some b \<Rightarrow>
                   (case parse_verdict b of
                      None \<Rightarrow> (w, unavailable h1)
                    | Some v0 \<Rightarrow>
                        (let v = v0\<lparr>v_fetched_at := now_seconds w\<rparr> in
                         case cfg w of
                           None \<Rightarrow> (w, h1\<lparr>panicked := True\<rparr>)
                         | Some c \<Rightarrow> apply_verdict env v (store_verdict env c v h1 w) h1)))))"

definition on_verify_response ::
  "host \<Rightarrow> (string \<times> string) list \<Rightarrow> string option \<Rightarrow> worker \<Rightarrow> http_ctx \<Rightarrow> worker \<times> http_ctx" where
  "on_verify_response env headers body w h = on_call_response env (verify_call_id h) headers body w h"

definition on_usage_response ::
  "host \<Rightarrow> (string \<times> string) list \<Rightarrow> string option \<Rightarrow> worker \<Rightarrow> http_ctx \<Rightarrow> worker \<times> http_ctx" where
  "on_usage_response env headers body w h = on_call_response env 0 headers body w h"

section \<open>Response handlers\<close>

definition max_response_tail :: nat where
  "max_response_tail = 32768"

definition append_tail :: "string \<Rightarrow> string \<Rightarrow> nat \<Rightarrow> string" where
  "append_tail buf frm limit =
     (if limit \<le> length frm then drop (length frm - limit) frm
      else if limit < length buf + length frm
        then drop (length buf + length frm - limit) buf @ frm
      else buf @ frm)"

definition usage_report_of :: "http_ctx \<Rightarrow> verdict \<Rightarrow> token_usage \<Rightarrow> int \<Rightarrow> usage_report" where
  "usage_report_of h v u now =
     \<lparr>request_id = rq_id h, organization_id = v_organization_id v, report_key = v_key_id v,
      owner_user_id = v_owner_user_id v, project_id = v_project_id v, model = rq_model h,
      usage = u,
      status = (if 0 < v_max_output_tokens v \<and> v_max_output_tokens v \<le> completion u
                then ''streaming'' else ''success''),
      err_message = [], completed_at = 0, latency_ms = wrap64 ((now - started_at h) * 1000),
      ttft_ms = 0, generation_ms = 0\<rparr>"

definition emit_usage :: "worker \<Rightarrow> http_ctx \<Rightarrow> http_ctx" where
  "emit_usage w h =
     (if usage_emitted h then h
      else (case the_verdict h of
              None \<Rightarrow> h
            | Some v \<Rightarrow>
                (case cfg w of
                   None \<Rightarrow> h\<lparr>panicked := True\<rparr>
                 | Some c \<Rightarrow>
                     if usage_path c = [] then h
                     else
                       (let h1 = h\<lparr>usage_emitted := True\<rparr> in
                        case extract_usage (response_tail h1) of
                          None \<Rightarrow> h1
                        | Some u \<Rightarrow>
                            emit (DispatchUsage (usage_body (usage_report_of h1 v u (now_seconds w)))) h1))))"

text \<open>\<open>frame_read\<close> is the response frame, or \<open>None\<close> for an empty or unreadable one.\<close>

definition on_response_body :: "string option \<Rightarrow> bool \<Rightarrow> worker \<Rightarrow> http_ctx \<Rightarrow> action \<times> http_ctx" where
  "on_response_body frame_read end_of_stream w h =
     (let h1 = (case frame_read of
                  None \<Rightarrow> h
                | Some f \<Rightarrow> h\<lparr>response_tail := append_tail (response_tail h) f max_response_tail\<rparr>)
      in (Continue, if end_of_stream then emit_usage w h1 else h1))"

definition on_stream_done :: "worker \<Rightarrow> http_ctx \<Rightarrow> http_ctx" where
  "on_stream_done w h =
     (if \<not> usage_emitted h \<and> the_verdict h \<noteq> None then emit_usage w h else h)"

definition on_request_trailers :: "http_ctx \<Rightarrow> action" where
  "on_request_trailers h = Continue"

section \<open>A worker and its requests\<close>

text \<open>
  \<open>event\<close> is one callback of one request; the boolean beside the request is whether the callback's
  return value let the whole request through.  \<open>trailers_sent\<close> says whether requests may carry
  trailers: the host then delivers the body with no end-of-stream frame.  \<open>system\<close> interleaves any
  number of requests on one worker, from the plugin's start.
\<close>

inductive event :: "bool \<Rightarrow> worker \<times> http_ctx \<times> bool \<Rightarrow> worker \<times> http_ctx \<times> bool \<Rightarrow> bool"
  for trailers_sent where
  ev_body: "on_request_body env eos w h = (a, w', h')
    \<Longrightarrow> event trailers_sent (w, h, p) (w', h', p \<or> (eos \<and> a = Continue))"
| ev_trailers: "trailers_sent
    \<Longrightarrow> event trailers_sent (w, h, p) (w, h, p \<or> on_request_trailers h = Continue)"
| ev_verified: "verify_pending h \<Longrightarrow> on_verify_response env hs b w h = (w', h')
    \<Longrightarrow> event trailers_sent (w, h, p) (w', h', p)"
| ev_usage_answer: "usage_emitted h \<Longrightarrow> on_usage_response env hs b w h = (w', h')
    \<Longrightarrow> event trailers_sent (w, h, p) (w', h', p)"
| ev_response: "on_response_body f eos w h = (a, h')
    \<Longrightarrow> event trailers_sent (w, h, p) (w, h', p)"
| ev_done: "event trailers_sent (w, h, p) (w, on_stream_done w h, p)"

definition fresh_worker :: worker where
  "fresh_worker = \<lparr>cfg = None, vm_id = 0, clock = 0, shared = (\<lambda>_. None)\<rparr>"

inductive system :: "(string \<Rightarrow> string) \<Rightarrow> bool \<Rightarrow> worker \<Rightarrow> (nat \<rightharpoonup> http_ctx \<times> bool) \<Rightarrow> bool"
  for sha trailers_sent where
  sys_start: "on_plugin_start raw fresh_worker = (ok, w) \<Longrightarrow> system sha trailers_sent w (\<lambda>_. None)"
| sys_tick: "system sha trailers_sent w rs \<Longrightarrow> system sha trailers_sent (on_tick w) rs"
| sys_headers: "system sha trailers_sent w rs \<Longrightarrow> rs i = None
    \<Longrightarrow> on_request_headers sha env eos w new_http_context = (a, w', h')
    \<Longrightarrow> system sha trailers_sent w' (rs(i \<mapsto> (h', eos \<and> a = Continue)))"
| sys_event: "system sha trailers_sent w rs \<Longrightarrow> rs i = Some (h, p)
    \<Longrightarrow> event trailers_sent (w, h, p) (w', h', p')
    \<Longrightarrow> system sha trailers_sent w' (rs(i \<mapsto> (h', p')))"

section \<open>What the handlers leave alone\<close>

lemma emit_fields [simp]:
  "effects (emit e h) = effects h @ [e]" "the_verdict (emit e h) = the_verdict h"
  "rejected (emit e h) = rejected h" "is_protected (emit e h) = is_protected h"
  "verify_pending (emit e h) = verify_pending h" "verify_call_id (emit e h) = verify_call_id h"
  "usage_emitted (emit e h) = usage_emitted h" "panicked (emit e h) = panicked h"
  "last_digest (emit e h) = last_digest h" "rq_model (emit e h) = rq_model h"
  "body_too_large (emit e h) = body_too_large h" "request_body (emit e h) = request_body h"
  "response_tail (emit e h) = response_tail h" "started_at (emit e h) = started_at h"
  by (simp_all add: emit_def)

lemma set_shared_fields [simp]:
  "cfg (set_shared ok k v w) = cfg w" "clock (set_shared ok k v w) = clock w"
  "vm_id (set_shared ok k v w) = vm_id w"
  by (simp_all add: set_shared_def)

lemma store_verdict_fields [simp]:
  "cfg (store_verdict env c v h w) = cfg w" "clock (store_verdict env c v h w) = clock w"
  by (simp_all add: store_verdict_def)

lemma allow_rate_fields [frame]:
  "allow_rate env v w = (ok, w') \<Longrightarrow> cfg w' = cfg w \<and> clock w' = clock w"
  by (auto simp: allow_rate_def Let_def split: prod.splits option.splits if_splits)

text \<open>The request after a local answer.\<close>

lemma reject_local_fields [simp]:
  "rejected (reject_local c m t e h) = True"
  "the_verdict (reject_local c m t e h) = the_verdict h"
  "is_protected (reject_local c m t e h) = is_protected h"
  "verify_pending (reject_local c m t e h) = verify_pending h"
  "verify_call_id (reject_local c m t e h) = verify_call_id h"
  "usage_emitted (reject_local c m t e h) = usage_emitted h"
  "panicked (reject_local c m t e h) = panicked h"
  "last_digest (reject_local c m t e h) = last_digest h"
  "rq_model (reject_local c m t e h) = rq_model h"
  "effects (reject_local c m t e h) = effects h @ [SendResponse c (error_body m t e)]"
  by (simp_all add: reject_local_def)

lemmas local_answer = unavailable_def

section \<open>The request invariant\<close>

text \<open>
  \<open>rq_ok configured h\<close>: nothing panicked, only an allowing verdict is kept, the request was resumed
  only under one, usage was reported at most once and then under one, and without a configuration a
  protected request has been answered locally and nothing else happened.
\<close>

definition usage_calls :: "http_ctx \<Rightarrow> nat" where
  "usage_calls h = length (filter (\<lambda>e. case e of DispatchUsage b \<Rightarrow> True | _ \<Rightarrow> False) (effects h))"

definition rq_ok :: "bool \<Rightarrow> http_ctx \<Rightarrow> bool" where
  "rq_ok configured h =
     (\<not> panicked h
      \<and> (\<forall>v. the_verdict h = Some v \<longrightarrow> v_allowed v)
      \<and> (Resume \<in> set (effects h) \<longrightarrow> the_verdict h \<noteq> None)
      \<and> usage_calls h \<le> 1
      \<and> (0 < usage_calls h \<longrightarrow> usage_emitted h)
      \<and> (usage_emitted h \<longrightarrow> the_verdict h \<noteq> None)
      \<and> (\<not> configured \<longrightarrow> (is_protected h \<longrightarrow> rejected h) \<and> the_verdict h = None
           \<and> \<not> verify_pending h))"

definition configured :: "worker \<Rightarrow> bool" where
  "configured w = (cfg w \<noteq> None)"

lemma usage_calls_emit [simp]:
  "usage_calls (emit e h) = usage_calls h + (case e of DispatchUsage b \<Rightarrow> 1 | _ \<Rightarrow> 0)"
  by (simp add: usage_calls_def split: effect.splits)

lemma usage_calls_reject [simp]: "usage_calls (reject_local c m t e h) = usage_calls h"
  by (simp add: usage_calls_def)

lemma usage_calls_cong: "effects h = effects h' \<Longrightarrow> usage_calls h = usage_calls h'"
  by (simp add: usage_calls_def)

lemma usage_calls_update [simp]:
  "usage_calls (h\<lparr>the_verdict := x1\<rparr>) = usage_calls h"
  "usage_calls (h\<lparr>verify_call_id := x2\<rparr>) = usage_calls h"
  "usage_calls (h\<lparr>verify_pending := x3\<rparr>) = usage_calls h"
  "usage_calls (h\<lparr>request_body := x4\<rparr>) = usage_calls h"
  "usage_calls (h\<lparr>body_too_large := x5\<rparr>) = usage_calls h"
  "usage_calls (h\<lparr>rq_model := x6\<rparr>) = usage_calls h"
  "usage_calls (h\<lparr>rq_max_tokens := x7\<rparr>) = usage_calls h"
  "usage_calls (h\<lparr>response_tail := x8\<rparr>) = usage_calls h"
  "usage_calls (h\<lparr>usage_emitted := x9\<rparr>) = usage_calls h"
  by (simp_all add: usage_calls_def)

text \<open>\<open>moved w h w' h'\<close>: what every handler after the headers keeps.\<close>

definition moved :: "worker \<Rightarrow> http_ctx \<Rightarrow> worker \<Rightarrow> http_ctx \<Rightarrow> bool" where
  "moved w h w' h' = (cfg w' = cfg w \<and> clock w' = clock w \<and> is_protected h' = is_protected h
     \<and> (rejected h \<longrightarrow> rejected h') \<and> (usage_emitted h \<longrightarrow> usage_emitted h'))"

lemma moved_refl [simp]: "moved w h w h"
  by (simp add: moved_def)

inductive_cases eventC [consumes 1, case_names ev_body ev_trailers ev_verified ev_usage_answer
    ev_response ev_done]: "event tr (w, h, p) (w', h', p')"

lemma rq_ok_reject: "rq_ok c h \<Longrightarrow> rq_ok c (reject_local i m t e h)"
  by (simp add: rq_ok_def)

lemma rq_ok_verdict: "rq_ok True h \<Longrightarrow> v_allowed v \<Longrightarrow> rq_ok True (h\<lparr>the_verdict := Some v\<rparr>)"
  by (simp add: rq_ok_def)

lemma rq_ok_resume: "rq_ok True h \<Longrightarrow> the_verdict h \<noteq> None \<Longrightarrow> rq_ok True (emit Resume h)"
  by (simp add: rq_ok_def)

lemma rq_ok_replace: "rq_ok True h \<Longrightarrow> rq_ok True (emit (ReplaceBody b) h)"
  by (simp add: rq_ok_def)

lemma moved_frame: "cfg w1 = cfg w \<Longrightarrow> clock w1 = clock w \<Longrightarrow> moved w h w1 (reject_local i m t e h)"
  by (simp add: moved_def)

lemma apply_verdict_ok:
  assumes "apply_verdict env v w h = (w', h')" "rq_ok True h"
  shows "rq_ok True h'" "moved w h w' h'"
proof -
  let ?h = "h\<lparr>the_verdict := Some v\<rparr>"
  obtain ok w1 where r: "allow_rate env v w = (ok, w1)" by fastforce
  note f = allow_rate_fields [OF r]
  have "rq_ok True h' \<and> moved w h w' h'"
  proof (cases "v_allowed v")
    case False
    then show ?thesis using assms
      by (auto simp: apply_verdict_def moved_def rq_ok_reject split: prod.splits)
  next
    case True
    note ok = rq_ok_verdict [OF assms(2) True]
    have m: "moved w h w1 ?h" "moved w h w1 (emit e ?h)" "moved w h w1 (emit e' (emit e ?h))"
      "moved w h w1 (reject_local i m t c ?h)" for e e' i m t c
      using f by (simp_all add: moved_def)
    have "\<exists>b i m t c. (w', h') \<in> {(w1, ?h), (w1, emit Resume ?h), (w1, reject_local i m t c ?h),
        (w1, emit Resume (emit (ReplaceBody b) ?h))}"
      using assms(1) True r unfolding apply_verdict_def
      by (simp add: Let_def split: prod.splits if_splits) blast+
    then show ?thesis using m ok by (auto intro: rq_ok_resume rq_ok_replace rq_ok_reject)
  qed
  then show "rq_ok True h'" "moved w h w' h'" by auto
qed

lemma dispatch_verify_ok:
  assumes "dispatch_verify env w h = (w', h')" "rq_ok True h" "configured w"
  shows "rq_ok True h'" "moved w h w' h'"
proof -
  have "rq_ok True h' \<and> moved w h w' h'"
  proof (cases "cached_verdict (the (cfg w)) h w")
    case None
    then show ?thesis using assms
      by (auto simp: dispatch_verify_def configured_def rq_ok_def moved_def local_answer
          split: option.splits)
  next
    case (Some v)
    then have "apply_verdict env v w h = (w', h')"
      using assms(1,3) by (auto simp: dispatch_verify_def configured_def)
    then show ?thesis using apply_verdict_ok assms(2) by blast
  qed
  then show "rq_ok True h'" "moved w h w' h'" by auto
qed

lemma rq_ok_update:
  "rq_ok c (h\<lparr>verify_pending := False\<rparr>)" "rq_ok c (h\<lparr>request_body := b\<rparr>)"
  "rq_ok c (h\<lparr>body_too_large := t\<rparr>)" "rq_ok c (h\<lparr>rq_model := m, rq_max_tokens := k\<rparr>)"
  "rq_ok c (h\<lparr>rq_model := m\<rparr>)"
  "rq_ok c (h\<lparr>response_tail := r\<rparr>)" "rq_ok c (unavailable h)"
  if "rq_ok c h"
  using that by (simp_all add: rq_ok_def usage_calls_def local_answer)

lemma on_call_response_ok:
  assumes "on_call_response env i hs b w h = (w', h')" "rq_ok True h" "configured w"
  shows "rq_ok True h'" "moved w h w' h'"
proof -
  let ?h = "h\<lparr>verify_pending := False\<rparr>"
  have ok: "rq_ok True ?h" "rq_ok True (unavailable ?h)"
    using assms(2) by (auto intro: rq_ok_update)
  have m: "moved w h w ?h" "moved w h w (unavailable ?h)"
    by (simp_all add: moved_def local_answer)
  have "rq_ok True h' \<and> moved w h w' h'"
  proof (cases "(w', h') \<in> {(w, h), (w, unavailable ?h)}")
    case True then show ?thesis using ok m assms(2) by auto
  next
    case False
    then obtain c v where a: "apply_verdict env v (store_verdict env c v ?h w) ?h = (w', h')"
      using assms(1,3)
      by (auto simp: on_call_response_def configured_def Let_def split: if_splits option.splits)
    show ?thesis using apply_verdict_ok [OF a ok(1)] m(1) by (auto simp: moved_def)
  qed
  then show "rq_ok True h'" "moved w h w' h'" by auto
qed

lemma emit_usage_ok:
  assumes "rq_ok (configured w) h"
  shows "rq_ok (configured w) (emit_usage w h)" "moved w h w (emit_usage w h)"
  using assms
  by (auto simp: emit_usage_def rq_ok_def moved_def configured_def Let_def split: option.splits)

definition request_ok :: "worker \<Rightarrow> bool \<Rightarrow> http_ctx \<times> bool \<Rightarrow> bool" where
  "request_ok w tr r = (rq_ok (configured w) (fst r)
     \<and> (\<not> tr \<longrightarrow> is_protected (fst r) \<longrightarrow> snd r \<longrightarrow> rejected (fst r)))"

lemma on_request_body_ok:
  assumes "on_request_body env eos w h = (a, w', h')" "rq_ok (configured w) h"
  shows "rq_ok (configured w) h'" "moved w h w' h'"
    "a = Continue \<longrightarrow> is_protected h \<longrightarrow> rejected h"
proof -
  let ?C = "rq_ok (configured w) h' \<and> moved w h w' h' \<and> (a = Continue \<longrightarrow> is_protected h \<longrightarrow> rejected h)"
  have "?C"
  proof (cases "rejected h \<or> \<not> is_protected h \<or> \<not> eos")
    case True
    then show ?thesis using assms by (auto simp: on_request_body_def split: if_splits)
  next
    case False
    then have c: "configured w" using assms(2) by (auto simp: rq_ok_def)
    define h1 where "h1 = (case body_read env of None \<Rightarrow> h\<lparr>body_too_large := True\<rparr>
                   | Some b \<Rightarrow> h\<lparr>request_body := b\<rparr>)"
    define h2 where "h2 = (if body_too_large h1 then h1
                   else case request_identity (request_body h1) of
                     None \<Rightarrow> h1
                   | Some (m, n) \<Rightarrow>
                       h1\<lparr>rq_model := m, rq_max_tokens := (if 0 < n then n else rq_max_tokens h1)\<rparr>)"
    have d: "dispatch_verify env w h2 = (w', h')" "a = Pause"
      using False assms(1) unfolding on_request_body_def h1_def h2_def
      by (auto simp: Let_def split: prod.splits)
    have "rq_ok True h1" using assms(2) c unfolding h1_def
      by (auto intro: rq_ok_update split: option.splits)
    then have "rq_ok True h2" unfolding h2_def by (auto intro: rq_ok_update split: option.splits)
    note r = dispatch_verify_ok [OF d(1) this c]
    have "moved w h w h2" unfolding h1_def h2_def by (auto simp: moved_def split: option.splits)
    then show ?thesis using r c d(2) by (auto simp: moved_def)
  qed
  then show "rq_ok (configured w) h'" "moved w h w' h'"
    "a = Continue \<longrightarrow> is_protected h \<longrightarrow> rejected h" by auto
qed

lemma on_request_headers_ok:
  assumes "on_request_headers sha env eos w new_http_context = (a, w', h')"
  shows "rq_ok (configured w) h'" "cfg w' = cfg w" "clock w' = clock w"
    "eos \<longrightarrow> a = Continue \<longrightarrow> is_protected h' \<longrightarrow> rejected h'"
proof -
  define h1 where "h1 = new_http_context\<lparr>started_at := now_seconds w\<rparr>"
  define p0 where "p0 = hdr env '':path''"
  define pth where "pth = strip_query (if p0 = [] then hdr env ''x-envoy-original-path'' else p0)"
  define gen where "gen = (if hdr env ''x-request-id'' = [] then generate_request_id w h1
                       else (w, hdr env ''x-request-id''))"
  define h2 where "h2 = emit (SetRequestId (snd gen))
                 (h1\<lparr>path := pth, rq_id := snd gen, is_protected := protects (fst gen) pth\<rparr>)"
  define h3 where "h3 t = emit RemoveContentLength (h2\<lparr>last_digest := key_digest sha t\<rparr>)" for t
  have g: "cfg (fst gen) = cfg w" "clock (fst gen) = clock w" "shared (fst gen) = shared w"
    by (simp_all add: gen_def generate_request_id_def Let_def)
  have n: "\<not> panicked h2" "the_verdict h2 = None" "usage_calls h2 = 0" "\<not> usage_emitted h2"
    "\<not> verify_pending h2" "Resume \<notin> set (effects h2)"
    by (simp_all add: h2_def h1_def new_http_context_def usage_calls_def)
  then have ok: "rq_ok True h2" "rq_ok c (reject_local i m t e h2)" "rq_ok True (h3 tk)"
      "\<not> is_protected h2 \<Longrightarrow> rq_ok c h2" "rq_ok c (unavailable h2)" for c i m t e tk
    by (simp_all add: rq_ok_def h3_def usage_calls_def local_answer)
  have unf: "on_request_headers sha env eos w new_http_context =
      (if \<not> is_protected h2 then (Continue, fst gen, h2)
         else if cfg (fst gen) = None then (Continue, fst gen, unavailable h2)
         else
           (let tok = bearer_token (hdr env ''authorization'') in
            if tok = [] then
              (Continue, fst gen, reject_local 401 ''missing api key'' ''invalid_request_error'' ''invalid_api_key'' h2)
            else if \<not> looks_like_api_key tok then
              (Continue, fst gen, reject_local 401 ''invalid api key'' ''invalid_request_error'' ''invalid_api_key'' h2)
            else if eos then
                 (case dispatch_verify env (fst gen) (h3 tok) of (w2, h4) \<Rightarrow> (Pause, w2, h4))
               else (Continue, fst gen, (h3 tok)\<lparr>request_body := []\<rparr>)))"
    by (simp only: on_request_headers_def Let_def case_prod_beta h1_def p0_def pth_def gen_def
        h2_def h3_def)
  consider (public) "\<not> is_protected h2" "(a, w', h') = (Continue, fst gen, h2)"
    | (no_cfg) "(a, w', h') = (Continue, fst gen, unavailable h2)"
    | (bad) i m t e where "(a, w', h') = (Continue, fst gen, reject_local i m t e h2)"
    | (verify) tok where "a = Pause" "configured w" "dispatch_verify env (fst gen) (h3 tok) = (w', h')"
    | (wait) tok where "\<not> eos" "configured w" "w' = fst gen" "h' = (h3 tok)\<lparr>request_body := []\<rparr>"
    using assms unfolding unf
    by (auto simp: configured_def g Let_def split: if_splits prod.splits)
  then have "rq_ok (configured w) h' \<and> cfg w' = cfg w \<and> clock w' = clock w
      \<and> (eos \<longrightarrow> a = Continue \<longrightarrow> is_protected h' \<longrightarrow> rejected h')"
  proof cases
    case (verify tok)
    have "configured (fst gen)" using verify g by (simp add: configured_def)
    from dispatch_verify_ok [OF verify(3) ok(3) this] show ?thesis
      using verify g by (simp add: moved_def)
  next
    case (wait tok)
    then show ?thesis using ok(3) g by (auto intro: rq_ok_update)
  qed (use ok g in \<open>auto simp: local_answer\<close>)
  then show "rq_ok (configured w) h'" "cfg w' = cfg w" "clock w' = clock w"
    "eos \<longrightarrow> a = Continue \<longrightarrow> is_protected h' \<longrightarrow> rejected h'" by auto
qed

lemma event_ok:
  assumes "event tr (w, h, p) (w', h', p')" "request_ok w tr (h, p)"
  shows "request_ok w' tr (h', p')" "cfg w' = cfg w" "clock w' = clock w"
proof -
  have ok: "rq_ok (configured w) h" using assms(2) by (simp add: request_ok_def)
  have c: "verify_pending h \<or> usage_emitted h \<Longrightarrow> configured w"
    using ok by (auto simp: rq_ok_def)
  have "request_ok w' tr (h', p') \<and> cfg w' = cfg w \<and> clock w' = clock w"
    using assms(1)
  proof (cases rule: eventC)
    case (ev_body env eos a)
    note r = on_request_body_ok [OF ev_body(2) ok]
    then show ?thesis using assms(2) ev_body(1)
      by (auto simp: request_ok_def moved_def configured_def)
  next
    case ev_trailers
    then show ?thesis using assms(2) by (auto simp: request_ok_def)
  next
    case (ev_verified env hs b)
    note r = on_call_response_ok [OF ev_verified(3) [unfolded on_verify_response_def]]
    have "configured w" using c ev_verified by blast
    then show ?thesis using r ok assms(2) ev_verified(1)
      by (auto simp: request_ok_def moved_def configured_def)
  next
    case (ev_usage_answer env hs b)
    note r = on_call_response_ok [OF ev_usage_answer(3) [unfolded on_usage_response_def]]
    have "configured w" using c ev_usage_answer by blast
    then show ?thesis using r ok assms(2) ev_usage_answer(1)
      by (auto simp: request_ok_def moved_def configured_def)
  next
    case (ev_response f eos a)
    define h1 where "h1 = (case f of None \<Rightarrow> h
                | Some x \<Rightarrow> h\<lparr>response_tail := append_tail (response_tail h) x max_response_tail\<rparr>)"
    have "rq_ok (configured w) h1" "moved w h w h1"
      using ok by (auto simp: h1_def moved_def intro: rq_ok_update split: option.splits)
    moreover have "h' = (if eos then emit_usage w h1 else h1)"
      using ev_response by (auto simp: on_response_body_def h1_def Let_def)
    ultimately show ?thesis using emit_usage_ok [of w h1] assms(2) ev_response
      by (auto simp: request_ok_def moved_def)
  next
    case ev_done
    then show ?thesis using emit_usage_ok [OF ok] assms(2)
      by (auto simp: request_ok_def moved_def on_stream_done_def)
  qed
  then show "request_ok w' tr (h', p')" "cfg w' = cfg w" "clock w' = clock w" by auto
qed

lemma request_ok_cong: "cfg w' = cfg w \<Longrightarrow> request_ok w' tr r = request_ok w tr r"
  by (simp add: request_ok_def configured_def)

lemma system_ok:
  "system sha tr w rs \<Longrightarrow> rs i = Some r \<Longrightarrow> request_ok w tr r"
proof (induction arbitrary: i r rule: system.induct)
  case (sys_tick w rs)
  then show ?case using request_ok_cong [of "on_tick w" w] by (simp add: on_tick_def)
next
  case (sys_headers w rs j env eos a w' h')
  note r = on_request_headers_ok [OF sys_headers(3)]
  show ?case using sys_headers.IH sys_headers.prems r request_ok_cong [OF r(2)]
    by (auto simp: request_ok_def configured_def split: if_splits)
next
  case (sys_event w rs j h p w' h' p')
  note r = event_ok [OF sys_event(3) sys_event.IH [OF sys_event(2)]]
  show ?case using sys_event.IH sys_event.prems r request_ok_cong [OF r(2)]
    by (auto split: if_splits)
qed simp

section \<open>The shared data\<close>

text \<open>
  The answers the worker takes for verdicts, in the order they come: for which digest and model the request
  asked, the body and the second.  \<open>an_usage\<close> marks the answer of a usage call, which is taken for a verdict when
  the request was admitted from the cache and so has call id 0.  \<open>answered\<close> is \<open>system\<close> with this log of answers.
\<close>

record answer =
  an_usage :: bool
  an_digest :: string
  an_model :: string
  an_body :: "string option"
  an_second :: int

definition answer_of :: "bool \<Rightarrow> http_ctx \<Rightarrow> string option \<Rightarrow> worker \<Rightarrow> answer" where
  "answer_of from_usage h b w = \<lparr>an_usage = from_usage, an_digest = last_digest h, an_model = rq_model h, an_body = b, an_second = now_seconds w\<rparr>"

inductive answered ::
  "(string \<Rightarrow> string) \<Rightarrow> bool \<Rightarrow> worker \<Rightarrow> (nat \<rightharpoonup> http_ctx \<times> bool) \<Rightarrow> answer list \<Rightarrow> bool"
  for sha trailers_sent where
  an_start: "on_plugin_start raw fresh_worker = (ok, w) \<Longrightarrow> answered sha trailers_sent w (\<lambda>_. None) []"
| an_tick: "answered sha trailers_sent w rs seen \<Longrightarrow> answered sha trailers_sent (on_tick w) rs seen"
| an_headers: "answered sha trailers_sent w rs seen \<Longrightarrow> rs i = None
    \<Longrightarrow> on_request_headers sha env eos w new_http_context = (a, w', h')
    \<Longrightarrow> answered sha trailers_sent w' (rs(i \<mapsto> (h', eos \<and> a = Continue))) seen"
| an_body: "answered sha trailers_sent w rs seen \<Longrightarrow> rs i = Some (h, p) \<Longrightarrow> on_request_body env eos w h = (a, w', h')
    \<Longrightarrow> answered sha trailers_sent w' (rs(i \<mapsto> (h', p \<or> (eos \<and> a = Continue)))) seen"
| an_trailers: "answered sha trailers_sent w rs seen \<Longrightarrow> rs i = Some (h, p) \<Longrightarrow> trailers_sent
    \<Longrightarrow> answered sha trailers_sent w (rs(i \<mapsto> (h, p \<or> on_request_trailers h = Continue))) seen"
| an_verified: "answered sha trailers_sent w rs seen \<Longrightarrow> rs i = Some (h, p) \<Longrightarrow> verify_pending h
    \<Longrightarrow> on_verify_response env hs b w h = (w', h')
    \<Longrightarrow> answered sha trailers_sent w' (rs(i \<mapsto> (h', p))) (seen @ [answer_of False h b w])"
| an_usage_answer: "answered sha trailers_sent w rs seen \<Longrightarrow> rs i = Some (h, p) \<Longrightarrow> usage_emitted h
    \<Longrightarrow> on_usage_response env hs b w h = (w', h')
    \<Longrightarrow> answered sha trailers_sent w' (rs(i \<mapsto> (h', p))) (if verify_call_id h = 0 then seen @ [answer_of True h b w] else seen)"
| an_response: "answered sha trailers_sent w rs seen \<Longrightarrow> rs i = Some (h, p) \<Longrightarrow> on_response_body f eos w h = (a, h')
    \<Longrightarrow> answered sha trailers_sent w (rs(i \<mapsto> (h', p))) seen"
| an_done: "answered sha trailers_sent w rs seen \<Longrightarrow> rs i = Some (h, p)
    \<Longrightarrow> answered sha trailers_sent w (rs(i \<mapsto> (on_stream_done w h, p))) seen"

text \<open>The log is a record of the same runs, nothing else.\<close>

lemma answered_system: "answered sha tr w rs seen \<Longrightarrow> system sha tr w rs"
proof (induction rule: answered.induct)
  case (an_body w rs seen i h p env eos a w' h')
  show ?case using sys_event [OF an_body.IH an_body(2) ev_body [OF an_body(3)]] .
next
  case (an_trailers w rs seen i h p)
  show ?case using sys_event [OF an_trailers.IH an_trailers(2) ev_trailers [OF an_trailers(3)]] .
next
  case (an_verified w rs seen i h p env hs b w' h')
  show ?case using sys_event [OF an_verified.IH an_verified(2) ev_verified [OF an_verified(3,4)]] .
next
  case (an_usage_answer w rs seen i h p env hs b w' h')
  show ?case using sys_event [OF an_usage_answer.IH an_usage_answer(2) ev_usage_answer [OF an_usage_answer(3,4)]] .
next
  case (an_response w rs seen i h p f eos a h')
  show ?case using sys_event [OF an_response.IH an_response(2) ev_response [OF an_response(3)]] .
next
  case (an_done w rs seen i h p)
  show ?case using sys_event [OF an_done.IH an_done(2) ev_done] .
qed (use sys_start sys_tick sys_headers in \<open>blast+\<close>)

lemma system_answered: "system sha tr w rs \<Longrightarrow> \<exists>seen. answered sha tr w rs seen"
proof (induction rule: system.induct)
  case (sys_event w rs i h p w' h' p')
  then obtain seen where "answered sha tr w rs seen" by blast
  note l = this sys_event(2)
  from sys_event(3) show ?case
  proof (cases rule: eventC)
    case (ev_body env eos a)
    then show ?thesis using an_body [OF l] by blast
  next
    case ev_trailers
    then show ?thesis using an_trailers [OF l] by blast
  next
    case (ev_verified env hs b)
    then show ?thesis using an_verified [OF l] by blast
  next
    case (ev_usage_answer env hs b)
    then show ?thesis using an_usage_answer [OF l] by blast
  next
    case (ev_response f eos a)
    then show ?thesis using an_response [OF l] by blast
  next
    case ev_done
    then show ?thesis using an_done [OF l] by blast
  qed
qed (blast intro: an_start an_tick an_headers)+

text \<open>Every cached verdict is an answer of the log, never a reserved one, stamped with the second it came.\<close>

definition entry_of :: "int \<Rightarrow> answer \<Rightarrow> string \<Rightarrow> string \<Rightarrow> bool" where
  "entry_of now a k e = (\<exists>u. k = cache_key (an_digest a) (an_model a) \<and> Option.bind (an_body a) parse_verdict = Some u
     \<and> \<not> v_reserve u \<and> 1 \<le> an_second a \<and> an_second a \<le> now \<and> e = encode_verdict (u\<lparr>v_fetched_at := an_second a\<rparr>))"

definition cache_ok :: "answer list \<Rightarrow> worker \<Rightarrow> bool" where
  "cache_ok seen w = (\<forall>k e. shared w (shared_prefix_verdict @ k) = Some e \<longrightarrow> (\<exists>a\<in>set seen. entry_of (now_seconds w) a k e))"

lemma entry_of_mono: "entry_of t a k e \<Longrightarrow> t \<le> t' \<Longrightarrow> entry_of t' a k e"
  unfolding entry_of_def by force

lemma now_seconds_cong: "clock w' = clock w \<Longrightarrow> now_seconds w' = now_seconds w"
  by (simp add: now_seconds_def)

lemma cache_ok_seen: "cache_ok seen w \<Longrightarrow> set seen \<subseteq> set seen' \<Longrightarrow> cache_ok seen' w"
  unfolding cache_ok_def by blast

lemma cache_ok_tick:
  assumes "cache_ok seen w"
  shows "cache_ok seen (on_tick w)"
  unfolding cache_ok_def
proof (intro allI impI)
  fix k e
  assume "shared (on_tick w) (shared_prefix_verdict @ k) = Some e"
  then obtain a where "a \<in> set seen" "entry_of (now_seconds w) a k e" using assms by (auto simp: cache_ok_def on_tick_def)
  moreover have "now_seconds w \<le> now_seconds (on_tick w)" by (simp add: on_tick_def now_seconds_def)
  ultimately show "\<exists>a\<in>set seen. entry_of (now_seconds (on_tick w)) a k e" using entry_of_mono by blast
qed

lemma rate_key_apart: "shared_prefix_rate_limit @ k' \<noteq> shared_prefix_verdict @ k"
  by (simp add: shared_prefix_verdict_def shared_prefix_rate_limit_def)

lemma set_shared_cache:
  "cache_ok seen w \<Longrightarrow> (\<forall>k. key = shared_prefix_verdict @ k \<longrightarrow> (\<exists>a\<in>set seen. entry_of (now_seconds w) a k e))
   \<Longrightarrow> cache_ok seen (set_shared ok key e w)"
  by (auto simp: set_shared_def cache_ok_def now_seconds_cong [of "w\<lparr>shared := m\<rparr>" w for m])

lemma allow_rate_cache:
  "allow_rate env v w = (ok, w') \<Longrightarrow> cache_ok seen w \<Longrightarrow> cache_ok seen w'"
  by (auto simp: allow_rate_def Let_def rate_key_apart
      split: prod.splits option.splits if_splits intro!: set_shared_cache)

lemma entry_of_answer:
  "parse_verdict b = Some v \<Longrightarrow> \<not> v_reserve v \<Longrightarrow> entry_of (now_seconds w) (answer_of x h (Some b) w)
     (cache_key (last_digest h) (rq_model h)) (encode_verdict (v\<lparr>v_fetched_at := now_seconds w\<rparr>))"
  by (simp add: entry_of_def answer_of_def) (simp add: now_seconds_def)

lemma store_verdict_cache:
  assumes "cache_ok seen w" "parse_verdict b = Some v" "answer_of x h (Some b) w \<in> set seen"
  shows "cache_ok seen (store_verdict env c (v\<lparr>v_fetched_at := now_seconds w\<rparr>) h w)"
  using assms entry_of_answer [OF assms(2), of w x h] by (auto simp: store_verdict_def intro!: set_shared_cache)

lemma apply_verdict_cache:
  "apply_verdict env v w h = (w', h') \<Longrightarrow> cache_ok seen w \<Longrightarrow> cache_ok seen w'"
  by (auto simp: apply_verdict_def Let_def dest: allow_rate_cache split: prod.splits if_splits)

lemma dispatch_verify_cache:
  "dispatch_verify env w h = (w', h') \<Longrightarrow> cache_ok seen w \<Longrightarrow> cache_ok seen w'"
  by (auto simp: dispatch_verify_def dest: apply_verdict_cache split: option.splits)

lemma on_call_response_cache:
  assumes "on_call_response env i hs b w h = (w', h')" "cache_ok seen w"
  shows "cache_ok (seen @ [answer_of x h b w]) w'" "i \<noteq> verify_call_id h \<Longrightarrow> cache_ok seen w'"
proof -
  let ?seen = "seen @ [answer_of x h b w]"
  have l: "cache_ok ?seen w" by (rule cache_ok_seen [OF assms(2)]) auto
  have "cache_ok ?seen (store_verdict env c (v\<lparr>v_fetched_at := now_seconds w\<rparr>) (h\<lparr>verify_pending := False\<rparr>) w)"
    if "b = Some body" "parse_verdict body = Some v" for c v body
    by (rule store_verdict_cache [OF l that(2), of x]) (simp add: that(1) answer_of_def)
  then show "cache_ok ?seen w'"
    using assms(1) l by (auto simp: on_call_response_def Let_def split: if_splits option.splits dest!: apply_verdict_cache)
  show "i \<noteq> verify_call_id h \<Longrightarrow> cache_ok seen w'" using assms by (simp add: on_call_response_def)
qed

lemma on_request_body_cache:
  "on_request_body env eos w h = (a, w', h') \<Longrightarrow> cache_ok seen w \<Longrightarrow> cache_ok seen w'"
  by (auto simp: on_request_body_def Let_def dest: dispatch_verify_cache split: if_splits prod.splits)

lemma generate_request_id_shared [simp]:
  "shared (fst (generate_request_id w h)) = shared w" "clock (fst (generate_request_id w h)) = clock w"
  by (simp_all add: generate_request_id_def Let_def)

lemma generate_request_id_cache [simp]: "cache_ok seen (fst (generate_request_id w h)) = cache_ok seen w"
  by (simp add: cache_ok_def now_seconds_cong [of "fst (generate_request_id w h)" w])

lemma on_request_headers_cache:
  "on_request_headers sha env eos w h = (a, w', h') \<Longrightarrow> cache_ok seen w \<Longrightarrow> cache_ok seen w'"
  by (auto simp: on_request_headers_def Let_def case_prod_beta
      split: if_splits prod.splits dest!: dispatch_verify_cache)

lemma answered_cache: "answered sha tr w rs seen \<Longrightarrow> cache_ok seen w"
proof (induction rule: answered.induct)
  case (an_start raw ok w)
  then have "shared w = (\<lambda>_. None)"
    by (auto simp: on_plugin_start_def fresh_worker_def split: option.splits if_splits)
  then show ?case by (simp add: cache_ok_def)
next
  case (an_verified w rs seen i h p env hs b w' h')
  then show ?case using on_call_response_cache(1) unfolding on_verify_response_def by blast
next
  case (an_usage_answer w rs seen i h p env hs b w' h')
  then show ?case using on_call_response_cache(1) [of env 0 hs b w h w' h' seen True]
      on_call_response_cache(2) [of env 0 hs b w h w' h' seen] by (simp add: on_usage_response_def)
qed (auto intro: cache_ok_tick on_request_headers_cache on_request_body_cache)

text \<open>
  The digest of a request is set by its headers only.  A digest without NUL (it is hexadecimal) can be told from
  the model in a cache key.
\<close>

lemma apply_verdict_digest: "apply_verdict env v w h = (w', h') \<Longrightarrow> last_digest h' = last_digest h"
  by (auto simp: apply_verdict_def Let_def split: prod.splits if_splits)

lemma dispatch_verify_digest: "dispatch_verify env w h = (w', h') \<Longrightarrow> last_digest h' = last_digest h"
  by (auto simp: dispatch_verify_def unavailable_def dest: apply_verdict_digest split: option.splits)

lemma on_request_body_digest: "on_request_body env eos w h = (a, w', h') \<Longrightarrow> last_digest h' = last_digest h"
  by (auto simp: on_request_body_def Let_def dest!: dispatch_verify_digest split: if_splits prod.splits option.splits)

lemma on_call_response_digest: "on_call_response env i hs b w h = (w', h') \<Longrightarrow> last_digest h' = last_digest h"
  by (auto simp: on_call_response_def Let_def unavailable_def dest!: apply_verdict_digest split: if_splits option.splits)

lemma emit_usage_digest: "last_digest (emit_usage w h) = last_digest h"
  by (simp add: emit_usage_def Let_def split: option.split)

lemma response_digest:
  "on_response_body f eos w h = (a, h') \<Longrightarrow> last_digest h' = last_digest h" "last_digest (on_stream_done w h) = last_digest h"
  by (auto simp: on_response_body_def on_stream_done_def Let_def emit_usage_digest split: option.splits)

lemma on_request_headers_digest:
  "on_request_headers sha env eos w new_http_context = (a, w', h') \<Longrightarrow> last_digest h' = [] \<or> (\<exists>k. last_digest h' = key_digest sha k)"
  by (auto simp: on_request_headers_def Let_def new_http_context_def unavailable_def case_prod_beta
      dest!: dispatch_verify_digest split: if_splits prod.splits)

definition no_nul :: "string \<Rightarrow> bool" where
  "no_nul s = (CHR 0x00 \<notin> set s)"

lemma answered_digests:
  assumes "answered sha tr w rs seen" "\<And>s. no_nul (sha s)"
  shows "(\<forall>a\<in>set seen. no_nul (an_digest a)) \<and> (\<forall>i h p. rs i = Some (h, p) \<longrightarrow> no_nul (last_digest h))"
  using assms(1)
proof (induction rule: answered.induct)
  case (an_headers w rs seen i env eos a w' h')
  then show ?case using on_request_headers_digest [OF an_headers(3)] assms(2) by (auto simp: no_nul_def key_digest_def)
next
  case (an_verified w rs seen i h p env hs b w' h')
  then show ?case using on_call_response_digest [OF an_verified(4) [unfolded on_verify_response_def]] by (auto simp: answer_of_def)
next
  case (an_usage_answer w rs seen i h p env hs b w' h')
  then show ?case using on_call_response_digest [OF an_usage_answer(4) [unfolded on_usage_response_def]] by (auto simp: answer_of_def)
next
  case (an_body w rs seen i h p env eos a w' h')
  then show ?case using on_request_body_digest [OF an_body(3)] by auto
next
  case (an_response w rs seen i h p f eos a h')
  then show ?case using response_digest(1) [OF an_response(3)] by auto
qed (auto simp: response_digest(2))

lemma cache_key_inject:
  assumes "no_nul d" "no_nul d'" "cache_key d m = cache_key d' m'"
  shows "d = d'" "m = m'"
proof -
  have t: "takeWhile (\<lambda>c. c \<noteq> CHR 0x00) (cache_key d m) = d" if "no_nul d" for d m
    using that by (auto simp: cache_key_def no_nul_def takeWhile_append)
  show "d = d'" using t [OF assms(1), of m] t [OF assms(2), of m'] assms(3) by simp
  then show "m = m'" using assms(3) by (simp add: cache_key_def split: if_splits)
qed

lemma format_no_bar: "CHR ''|'' \<notin> set (format_int i)"
  using digits_no_bar [of i] by (cases "0 \<le> i") (simp_all add: format_int_def format_loop.simps)

lemma decode_encode_fields:
  assumes "decode_verdict (encode_verdict u) = Some v"
  shows "v_allowed v = v_allowed u" "v_reserve v = v_reserve u"
    "v_key_id v = sanitize_field (v_key_id u)" "v_organization_id v = sanitize_field (v_organization_id u)"
    "v_owner_user_id v = sanitize_field (v_owner_user_id u)" "v_project_id v = sanitize_field (v_project_id u)"
    "report_number (v_fetched_at u) \<Longrightarrow> v_fetched_at v = v_fetched_at u"
proof -
  let ?nums = "[v_code u, v_rate_limit_rpm u, v_rate_limit_tpm u, v_max_concurrent u,
      v_max_output_tokens u, v_fetched_at u]"
  let ?parts = "[bool_field (v_allowed u)] @ map format_int ?nums
      @ [sanitize_field (v_organization_id u), sanitize_field (v_key_id u),
         sanitize_field (v_owner_user_id u), sanitize_field (v_project_id u), bool_field (v_reserve u)]"
  have "\<forall>w\<in>set ?parts. CHR ''|'' \<notin> set w"
    using format_no_bar by (simp add: sanitize_field_def bool_field_def)
  then have "split_at (CHR ''|'') (join_with (CHR ''|'') ?parts) = ?parts"
    by (intro split_join) simp_all
  then have s: "split_at (CHR ''|'') (encode_verdict u) = ?parts"
    by (simp add: encode_verdict_def)
  obtain ns where ns: "parse_ints (map format_int ?nums) = Some ns" "v_fetched_at v = ns ! 5"
    "v_allowed v = v_allowed u" "v_reserve v = v_reserve u"
    "v_key_id v = sanitize_field (v_key_id u)" "v_organization_id v = sanitize_field (v_organization_id u)"
    "v_owner_user_id v = sanitize_field (v_owner_user_id u)" "v_project_id v = sanitize_field (v_project_id u)"
    using assms unfolding decode_verdict_def s Let_def
    by (simp add: nth_Cons' split: option.splits if_splits) auto
  then show "v_allowed v = v_allowed u" "v_reserve v = v_reserve u"
    "v_key_id v = sanitize_field (v_key_id u)" "v_organization_id v = sanitize_field (v_organization_id u)"
    "v_owner_user_id v = sanitize_field (v_owner_user_id u)" "v_project_id v = sanitize_field (v_project_id u)" by auto
  assume r: "report_number (v_fetched_at u)"
  have "\<exists>xs. length xs = 5 \<and> ns = xs @ [v_fetched_at u]"
    using ns(1) parse_ints_format [of "[v_fetched_at u]"] r by (auto split: option.splits)
  then show "v_fetched_at v = v_fetched_at u" using ns(2) by (auto simp: nth_append)
qed

text \<open>C11. What the local cache can answer: a verdict served from it for a key's digest and a model was an answer this
  worker took for a request with the same digest and the same model - the answer to its verification, or to the
  usage call of a request that was itself admitted from the cache - not a reserved one, with the same decision, key,
  organization, owner and project, and it came at most the configured time ago.\<close>
theorem cached_verdict_sound:
  assumes "answered sha tr w rs seen" "\<forall>s. no_nul (sha s)" "clock w \<le> 2 ^ 53"
    and "last_digest h = key_digest sha k" "cached_verdict c h w = Some v"
  shows "\<exists>a\<in>set seen. \<exists>b u. an_digest a = key_digest sha k \<and> an_model a = rq_model h \<and> an_body a = Some b
    \<and> parse_verdict b = Some u \<and> \<not> v_reserve u \<and> v_allowed v = v_allowed u \<and> v_key_id v = sanitize_field (v_key_id u)
    \<and> v_organization_id v = sanitize_field (v_organization_id u) \<and> v_owner_user_id v = sanitize_field (v_owner_user_id u)
    \<and> v_project_id v = sanitize_field (v_project_id u)
    \<and> v_fetched_at v = an_second a \<and> 1 \<le> an_second a \<and> an_second a \<le> now_seconds w
    \<and> now_seconds w - an_second a \<le> cache_ttl_ms c div 1000"
proof -
  obtain e where e: "shared w (shared_prefix_verdict @ cache_key (last_digest h) (rq_model h)) = Some e"
    "decode_verdict e = Some v" "now_seconds w - v_fetched_at v \<le> cache_ttl_ms c div 1000"
    using assms(5) by (auto simp: cached_verdict_def not_less split: option.splits if_splits)
  obtain a where a: "a \<in> set seen" "entry_of (now_seconds w) a (cache_key (last_digest h) (rq_model h)) e"
    using answered_cache [OF assms(1)] e(1) unfolding cache_ok_def by blast
  then obtain b u where u: "cache_key (last_digest h) (rq_model h) = cache_key (an_digest a) (an_model a)" "an_body a = Some b"
    "parse_verdict b = Some u" "\<not> v_reserve u" "1 \<le> an_second a" "an_second a \<le> now_seconds w"
    "e = encode_verdict (u\<lparr>v_fetched_at := an_second a\<rparr>)"
    unfolding entry_of_def by (cases "an_body a") auto
  have "no_nul (an_digest a)" "no_nul (last_digest h)"
    using answered_digests [OF assms(1)] assms(2,4) a(1) by (auto simp: key_digest_def)
  from cache_key_inject [OF this(2,1) u(1)]
  have k: "an_digest a = key_digest sha k" "an_model a = rq_model h" using assms(4) by simp_all
  have "report_number (an_second a)" using u(5,6) assms(3) by (auto simp: report_number_def now_seconds_def split: if_splits)
  then show ?thesis using decode_encode_fields [of "u\<lparr>v_fetched_at := an_second a\<rparr>" v] e a(1) k u(2-7)
    by (intro bexI [of _ a] exI [of _ b] exI [of _ u]) auto
qed

section \<open>A concrete run\<close>

definition demo_env :: host where
  "demo_env = \<lparr>hdr = (\<lambda>k. if k = '':path'' then ''/v1/chat'' else if k = ''authorization''
       then ''Bearer sk-0123456789012345678901234567890123456789abc'' else ''r''),
     body_read = None, dispatch_id = Some 7, replace_ok = True, set_ok = True\<rparr>"

definition demo_config :: string where
  "demo_config = ''{\"cluster\":\"c\",\"host\":\"h\",\"token\":\"t\"}''"

definition demo_worker :: worker where
  "demo_worker = snd (on_plugin_start demo_config fresh_worker)"

definition demo_asked :: "worker \<times> http_ctx" where
  "demo_asked = snd (on_request_headers (\<lambda>s. s) demo_env True demo_worker new_http_context)"

definition demo_run :: "worker \<times> http_ctx" where
  "demo_run = on_verify_response demo_env [('':status'', ''200'')] (Some ''{\"allowed\":true}'')
     (fst demo_asked) (snd demo_asked)"

lemma demo_facts:
  "verify_pending (snd demo_asked)" "is_protected (snd demo_run)" "\<not> rejected (snd demo_run)"
  "Resume \<in> set (effects (snd demo_run))" "clock (fst demo_run) = 0"
  "rq_model (snd demo_run) = []" "looks_like_api_key (bearer_token (hdr demo_env ''authorization''))"
  "protects demo_worker (strip_query (hdr demo_env '':path''))" "fst (on_plugin_start demo_config fresh_worker)"
  by code_simp+

lemma demo_system:
  "\<exists>rs. system (\<lambda>s. s) tr (fst demo_run) rs \<and> rs 0 = Some (snd demo_run, False)"
proof -
  let ?rs = "(\<lambda>_. None)(0 \<mapsto> (snd demo_asked, False))"
  have "on_plugin_start demo_config fresh_worker = (fst (on_plugin_start demo_config fresh_worker), demo_worker)"
    by (simp add: demo_worker_def)
  then have s: "system (\<lambda>s. s) tr demo_worker (\<lambda>_. None)" by (rule sys_start)
  have "on_request_headers (\<lambda>s. s) demo_env True demo_worker new_http_context = (Pause, fst demo_asked, snd demo_asked)"
    unfolding demo_asked_def prod_eq_iff by (simp, code_simp)
  from sys_headers [OF s _ this, of 0] have s: "system (\<lambda>s. s) tr (fst demo_asked) ?rs" by simp
  have "event tr (fst demo_asked, snd demo_asked, False) (fst demo_run, snd demo_run, False)"
    by (rule ev_verified [OF demo_facts(1)]) (simp add: demo_run_def)
  from sys_event [OF s _ this, of 0] show ?thesis by force
qed

text \<open>C1. Authorization fails closed: in every reachable state of a worker serving any number of
  interleaved requests without trailers, a protected request that was let through (resumed by the
  plugin or continued by a return value) and not answered locally holds an allowing verdict.\<close>
theorem fail_closed:
  assumes "system sha False w rs" "rs i = Some (h, passed)" "is_protected h" "\<not> rejected h"
    "passed \<or> Resume \<in> set (effects h)"
  shows "\<exists>v. the_verdict h = Some v \<and> v_allowed v"
  using system_ok [OF assms(1,2)] assms(3-5) by (auto simp: request_ok_def rq_ok_def)

theorem fail_closed_witness:
  "\<exists>v. the_verdict (snd demo_run) = Some v \<and> v_allowed v"
  using demo_system demo_facts fail_closed by metis

text \<open>The trailers gap: on a configured worker, any string shaped like a key lets a protected
  request with trailers through although nothing was verified: the body frames carry no end of
  stream, and the trailers handler continues the stream.\<close>
theorem trailers_bypass:
  fixes env :: host
  assumes "fst (on_plugin_start raw fresh_worker)" "w = snd (on_plugin_start raw fresh_worker)"
    "hdr env '':path'' \<noteq> []" "protects w (strip_query (hdr env '':path''))"
    "hdr env ''x-request-id'' \<noteq> []" "looks_like_api_key (bearer_token (hdr env ''authorization''))"
  shows "\<exists>w' rs h. system sha True w' rs \<and> rs 0 = Some (h, True) \<and> is_protected h \<and> \<not> rejected h
    \<and> the_verdict h = None \<and> (\<forall>b. DispatchVerify b \<notin> set (effects h))"
proof -
  have "on_plugin_start raw fresh_worker = (fst (on_plugin_start raw fresh_worker), w)"
    using assms(2) by simp
  then have s: "system sha True w (\<lambda>_. None)" by (rule sys_start)
  have c: "cfg w \<noteq> None"
    using assms(1,2) by (auto simp: on_plugin_start_def split: option.splits if_splits)
  have t: "bearer_token (hdr env ''authorization'') \<noteq> []"
    using assms(6) by (auto simp: looks_like_api_key_def)
  obtain h where h: "on_request_headers sha env False w new_http_context = (Continue, w, h)"
    "is_protected h" "\<not> rejected h" "the_verdict h = None" "\<forall>b. DispatchVerify b \<notin> set (effects h)"
    using assms(3-6) c t
    by (simp add: on_request_headers_def Let_def new_http_context_def)
  have r: "system sha True w ((\<lambda>_. None)(0 \<mapsto> (h, False)))"
    using sys_headers [OF s _ h(1), of 0] by simp
  have "event True (w, h, False) (w, h, True)"
    using ev_trailers [of True w h False] by (simp add: on_request_trailers_def)
  from sys_event [OF r _ this, of 0] have
    "system sha True w ((\<lambda>_. None)(0 \<mapsto> (h, False), 0 \<mapsto> (h, True)))" by simp
  then show ?thesis using h by fastforce
qed

theorem trailers_bypass_witness:
  "\<exists>w' rs h. system (\<lambda>s. s) True w' rs \<and> rs 0 = Some (h, True) \<and> is_protected h \<and> \<not> rejected h
    \<and> the_verdict h = None \<and> (\<forall>b. DispatchVerify b \<notin> set (effects h))"
  by (rule trailers_bypass [of demo_config demo_worker demo_env])
    (use demo_facts in \<open>simp_all add: demo_worker_def\<close>, simp_all add: demo_env_def)

text \<open>C10. Metering happens at most once per request, and only for a request the platform allowed: over
  any run, at most one usage report is dispatched, and if one was, the request holds an allowing
  verdict.\<close>
theorem usage_reported_once:
  assumes "system sha tr w rs" "rs i = Some (h, passed)"
  shows "usage_calls h \<le> 1 \<and> (0 < usage_calls h \<longrightarrow> (\<exists>v. the_verdict h = Some v \<and> v_allowed v))"
  using system_ok [OF assms] by (auto simp: request_ok_def rq_ok_def)

theorem usage_reported_once_witness: "usage_calls (snd demo_run) \<le> 1"
  using demo_system usage_reported_once by metis

text \<open>The filter never dereferences a missing configuration: in no reachable state, with or without
  trailers, has a handler panicked, although a worker whose configuration was refused serves requests.\<close>
theorem never_panics:
  assumes "system sha tr w rs" "rs i = Some (h, passed)"
  shows "\<not> panicked h"
  using system_ok [OF assms] by (simp add: request_ok_def rq_ok_def)

theorem never_panics_witness: "\<not> panicked (snd demo_run)"
  using demo_system never_panics by metis

section \<open>The usage answer\<close>

definition usage_answer :: string where
  "usage_answer = ''{\"voucher_id\":\"v1\"}''"

lemma usage_answer_denies:
  "parse_verdict usage_answer = Some \<lparr>v_allowed = False, v_code = 0, v_message = [],
     v_organization_id = [], v_key_id = [], v_role = [], v_rate_limit_rpm = 0, v_rate_limit_tpm = 0,
     v_max_concurrent = 0, v_max_output_tokens = 0, v_owner_user_id = [], v_project_id = [],
     v_fetched_at = 0, v_reserve = False\<rparr>"
  by code_simp

lemma reject_local_same [simp]:
  "rq_id (reject_local c m t e h) = rq_id h"
  by (simp add: reject_local_def emit_def)

text \<open>The usage answer is taken for a verdict: when a request was admitted from the cache, its
  verification callout id is still 0, the id under which the usage callback reports; the platform's
  accepting answer is then parsed as a verdict, denies, is cached for the digest and model until the
  TTL ends, and answers the finished request with a local rejection.\<close>
theorem usage_answer_poisons_cache:
  fixes w :: worker and h :: http_ctx and env :: host
  assumes "cfg w = Some c" "0 < cache_ttl_ms c" "clock w \<le> 2 ^ 53" "set_ok env"
    "verify_call_id h = 0" "last_digest h \<noteq> []"
  shows "\<exists>w' h' v. on_usage_response env [('':status'', ''200'')] (Some usage_answer) w h = (w', h')
    \<and> rejected h' \<and> cached_verdict c h w' = Some v \<and> \<not> v_allowed v"
proof -
  let ?h = "h\<lparr>verify_pending := False\<rparr>"
  let ?v = "\<lparr>v_allowed = False, v_code = 0, v_message = [],
     v_organization_id = [], v_key_id = [], v_role = [], v_rate_limit_rpm = 0, v_rate_limit_tpm = 0,
     v_max_concurrent = 0, v_max_output_tokens = 0, v_owner_user_id = [], v_project_id = [],
     v_fetched_at = now_seconds w, v_reserve = False\<rparr>"
  let ?w = "store_verdict env c ?v ?h w"
  have ok: "http_status_ok [('':status'', ''200'')]" by code_simp
  have "on_usage_response env [('':status'', ''200'')] (Some usage_answer) w h = apply_verdict env ?v ?w ?h"
    using assms ok by (simp add: on_usage_response_def on_call_response_def usage_answer_denies Let_def)
  also have "\<dots> = (?w, reject_local 503 ''request not authorized'' ''server_error'' ''service_unavailable'' ?h)"
    by (simp add: apply_verdict_def rejection_def)
  finally have r: "on_usage_response env [('':status'', ''200'')] (Some usage_answer) w h = \<dots>" .
  have n: "verdict_numbers ?v"
    using assms(3) by (simp add: verdict_numbers_def report_number_def now_seconds_def)
  have e: "shared ?w (shared_prefix_verdict @ cache_key (last_digest h) (rq_model h)) = Some (encode_verdict ?v)"
    using assms by (simp add: store_verdict_def set_shared_def)
  have ne: "encode_verdict ?v \<noteq> []" by (simp add: encode_verdict_def bool_field_def)
  have "now_seconds ?w = now_seconds w" by (rule now_seconds_cong) simp
  then have "cached_verdict c h ?w = Some ?v"
    using assms(2,6) ne decode_encoded [OF n]
    by (simp add: cached_verdict_def e sanitize_field_def)
  then show ?thesis using r by fastforce
qed

theorem usage_answer_poisons_cache_witness:
  "\<exists>w' h' v. on_usage_response demo_env [('':status'', ''200'')] (Some usage_answer)
      (fresh_worker\<lparr>cfg := Some default_config\<rparr>) (new_http_context\<lparr>last_digest := ''d''\<rparr>) = (w', h')
    \<and> rejected h' \<and> cached_verdict default_config (new_http_context\<lparr>last_digest := ''d''\<rparr>) w' = Some v
    \<and> \<not> v_allowed v"
  by (rule usage_answer_poisons_cache)
    (simp_all add: default_config_def fresh_worker_def demo_env_def new_http_context_def)

section \<open>Request ids\<close>

definition base36_val :: "char \<Rightarrow> nat" where
  "base36_val c = (if is_digit c then digit_val c else byte c - 87)"

definition base36_char :: "char \<Rightarrow> bool" where
  "base36_char c = (is_digit c \<or> (97 \<le> byte c \<and> byte c < 123))"

lemma base36_digit_facts:
  assumes "d < 36"
  shows "base36_val (base36_digit d) = d" "base36_char (base36_digit d)"
proof -
  have "byte (char_of (87 + d) :: char) = 87 + d"
    using assms by (simp add: byte_def)
  then show "base36_val (base36_digit d) = d" "base36_char (base36_digit d)"
    using assms by (auto simp: base36_val_def base36_char_def base36_digit_def is_digit_def)
qed

definition base36_read :: "string \<Rightarrow> nat" where
  "base36_read s = foldl (\<lambda>a c. 36 * a + base36_val c) 0 s"

lemma base36_loop_digits:
  "\<exists>ds. base36_loop v acc = ds @ acc \<and> base36_read ds = v \<and> (\<forall>c\<in>set ds. base36_char c)"
proof (induction v acc rule: base36_loop.induct)
  case (1 v acc)
  show ?case
  proof (cases "v = 0")
    case True
    then show ?thesis by (intro exI [of _ "[]"]) (simp add: base36_loop.simps base36_read_def)
  next
    case False
    let ?d = "base36_digit (v mod 36)"
    obtain ds where "base36_loop (v div 36) (?d # acc) = ds @ ?d # acc" "base36_read ds = v div 36"
      "\<forall>c\<in>set ds. base36_char c" using "1.IH" [OF False] by auto
    then show ?thesis using False base36_digit_facts [of "v mod 36"]
      by (intro exI [of _ "ds @ [?d]"]) (simp add: base36_loop.simps [of v] base36_read_def)
  qed
qed

lemma format_base36_digits:
  assumes "0 \<le> v"
  shows "base36_read (format_base36 v) = nat v" "\<forall>c\<in>set (format_base36 v). base36_char c"
proof -
  have "base36_val (CHR ''0'') = 0" "base36_char (CHR ''0'')"
    by (simp_all add: base36_val_def base36_char_def is_digit_def digit_val_def byte_def)
  then show "base36_read (format_base36 v) = nat v" "\<forall>c\<in>set (format_base36 v). base36_char c"
    using base36_loop_digits [of "nat v" "[]"] assms
    by (auto simp: format_base36_def base36_read_def)
qed

lemma format_base36_inject:
  "0 \<le> v \<Longrightarrow> 0 \<le> u \<Longrightarrow> format_base36 v = format_base36 u \<longleftrightarrow> v = u"
  by (metis format_base36_digits(1) eq_nat_nat_iff)

lemma base36_no_dash: "0 \<le> v \<Longrightarrow> CHR ''-'' \<notin> set (format_base36 v)"
  using format_base36_digits(2) [of v] by (auto simp: base36_char_def is_digit_def byte_def)

text \<open>When two generated request ids are equal: exactly when the two requests started at the same
  coarse second and got the same counter value.  Within a worker the counter tells them apart (up to
  its 32-bit wrap); the worker itself is not part of the id, so two workers started together give
  their requests the same ids, and metering, which is idempotent by request id, keeps one of them.\<close>
theorem generated_ids_equal:
  fixes w w' :: worker and h h' :: http_ctx
  assumes "0 \<le> started_at h" "0 \<le> started_at h'"
  shows "snd (generate_request_id w h) = snd (generate_request_id w' h')
    \<longleftrightarrow> started_at h = started_at h' \<and> (vm_id w + 1) mod 2 ^ 32 = (vm_id w' + 1) mod 2 ^ 32"
proof -
  have "0 \<le> (vm_id x + 1) mod 2 ^ 32" for x :: worker by simp
  then show ?thesis
    using assms base36_no_dash [OF assms(1)] base36_no_dash [OF assms(2)]
    by (simp add: generate_request_id_def Let_def sep_split format_base36_inject)
qed

theorem generated_ids_equal_witness:
  "snd (generate_request_id fresh_worker new_http_context)
   \<noteq> snd (generate_request_id (fst (generate_request_id fresh_worker new_http_context)) new_http_context)"
  by (subst generated_ids_equal) (simp_all add: new_http_context_def generate_request_id_def fresh_worker_def)

section \<open>The response tail\<close>

definition last_bytes :: "nat \<Rightarrow> string \<Rightarrow> string" where
  "last_bytes n s = rev (take n (rev s))"

lemma last_bytes_drop: "last_bytes n s = drop (length s - n) s"
  by (simp add: last_bytes_def rev_take)

lemma append_tail_last: "length buf \<le> n \<Longrightarrow> append_tail buf f n = last_bytes n (buf @ f)"
  by (auto simp: append_tail_def last_bytes_drop)

lemma last_bytes_append: "last_bytes n (last_bytes n s @ f) = last_bytes n (s @ f)"
  by (simp add: last_bytes_def min_def)

lemma last_bytes_length: "length (last_bytes n s) \<le> n"
  by (simp add: last_bytes_def)

lemma response_frames:
  "length (response_tail h) \<le> max_response_tail \<Longrightarrow>
   response_tail (foldl (\<lambda>h f. snd (on_response_body (Some f) False w h)) h frames)
   = last_bytes max_response_tail (response_tail h @ concat frames)"
proof (induction frames arbitrary: h)
  case Nil then show ?case by (simp add: last_bytes_drop)
next
  case (Cons f frames)
  then show ?case
    by (simp add: on_response_body_def append_tail_last last_bytes_length last_bytes_append)
qed

text \<open>Metering reads the right end of the answer however it is chunked: after any frames, the kept
  tail is the last 32 KiB of the whole response.\<close>
theorem response_tail_is_suffix:
  "response_tail (foldl (\<lambda>h f. snd (on_response_body (Some f) False w h)) new_http_context frames)
   = drop (length (concat frames) - 32768) (concat frames)"
  using response_frames [of new_http_context w frames]
  by (simp add: new_http_context_def last_bytes_drop max_response_tail_def)

text \<open>A run for the cache: one request is asked about and answered, and the answer is then served from the cache.\<close>

definition demo_sha :: "string \<Rightarrow> string" where
  "demo_sha s = filter (\<lambda>c. c \<noteq> CHR 0x00) s"

definition demo_answer :: answer where
  "demo_answer = answer_of False (snd demo_asked) (Some ''{\"allowed\":true}'') (fst demo_asked)"

lemma on_request_headers_sha:
  "key_digest sha (bearer_token (hdr env ''authorization'')) = key_digest sha' (bearer_token (hdr env ''authorization''))
   \<Longrightarrow> on_request_headers sha env eos w h = on_request_headers sha' env eos w h"
  unfolding on_request_headers_def by presburger

lemma demo_answered: "\<exists>rs. answered demo_sha True (fst demo_run) rs [demo_answer]"
proof -
  have "on_plugin_start demo_config fresh_worker = (fst (on_plugin_start demo_config fresh_worker), demo_worker)"
    by (simp add: demo_worker_def)
  then have s: "answered demo_sha True demo_worker (\<lambda>_. None) []" by (rule an_start)
  have "on_request_headers demo_sha demo_env True demo_worker new_http_context
      = on_request_headers (\<lambda>s. s) demo_env True demo_worker new_http_context"
    by (rule on_request_headers_sha) code_simp
  also have "\<dots> = (Pause, fst demo_asked, snd demo_asked)"
    unfolding demo_asked_def prod_eq_iff by (simp, code_simp)
  finally have h: "on_request_headers demo_sha demo_env True demo_worker new_http_context
      = (Pause, fst demo_asked, snd demo_asked)" .
  from an_headers [OF s _ h, of 0]
  have s: "answered demo_sha True (fst demo_asked) ((\<lambda>_. None)(0 \<mapsto> (snd demo_asked, False))) []" by simp
  have "on_verify_response demo_env [('':status'', ''200'')] (Some ''{\"allowed\":true}'') (fst demo_asked) (snd demo_asked)
      = (fst demo_run, snd demo_run)" by (simp add: demo_run_def)
  from an_verified [OF s _ demo_facts(1) this, of 0] show ?thesis by (auto simp: demo_answer_def)
qed

lemma demo_cached: "cached_verdict default_config (snd demo_run) (fst demo_run) \<noteq> None"
  by code_simp

lemma demo_digest:
  "last_digest (snd demo_run) = key_digest demo_sha ''sk-0123456789012345678901234567890123456789abc''"
  by code_simp

theorem cached_verdict_sound_witness:
  "\<exists>v b u. cached_verdict default_config (snd demo_run) (fst demo_run) = Some v
    \<and> an_digest demo_answer = key_digest demo_sha ''sk-0123456789012345678901234567890123456789abc''
    \<and> an_model demo_answer = [] \<and> an_body demo_answer = Some b
    \<and> parse_verdict b = Some u \<and> \<not> v_reserve u \<and> v_allowed v = v_allowed u
    \<and> v_fetched_at v = an_second demo_answer \<and> now_seconds (fst demo_run) - an_second demo_answer \<le> 5"
proof -
  obtain rs where r: "answered demo_sha True (fst demo_run) rs [demo_answer]" using demo_answered by blast
  obtain v where v: "cached_verdict default_config (snd demo_run) (fst demo_run) = Some v" using demo_cached by blast
  have n: "\<forall>s. no_nul (demo_sha s)" by (simp add: no_nul_def demo_sha_def)
  have "clock (fst demo_run) \<le> 2 ^ 53" by (simp add: demo_facts(5))
  from cached_verdict_sound [OF r n this demo_digest v] v demo_facts(6) show ?thesis
    by (simp add: default_config_def) blast
qed

end
