(* ===== verification/KeyVerify.thy ===== *)
theory KeyVerify
  imports Prelude
begin

text \<open>
  Verification of API keys (\<open>services/auth\<close>: \<open>VerifyAPIKey\<close> of \<open>service.go\<close>, the verdict cache of
  \<open>apikey_cache.go\<close>, the funds cache of \<open>funds.go\<close>, the model grants of \<open>model_authorizer.go\<close> and the
  lookups of \<open>apikey_repository.go\<close>).  The state is the table of keys, the two Redis caches with the
  time each entry dies at, and the process-local funds cache.  Every call is given its environment:
  the clock (one reading per call), which Redis and database accesses work, Argon2id as a function of
  digest and salt, the quota readers, the model authorizer and the funds gate over a state of its own.
  An error is its business code; an error that carries none has the code 500, as \<open>CodeOf\<close> gives it.
\<close>

section \<open>Data\<close>

record api_key =
  key_id :: string
  key_name :: string
  key_lookup :: string
  key_salt :: string
  key_hash :: string
  key_org :: string
  key_owner :: "string option"
  key_project :: "string option"
  key_expires :: "int option"
  key_revoked :: bool
  key_revoked_at :: "int option"
  key_rpm :: int
  key_tpm :: int
  key_models :: "string list"
  key_system :: bool

record key_verdict =
  kv_org :: string
  kv_key :: string
  kv_role :: string
  kv_rpm :: int
  kv_tpm :: int
  kv_concurrent :: int
  kv_output :: int
  kv_models :: "string list"
  kv_owner :: string
  kv_project :: string
  kv_system :: bool

record funds_decision =
  fd_allowed :: bool
  fd_reason :: string
  fd_expires :: int

record auth_state =
  api_keys :: "api_key list"
  verdicts :: "string \<rightharpoonup> key_verdict \<times> int"
  model_verdicts :: "string \<rightharpoonup> bool \<times> int"
  funds_cache :: "(string \<times> funds_decision) list"

definition empty_auth :: auth_state where
  "empty_auth = \<lparr>api_keys = [], verdicts = Map.empty, model_verdicts = Map.empty, funds_cache = []\<rparr>"

record funds_hint =
  fh_request :: string
  fh_max_tokens :: int

definition with_funds_hint :: "string \<Rightarrow> int \<Rightarrow> funds_hint" where
  "with_funds_hint rid n = \<lparr>fh_request = trim_space rid, fh_max_tokens = n\<rparr>"

definition no_hint :: funds_hint where
  "no_hint = \<lparr>fh_request = [], fh_max_tokens = 0\<rparr>"

text \<open>\<open>None\<close> is the error of a dependency.\<close>

record model_authorizer =
  ma_authorized :: "string \<Rightarrow> string \<Rightarrow> bool option"
  ma_resolve :: "string \<Rightarrow> string option"

record 'g funds_gate =
  fg_check :: "string \<Rightarrow> string \<Rightarrow> string \<Rightarrow> string \<Rightarrow> string \<Rightarrow> int \<Rightarrow> 'g \<Rightarrow> (bool \<times> string) option \<times> 'g"
  fg_active :: bool

record 'g auth_env =
  ae_now :: int
  ae_db :: bool
  ae_get :: bool
  ae_set :: bool
  ae_del :: bool
  ae_mget :: bool
  ae_mset :: bool
  ae_argon :: "string \<Rightarrow> string \<Rightarrow> string"
  ae_ttl :: int
  ae_model_ttl :: int
  ae_quota :: "(string \<Rightarrow> string \<Rightarrow> string \<Rightarrow> (int \<times> int) option) option"
  ae_org_quota :: "(string \<Rightarrow> (int \<times> int) option) option"
  ae_models :: "model_authorizer option"
  ae_gate :: "'g funds_gate option"

section \<open>Caches\<close>

text \<open>A Redis entry is there until its time to live has passed.\<close>

definition cache_get :: "int \<Rightarrow> ('k \<rightharpoonup> 'v \<times> int) \<Rightarrow> 'k \<Rightarrow> 'v option" where
  "cache_get now m k = (case m k of None \<Rightarrow> None | Some (v, dl) \<Rightarrow> if now < dl then Some v else None)"

definition cache_delete :: "bool \<Rightarrow> string \<Rightarrow> auth_state \<Rightarrow> auth_state" where
  "cache_delete works d s = (if works then s\<lparr>verdicts := (verdicts s)(d := None)\<rparr> else s)"

definition funds_cache_ttl :: int where
  "funds_cache_ttl = 5"

definition funds_cache_max :: nat where
  "funds_cache_max = 4096"

definition funds_cache_key :: "string \<Rightarrow> string \<Rightarrow> string \<Rightarrow> string" where
  "funds_cache_key org owner project = org @ CHR 0x00 # owner @ CHR 0x00 # project"

definition funds_get :: "int \<Rightarrow> string \<Rightarrow> auth_state \<Rightarrow> funds_decision option \<times> auth_state" where
  "funds_get now k s =
     (case map_of (funds_cache s) k of
        None \<Rightarrow> (None, s)
      | Some e \<Rightarrow> if fd_expires e < now then (None, s\<lparr>funds_cache := AList.delete k (funds_cache s)\<rparr>)
                  else (Some e, s))"

definition funds_set :: "int \<Rightarrow> string \<Rightarrow> funds_decision \<Rightarrow> auth_state \<Rightarrow> auth_state" where
  "funds_set now k e s =
     (let kept = (if length (funds_cache s) < funds_cache_max then funds_cache s
                  else filter (\<lambda>(k, v). \<not> fd_expires v < now) (funds_cache s));
          room = (if length kept < funds_cache_max then kept else [])
      in s\<lparr>funds_cache := AList.update k e room\<rparr>)"

section \<open>Verification\<close>

definition hex_char :: "char \<Rightarrow> bool" where
  "hex_char c = (is_digit c \<or> 97 \<le> byte c \<and> byte c \<le> 102)"

definition is_valid_digest :: "string \<Rightarrow> bool" where
  "is_valid_digest d = (length d = 64 \<and> list_all hex_char d)"

definition find_by_lookup_hash :: "string \<Rightarrow> auth_state \<Rightarrow> api_key option" where
  "find_by_lookup_hash d s = find (\<lambda>k. key_lookup k = d) (api_keys s)"

definition deref :: "string option \<Rightarrow> string" where
  "deref v = (case v of None \<Rightarrow> [] | Some x \<Rightarrow> x)"

definition effective_hot_path_caps :: "'g auth_env \<Rightarrow> api_key \<Rightarrow> int \<times> int" where
  "effective_hot_path_caps env row =
     (let org_rule = (case ae_org_quota env of
            None \<Rightarrow> (0, 0)
          | Some f \<Rightarrow> (case f (key_org row) of None \<Rightarrow> (0, 0) | Some q \<Rightarrow> q))
      in case ae_quota env of
           None \<Rightarrow> org_rule
         | Some f \<Rightarrow> (case f (key_org row) (deref (key_project row)) (deref (key_owner row)) of
                        None \<Rightarrow> org_rule | Some q \<Rightarrow> q))"

definition verdict_of :: "'g auth_env \<Rightarrow> api_key \<Rightarrow> key_verdict" where
  "verdict_of env row =
     \<lparr>kv_org = key_org row, kv_key = key_id row, kv_role = ''agent'', kv_rpm = key_rpm row,
      kv_tpm = key_tpm row, kv_concurrent = fst (effective_hot_path_caps env row),
      kv_output = snd (effective_hot_path_caps env row), kv_models = key_models row,
      kv_owner = deref (key_owner row), kv_project = deref (key_project row), kv_system = key_system row\<rparr>"

definition past :: "int option \<Rightarrow> int \<Rightarrow> bool" where
  "past expires now = (case expires of None \<Rightarrow> False | Some t \<Rightarrow> t < now)"

text \<open>The cached verdict, or the one the key's row gives, which is then cached.\<close>

definition lookup_verdict :: "'g auth_env \<Rightarrow> string \<Rightarrow> auth_state \<Rightarrow> (int + key_verdict) \<times> auth_state" where
  "lookup_verdict env d s =
     (if \<not> ae_get env then (Inl 500, s)
      else case cache_get (ae_now env) (verdicts s) d of
        Some v \<Rightarrow> (Inr v, s)
      | None \<Rightarrow>
          if \<not> ae_db env then (Inl 500, s)
          else (case find_by_lookup_hash d s of
             None \<Rightarrow> (Inl 10007, s)
           | Some row \<Rightarrow>
               if key_revoked row then (Inl 10009, s)
               else if past (key_expires row) (ae_now env) then (Inl 10010, s)
               else if ae_argon env d (key_salt row) \<noteq> key_hash row then (Inl 10008, s)
               else (Inr (verdict_of env row),
                     if ae_set env
                     then s\<lparr>verdicts := (verdicts s)(d \<mapsto> (verdict_of env row, ae_now env + ae_ttl env))\<rparr>
                     else s)))"

definition in_key_models :: "'g auth_env \<Rightarrow> string list \<Rightarrow> string \<Rightarrow> bool" where
  "in_key_models env models m =
     (models = [] \<or> m = []
      \<or> (let requested = (case ae_models env of
               None \<Rightarrow> trim_space m
             | Some a \<Rightarrow> (case ma_resolve a (trim_space m) of
                 None \<Rightarrow> trim_space m
               | Some r \<Rightarrow> if r = [] then trim_space m else r))
         in requested \<in> set models \<or> trim_space m \<in> set models))"

definition model_auth_key :: "string \<Rightarrow> string \<Rightarrow> string" where
  "model_auth_key org m = ''taas:auth:modelauth:'' @ org @ '':'' @ m"

definition model_auth_verdict :: "bool \<Rightarrow> int option" where
  "model_auth_verdict allowed = (if allowed then None else Some 10105)"

definition check_model_authorization ::
  "'g auth_env \<Rightarrow> string \<Rightarrow> string \<Rightarrow> auth_state \<Rightarrow> int option \<times> auth_state" where
  "check_model_authorization env m org s =
     (case ae_models env of
        None \<Rightarrow> (None, s)
      | Some a \<Rightarrow>
          if m = [] then (None, s)
          else (case (if ae_mget env then cache_get (ae_now env) (model_verdicts s) (model_auth_key org m) else None) of
             Some allowed \<Rightarrow> (model_auth_verdict allowed, s)
           | None \<Rightarrow>
               (case ma_authorized a m org of
                  None \<Rightarrow> (Some 500, s)
                | Some allowed \<Rightarrow>
                    (model_auth_verdict allowed,
                     if ae_mset env
                     then s\<lparr>model_verdicts := (model_verdicts s)(model_auth_key org m
                              \<mapsto> (allowed, ae_now env + ae_model_ttl env))\<rparr>
                     else s))))"

definition clamp_hint :: "key_verdict \<Rightarrow> int \<Rightarrow> int" where
  "clamp_hint v n = (if 0 < kv_output v \<and> (n \<le> 0 \<or> kv_output v < n) then kv_output v else n)"

definition check_inference_funds ::
  "'g auth_env \<Rightarrow> funds_hint \<Rightarrow> key_verdict \<Rightarrow> string \<Rightarrow> auth_state \<times> 'g \<Rightarrow> int option \<times> auth_state \<times> 'g" where
  "check_inference_funds env hint v m sg =
     (case ae_gate env of
        None \<Rightarrow> (None, sg)
      | Some gate \<Rightarrow>
          (let (s, g) = sg; org = trim_space (kv_org v);
               reserving = (fh_request hint \<noteq> [] \<and> fg_active gate);
               k = funds_cache_key org (kv_owner v) (kv_project v);
               (hit, s1) = (if reserving then (None, s) else funds_get (ae_now env) k s)
           in if kv_system v \<or> org = [] then (None, sg)
              else case hit of
                Some e \<Rightarrow> (if fd_allowed e then None else Some 10502, s1, g)
              | None \<Rightarrow>
                  (case fg_check gate org (kv_owner v) (kv_project v) (fh_request hint) m
                          (clamp_hint v (fh_max_tokens hint)) g of
                     (None, g') \<Rightarrow> (None, s1, g')
                   | (Some (allowed, reason), g') \<Rightarrow>
                       (if allowed then None else Some 10502,
                        if reserving then s1
                        else funds_set (ae_now env) k \<lparr>fd_allowed = allowed, fd_reason = reason,
                               fd_expires = ae_now env + funds_cache_ttl\<rparr> s1,
                        g'))))"

definition verify_api_key ::
  "'g auth_env \<Rightarrow> string \<Rightarrow> string \<Rightarrow> funds_hint \<Rightarrow> auth_state \<times> 'g \<Rightarrow> (int + key_verdict) \<times> auth_state \<times> 'g" where
  "verify_api_key env d m hint sg =
     (if d = [] then (Inl 500, sg)
      else if \<not> is_valid_digest d then (Inl 10008, sg)
      else (let (s, g) = sg in case lookup_verdict env d s of
         (Inl e, s1) \<Rightarrow> (Inl e, s1, g)
       | (Inr v, s1) \<Rightarrow>
           if \<not> in_key_models env (kv_models v) m then (Inl 10039, s1, g)
           else (case check_model_authorization env m (kv_org v) s1 of
              (Some e, s2) \<Rightarrow> (Inl e, s2, g)
            | (None, s2) \<Rightarrow>
                (case check_inference_funds env hint v m (s2, g) of
                   (Some e, sg') \<Rightarrow> (Inl e, sg')
                 | (None, sg') \<Rightarrow> (Inr v, sg')))))"

end
