(* ===== verification/KeyRegistry.thy ===== *)
theory KeyRegistry
  imports KeyVerify
begin

text \<open>
  The management of API keys (\<open>services/auth/service.go\<close>, \<open>apikey_ownership.go\<close> and their
  repositories): creation, revocation, restoration, edits of limits, model scope and ownership,
  deletion, and the platform's own credential.  \<open>session\<close> is what the request carries: the
  organization it resolves to, the organization guard, the session user, the role guard and the
  lookups of tenancy and of the model catalog, each of which may not be wired or may fail with a code.
  Key material (identifier, digest, salt) is an argument of the creation.
\<close>

section \<open>Sessions\<close>

definition and_then :: "('e + 'a) \<Rightarrow> ('a \<Rightarrow> 'e + 'b) \<Rightarrow> 'e + 'b" where
  "and_then r f = (case r of Inl e \<Rightarrow> Inl e | Inr x \<Rightarrow> f x)"

definition ensure :: "bool \<Rightarrow> 'e \<Rightarrow> 'e + unit" where
  "ensure b e = (if b then Inr () else Inl e)"

lemma and_then_Inr: "and_then r f = Inr y \<longleftrightarrow> (\<exists>x. r = Inr x \<and> f x = Inr y)"
  by (simp add: and_then_def split: sum.split)

lemma and_then_simps [simp]: "and_then (Inl e) f = Inl e" "and_then (Inr x) f = f x"
  by (simp_all add: and_then_def)

lemma ensure_Inr [simp]: "ensure b e = Inr u \<longleftrightarrow> b"
  by (simp add: ensure_def)

record project_lookup =
  pl_in_org :: "string \<Rightarrow> string \<Rightarrow> int + bool"
  pl_user_in_project :: "string \<Rightarrow> string \<Rightarrow> int + bool"
  pl_user_in_org :: "string \<Rightarrow> string \<Rightarrow> int + bool"

record session =
  se_org :: "int + string"
  se_check :: "string \<Rightarrow> bool \<Rightarrow> int option"
  se_user :: "int + string"
  se_role :: "(string \<Rightarrow> string \<Rightarrow> int + string) option"
  se_projects :: "project_lookup option"
  se_model_exists :: "(string \<Rightarrow> int + bool) option"
  se_group_exists :: "(string \<Rightarrow> int + bool) option"

record key_access =
  ka_user :: string
  ka_session :: bool
  ka_admin :: bool

definition manages :: "key_access \<Rightarrow> api_key \<Rightarrow> bool" where
  "manages a row =
     (if \<not> ka_session a \<or> ka_admin a then True
      else case key_owner row of None \<Rightarrow> False | Some owner \<Rightarrow> owner = ka_user a)"

definition admin_role :: "string \<Rightarrow> bool" where
  "admin_role r = (r \<in> {''owner'', ''admin'', ''platform-admin''})"

definition resolve_key_access :: "session \<Rightarrow> string \<Rightarrow> int + key_access" where
  "resolve_key_access se org =
     (case se_user se of
        Inl code \<Rightarrow> if code = 10027 \<or> code = 10001
                    then Inr \<lparr>ka_user = [], ka_session = False, ka_admin = False\<rparr> else Inl code
      | Inr user \<Rightarrow>
          (case se_role se of
             None \<Rightarrow> Inr \<lparr>ka_user = user, ka_session = True, ka_admin = True\<rparr>
           | Some role_of \<Rightarrow>
               and_then (role_of org user)
                 (\<lambda>r. Inr \<lparr>ka_user = user, ka_session = True, ka_admin = admin_role r\<rparr>)))"

definition check_org :: "session \<Rightarrow> string \<Rightarrow> bool \<Rightarrow> int + unit" where
  "check_org se org require_active =
     (case se_check se org require_active of None \<Rightarrow> Inr () | Some e \<Rightarrow> Inl e)"

text \<open>Every handler starts here: the organization of the request, and the guard on it.\<close>

definition org_context :: "session \<Rightarrow> bool \<Rightarrow> int + string" where
  "org_context se require_active =
     and_then (se_org se) (\<lambda>org. and_then (check_org se org require_active) (\<lambda>_. Inr org))"

definition find_key :: "string \<Rightarrow> string \<Rightarrow> auth_state \<Rightarrow> api_key option" where
  "find_key org kid s = find (\<lambda>k. key_id k = kid \<and> key_org k = org) (api_keys s)"

definition require_key_manage ::
  "'g auth_env \<Rightarrow> session \<Rightarrow> string \<Rightarrow> string \<Rightarrow> auth_state \<Rightarrow> int + api_key \<times> key_access" where
  "require_key_manage env se org kid s =
     and_then (ensure (ae_db env) 500) (\<lambda>_.
       (case find_key org kid s of
          None \<Rightarrow> Inl 10007
        | Some row \<Rightarrow> and_then (resolve_key_access se org)
            (\<lambda>a. if manages a row then Inr (row, a) else Inl 10007)))"

definition require_admin_access :: "session \<Rightarrow> string \<Rightarrow> int + key_access" where
  "require_admin_access se org =
     and_then (resolve_key_access se org)
       (\<lambda>a. if ka_session a \<and> \<not> ka_admin a then Inl 10036 else Inr a)"

definition resolve_requested_owner ::
  "session \<Rightarrow> string \<Rightarrow> key_access \<Rightarrow> string \<Rightarrow> bool \<Rightarrow> int + string option" where
  "resolve_requested_owner se org a requested shared =
     (let owner = trim_space requested in
      if shared then
        (if owner \<noteq> [] then Inl 10008
         else if ka_session a \<and> \<not> ka_admin a then Inl 10036 else Inr None)
      else if owner = [] then Inr (if ka_session a then Some (ka_user a) else None)
      else if ka_session a \<and> owner \<noteq> ka_user a \<and> \<not> ka_admin a then Inl 10036
      else case se_projects se of
        None \<Rightarrow> Inr (Some owner)
      | Some pl \<Rightarrow> and_then (pl_user_in_org pl org owner)
          (\<lambda>member. if member then Inr (Some owner) else Inl 10003))"

definition resolve_requested_project ::
  "session \<Rightarrow> string \<Rightarrow> key_access \<Rightarrow> string \<Rightarrow> int + string option" where
  "resolve_requested_project se org a requested =
     (let project = trim_space requested in
      if project = [] then Inr None
      else case se_projects se of
        None \<Rightarrow> Inr (Some project)
      | Some pl \<Rightarrow>
          and_then (pl_in_org pl project org) (\<lambda>ok.
            if \<not> ok then Inl 10008
            else if ka_session a \<and> \<not> ka_admin a then
              and_then (pl_user_in_project pl project (ka_user a))
                (\<lambda>member. if member then Inr (Some project) else Inl 10036)
            else Inr (Some project)))"

section \<open>Validation\<close>

definition max_key_scope_models :: nat where
  "max_key_scope_models = 50"

fun trim_scope :: "string list \<Rightarrow> string list \<Rightarrow> int + string list" where
  "trim_scope seen [] = Inr []"
| "trim_scope seen (m # ms) =
     (let x = trim_space m in
      if x = [] then Inl 10008
      else if x \<in> set seen then Inl 10008
      else and_then (trim_scope (x # seen) ms) (\<lambda>xs. Inr (x # xs)))"

definition scope_entry_exists :: "session \<Rightarrow> string \<Rightarrow> int + bool" where
  "scope_entry_exists se m =
     and_then (case se_model_exists se of None \<Rightarrow> Inr False | Some f \<Rightarrow> f m) (\<lambda>known.
       if known then Inr True
       else case se_group_exists se of None \<Rightarrow> Inr False | Some f \<Rightarrow> f m)"

fun check_models_exist :: "session \<Rightarrow> string list \<Rightarrow> int + unit" where
  "check_models_exist se [] = Inr ()"
| "check_models_exist se (m # ms) =
     (if se_model_exists se = None \<and> se_group_exists se = None then Inr ()
      else and_then (scope_entry_exists se m)
        (\<lambda>known. if known then check_models_exist se ms else Inl 10101))"

definition validate_key_scope :: "session \<Rightarrow> string list \<Rightarrow> int + string list" where
  "validate_key_scope se models =
     (if models = [] then Inr []
      else if max_key_scope_models < length models then Inl 10008
      else and_then (trim_scope [] models)
        (\<lambda>xs. and_then (check_models_exist se xs) (\<lambda>_. Inr xs)))"

text \<open>The name, expiry and limits of a creation or an edit; an expiry of 0 is none.\<close>

definition validate_key_fields :: "int \<Rightarrow> string \<Rightarrow> int \<Rightarrow> int \<Rightarrow> int \<Rightarrow> int + string \<times> int option" where
  "validate_key_fields now name0 expires rpm tpm =
     (let nm = trim_space name0 in
      if nm = [] \<or> 64 < length nm then Inl 10008
      else if expires \<noteq> 0 \<and> expires \<le> now then Inl 10008
      else if rpm < 0 \<or> tpm < 0 then Inl 10008
      else Inr (nm, if expires = 0 then None else Some expires))"

section \<open>Repository\<close>

definition insert_key :: "api_key \<Rightarrow> auth_state \<Rightarrow> int + auth_state" where
  "insert_key row s =
     (if \<exists>k\<in>set (api_keys s). key_id k = key_id row \<or> key_lookup k = key_lookup row then Inl 500
      else Inr (s\<lparr>api_keys := api_keys s @ [row]\<rparr>))"

definition update_key :: "string \<Rightarrow> (api_key \<Rightarrow> api_key) \<Rightarrow> auth_state \<Rightarrow> auth_state" where
  "update_key kid f s = s\<lparr>api_keys := map (\<lambda>k. if key_id k = kid then f k else k) (api_keys s)\<rparr>"

definition remove_key :: "string \<Rightarrow> string \<Rightarrow> auth_state \<Rightarrow> auth_state" where
  "remove_key org kid s =
     s\<lparr>api_keys := filter (\<lambda>k. \<not> (key_id k = kid \<and> key_org k = org)) (api_keys s)\<rparr>"

definition revoke_row :: "int \<Rightarrow> api_key \<Rightarrow> api_key" where
  "revoke_row now k = k\<lparr>key_revoked := True,
     key_revoked_at := (case key_revoked_at k of None \<Rightarrow> Some now | Some t \<Rightarrow> Some t)\<rparr>"

definition restore_row :: "api_key \<Rightarrow> api_key" where
  "restore_row k = k\<lparr>key_revoked := False, key_revoked_at := None\<rparr>"

definition edit_row :: "string \<Rightarrow> int option \<Rightarrow> int \<Rightarrow> int \<Rightarrow> api_key \<Rightarrow> api_key" where
  "edit_row nm expires rpm tpm k =
     k\<lparr>key_name := nm, key_expires := expires, key_rpm := rpm, key_tpm := tpm\<rparr>"

definition own_row :: "string option \<Rightarrow> string option \<Rightarrow> api_key \<Rightarrow> api_key" where
  "own_row owner project k = k\<lparr>key_owner := owner, key_project := project\<rparr>"

section \<open>Handlers\<close>

text \<open>The checks of a handler, then its effect: a failed check changes nothing.\<close>

definition checked :: "'e + 'a \<Rightarrow> 's \<Rightarrow> ('a \<Rightarrow> ('e + 'b) \<times> 's) \<Rightarrow> ('e + 'b) \<times> 's" where
  "checked r s f = (case r of Inl e \<Rightarrow> (Inl e, s) | Inr x \<Rightarrow> f x)"

lemma checked_simps [simp]: "checked (Inl e) s f = (Inl e, s)" "checked (Inr x) s f = f x"
  by (simp_all add: checked_def)

definition create_api_key ::
  "'g auth_env \<Rightarrow> session \<Rightarrow> string \<times> string \<times> string \<Rightarrow> string \<Rightarrow> int \<Rightarrow> int \<Rightarrow> int \<Rightarrow> string list
   \<Rightarrow> string \<Rightarrow> bool \<Rightarrow> string \<Rightarrow> auth_state \<Rightarrow> (int + string) \<times> auth_state" where
  "create_api_key env se material name0 expires rpm tpm models owner0 shared project0 s =
     (let (kid, digest, salt) = material in
      checked
        (and_then (org_context se True) (\<lambda>org.
         and_then (validate_key_fields (ae_now env) name0 expires rpm tpm) (\<lambda>(nm, ex).
         and_then (validate_key_scope se models) (\<lambda>scope.
         and_then (resolve_key_access se org) (\<lambda>a.
         and_then (resolve_requested_owner se org a owner0 shared) (\<lambda>owner.
         and_then (resolve_requested_project se org a project0) (\<lambda>project.
         and_then (ensure (ae_db env) 500) (\<lambda>_.
           insert_key \<lparr>key_id = kid, key_name = nm, key_lookup = digest, key_salt = salt,
             key_hash = ae_argon env digest salt, key_org = org, key_owner = owner, key_project = project,
             key_expires = ex, key_revoked = False, key_revoked_at = None, key_rpm = rpm, key_tpm = tpm,
             key_models = scope, key_system = False\<rparr> s))))))))
        s (\<lambda>s'. (Inr kid, s')))"

definition revoke_api_key ::
  "'g auth_env \<Rightarrow> session \<Rightarrow> string \<Rightarrow> auth_state \<Rightarrow> (int + unit) \<times> auth_state" where
  "revoke_api_key env se kid s =
     checked
       (and_then (org_context se False) (\<lambda>org.
        and_then (ensure (kid \<noteq> []) 10008) (\<lambda>_. require_key_manage env se org kid s)))
       s (\<lambda>(row, a). (Inr (), cache_delete (ae_del env) (key_lookup row)
            (update_key (key_id row) (revoke_row (ae_now env)) s)))"

definition restore_api_key ::
  "'g auth_env \<Rightarrow> session \<Rightarrow> string \<Rightarrow> auth_state \<Rightarrow> (int + unit) \<times> auth_state" where
  "restore_api_key env se kid s =
     checked
       (and_then (org_context se True) (\<lambda>org.
        and_then (ensure (kid \<noteq> []) 10008) (\<lambda>_.
        and_then (require_key_manage env se org kid s) (\<lambda>(row, a).
          if past (key_expires row) (ae_now env) then Inl 10010 else Inr row))))
       s (\<lambda>row. (Inr (), cache_delete (ae_del env) (key_lookup row)
            (update_key (key_id row) restore_row s)))"

definition update_api_key ::
  "'g auth_env \<Rightarrow> session \<Rightarrow> string \<Rightarrow> string \<Rightarrow> int \<Rightarrow> int \<Rightarrow> int \<Rightarrow> auth_state
   \<Rightarrow> (int + unit) \<times> auth_state" where
  "update_api_key env se kid name0 expires rpm tpm s =
     checked
       (and_then (org_context se False) (\<lambda>org.
        and_then (ensure (kid \<noteq> []) 10008) (\<lambda>_.
        and_then (validate_key_fields (ae_now env) name0 expires rpm tpm) (\<lambda>(nm, ex).
        and_then (require_key_manage env se org kid s) (\<lambda>(row, a). Inr (row, nm, ex))))))
       s (\<lambda>(row, nm, ex). (Inr (), cache_delete (ae_del env) (key_lookup row)
            (update_key (key_id row) (edit_row nm ex rpm tpm) s)))"

text \<open>The scope is written first; a revoked key then makes the call fail, without invalidation.\<close>

definition update_api_key_scope ::
  "'g auth_env \<Rightarrow> session \<Rightarrow> string \<Rightarrow> string list \<Rightarrow> auth_state \<Rightarrow> (int + unit) \<times> auth_state" where
  "update_api_key_scope env se kid models s =
     checked
       (and_then (org_context se False) (\<lambda>org.
        and_then (ensure (kid \<noteq> []) 10008) (\<lambda>_.
        and_then (validate_key_scope se models) (\<lambda>scope.
        and_then (require_key_manage env se org kid s) (\<lambda>(row, a). Inr (row, scope))))))
       s (\<lambda>(row, scope).
          let s' = update_key (key_id row) (\<lambda>k. k\<lparr>key_models := scope\<rparr>) s
          in if key_revoked row then (Inl 10009, s')
             else (Inr (), cache_delete (ae_del env) (key_lookup row) s'))"

definition update_api_key_ownership ::
  "'g auth_env \<Rightarrow> session \<Rightarrow> string \<Rightarrow> string \<Rightarrow> string \<Rightarrow> auth_state \<Rightarrow> (int + unit) \<times> auth_state" where
  "update_api_key_ownership env se kid owner0 project0 s =
     checked
       (and_then (org_context se False) (\<lambda>org.
        and_then (ensure (kid \<noteq> []) 10008) (\<lambda>_.
        and_then (require_admin_access se org) (\<lambda>a.
        and_then (if trim_space owner0 = [] then Inr None
                  else resolve_requested_owner se org a (trim_space owner0) False) (\<lambda>owner.
        and_then (resolve_requested_project se org a project0) (\<lambda>project.
        and_then (ensure (ae_db env) 500) (\<lambda>_.
          (case find_key org kid s of None \<Rightarrow> Inl 10007 | Some row \<Rightarrow> Inr (row, owner, project)))))))))
       s (\<lambda>(row, owner, project). (Inr (), cache_delete (ae_del env) (key_lookup row)
            (update_key (key_id row) (own_row owner project) s)))"

definition delete_api_key ::
  "'g auth_env \<Rightarrow> session \<Rightarrow> string \<Rightarrow> auth_state \<Rightarrow> (int + unit) \<times> auth_state" where
  "delete_api_key env se kid s =
     checked
       (and_then (org_context se False) (\<lambda>org.
        and_then (ensure (kid \<noteq> []) 10008) (\<lambda>_. require_key_manage env se org kid s)))
       s (\<lambda>(row, a). (Inr (), cache_delete (ae_del env) (key_lookup row)
            (remove_key (key_org row) (key_id row) s)))"

text \<open>The platform's own credential is written at start-up; no cache entry is dropped.\<close>

definition upsert_system_credential :: "api_key \<Rightarrow> auth_state \<Rightarrow> int + auth_state" where
  "upsert_system_credential row s =
     (case find key_system (api_keys s) of
        None \<Rightarrow> insert_key (row\<lparr>key_system := True\<rparr>) s
      | Some old \<Rightarrow>
          if \<exists>k\<in>set (api_keys s). key_id k \<noteq> key_id old \<and> key_lookup k = key_lookup row then Inl 500
          else Inr (update_key (key_id old) (\<lambda>k. k\<lparr>key_lookup := key_lookup row, key_salt := key_salt row,
                 key_hash := key_hash row, key_org := key_org row, key_revoked := False,
                 key_system := True\<rparr>) s))"

definition api_key_models :: "'g auth_env \<Rightarrow> string \<Rightarrow> auth_state \<Rightarrow> string list" where
  "api_key_models env kid s =
     (if kid = [] \<or> \<not> ae_db env then []
      else case find (\<lambda>k. key_id k = kid) (api_keys s) of None \<Rightarrow> [] | Some row \<Rightarrow> key_models row)"

section \<open>Histories\<close>

datatype key_change =
    Create_key "string \<times> string \<times> string" string int int int "string list" string bool string
  | Revoke_key string
  | Restore_key string
  | Update_key string string int int int
  | Scope_key string "string list"
  | Own_key string string string
  | Delete_key string

fun change_key :: "'g auth_env \<Rightarrow> session \<Rightarrow> key_change \<Rightarrow> auth_state \<Rightarrow> auth_state" where
  "change_key env se (Create_key mt nm ex rpm tpm ms owner shared project) s =
     snd (create_api_key env se mt nm ex rpm tpm ms owner shared project s)"
| "change_key env se (Revoke_key kid) s = snd (revoke_api_key env se kid s)"
| "change_key env se (Restore_key kid) s = snd (restore_api_key env se kid s)"
| "change_key env se (Update_key kid nm ex rpm tpm) s = snd (update_api_key env se kid nm ex rpm tpm s)"
| "change_key env se (Scope_key kid ms) s = snd (update_api_key_scope env se kid ms s)"
| "change_key env se (Own_key kid owner project) s = snd (update_api_key_ownership env se kid owner project s)"
| "change_key env se (Delete_key kid) s = snd (delete_api_key env se kid s)"

datatype key_step =
    Verify string string funds_hint
  | Change session key_change
  | Seed api_key

definition run_key :: "'g auth_env \<times> key_step \<Rightarrow> auth_state \<times> 'g \<Rightarrow> auth_state \<times> 'g" where
  "run_key = (\<lambda>(env, p) (s, g). case p of
      Verify d m hint \<Rightarrow> snd (verify_api_key env d m hint (s, g))
    | Change se c \<Rightarrow> (change_key env se c s, g)
    | Seed row \<Rightarrow> ((case upsert_system_credential row s of Inl e \<Rightarrow> s | Inr s' \<Rightarrow> s'), g))"

section \<open>The specification of a change\<close>

definition stable_row :: "(api_key \<Rightarrow> api_key) \<Rightarrow> bool" where
  "stable_row f = (\<forall>k. key_id (f k) = key_id k \<and> key_lookup (f k) = key_lookup k \<and> key_org (f k) = key_org k
     \<and> key_salt (f k) = key_salt k \<and> key_hash (f k) = key_hash k \<and> key_system (f k) = key_system k)"

definition may_own :: "key_access \<Rightarrow> string option \<Rightarrow> bool" where
  "may_own a owner = (\<not> ka_session a \<or> ka_admin a \<or> owner = Some (ka_user a))"

fun new_digest :: "key_change \<Rightarrow> string option" where
  "new_digest (Create_key (kid, d, salt) nm ex rpm tpm ms owner shared project) = Some d"
| "new_digest c = None"

text \<open>
  What a management call may do: nothing, add a key its caller may own, edit or remove one key its
  caller manages.  An edit keeps the key's identity and drops its cached verdict; only the scope edit
  of a revoked key skips that.
\<close>

inductive key_effect :: "bool \<Rightarrow> session \<Rightarrow> key_change \<Rightarrow> auth_state \<Rightarrow> auth_state \<Rightarrow> bool"
  for del se c s where
  unchanged: "key_effect del se c s s"
| created: "key_effect del se c s (s\<lparr>api_keys := api_keys s @ [row]\<rparr>)"
    if "se_org se = Inr (key_org row)" "resolve_key_access se (key_org row) = Inr a" "may_own a (key_owner row)" "new_digest c = Some (key_lookup row)"
      "key_id row \<notin> key_id ` set (api_keys s)" "key_lookup row \<notin> key_lookup ` set (api_keys s)"
| edited: "key_effect del se c s (cache_delete del (key_lookup row) (update_key (key_id row) f s))"
    if "row \<in> set (api_keys s)" "se_org se = Inr (key_org row)" "resolve_key_access se (key_org row) = Inr a" "manages a row" "stable_row f"
      "(\<forall>k. key_revoked k \<longrightarrow> key_revoked (f k)) \<or> c = Restore_key (key_id row)"
      "(\<forall>k. key_owner (f k) = key_owner k) \<or> may_own a None"
| rescoped: "key_effect del se c s (update_key (key_id row) f s)"
    if "row \<in> set (api_keys s)" "se_org se = Inr (key_org row)" "resolve_key_access se (key_org row) = Inr a" "manages a row" "stable_row f"
      "key_revoked row" "\<forall>k. key_revoked (f k) = key_revoked k \<and> key_owner (f k) = key_owner k"
| deleted: "key_effect del se c s (cache_delete del (key_lookup row)
      (remove_key (key_org row) (key_id row) s))"
    if "row \<in> set (api_keys s)" "se_org se = Inr (key_org row)" "resolve_key_access se (key_org row) = Inr a" "manages a row"

lemma find_key_facts:
  assumes "find_key org kid s = Some row"
  shows "row \<in> set (api_keys s)" "key_id row = kid" "key_org row = org"
  using assms by (auto simp: find_key_def find_Some_iff)

lemma require_key_manageD:
  assumes "require_key_manage env se org kid s = Inr (row, a)"
  shows "row \<in> set (api_keys s)" "key_id row = kid" "key_org row = org"
    "resolve_key_access se (key_org row) = Inr a" "manages a row"
  using assms find_key_facts [of org kid s row]
  by (auto simp: require_key_manage_def and_then_Inr split: option.splits if_splits)

lemma stable_edits [simp]:
  "stable_row (revoke_row now)" "stable_row restore_row" "stable_row (edit_row nm ex rpm tpm)"
  "stable_row (own_row owner project)" "stable_row (\<lambda>k. k\<lparr>key_models := ms\<rparr>)"
  by (simp_all add: stable_row_def revoke_row_def restore_row_def edit_row_def own_row_def)

lemma revoked_edits [simp]:
  "key_revoked (revoke_row now k)" "key_revoked (edit_row nm ex rpm tpm k) = key_revoked k"
  "key_revoked (own_row owner project k) = key_revoked k" "key_owner (revoke_row now k) = key_owner k"
  "key_owner (edit_row nm ex rpm tpm k) = key_owner k" "key_owner (restore_row k) = key_owner k"
  by (simp_all add: revoke_row_def edit_row_def own_row_def restore_row_def)

lemma org_contextE:
  assumes "org_context se b = Inr org"
  obtains "se_org se = Inr org"
  using assms by (auto simp: org_context_def and_then_Inr)

lemma requested_owner_may:
  "resolve_requested_owner se org a requested shared = Inr owner \<Longrightarrow> may_own a owner"
  by (auto simp: resolve_requested_owner_def may_own_def Let_def and_then_Inr split: if_splits option.splits)

lemma admin_manages:
  assumes "require_admin_access se org = Inr a"
  shows "resolve_key_access se org = Inr a" "manages a row" "may_own a None"
  using assms by (auto simp: require_admin_access_def and_then_Inr manages_def may_own_def split: if_splits)

lemma create_effect:
  "key_effect (ae_del env) se (Create_key mt nm ex rpm tpm ms owner shared project) s
     (snd (create_api_key env se mt nm ex rpm tpm ms owner shared project s))"
proof -
  obtain kid digest salt where mt: "mt = (kid, digest, salt)" by (cases mt)
  show ?thesis
    by (auto simp: mt create_api_key_def checked_def and_then_Inr insert_key_def ensure_def
        elim!: org_contextE intro!: key_effect.unchanged key_effect.created
        intro: requested_owner_may split: sum.splits if_splits)
qed

lemma require_key_manageE:
  assumes "require_key_manage env se org kid s = Inr (row, a)"
  obtains "row \<in> set (api_keys s)" "key_id row = kid" "key_org row = org"
    "resolve_key_access se (key_org row) = Inr a" "manages a row"
  using require_key_manageD [OF assms] by blast

lemma find_keyE:
  assumes "find_key org kid s = Some row"
  obtains "row \<in> set (api_keys s)" "key_id row = kid" "key_org row = org"
  using find_key_facts [OF assms] by blast

lemma option_Inr: "(case x of None \<Rightarrow> Inl e | Some r \<Rightarrow> g r) = Inr y \<longleftrightarrow> (\<exists>r. x = Some r \<and> g r = Inr y)"
  by (auto split: option.split)

lemma checked_effect:
  assumes "\<And>x. r = Inr x \<Longrightarrow> key_effect del se c s (snd (f x))"
  shows "key_effect del se c s (snd (checked r s f))"
  using assms key_effect.unchanged by (cases r) auto

lemma revoke_effect: "key_effect (ae_del env) se (Revoke_key kid) s (snd (revoke_api_key env se kid s))"
  unfolding revoke_api_key_def
  by (rule checked_effect) (auto simp: and_then_Inr elim!: require_key_manageE org_contextE intro!: key_effect.edited)

lemma restore_effect: "key_effect (ae_del env) se (Restore_key kid) s (snd (restore_api_key env se kid s))"
  unfolding restore_api_key_def
  by (rule checked_effect)
    (auto simp: and_then_Inr split: if_splits elim!: require_key_manageE org_contextE intro!: key_effect.edited)

lemma update_effect:
  "key_effect (ae_del env) se (Update_key kid nm ex rpm tpm) s (snd (update_api_key env se kid nm ex rpm tpm s))"
  unfolding update_api_key_def
  by (rule checked_effect) (auto simp: and_then_Inr elim!: require_key_manageE org_contextE intro!: key_effect.edited)

lemma scope_effect:
  "key_effect (ae_del env) se (Scope_key kid ms) s (snd (update_api_key_scope env se kid ms s))"
  unfolding update_api_key_scope_def
  by (rule checked_effect)
    (auto simp: and_then_Inr Let_def elim!: require_key_manageE org_contextE intro!: key_effect.edited key_effect.rescoped)

lemma own_effect:
  "key_effect (ae_del env) se (Own_key kid owner project) s (snd (update_api_key_ownership env se kid owner project s))"
  unfolding update_api_key_ownership_def
  by (rule checked_effect)
    (auto simp: and_then_Inr option_Inr intro!: key_effect.edited
      elim!: find_keyE org_contextE intro: admin_manages)

lemma delete_effect: "key_effect (ae_del env) se (Delete_key kid) s (snd (delete_api_key env se kid s))"
  unfolding delete_api_key_def
  by (rule checked_effect) (auto simp: and_then_Inr elim!: require_key_manageE org_contextE intro!: key_effect.deleted)

text \<open>The handlers implement the specification.\<close>

lemma change_effect: "key_effect (ae_del env) se c s (change_key env se c s)"
  by (cases c) (simp_all add: create_effect revoke_effect restore_effect update_effect scope_effect
      own_effect delete_effect)

section \<open>Invariants of a history\<close>

definition key_table_ok :: "auth_state \<Rightarrow> bool" where
  "key_table_ok s = (distinct (map key_id (api_keys s)) \<and> distinct (map key_lookup (api_keys s)))"

definition entries_bounded :: "int \<Rightarrow> auth_state \<Rightarrow> bool" where
  "entries_bounded dl s = (\<forall>d v t. verdicts s d = Some (v, t) \<longrightarrow> t \<le> dl)"

lemma lookup_keys [simp]: "api_keys (snd (lookup_verdict env d s)) = api_keys s"
  by (simp add: lookup_verdict_def split: option.split)

lemma grants_fields [simp]:
  "api_keys (snd (check_model_authorization env m org s)) = api_keys s"
  "verdicts (snd (check_model_authorization env m org s)) = verdicts s"
  by (simp_all add: check_model_authorization_def split: option.split)

lemma funds_get_fields [simp]:
  "api_keys (snd (funds_get now k s)) = api_keys s" "verdicts (snd (funds_get now k s)) = verdicts s"
  by (simp_all add: funds_get_def split: option.split)

lemma funds_set_fields [simp]:
  "api_keys (funds_set now k e s) = api_keys s" "verdicts (funds_set now k e s) = verdicts s"
  by (simp_all add: funds_set_def Let_def)

lemma funds_fields [simp]:
  "api_keys (fst (snd (check_inference_funds env hint v m (s, g)))) = api_keys s"
  "verdicts (fst (snd (check_inference_funds env hint v m (s, g)))) = verdicts s"
  by (simp_all add: check_inference_funds_def Let_def split_beta split: option.split)

lemma verify_unfold:
  assumes "is_valid_digest d"
  shows "verify_api_key env d m hint (s, g) = (case fst (lookup_verdict env d s) of
      Inl e \<Rightarrow> (Inl e, snd (lookup_verdict env d s), g)
    | Inr v \<Rightarrow>
        (let s1 = snd (lookup_verdict env d s); r = check_model_authorization env m (kv_org v) s1 in
         if \<not> in_key_models env (kv_models v) m then (Inl 10039, s1, g)
         else case fst r of
           Some e \<Rightarrow> (Inl e, snd r, g)
         | None \<Rightarrow> (case fst (check_inference_funds env hint v m (snd r, g)) of
             Some e \<Rightarrow> (Inl e, snd (check_inference_funds env hint v m (snd r, g)))
           | None \<Rightarrow> (Inr v, snd (check_inference_funds env hint v m (snd r, g))))))"
  using assms by (auto simp: verify_api_key_def is_valid_digest_def Let_def split_beta
      intro!: prod_eqI split: sum.split option.split)

lemma verify_invalid:
  "\<not> is_valid_digest d \<Longrightarrow> verify_api_key env d m hint sg = (Inl (if d = [] then 500 else 10008), sg)"
  by (simp add: verify_api_key_def)

lemma verify_state:
  "api_keys (fst (snd (verify_api_key env d m hint (s, g)))) = api_keys s"
  "verdicts (fst (snd (verify_api_key env d m hint (s, g))))
     = (if is_valid_digest d then verdicts (snd (lookup_verdict env d s)) else verdicts s)"
proof (atomize (full), cases "is_valid_digest d")
  case True
  then show "api_keys (fst (snd (verify_api_key env d m hint (s, g)))) = api_keys s
    \<and> verdicts (fst (snd (verify_api_key env d m hint (s, g))))
     = (if is_valid_digest d then verdicts (snd (lookup_verdict env d s)) else verdicts s)"
    by (simp add: verify_unfold [OF True] Let_def split: sum.split option.split)
qed (simp add: verify_invalid)

text \<open>A verification caches at most one verdict: that of an active row, for one time to live.\<close>

lemma lookup_cases:
  obtains (same) "snd (lookup_verdict env d s) = s"
  | (cached) row where "find_by_lookup_hash d s = Some row" "\<not> key_revoked row"
      "\<not> past (key_expires row) (ae_now env)" "cache_get (ae_now env) (verdicts s) d = None"
      "snd (lookup_verdict env d s)
         = s\<lparr>verdicts := (verdicts s)(d \<mapsto> (verdict_of env row, ae_now env + ae_ttl env))\<rparr>"
proof -
  consider "\<not> ae_get env" | v where "ae_get env" "cache_get (ae_now env) (verdicts s) d = Some v"
    | "ae_get env" "cache_get (ae_now env) (verdicts s) d = None" by fastforce
  then show thesis
  proof cases
    case 1
    then show thesis using same by (simp add: lookup_verdict_def)
  next
    case 2
    then show thesis using same by (simp add: lookup_verdict_def)
  next
    case 3
    show thesis
    proof (cases "find_by_lookup_hash d s")
      case None
      with 3 show thesis using same by (simp add: lookup_verdict_def)
    next
      case (Some row)
      show thesis
      proof (cases "ae_db env \<and> \<not> key_revoked row \<and> \<not> past (key_expires row) (ae_now env)
          \<and> ae_argon env d (key_salt row) = key_hash row \<and> ae_set env")
        case True
        with 3 Some show thesis by (intro cached [of row]) (simp_all add: lookup_verdict_def)
      next
        case False
        with 3 Some show thesis by (intro same) (auto simp: lookup_verdict_def)
      qed
    qed
  qed
qed

lemma verify_cases:
  obtains (same) "verdicts (fst (snd (verify_api_key env d m hint (s, g)))) = verdicts s"
  | (cached) row where "find_by_lookup_hash d s = Some row" "\<not> key_revoked row"
      "\<not> past (key_expires row) (ae_now env)" "cache_get (ae_now env) (verdicts s) d = None"
      "verdicts (fst (snd (verify_api_key env d m hint (s, g))))
         = (verdicts s)(d \<mapsto> (verdict_of env row, ae_now env + ae_ttl env))"
proof (cases "is_valid_digest d")
  case True
  with same cached show ?thesis
    by (cases rule: lookup_cases [of env d s]) (simp_all add: verify_state(2))
qed (use same in \<open>simp add: verify_state(2)\<close>)

lemma cache_delete_fields [simp]:
  "api_keys (cache_delete del d s) = api_keys s"
  "verdicts (cache_delete del d s) d' = (if del \<and> d' = d then None else verdicts s d')"
  by (simp_all add: cache_delete_def)

lemma update_key_fields [simp]:
  "api_keys (update_key kid f s) = map (\<lambda>k. if key_id k = kid then f k else k) (api_keys s)"
  "verdicts (update_key kid f s) = verdicts s"
  "verdicts (remove_key org kid s) = verdicts s"
  "set (api_keys (remove_key org kid s)) = {k \<in> set (api_keys s). \<not> (key_id k = kid \<and> key_org k = org)}"
  by (auto simp: update_key_def remove_key_def)

lemma stable_map:
  assumes "stable_row f"
  shows "map key_id (map (\<lambda>k. if key_id k = kid then f k else k) ks) = map key_id ks"
    "map key_lookup (map (\<lambda>k. if key_id k = kid then f k else k) ks) = map key_lookup ks"
  using assms by (auto simp: stable_row_def)

lemma keys_ok_update: "stable_row f \<Longrightarrow> key_table_ok (update_key kid f s) = key_table_ok s"
  unfolding key_table_ok_def update_key_fields by (simp only: stable_map)

lemma keys_ok_delete [simp]: "key_table_ok (cache_delete del d s) = key_table_ok s"
  by (simp add: key_table_ok_def)

lemma keys_ok_remove: "key_table_ok s \<Longrightarrow> key_table_ok (remove_key org kid s)"
  by (auto simp: key_table_ok_def remove_key_def distinct_map intro: inj_on_subset)

lemma keys_ok_snoc:
  "key_id row \<notin> key_id ` set (api_keys s) \<Longrightarrow> key_lookup row \<notin> key_lookup ` set (api_keys s)
   \<Longrightarrow> key_table_ok s \<Longrightarrow> key_table_ok (s\<lparr>api_keys := api_keys s @ [row]\<rparr>)"
  by (simp add: key_table_ok_def)

lemma keys_ok_effect: "key_effect del se c s s' \<Longrightarrow> key_table_ok s \<Longrightarrow> key_table_ok s'"
  by (induction rule: key_effect.induct)
    (simp_all add: keys_ok_update keys_ok_remove keys_ok_snoc)

lemma verdicts_effect:
  "key_effect del se c s s' \<Longrightarrow> verdicts s' d = Some e \<Longrightarrow> verdicts s d = Some e"
  by (induction rule: key_effect.induct) (auto split: if_splits)

lemma insert_key_Inr:
  "insert_key row s = Inr s' \<longleftrightarrow> s' = s\<lparr>api_keys := api_keys s @ [row]\<rparr>
     \<and> key_id row \<notin> key_id ` set (api_keys s) \<and> key_lookup row \<notin> key_lookup ` set (api_keys s)"
proof (cases "\<exists>k\<in>set (api_keys s). key_id k = key_id row \<or> key_lookup k = key_lookup row")
  case True
  then have "key_id row \<in> key_id ` set (api_keys s) \<or> key_lookup row \<in> key_lookup ` set (api_keys s)"
    by (metis image_eqI)
  with True show ?thesis by (auto simp: insert_key_def)
next
  case False
  then have "key_id row \<notin> key_id ` set (api_keys s)" "key_lookup row \<notin> key_lookup ` set (api_keys s)"
    by (metis imageE)+
  with False show ?thesis by (auto simp: insert_key_def)
qed

lemma seed_cases:
  assumes "upsert_system_credential row s = Inr s'"
  obtains (new) "s' = s\<lparr>api_keys := api_keys s @ [row\<lparr>key_system := True\<rparr>]\<rparr>"
      "key_id row \<notin> key_id ` set (api_keys s)" "key_lookup row \<notin> key_lookup ` set (api_keys s)"
  | (rotated) old f where "old \<in> set (api_keys s)" "key_system old" "s' = update_key (key_id old) f s"
      "\<forall>k. key_id (f k) = key_id k \<and> key_lookup (f k) = key_lookup row \<and> key_system (f k)"
      "\<forall>k\<in>set (api_keys s). key_id k \<noteq> key_id old \<longrightarrow> key_lookup k \<noteq> key_lookup row"
proof (cases "find key_system (api_keys s)")
  case None
  with assms that(1) show ?thesis by (simp add: upsert_system_credential_def insert_key_Inr)
next
  case (Some old)
  then have "old \<in> set (api_keys s)" "key_system old" by (auto simp: find_Some_iff)
  with Some assms show ?thesis
    by (intro that(2) [of old "\<lambda>k. k\<lparr>key_lookup := key_lookup row, key_salt := key_salt row,
          key_hash := key_hash row, key_org := key_org row, key_revoked := False, key_system := True\<rparr>"])
      (auto simp: upsert_system_credential_def split: if_splits)
qed

lemma keys_ok_seed: "upsert_system_credential row s = Inr s' \<Longrightarrow> key_table_ok s \<Longrightarrow> key_table_ok s'"
proof (erule seed_cases)
  fix old f
  assume ok: "key_table_ok s" and "s' = update_key (key_id old) f s"
    and f: "\<forall>k. key_id (f k) = key_id k \<and> key_lookup (f k) = key_lookup row \<and> key_system (f k)"
    and free: "\<forall>k\<in>set (api_keys s). key_id k \<noteq> key_id old \<longrightarrow> key_lookup k \<noteq> key_lookup row"
  then have s': "api_keys s' = map (\<lambda>k. if key_id k = key_id old then f k else k) (api_keys s)" by simp
  have "map key_id (api_keys s') = map key_id (api_keys s)" using f by (auto simp: s')
  then have "distinct (map key_id (api_keys s'))" using ok by (simp only: key_table_ok_def)
  moreover have "inj_on (\<lambda>k. key_lookup (if key_id k = key_id old then f k else k)) (set (api_keys s))"
  proof (rule inj_onI)
    fix j k
    assume jk: "j \<in> set (api_keys s)" "k \<in> set (api_keys s)"
      and eq: "key_lookup (if key_id j = key_id old then f j else j)
        = key_lookup (if key_id k = key_id old then f k else k)"
    have "inj_on key_id (set (api_keys s))" "inj_on key_lookup (set (api_keys s))"
      using ok by (simp_all add: key_table_ok_def distinct_map)
    with jk have "key_id j = key_id k \<longrightarrow> j = k" "key_lookup j = key_lookup k \<longrightarrow> j = k"
      by (auto dest: inj_onD)
    with jk eq f free show "j = k" by (cases "key_id j = key_id old"; cases "key_id k = key_id old") auto
  qed
  then have "distinct (map key_lookup (api_keys s'))"
    using ok by (simp add: s' key_table_ok_def distinct_map comp_inj_on_iff [symmetric] o_def)
  ultimately show "key_table_ok s'" by (simp only: key_table_ok_def)
qed (auto simp: key_table_ok_def)

lemma run_key_ok: "key_table_ok (fst sg) \<Longrightarrow> key_table_ok (fst (run_key p sg))"
proof -
  assume ok: "key_table_ok (fst sg)"
  obtain env q s g where p: "p = (env, q)" "sg = (s, g)" by (metis surj_pair)
  show ?thesis
  proof (cases q)
    case (Verify d m hint)
    then show ?thesis using ok verify_state(1) [of env d m hint s g] by (simp add: p run_key_def key_table_ok_def)
  next
    case (Change se c)
    then show ?thesis using ok keys_ok_effect [OF change_effect] by (simp add: p run_key_def)
  next
    case (Seed row)
    then show ?thesis using ok keys_ok_seed by (auto simp: p run_key_def split: sum.split)
  qed
qed

text \<open>A key that is dead: no row under its digest is active, and a cached verdict ends at \<open>dl\<close>.\<close>

definition dead :: "string \<Rightarrow> int \<Rightarrow> auth_state \<Rightarrow> bool" where
  "dead d dl s =
     ((\<forall>k\<in>set (api_keys s). key_lookup k = d \<longrightarrow> key_revoked k)
      \<and> (\<forall>v t. verdicts s d = Some (v, t) \<longrightarrow> t \<le> dl))"

definition revives :: "string \<Rightarrow> string \<Rightarrow> key_step \<Rightarrow> bool" where
  "revives kid d p = (case p of
      Verify d' m hint \<Rightarrow> False
    | Change se c \<Rightarrow> c = Restore_key kid \<or> new_digest c = Some d
    | Seed row \<Rightarrow> key_lookup row = d)"

lemma find_by_lookup_hashD:
  "find_by_lookup_hash d s = Some row \<Longrightarrow> row \<in> set (api_keys s) \<and> key_lookup row = d"
  by (auto simp: find_by_lookup_hash_def find_Some_iff)

lemma dead_verify:
  assumes "dead d dl s"
  shows "dead d dl (fst (snd (verify_api_key env d' m hint (s, g))))"
proof (cases rule: verify_cases [of env d' m hint s g])
  case same
  then show ?thesis using assms by (simp add: dead_def verify_state(1))
next
  case (cached row)
  then show ?thesis using assms find_by_lookup_hashD [OF cached(1)] by (auto simp: dead_def verify_state(1))
qed

definition owned_by :: "string \<Rightarrow> string \<Rightarrow> auth_state \<Rightarrow> bool" where
  "owned_by kid d s = (\<forall>k\<in>set (api_keys s). key_lookup k = d \<longrightarrow> key_id k = kid)"

lemma dead_effect:
  "key_effect del se c s s' \<Longrightarrow> dead d dl s \<Longrightarrow> owned_by kid d s
   \<Longrightarrow> c \<noteq> Restore_key kid \<Longrightarrow> new_digest c \<noteq> Some d \<Longrightarrow> dead d dl s' \<and> owned_by kid d s'"
  by (induction rule: key_effect.induct) (auto simp: dead_def owned_by_def stable_row_def)

lemma dead_seed:
  assumes "upsert_system_credential row s = Inr s'" "dead d dl s" "owned_by kid d s" "key_lookup row \<noteq> d"
  shows "dead d dl s' \<and> owned_by kid d s'"
  using assms(1) by (cases rule: seed_cases) (use assms(2-4) in \<open>auto simp: dead_def owned_by_def\<close>)

lemma dead_step:
  assumes "dead d dl (fst sg)" "owned_by kid d (fst sg)" "\<not> revives kid d (snd p)"
  shows "dead d dl (fst (run_key p sg)) \<and> owned_by kid d (fst (run_key p sg))"
proof -
  obtain env q s g where p: "p = (env, q)" "sg = (s, g)" by (metis surj_pair)
  show ?thesis
  proof (cases q)
    case (Verify d' m hint)
    then show ?thesis using assms dead_verify [of d dl s env d' m hint g]
      by (simp add: p run_key_def owned_by_def verify_state(1))
  next
    case (Change se c)
    then show ?thesis using assms dead_effect [OF change_effect, of d dl s kid c env se]
      by (simp add: p run_key_def revives_def)
  next
    case (Seed row)
    then show ?thesis using assms dead_seed
      by (auto simp: p run_key_def revives_def split: sum.split)
  qed
qed

lemma dead_run:
  "dead d dl (fst sg) \<Longrightarrow> owned_by kid d (fst sg) \<Longrightarrow> \<forall>p\<in>set ps. \<not> revives kid d (snd p)
   \<Longrightarrow> dead d dl (fst (fold run_key ps sg)) \<and> owned_by kid d (fst (fold run_key ps sg))"
proof (induction ps arbitrary: sg)
  case (Cons p ps)
  then show ?case using Cons.IH [of "run_key p sg"] dead_step [of d dl sg kid p] by simp
qed simp

lemma dead_refused:
  assumes "dead d dl s" "dl \<le> ae_now env"
  shows "\<exists>code. fst (verify_api_key env d m hint (s, g)) = Inl code"
proof -
  have "cache_get (ae_now env) (verdicts s) d = None"
    using assms by (auto simp: dead_def cache_get_def split: option.split)
  then have "\<exists>code. fst (lookup_verdict env d s) = Inl code"
    using assms find_by_lookup_hashD [of d s]
    by (auto simp: lookup_verdict_def dead_def split: option.split)
  then show ?thesis by (cases "is_valid_digest d") (auto simp: verify_unfold verify_invalid)
qed

text \<open>Times do not run backwards and the cache has one time to live, so no entry outlives it.\<close>

fun timely :: "int \<Rightarrow> int \<Rightarrow> ('g auth_env \<times> key_step) list \<Rightarrow> bool" where
  "timely ttl now [] = True"
| "timely ttl now (p # ps) =
     (now \<le> ae_now (fst p) \<and> ae_ttl (fst p) = ttl \<and> timely ttl (ae_now (fst p)) ps)"

fun clock :: "int \<Rightarrow> ('g auth_env \<times> key_step) list \<Rightarrow> int" where
  "clock now [] = now"
| "clock now (p # ps) = clock (ae_now (fst p)) ps"

lemma entries_step:
  assumes "entries_bounded (now + ae_ttl (fst p)) (fst sg)" "now \<le> ae_now (fst p)"
  shows "entries_bounded (ae_now (fst p) + ae_ttl (fst p)) (fst (run_key p sg))"
proof -
  obtain env q s g where p: "p = (env, q)" "sg = (s, g)" by (metis surj_pair)
  have old: "t \<le> ae_now env + ae_ttl env" if "verdicts s d = Some (v, t)" for d v t
    using that assms by (fastforce simp: entries_bounded_def p)
  show ?thesis
  proof (cases q)
    case (Verify d m hint)
    show ?thesis
      by (cases rule: verify_cases [of env d m hint s g])
        (use old in \<open>auto simp: p run_key_def Verify entries_bounded_def\<close>)
  next
    case (Change se c)
    then show ?thesis using old verdicts_effect [OF change_effect]
      by (fastforce simp: p run_key_def entries_bounded_def)
  next
    case (Seed row)
    have "verdicts s' = verdicts s" if "upsert_system_credential row s = Inr s'" for s'
      using that by (cases rule: seed_cases) auto
    then show ?thesis using old by (auto simp: Seed p run_key_def entries_bounded_def split: sum.split)
  qed
qed

lemma entries_run:
  "entries_bounded (now + ttl) (fst sg) \<Longrightarrow> timely ttl now ps
   \<Longrightarrow> entries_bounded (clock now ps + ttl) (fst (fold run_key ps sg))"
proof (induction ps arbitrary: now sg)
  case (Cons p ps)
  then have "entries_bounded (ae_now (fst p) + ttl) (fst (run_key p sg))"
    using entries_step [of now p sg] by simp
  with Cons show ?case by simp
qed simp

lemma keys_ok_run: "key_table_ok (fst sg) \<Longrightarrow> key_table_ok (fst (fold run_key ps sg))"
proof (induction ps arbitrary: sg)
  case (Cons p ps)
  then show ?case using Cons.IH [of "run_key p sg"] run_key_ok [of sg p] by simp
qed simp

lemma empty_auth_ok: "key_table_ok empty_auth" "entries_bounded dl empty_auth"
  by (simp_all add: key_table_ok_def entries_bounded_def empty_auth_def)

section \<open>Revocation takes effect\<close>

lemma keys_ok_unique:
  "key_table_ok s \<Longrightarrow> k \<in> set (api_keys s) \<Longrightarrow> k' \<in> set (api_keys s)
   \<Longrightarrow> key_id k = key_id k' \<or> key_lookup k = key_lookup k' \<Longrightarrow> k = k'"
  unfolding key_table_ok_def distinct_map by (auto dest: inj_onD)

lemma revoke_kills:
  assumes "revoke_api_key env se kid s = (Inr (), s')" "key_table_ok s" "k \<in> set (api_keys s)" "key_id k = kid"
    "entries_bounded dl s" "dl \<le> bound \<or> ae_del env"
  shows "dead (key_lookup k) bound s' \<and> owned_by kid (key_lookup k) s'"
proof -
  obtain row a where row: "row \<in> set (api_keys s)" "key_id row = kid"
    and s': "s' = cache_delete (ae_del env) (key_lookup row) (update_key kid (revoke_row (ae_now env)) s)"
    using assms(1) by (auto simp: revoke_api_key_def checked_def split: sum.splits
        simp: and_then_Inr elim!: require_key_manageE org_contextE)
  have same: "row = k" using keys_ok_unique [OF assms(2) row(1) assms(3)] row(2) assms(4) by simp
  have "key_id j = kid" if "j \<in> set (api_keys s)" "key_lookup j = key_lookup k" for j
    using keys_ok_unique [OF assms(2) that(1) assms(3)] that(2) assms(4) by simp
  then have "owned_by kid (key_lookup k) s'"
    using assms(4) by (auto simp: s' same owned_by_def revoke_row_def)
  moreover have "\<forall>j\<in>set (api_keys s'). key_lookup j = key_lookup k \<longrightarrow> key_revoked j"
    using \<open>\<And>j. j \<in> set (api_keys s) \<Longrightarrow> key_lookup j = key_lookup k \<Longrightarrow> key_id j = kid\<close>
    by (auto simp: s' same)
  moreover have "t \<le> bound" if "verdicts s' (key_lookup k) = Some (v, t)" for v t
    using that assms(5,6) unfolding s' same entries_bounded_def by (fastforce split: if_splits)
  ultimately show ?thesis by (simp add: dead_def)
qed

text \<open>C16. Revocation takes effect: in any history, once a key is revoked and not restored, it is refused
  from the next request on when the cached verdict could be dropped, and in every case one time to live
  of the cache later, whatever requests, edits and failures come in between.\<close>

theorem revoked_key_dies:
  assumes "timely ttl t0 before" "clock t0 before \<le> ae_now env" "s = fst (fold run_key before (empty_auth, g0))"
    and "k \<in> set (api_keys s)" "revoke_api_key env se (key_id k) s = (Inr (), s')"
    and "\<forall>p\<in>set later. \<not> revives (key_id k) (key_lookup k) (snd p)"
    and "ae_del env \<or> ae_now env + ttl \<le> ae_now env'"
  shows "\<exists>code. fst (verify_api_key env' (key_lookup k) m hint (fold run_key later (s', g))) = Inl code"
proof -
  have ok: "key_table_ok s" using keys_ok_run [of "(empty_auth, g0)"] by (simp add: assms(3) empty_auth_ok)
  have "entries_bounded (clock t0 before + ttl) s"
    using entries_run [of t0 ttl "(empty_auth, g0)", OF _ assms(1)] by (simp add: assms(3) empty_auth_ok)
  then have "dead (key_lookup k) (ae_now env') s' \<and> owned_by (key_id k) (key_lookup k) s'"
    using revoke_kills [OF assms(5) ok assms(4) refl] assms(2,7) by fastforce
  then have "dead (key_lookup k) (ae_now env') (fst (fold run_key later (s', g)))"
    
    using dead_run [of "key_lookup k" "ae_now env'" "(s', g)" "key_id k" later] assms(6) by simp
  then show ?thesis using dead_refused [of _ "ae_now env'"] by (metis order_refl prod.collapse)
qed

section \<open>An accepted key is current\<close>

definition speaks_for :: "key_verdict \<Rightarrow> api_key \<Rightarrow> bool" where
  "speaks_for v k = (kv_org v = key_org k \<and> kv_key v = key_id k \<and> kv_rpm v = key_rpm k \<and> kv_tpm v = key_tpm k
     \<and> kv_models v = key_models k \<and> kv_owner v = deref (key_owner k) \<and> kv_project v = deref (key_project k))"

definition vouched :: "int \<Rightarrow> auth_state \<Rightarrow> string \<Rightarrow> key_verdict \<Rightarrow> int \<Rightarrow> bool" where
  "vouched ttl s d v t = (kv_system v \<or> (\<exists>k\<in>set (api_keys s). key_lookup k = d \<and> \<not> key_revoked k
     \<and> \<not> key_system k \<and> speaks_for v k \<and> (\<forall>e. key_expires k = Some e \<longrightarrow> t \<le> e + ttl)))"

definition current :: "int \<Rightarrow> auth_state \<Rightarrow> bool" where
  "current ttl s = (\<forall>d v t. verdicts s d = Some (v, t) \<longrightarrow> vouched ttl s d v t)"

lemma verdict_of_vouched:
  assumes "find_by_lookup_hash d s = Some row" "\<not> key_revoked row" "\<not> past (key_expires row) (ae_now env)"
  shows "vouched (ae_ttl env) s d (verdict_of env row) (ae_now env + ae_ttl env)"
  using assms find_by_lookup_hashD [OF assms(1)]
  by (auto simp: vouched_def verdict_of_def speaks_for_def past_def split: option.splits)

lemma vouched_keys: "api_keys s' = api_keys s \<Longrightarrow> vouched ttl s' d v t = vouched ttl s d v t"
  by (simp add: vouched_def)

lemma current_verify:
  assumes "current (ae_ttl env) s"
  shows "current (ae_ttl env) (fst (snd (verify_api_key env d m hint (s, g))))"
proof (cases rule: verify_cases [of env d m hint s g])
  case same
  then show ?thesis using assms by (simp add: current_def vouched_keys [OF verify_state(1)])
next
  case (cached row)
  then show ?thesis using assms verdict_of_vouched [OF cached(1-3)]
    by (auto simp: current_def vouched_keys [OF verify_state(1)] split: if_splits)
qed

lemma vouched_other:
  assumes "key_table_ok s" "row \<in> set (api_keys s)" "vouched ttl s d v t"
    and "key_lookup row \<noteq> d \<or> key_revoked row \<or> key_system row"
    and "\<And>k. k \<in> set (api_keys s) \<Longrightarrow> key_id k \<noteq> key_id row \<Longrightarrow> k \<in> set (api_keys s')"
  shows "vouched ttl s' d v t"
  using assms(3) unfolding vouched_def
proof (elim disjE bexE)
  fix k
  assume k: "k \<in> set (api_keys s)" "key_lookup k = d \<and> \<not> key_revoked k
     \<and> \<not> key_system k \<and> speaks_for v k \<and> (\<forall>e. key_expires k = Some e \<longrightarrow> t \<le> e + ttl)"
  have "key_id k \<noteq> key_id row"
    using keys_ok_unique [OF assms(1) k(1) assms(2)] k(2) assms(4) by blast
  then show "kv_system v \<or> (\<exists>k\<in>set (api_keys s'). key_lookup k = d \<and> \<not> key_revoked k
     \<and> \<not> key_system k \<and> speaks_for v k \<and> (\<forall>e. key_expires k = Some e \<longrightarrow> t \<le> e + ttl))"
    using assms(5) [OF k(1)] k(2) by blast
qed simp

lemma kept_rows:
  "k \<in> set (api_keys s) \<Longrightarrow> key_id k \<noteq> kid \<Longrightarrow> k \<in> set (api_keys (update_key kid f s))"
  "k \<in> set (api_keys s) \<Longrightarrow> key_id k \<noteq> kid \<Longrightarrow> k \<in> set (api_keys (remove_key org kid s))"
  by (force, simp)

lemma current_change:
  assumes "current ttl s" "key_table_ok s" "row \<in> set (api_keys s)"
    and "\<And>d v t. verdicts s' d = Some (v, t) \<Longrightarrow> verdicts s d = Some (v, t)
           \<and> (key_lookup row \<noteq> d \<or> key_revoked row \<or> key_system row)"
    and "\<And>k. k \<in> set (api_keys s) \<Longrightarrow> key_id k \<noteq> key_id row \<Longrightarrow> k \<in> set (api_keys s')"
  shows "current ttl s'"
  unfolding current_def
proof (intro allI impI)
  fix d v t
  assume "verdicts s' d = Some (v, t)"
  then have old: "verdicts s d = Some (v, t)" "key_lookup row \<noteq> d \<or> key_revoked row \<or> key_system row"
    using assms(4) by blast+
  then have "vouched ttl s d v t" using assms(1) by (simp add: current_def)
  then show "vouched ttl s' d v t" using vouched_other [OF assms(2,3) _ old(2)] assms(5) by blast
qed

lemma current_added:
  assumes "current ttl s"
  shows "current ttl (s\<lparr>api_keys := api_keys s @ [row]\<rparr>)"
  using assms by (fastforce simp: current_def vouched_def)

lemma current_effect:
  "key_effect True se c s s' \<Longrightarrow> key_table_ok s \<Longrightarrow> current ttl s \<Longrightarrow> current ttl s'"
proof (induction rule: key_effect.induct)
  case (created row a)
  then show ?case by (simp add: current_added)
next
  case (edited row a f)
  show ?case
    by (rule current_change [OF edited.prems(2,1) edited.hyps(1)])
      (auto simp: kept_rows simp del: update_key_fields(1) split: if_split_asm)
next
  case (rescoped row a f)
  show ?case
    by (rule current_change [OF rescoped.prems(2,1) rescoped.hyps(1)])
      (auto simp: kept_rows rescoped.hyps(6) simp del: update_key_fields(1))
next
  case (deleted row a)
  show ?case
    by (rule current_change [OF deleted.prems(2,1) deleted.hyps(1)]) (auto split: if_split_asm)
qed

lemma current_seed:
  assumes "upsert_system_credential row s = Inr s'" "key_table_ok s" "current ttl s"
  shows "current ttl s'"
  using assms(1)
proof (cases rule: seed_cases)
  case new
  then show ?thesis using assms(3) by (simp add: current_added)
next
  case (rotated old f)
  show ?thesis unfolding rotated(3)
    by (rule current_change [OF assms(3,2) rotated(1)])
      (auto simp: kept_rows rotated(2) simp del: update_key_fields(1))
qed

lemma current_step:
  assumes "key_table_ok (fst sg)" "current (ae_ttl (fst p)) (fst sg)" "ae_del (fst p)"
  shows "current (ae_ttl (fst p)) (fst (run_key p sg))"
proof -
  obtain env q s g where p: "p = (env, q)" "sg = (s, g)" by (metis surj_pair)
  show ?thesis
  proof (cases q)
    case (Verify d m hint)
    then show ?thesis using assms current_verify by (simp add: p run_key_def)
  next
    case (Change se c)
    have "key_effect True se c s (change_key env se c s)"
      using change_effect [of env se c s] assms(3) by (simp add: p)
    then show ?thesis using assms current_effect by (simp add: Change p run_key_def)
  next
    case (Seed row)
    then show ?thesis using assms current_seed by (auto simp: p run_key_def split: sum.split)
  qed
qed

lemma current_run:
  "key_table_ok (fst sg) \<Longrightarrow> current ttl (fst sg) \<Longrightarrow> \<forall>p\<in>set ps. ae_del (fst p) \<and> ae_ttl (fst p) = ttl
   \<Longrightarrow> current ttl (fst (fold run_key ps sg))"
proof (induction ps arbitrary: sg)
  case (Cons p ps)
  then show ?case using Cons.IH [of "run_key p sg"] run_key_ok [of sg p] current_step [of sg p] by auto
qed simp

lemma verify_accepts:
  assumes "verify_api_key env d m hint (s, g) = (Inr v, sg')"
  shows "fst (lookup_verdict env d s) = Inr v" "in_key_models env (kv_models v) m"
    "fst (check_model_authorization env m (kv_org v) (snd (lookup_verdict env d s))) = None"
    "check_inference_funds env hint v m
       (snd (check_model_authorization env m (kv_org v) (snd (lookup_verdict env d s))), g) = (None, sg')"
    "is_valid_digest d"
proof -
  show d: "is_valid_digest d" using assms by (auto simp: verify_invalid intro: ccontr)
  show v: "fst (lookup_verdict env d s) = Inr v"
    using assms by (auto simp: verify_unfold [OF d] Let_def split: sum.splits if_splits option.splits)
  show "in_key_models env (kv_models v) m"
    "fst (check_model_authorization env m (kv_org v) (snd (lookup_verdict env d s))) = None"
    "check_inference_funds env hint v m
       (snd (check_model_authorization env m (kv_org v) (snd (lookup_verdict env d s))), g) = (None, sg')"
    using assms by (auto simp: verify_unfold [OF d] v Let_def intro!: prod_eqI split: if_splits option.splits)
qed

lemma lookup_accepts:
  assumes "fst (lookup_verdict env d s) = Inr v"
  obtains (hit) t where "verdicts s d = Some (v, t)" "ae_now env < t"
  | (row) row where "find_by_lookup_hash d s = Some row" "\<not> key_revoked row"
      "\<not> past (key_expires row) (ae_now env)" "ae_argon env d (key_salt row) = key_hash row" "v = verdict_of env row"
proof (cases "cache_get (ae_now env) (verdicts s) d")
  case None
  with assms row show thesis by (auto simp: lookup_verdict_def split: if_splits option.splits)
next
  case (Some w)
  with assms hit show thesis by (auto simp: lookup_verdict_def cache_get_def split: if_splits option.splits)
qed

text \<open>C17. An accepted key is current: in any history whose cache deletions work, an accepted request shows either the
  platform's own system credential, which is exempt, or a key that exists, is not revoked, expired at most one
  time to live of the cache ago and allows the model, and the answer carries its present organization, limits,
  owner and project.\<close>

theorem accepted_key_is_current:
  assumes "\<forall>p\<in>set ps. ae_del (fst p) \<and> ae_ttl (fst p) = ttl" "0 \<le> ttl"
    and "(s, g) = fold run_key ps (empty_auth, g0)"
    and "verify_api_key env d m hint (s, g) = (Inr v, sg')"
  shows "kv_system v \<or> (\<exists>k\<in>set (api_keys s). key_lookup k = d \<and> \<not> key_revoked k \<and> speaks_for v k
     \<and> in_key_models env (key_models k) m \<and> (\<forall>e. key_expires k = Some e \<longrightarrow> ae_now env \<le> e + ttl))"
proof -
  have "current ttl empty_auth" by (simp add: current_def empty_auth_def)
  then have cur: "current ttl s"
    using current_run [of "(empty_auth, g0)" ttl ps] assms(1,3) by (metis empty_auth_ok(1) fst_conv)
  note v = verify_accepts [OF assms(4)]
  from v(1) obtain k where "kv_system v \<or> k \<in> set (api_keys s) \<and> key_lookup k = d \<and> \<not> key_revoked k
      \<and> speaks_for v k \<and> (\<forall>e. key_expires k = Some e \<longrightarrow> ae_now env \<le> e + ttl)"
  proof (cases rule: lookup_accepts)
    case (hit t)
    then have "vouched ttl s d v t" using cur by (simp add: current_def)
    then show thesis using hit(2) that by (fastforce simp: vouched_def)
  next
    case (row row)
    then show thesis using find_by_lookup_hashD [OF row(1)] assms(2) that [of row]
      by (auto simp: speaks_for_def verdict_of_def past_def split: option.splits)
  qed
  then show ?thesis using v(2) by (auto simp: speaks_for_def)
qed

section \<open>Members manage their own keys\<close>

lemma member_effect:
  "key_effect del se c s s' \<Longrightarrow> key_table_ok s \<Longrightarrow> k \<in> set (api_keys s)
   \<Longrightarrow> (\<And>a. resolve_key_access se (key_org k) = Inr a \<Longrightarrow> se_org se = Inr (key_org k) \<Longrightarrow> \<not> manages a k)
   \<Longrightarrow> k \<in> set (api_keys s')"
proof (induction rule: key_effect.induct)
  case (edited row a f)
  then have "k \<noteq> row" by blast
  then have "key_id k \<noteq> key_id row" using keys_ok_unique edited.prems(1,2) edited.hyps(1) by blast
  then show ?case using edited.prems(2) by (simp add: kept_rows del: update_key_fields(1))
next
  case (rescoped row a f)
  then have "k \<noteq> row" by blast
  then have "key_id k \<noteq> key_id row" using keys_ok_unique rescoped.prems(1,2) rescoped.hyps(1) by blast
  then show ?case using rescoped.prems(2) by (simp add: kept_rows del: update_key_fields(1))
next
  case (deleted row a)
  then have "k \<noteq> row" by blast
  then have "key_id k \<noteq> key_id row" using keys_ok_unique deleted.prems(1,2) deleted.hyps(1) by blast
  then show ?case using deleted.prems(2) by simp
qed auto

lemma member_new:
  "key_effect del se c s s' \<Longrightarrow> k \<in> set (api_keys s') \<Longrightarrow> k \<notin> set (api_keys s) \<Longrightarrow> key_table_ok s
   \<Longrightarrow> \<exists>a. resolve_key_access se (key_org k) = Inr a \<and> se_org se = Inr (key_org k)
      \<and> (may_own a (key_owner k))"
proof (induction rule: key_effect.induct)
  case (created row a)
  then show ?case by auto
next
  case (edited row a f)
  then obtain j where j: "j \<in> set (api_keys s)" "key_id j = key_id row" "k = f j"
    by (auto split: if_splits)
  then have "j = row" using keys_ok_unique edited.prems(3) edited.hyps(1) by blast
  with edited.hyps j(3) show ?case
    by (auto simp: stable_row_def manages_def may_own_def split: option.splits if_splits)
next
  case (rescoped row a f)
  then obtain j where j: "j \<in> set (api_keys s)" "key_id j = key_id row" "k = f j"
    by (auto split: if_splits)
  then have "j = row" using keys_ok_unique rescoped.prems(3) rescoped.hyps(1) by blast
  with rescoped.hyps j(3) show ?case
    by (auto simp: stable_row_def manages_def may_own_def split: option.splits if_splits)
qed auto

lemma member_access:
  assumes "se_user se = Inr user" "se_role se = Some role_of" "\<forall>org r. role_of org user = Inr r \<longrightarrow> \<not> admin_role r"
    and "resolve_key_access se org = Inr a"
  shows "a = \<lparr>ka_user = user, ka_session = True, ka_admin = False\<rparr>"
  using assms by (auto simp: resolve_key_access_def and_then_Inr)

text \<open>C18. A member manages only keys of their own: whatever a session without an administrator role asks
  for, every key of another owner, shared key and key of another organization stays as it is, and every
  row that is new or changed belongs to the member and to the organization the request resolves to.\<close>

theorem members_manage_own_keys:
  assumes "s = fst (fold run_key ps (empty_auth, g0))"
    and "se_user se = Inr user" "se_role se = Some role_of"
    and "\<forall>org r. role_of org user = Inr r \<longrightarrow> \<not> admin_role r"
  shows "{k \<in> set (api_keys s). key_owner k \<noteq> Some user \<or> se_org se \<noteq> Inr (key_org k)}
           \<subseteq> set (api_keys (change_key env se c s))
     \<and> (\<forall>k \<in> set (api_keys (change_key env se c s)) - set (api_keys s).
           key_owner k = Some user \<and> se_org se = Inr (key_org k))"
proof -
  have ok: "key_table_ok s" using keys_ok_run [of "(empty_auth, g0)"] by (simp add: assms(1) empty_auth_ok)
  note member = member_access [OF assms(2-4)]
  show ?thesis
  proof (intro conjI subsetI ballI)
    fix k
    assume "k \<in> {k \<in> set (api_keys s). key_owner k \<noteq> Some user \<or> se_org se \<noteq> Inr (key_org k)}"
    then show "k \<in> set (api_keys (change_key env se c s))"
      by (intro member_effect [OF change_effect ok])
        (auto dest!: member simp: manages_def split: option.splits)
  next
    fix k
    assume "k \<in> set (api_keys (change_key env se c s)) - set (api_keys s)"
    then obtain a where "resolve_key_access se (key_org k) = Inr a" "se_org se = Inr (key_org k)"
        "may_own a (key_owner k)"
      using member_new [OF change_effect, of k env se c s] ok by blast
    then show "key_owner k = Some user" "se_org se = Inr (key_org k)"
      by (auto dest!: member simp: may_own_def)
  qed
qed

section \<open>A demonstration history\<close>

definition demo_key_env :: "int \<Rightarrow> bool \<Rightarrow> unit auth_env" where
  "demo_key_env now del = \<lparr>ae_now = now, ae_db = True, ae_get = True, ae_set = True, ae_del = del, ae_mget = True,
     ae_mset = True, ae_argon = (\<lambda>d salt. salt @ d), ae_ttl = 300, ae_model_ttl = 5, ae_quota = None,
     ae_org_quota = None, ae_models = None, ae_gate = None\<rparr>"

definition demo_key_session :: "string \<Rightarrow> string \<Rightarrow> session" where
  "demo_key_session user role = \<lparr>se_org = Inr ''o'', se_check = (\<lambda>org b. None), se_user = Inr user,
     se_role = Some (\<lambda>org u. Inr role), se_projects = None, se_model_exists = None, se_group_exists = None\<rparr>"

definition demo_digest :: string where
  "demo_digest = replicate 64 CHR ''a''"

definition demo_key_steps :: "(unit auth_env \<times> key_step) list" where
  "demo_key_steps =
     [(demo_key_env 1 True, Change (demo_key_session ''u'' ''member'')
         (Create_key (''k1'', demo_digest, ''s'') ''key'' 50 0 0 [''m''] [] False [])),
      (demo_key_env 2 True, Verify demo_digest ''m'' no_hint)]"

definition demo_key :: api_key where
  "demo_key = \<lparr>key_id = ''k1'', key_name = ''key'', key_lookup = demo_digest, key_salt = ''s'',
     key_hash = CHR ''s'' # demo_digest, key_org = ''o'', key_owner = Some ''u'', key_project = None,
     key_expires = Some 50, key_revoked = False, key_revoked_at = None, key_rpm = 0, key_tpm = 0,
     key_models = [''m''], key_system = False\<rparr>"

definition demo_auth :: auth_state where
  "demo_auth = \<lparr>api_keys = [demo_key], verdicts = [demo_digest \<mapsto> (verdict_of (demo_key_env 2 True) demo_key, 302)],
     model_verdicts = Map.empty, funds_cache = []\<rparr>"

lemma demo_trims: "trim_space ''key'' = ''key''" "trim_space ''m'' = ''m''" "trim_space [] = []"
  by code_simp+

lemma demo_valid: "is_valid_digest demo_digest"
  by code_simp

lemma demo_created:
  "run_key (hd demo_key_steps) (empty_auth, ()) = (empty_auth\<lparr>api_keys := [demo_key]\<rparr>, ())"
  by (simp add: demo_key_steps_def run_key_def create_api_key_def org_context_def check_org_def demo_key_session_def
      validate_key_fields_def demo_trims demo_key_env_def validate_key_scope_def max_key_scope_models_def
      check_models_exist.simps resolve_key_access_def resolve_requested_owner_def admin_role_def
      resolve_requested_project_def ensure_def insert_key_def empty_auth_def demo_key_def Let_def)

lemma demo_verified:
  "run_key (last demo_key_steps) (empty_auth\<lparr>api_keys := [demo_key]\<rparr>, ()) = (demo_auth, ())"
  by (simp add: demo_key_steps_def run_key_def verify_unfold [OF demo_valid] lookup_verdict_def cache_get_def
      empty_auth_def find_by_lookup_hash_def demo_key_def past_def in_key_models_def verdict_of_def
      demo_trims check_model_authorization_def check_inference_funds_def demo_auth_def demo_key_env_def Let_def)

lemma demo_key_run: "fold run_key demo_key_steps (empty_auth, ()) = (demo_auth, ())"
  using demo_created demo_verified by (simp add: demo_key_steps_def)

definition demo_revoked :: auth_state where
  "demo_revoked = demo_auth\<lparr>api_keys := [revoke_row 3 demo_key]\<rparr>"

lemma demo_revoke:
  "revoke_api_key (demo_key_env 3 False) (demo_key_session ''boss'' ''owner'') ''k1'' demo_auth = (Inr (), demo_revoked)"
  by (simp add: revoke_api_key_def org_context_def check_org_def demo_key_session_def ensure_def require_key_manage_def
      demo_key_env_def find_key_def demo_auth_def demo_key_def resolve_key_access_def admin_role_def manages_def
      cache_delete_def update_key_def demo_revoked_def)

theorem revoked_key_dies_witness:
  "\<exists>code. fst (verify_api_key (demo_key_env 303 True) demo_digest ''m'' no_hint
     (fold run_key [(demo_key_env 4 True, Verify demo_digest ''m'' no_hint)] (demo_revoked, ()))) = Inl code"
proof -
  have "demo_key \<in> set (api_keys demo_auth)" "key_id demo_key = ''k1''" "key_lookup demo_key = demo_digest"
    by (simp_all add: demo_auth_def demo_key_def)
  moreover have "timely 300 0 demo_key_steps" "clock 0 demo_key_steps \<le> ae_now (demo_key_env 3 False)"
    "demo_auth = fst (fold run_key demo_key_steps (empty_auth, ()))"
    using demo_key_run by (simp_all add: demo_key_steps_def demo_key_env_def)
  ultimately show ?thesis
    using revoked_key_dies [of 300 0 demo_key_steps "demo_key_env 3 False" demo_auth "()" demo_key
        "demo_key_session ''boss'' ''owner''" demo_revoked "[(demo_key_env 4 True, Verify demo_digest ''m'' no_hint)]"
        "demo_key_env 303 True" "''m''" no_hint "()"] demo_revoke
    by (simp add: revives_def demo_key_env_def)
qed

theorem accepted_key_is_current_witness:
  "\<exists>k\<in>set (api_keys demo_auth). key_lookup k = demo_digest \<and> \<not> key_revoked k \<and> key_models k = [''m'']"
proof -
  have ok: "verify_api_key (demo_key_env 10 True) demo_digest ''m'' no_hint (demo_auth, ())
      = (Inr (verdict_of (demo_key_env 2 True) demo_key), (demo_auth, ()))"
    by (simp add: verify_unfold [OF demo_valid] lookup_verdict_def cache_get_def demo_auth_def in_key_models_def
        verdict_of_def demo_key_def demo_trims check_model_authorization_def check_inference_funds_def
        demo_key_env_def Let_def)
  have "kv_system (verdict_of (demo_key_env 2 True) demo_key) \<or> (\<exists>k\<in>set (api_keys demo_auth).
      key_lookup k = demo_digest \<and> \<not> key_revoked k \<and> speaks_for (verdict_of (demo_key_env 2 True) demo_key) k
      \<and> in_key_models (demo_key_env 10 True) (key_models k) ''m''
      \<and> (\<forall>e. key_expires k = Some e \<longrightarrow> ae_now (demo_key_env 10 True) \<le> e + 300))"
    by (rule accepted_key_is_current [OF _ _ demo_key_run [symmetric] ok]) (simp_all add: demo_key_steps_def demo_key_env_def)
  then show ?thesis by (auto simp: verdict_of_def demo_key_def speaks_for_def)
qed

theorem members_manage_own_keys_witness:
  "demo_key \<in> set (api_keys (change_key (demo_key_env 5 True) (demo_key_session ''v'' ''member'') (Delete_key ''k1'') demo_auth))"
proof -
  have "{k \<in> set (api_keys demo_auth). key_owner k \<noteq> Some ''v'' \<or> se_org (demo_key_session ''v'' ''member'') \<noteq> Inr (key_org k)}
      \<subseteq> set (api_keys (change_key (demo_key_env 5 True) (demo_key_session ''v'' ''member'') (Delete_key ''k1'') demo_auth))"
    using members_manage_own_keys [of demo_auth demo_key_steps "()" "demo_key_session ''v'' ''member''" "''v''"
        "\<lambda>org u. Inr ''member''" "demo_key_env 5 True" "Delete_key ''k1''"] demo_key_run
    by (simp add: demo_key_session_def admin_role_def)
  moreover have "demo_key \<in> set (api_keys demo_auth)" "key_owner demo_key \<noteq> Some ''v''"
    by (simp_all add: demo_auth_def demo_key_def)
  ultimately show ?thesis by blast
qed

text \<open>Editing the scope of a revoked key reports an error, and the scope is changed all the same.\<close>

lemma scope_edit_of_revoked_key:
  "update_api_key_scope (demo_key_env 4 True) (demo_key_session ''u'' ''member'') ''k1'' [] demo_revoked
     = (Inl 10009, demo_revoked\<lparr>api_keys := [(revoke_row 3 demo_key)\<lparr>key_models := []\<rparr>]\<rparr>)"
  by (simp add: update_api_key_scope_def org_context_def check_org_def demo_key_session_def ensure_def
      validate_key_scope_def require_key_manage_def demo_key_env_def find_key_def demo_revoked_def revoke_row_def
      demo_auth_def demo_key_def resolve_key_access_def admin_role_def manages_def update_key_def)

end
