(* ===== verification/FundsHolds.thy ===== *)
theory FundsHolds
  imports Prelude
begin

text \<open>
  The in-flight funds reservation (\<open>services/billing/funds_holds.go\<close>): the three Redis scripts that
  take, free and count the holds of one organization.  Redis runs a script atomically, so an
  interleaving of admissions is a list of operations (\<open>hold_op\<close>) run one after the other.

  \<open>org_holds\<close> is what one organization's two keys hold: the hash of holds and the sorted set of
  expiries, each with distinct fields, and the time at which the keys themselves expire.  Script
  numbers are doubles; amounts are modelled as integers, which is exact below \<open>2 ^ 53\<close> micros.
\<close>

section \<open>Scopes and fields\<close>

definition hold_sep :: char where
  "hold_sep = CHR 0x01"

definition scope_organization :: string where
  "scope_organization = []"

definition user_scope :: "string \<Rightarrow> string" where
  "user_scope user_id = ''u:'' @ user_id"

definition project_scope :: "string \<Rightarrow> string" where
  "project_scope project_id = ''p:'' @ project_id"

definition project_member_scope :: "string \<Rightarrow> string \<Rightarrow> string" where
  "project_member_scope project_id user_id = ''pm:'' @ project_id @ CHR '':'' # user_id"

record funds_bound =
  scope :: string
  available_micros :: int

definition hold_field :: "string \<Rightarrow> string \<Rightarrow> string" where
  "hold_field sc rid = sc @ hold_sep # rid"

text \<open>The script splits a field at its first separator.\<close>

definition split_field :: "string \<Rightarrow> (string \<times> string) option" where
  "split_field f =
     (if hold_sep \<in> set f
      then Some (takeWhile (\<lambda>c. c \<noteq> hold_sep) f, tl (dropWhile (\<lambda>c. c \<noteq> hold_sep) f))
      else None)"

section \<open>State and scripts\<close>

record org_holds =
  holds :: "(string \<times> int) list"
  expiry :: "(string \<times> int) list"
  keys_die :: int

definition no_holds :: org_holds where
  "no_holds = \<lparr>holds = [], expiry = [], keys_die = 0\<rparr>"

definition hold_ttl_ms :: "int \<Rightarrow> int" where
  "hold_ttl_ms ttl_ns = (if ttl_ns \<le> 0 then 600000 else ttl_ns div 1000000)"

text \<open>Redis drops the keys when their own expiry passes.\<close>

definition keys_at :: "int \<Rightarrow> org_holds \<Rightarrow> org_holds" where
  "keys_at now s = (if keys_die s \<le> now then s\<lparr>holds := [], expiry := []\<rparr> else s)"

definition drop_field :: "string \<Rightarrow> org_holds \<Rightarrow> org_holds" where
  "drop_field f s = s\<lparr>holds := AList.delete f (holds s), expiry := AList.delete f (expiry s)\<rparr>"

definition sweep :: "int \<Rightarrow> org_holds \<Rightarrow> org_holds" where
  "sweep now s = fold drop_field (map fst (filter (\<lambda>(f, t). t \<le> now) (expiry s))) s"

definition amounts :: "(string \<Rightarrow> bool) \<Rightarrow> (string \<times> int) list \<Rightarrow> int" where
  "amounts P hs = sum_list (map snd (filter (\<lambda>(f, a). P f) hs))"

definition in_scope :: "string \<Rightarrow> string \<Rightarrow> bool" where
  "in_scope sc f = (case split_field f of None \<Rightarrow> False | Some (s, r) \<Rightarrow> s = sc)"

definition of_request :: "string \<Rightarrow> string \<Rightarrow> bool" where
  "of_request rid f = (case split_field f of None \<Rightarrow> False | Some (s, r) \<Rightarrow> r = rid)"

definition used :: "string \<Rightarrow> org_holds \<Rightarrow> int" where
  "used sc s = amounts (in_scope sc) (holds s)"

definition own :: "string \<Rightarrow> string \<Rightarrow> org_holds \<Rightarrow> int" where
  "own rid sc s = amounts (\<lambda>f. in_scope sc f \<and> of_request rid f) (holds s)"

definition bounds_fit :: "string \<Rightarrow> int \<Rightarrow> funds_bound list \<Rightarrow> org_holds \<Rightarrow> bool" where
  "bounds_fit rid need bounds s =
     list_all (\<lambda>b. \<not> available_micros b < used (scope b) s - own rid (scope b) s + need) bounds"

definition take_hold :: "string \<Rightarrow> int \<Rightarrow> int \<Rightarrow> funds_bound \<Rightarrow> org_holds \<Rightarrow> org_holds" where
  "take_hold rid need dies b s =
     (let f = hold_field (scope b) rid
      in s\<lparr>holds := AList.update f need (holds s), expiry := AList.update f dies (expiry s)\<rparr>)"

definition reserve ::
  "int \<Rightarrow> int \<Rightarrow> string \<Rightarrow> int \<Rightarrow> funds_bound list \<Rightarrow> org_holds \<Rightarrow> bool \<times> org_holds" where
  "reserve ttl now rid need bounds s =
     (let s1 = sweep now (keys_at now s)
      in if bounds_fit rid need bounds s1
         then (True, (fold (take_hold rid need (now + ttl)) bounds s1)\<lparr>keys_die := now + ttl * 10\<rparr>)
         else (False, s1))"

definition release :: "int \<Rightarrow> string \<Rightarrow> org_holds \<Rightarrow> int \<times> org_holds" where
  "release now rid s =
     (let s1 = keys_at now s;
          mine = filter (of_request rid) (map fst (holds s1))
      in (amounts (of_request rid) (holds s1), fold drop_field mine s1))"

definition outstanding :: "int \<Rightarrow> string \<Rightarrow> org_holds \<Rightarrow> int \<times> org_holds" where
  "outstanding now sc s =
     (let s1 = sweep now (keys_at now s)
      in (amounts (\<lambda>f. has_prefix f (sc @ [hold_sep])) (holds s1), s1))"

section \<open>Fields and sums\<close>

lemma split_hold_field [simp]:
  assumes "hold_sep \<notin> set sc"
  shows "split_field (hold_field sc rid) = Some (sc, rid)"
proof -
  have "\<forall>c\<in>set sc. c \<noteq> hold_sep" using assms by auto
  then show ?thesis by (simp add: split_field_def hold_field_def takeWhile_append2 dropWhile_append2)
qed

lemma hold_field_inject [simp]:
  assumes "hold_sep \<notin> set a" "hold_sep \<notin> set b"
  shows "hold_field a r = hold_field b q \<longleftrightarrow> a = b \<and> r = q"
proof
  assume "hold_field a r = hold_field b q"
  then have "split_field (hold_field a r) = split_field (hold_field b q)" by (rule arg_cong)
  then show "a = b \<and> r = q" by (simp only: split_hold_field [OF assms(1)] split_hold_field [OF assms(2)]) simp
qed simp

lemma split_field_Some: "split_field f = Some (sc, rid) \<longleftrightarrow> hold_sep \<notin> set sc \<and> f = hold_field sc rid"
proof
  assume "split_field f = Some (sc, rid)"
  then have s: "hold_sep \<in> set f" "sc = takeWhile (\<lambda>c. c \<noteq> hold_sep) f"
    "rid = tl (dropWhile (\<lambda>c. c \<noteq> hold_sep) f)" by (auto simp: split_field_def split: if_splits)
  obtain xs ys where f: "f = hold_field xs ys" "hold_sep \<notin> set xs"
    using split_list_first [OF s(1)] by (auto simp: hold_field_def)
  have "(sc, rid) = (xs, ys)"
    using split_hold_field [OF f(2), of ys] \<open>split_field f = Some (sc, rid)\<close> f(1) by simp
  then show "hold_sep \<notin> set sc \<and> f = hold_field sc rid" using f by simp
qed simp

lemma in_scope_field [simp]:
  "hold_sep \<notin> set sc' \<Longrightarrow> in_scope sc (hold_field sc' rid) \<longleftrightarrow> sc' = sc"
  by (auto simp: in_scope_def)

lemma scope_request_field:
  "hold_sep \<notin> set sc \<Longrightarrow> in_scope sc f \<and> of_request rid f \<longleftrightarrow> f = hold_field sc rid"
  by (auto simp: in_scope_def of_request_def split_field_Some split: option.splits)

lemma amounts_Nil [simp]: "amounts P [] = 0"
  by (simp add: amounts_def)

lemma amounts_Cons [simp]: "amounts P ((f, a) # hs) = (if P f then a else 0) + amounts P hs"
  by (simp add: amounts_def)

lemma amounts_none: "\<forall>(f, a)\<in>set hs. \<not> P f \<Longrightarrow> amounts P hs = 0"
  by (induction hs) auto

lemma amounts_update:
  "distinct (map fst hs) \<Longrightarrow> amounts P (AList.update f a hs)
   = amounts P hs - (if P f then opt_or (map_of hs f) 0 else 0) + (if P f then a else 0)"
  by (induction hs) (auto simp: opt_or_def split: option.splits)

lemma amounts_delete:
  "distinct (map fst hs) \<Longrightarrow>
   amounts P (AList.delete f hs) = amounts P hs - (if P f then opt_or (map_of hs f) 0 else 0)"
proof (induction hs)
  case (Cons h hs)
  show ?case
  proof (cases "fst h = f")
    case True
    then have "AList.delete f hs = hs" using Cons.prems
      by (cases h) (simp add: AList.delete_id dom_map_of_conv_image_fst)
    then show ?thesis using True by (cases h) (simp add: opt_or_def)
  qed (use Cons in \<open>cases h, simp\<close>)
qed (simp add: opt_or_def)

lemma amounts_mono:
  "\<forall>(f, a)\<in>set hs. 0 \<le> a \<Longrightarrow> amounts (\<lambda>f. P f \<and> Q f) hs \<le> amounts P hs"
  by (induction hs) auto

lemma amounts_nonneg: "\<forall>(f, a)\<in>set hs. 0 \<le> a \<Longrightarrow> 0 \<le> amounts P hs"
  by (induction hs) auto

lemma amounts_single:
  "distinct (map fst hs) \<Longrightarrow> amounts (\<lambda>f. f = g) hs = opt_or (map_of hs g) 0"
proof (induction hs)
  case (Cons h hs)
  then show ?case
    by (cases h; cases "fst h = g")
      (auto simp: opt_or_def image_iff intro!: amounts_none split: option.splits)
qed (simp add: opt_or_def)

text \<open>One request holds at most one entry per scope.\<close>

lemma own_field:
  assumes "distinct (map fst (holds s))" "hold_sep \<notin> set sc"
  shows "own rid sc s = opt_or (map_of (holds s) (hold_field sc rid)) 0"
  using amounts_single [OF assms(1)] scope_request_field [OF assms(2)] by (simp add: own_def)

section \<open>The state invariant\<close>

text \<open>The hash and the expiry index stay in step, with distinct fields and no negative hold; no hold
  outlives the index or dies later than \<open>bound\<close>.\<close>

definition holds_ok :: "org_holds \<Rightarrow> bool" where
  "holds_ok s = (distinct (map fst (holds s)) \<and> distinct (map fst (expiry s))
     \<and> fst ` set (holds s) = fst ` set (expiry s) \<and> (\<forall>(f, a)\<in>set (holds s). 0 \<le> a))"

definition dies_by :: "int \<Rightarrow> org_holds \<Rightarrow> bool" where
  "dies_by bound s = (\<forall>(f, t)\<in>set (expiry s). t \<le> bound)"

lemma no_holds_ok [simp]: "holds_ok no_holds" "dies_by b no_holds" "used sc no_holds = 0"
  by (simp_all add: holds_ok_def dies_by_def no_holds_def used_def)

lemma keys_at_ok: "holds_ok s \<Longrightarrow> holds_ok (keys_at now s)" "dies_by b s \<Longrightarrow> dies_by b (keys_at now s)"
  by (simp_all add: keys_at_def holds_ok_def dies_by_def)

lemma set_delete: "set (AList.delete k xs) = {x \<in> set xs. fst x \<noteq> k}"
  by (auto simp: AList.delete_eq)

lemma drop_field_ok: "holds_ok s \<Longrightarrow> holds_ok (drop_field f s)" "dies_by b s \<Longrightarrow> dies_by b (drop_field f s)"
  by (auto simp: holds_ok_def dies_by_def drop_field_def set_delete distinct_delete)

lemma drop_fields:
  "holds_ok s \<Longrightarrow> holds_ok (fold drop_field fs s)"
  "dies_by b s \<Longrightarrow> dies_by b (fold drop_field fs s)"
  "keys_die (fold drop_field fs s) = keys_die s"
  "holds (fold drop_field fs s) = filter (\<lambda>(f, a). f \<notin> set fs) (holds s)"
  "expiry (fold drop_field fs s) = filter (\<lambda>(f, a). f \<notin> set fs) (expiry s)"
proof -
  show "holds_ok s \<Longrightarrow> holds_ok (fold drop_field fs s)"
    "dies_by b s \<Longrightarrow> dies_by b (fold drop_field fs s)"
    by (induction fs arbitrary: s) (auto intro: drop_field_ok)
  show "keys_die (fold drop_field fs s) = keys_die s"
    "holds (fold drop_field fs s) = filter (\<lambda>(f, a). f \<notin> set fs) (holds s)"
    "expiry (fold drop_field fs s) = filter (\<lambda>(f, a). f \<notin> set fs) (expiry s)"
    by (induction fs arbitrary: s)
      (auto simp: drop_field_def AList.delete_eq intro!: filter_cong)
qed

lemma amounts_filter: "amounts P (filter (\<lambda>(f, a). Q f) hs) = amounts (\<lambda>f. P f \<and> Q f) hs"
  by (induction hs) auto

lemma sweep_ok: "holds_ok s \<Longrightarrow> holds_ok (sweep now s)" "dies_by b s \<Longrightarrow> dies_by b (sweep now s)"
  by (simp_all add: sweep_def drop_fields)

lemma swept_used:
  assumes "holds_ok s"
  shows "used sc (sweep now (keys_at now s)) \<le> used sc s"
proof -
  have "used sc (sweep now s) \<le> used sc s" if "holds_ok s" for now s
    using that by (simp add: used_def sweep_def drop_fields amounts_filter amounts_mono holds_ok_def)
  moreover have "used sc (keys_at now s) \<le> used sc s"
    using assms amounts_nonneg by (auto simp: keys_at_def used_def holds_ok_def)
  ultimately show ?thesis using keys_at_ok(1) [OF assms] by (meson order_trans)
qed

lemma update_member: "(f, a) \<in> set (AList.update g v hs) \<Longrightarrow> (f, a) \<in> set hs \<or> a = v"
  by (induction hs) (auto split: if_splits)

lemma take_hold_ok:
  assumes "holds_ok s" "0 \<le> need"
  shows "holds_ok (take_hold rid need dies b s)"
proof -
  have "0 \<le> a" if "(f, a) \<in> set (AList.update g need (holds s))" for f a g
    using that assms by (auto simp: holds_ok_def dest!: update_member)
  then show ?thesis using assms
    by (auto simp: holds_ok_def take_hold_def Let_def distinct_update dom_update)
qed

section \<open>What a reservation changes\<close>

definition plain_scopes :: "funds_bound list \<Rightarrow> bool" where
  "plain_scopes bounds = (\<forall>b\<in>set bounds. hold_sep \<notin> set (scope b))"

lemma take_hold_used:
  assumes "holds_ok s" "hold_sep \<notin> set (scope b)" "hold_sep \<notin> set sc"
  shows "used sc (take_hold rid need dies b s)
      = (if scope b = sc then used sc s - own rid sc s + need else used sc s)"
    "own rid sc (take_hold rid need dies b s) = (if scope b = sc then need else own rid sc s)"
proof -
  have d: "distinct (map fst (holds s))" using assms(1) by (simp add: holds_ok_def)
  show "used sc (take_hold rid need dies b s)
      = (if scope b = sc then used sc s - own rid sc s + need else used sc s)"
    using assms(2,3) amounts_update [OF d] own_field [OF d]
    by (auto simp: used_def take_hold_def Let_def)
  have d': "distinct (map fst (holds (take_hold rid need dies b s)))"
    using d by (simp add: take_hold_def Let_def distinct_update)
  show "own rid sc (take_hold rid need dies b s) = (if scope b = sc then need else own rid sc s)"
    using assms(2,3) own_field [OF d'] own_field [OF d]
    by (auto simp: take_hold_def Let_def update_conv' opt_or_def)
qed

lemma take_holds:
  assumes "0 \<le> need"
  shows "holds_ok s \<Longrightarrow> holds_ok (fold (take_hold rid need dies) bounds s)"
    "dies_by d s \<Longrightarrow> dies \<le> d \<Longrightarrow> dies_by d (fold (take_hold rid need dies) bounds s)"
    "holds_ok s \<Longrightarrow> plain_scopes bounds \<Longrightarrow> hold_sep \<notin> set sc \<Longrightarrow>
     used sc (fold (take_hold rid need dies) bounds s)
     = (if sc \<in> scope ` set bounds then used sc s - own rid sc s + need else used sc s)"
    "map_of (holds (fold (take_hold rid need dies) bounds s)) f =
     (if f \<in> (\<lambda>b. hold_field (scope b) rid) ` set bounds then Some need else map_of (holds s) f)"
proof -
  show "holds_ok s \<Longrightarrow> holds_ok (fold (take_hold rid need dies) bounds s)"
    using assms by (induction bounds arbitrary: s) (auto intro: take_hold_ok)
  show "dies_by d s \<Longrightarrow> dies \<le> d \<Longrightarrow> dies_by d (fold (take_hold rid need dies) bounds s)"
  proof (induction bounds arbitrary: s)
    case (Cons b bounds)
    have "dies_by d (take_hold rid need dies b s)"
      using Cons.prems by (auto simp: dies_by_def take_hold_def Let_def dest!: update_member)
    then show ?case using Cons by simp
  qed simp
  show "holds_ok s \<Longrightarrow> plain_scopes bounds \<Longrightarrow> hold_sep \<notin> set sc \<Longrightarrow>
     used sc (fold (take_hold rid need dies) bounds s)
     = (if sc \<in> scope ` set bounds then used sc s - own rid sc s + need else used sc s)"
  proof (induction bounds arbitrary: s)
    case (Cons b bounds)
    have p: "plain_scopes bounds" "hold_sep \<notin> set (scope b)"
      using Cons.prems by (simp_all add: plain_scopes_def)
    note u = take_hold_used [OF Cons.prems(1) p(2) Cons.prems(3), of rid need dies]
    show ?case
      using Cons.IH [OF take_hold_ok [OF Cons.prems(1) assms] p(1) Cons.prems(3)] u by auto
  qed simp
  show "map_of (holds (fold (take_hold rid need dies) bounds s)) f =
     (if f \<in> (\<lambda>b. hold_field (scope b) rid) ` set bounds then Some need else map_of (holds s) f)"
    by (induction bounds arbitrary: s)
      (auto simp: take_hold_def Let_def update_conv')
qed

text \<open>A reservation is all or nothing: it admits exactly when, after the sweep, the request fits
  every bound with its own earlier holds left out; then every named scope holds exactly the request's
  need under its id and every other hold is as it was, and a refused request leaves only the sweep.\<close>
theorem reserve_all_or_nothing:
  assumes "0 \<le> need"
  shows "reserve ttl now rid need bounds s = (ok, s') \<Longrightarrow>
    ok = (\<forall>b\<in>set bounds. used (scope b) (sweep now (keys_at now s))
        - own rid (scope b) (sweep now (keys_at now s)) + need \<le> available_micros b)
    \<and> map_of (holds s') f =
       (if ok \<and> f \<in> (\<lambda>b. hold_field (scope b) rid) ` set bounds then Some need
        else map_of (holds (sweep now (keys_at now s))) f)"
  using take_holds(4) [OF assms]
  by (auto simp: reserve_def Let_def bounds_fit_def list_all_iff not_less split: if_splits)

theorem reserve_all_or_nothing_witness:
  "\<exists>s'. reserve 600000 5 ''r'' 7 [\<lparr>scope = [], available_micros = 7\<rparr>] no_holds = (True, s')
    \<and> map_of (holds s') (hold_field [] ''r'') = Some 7"
proof -
  have "fst (reserve 600000 5 ''r'' 7 [\<lparr>scope = [], available_micros = 7\<rparr>] no_holds)" by code_simp
  then obtain s' where "reserve 600000 5 ''r'' 7 [\<lparr>scope = [], available_micros = 7\<rparr>] no_holds = (True, s')"
    by (cases "reserve 600000 5 ''r'' 7 [\<lparr>scope = [], available_micros = 7\<rparr>] no_holds") auto
  from reserve_all_or_nothing [OF _ this, of "hold_field [] ''r''"] this show ?thesis by auto
qed

section \<open>Runs of operations\<close>

datatype hold_op = Reserve int string int "funds_bound list" | Release int string | Outstanding int string

fun run_op :: "int \<Rightarrow> hold_op \<Rightarrow> org_holds \<Rightarrow> org_holds" where
  "run_op ttl (Reserve now rid need bounds) s = snd (reserve ttl now rid need bounds s)"
| "run_op ttl (Release now rid) s = snd (release now rid s)"
| "run_op ttl (Outstanding now sc) s = snd (outstanding now sc s)"

fun op_legal :: "hold_op \<Rightarrow> bool" where
  "op_legal (Reserve now rid need bounds) = (0 \<le> need \<and> plain_scopes bounds)"
| "op_legal _ = True"

fun op_caps :: "hold_op \<Rightarrow> string \<Rightarrow> int set" where
  "op_caps (Reserve now rid need bounds) sc = {available_micros b | b. b \<in> set bounds \<and> scope b = sc}"
| "op_caps _ sc = {}"

text \<open>Only a reservation writes a hold; \<open>reserved_by\<close> bounds the time of reservations and of nothing else.\<close>

fun reserved_by :: "int \<Rightarrow> hold_op \<Rightarrow> bool" where
  "reserved_by latest (Reserve now rid need bounds) = (now \<le> latest)"
| "reserved_by latest (Release now rid) = True"
| "reserved_by latest (Outstanding now sc) = True"

text \<open>
  A ledger of capped scopes: an operation raises what a scope holds only up to a ceiling it checked
  there.  Then no interleaving of operations takes the scope past the largest ceiling.
\<close>

locale capped_ledger =
  fixes step :: "'op \<Rightarrow> 's \<Rightarrow> 's" and held :: "'c \<Rightarrow> 's \<Rightarrow> int" and caps :: "'op \<Rightarrow> 'c \<Rightarrow> int set"
    and inv :: "'s \<Rightarrow> bool" and legal :: "'op \<Rightarrow> 'c \<Rightarrow> bool"
  assumes inv_step: "inv s \<Longrightarrow> legal p c \<Longrightarrow> inv (step p s)"
    and raises: "inv s \<Longrightarrow> legal p c \<Longrightarrow>
      held c (step p s) \<le> held c s \<or> (\<exists>a\<in>caps p c. held c (step p s) \<le> a)"
begin

lemma run_capped:
  "inv s \<Longrightarrow> \<forall>p\<in>set ps. legal p c \<and> (\<forall>a\<in>caps p c. a \<le> b) \<Longrightarrow> held c s \<le> b
   \<Longrightarrow> held c (fold step ps s) \<le> b"
proof (induction ps arbitrary: s)
  case (Cons p ps)
  have "held c (step p s) \<le> b" using raises [of s p c] Cons.prems by fastforce
  moreover have "inv (step p s)" using inv_step [of s p c] Cons.prems by simp
  ultimately show ?case using Cons.IH Cons.prems by simp
qed simp

lemma run_inv: "inv s \<Longrightarrow> \<forall>p\<in>set ps. legal p c \<Longrightarrow> inv (fold step ps s)"
  by (induction ps arbitrary: s) (auto intro: inv_step [of _ _ c])

end

lemma release_facts:
  "holds (snd (release now rid s)) = filter (\<lambda>(f, a). \<not> of_request rid f) (holds (keys_at now s))"
  "holds_ok s \<Longrightarrow> holds_ok (snd (release now rid s))"
  "dies_by d s \<Longrightarrow> dies_by d (snd (release now rid s))"
proof -
  show "holds (snd (release now rid s)) = filter (\<lambda>(f, a). \<not> of_request rid f) (holds (keys_at now s))"
    by (force simp: release_def Let_def drop_fields intro!: filter_cong)
qed (simp_all add: release_def Let_def drop_fields keys_at_ok)

lemma keys_at_used: "holds_ok s \<Longrightarrow> used sc (keys_at now s) \<le> used sc s"
  using amounts_nonneg by (auto simp: keys_at_def used_def holds_ok_def)

lemma release_used: "holds_ok s \<Longrightarrow> used sc (snd (release now rid s)) \<le> used sc s"
  using keys_at_used [of s sc now] amounts_mono [of "holds (keys_at now s)"] keys_at_ok(1) [of s now]
  by (force simp: used_def release_facts amounts_filter holds_ok_def intro: order_trans)

lemma keys_die_fields [simp]: "holds (s\<lparr>keys_die := k\<rparr>) = holds s" "holds_ok (s\<lparr>keys_die := k\<rparr>) = holds_ok s"
   "dies_by d (s\<lparr>keys_die := k\<rparr>) = dies_by d s" "used sc (s\<lparr>keys_die := k\<rparr>) = used sc s"
  by (simp_all add: holds_ok_def dies_by_def used_def)

lemma reserve_ok: "holds_ok s \<Longrightarrow> 0 \<le> need \<Longrightarrow> holds_ok (snd (reserve ttl now rid need bounds s))"
  by (simp add: reserve_def Let_def take_holds sweep_ok keys_at_ok)

lemma run_op_ok: "holds_ok s \<Longrightarrow> op_legal p \<Longrightarrow> holds_ok (run_op ttl p s)"
  by (cases p) (simp_all add: reserve_ok release_facts outstanding_def Let_def sweep_ok keys_at_ok)

lemma reserve_used:
  assumes "holds_ok s" "0 \<le> need" "plain_scopes bounds" "hold_sep \<notin> set sc"
  shows "used sc (snd (reserve ttl now rid need bounds s)) \<le> used sc s
    \<or> (\<exists>b\<in>set bounds. scope b = sc \<and> used sc (snd (reserve ttl now rid need bounds s)) \<le> available_micros b)"
proof -
  let ?s = "sweep now (keys_at now s)"
  have ok: "holds_ok ?s" using assms(1) by (simp add: sweep_ok keys_at_ok)
  show ?thesis
    using swept_used [OF assms(1)] take_holds(3) [OF assms(2) ok assms(3,4)]
    by (auto simp: reserve_def Let_def bounds_fit_def list_all_iff not_less)
qed

interpretation org: capped_ledger "run_op ttl" used op_caps holds_ok
    "\<lambda>p sc. op_legal p \<and> hold_sep \<notin> set sc" for ttl
proof
  fix s p c
  assume a: "holds_ok s" "op_legal p \<and> hold_sep \<notin> set c"
  then show "holds_ok (run_op ttl p s)" by (simp add: run_op_ok)
  show "used c (run_op ttl p s) \<le> used c s \<or> (\<exists>a\<in>op_caps p c. used c (run_op ttl p s) \<le> a)"
  proof (cases p)
    case (Reserve now rid need bounds)
    then show ?thesis using reserve_used [of s need bounds c ttl now rid] a by fastforce
  next
    case (Release now rid)
    then show ?thesis using release_used a by simp
  next
    case (Outstanding now sc)
    then show ?thesis using swept_used a by (simp add: outstanding_def Let_def)
  qed
qed

text \<open>C2. A burst cannot overshoot a ceiling: however many admissions, retries, settlements and counts
  for one organization interleave, if no admission was told more than \<open>b\<close> is available in a scope,
  the holds counted in it never exceed \<open>b\<close>.\<close>
theorem burst_never_overshoots:
  assumes "\<forall>p\<in>set ps. op_legal p \<and> (\<forall>a\<in>op_caps p sc. a \<le> b)" "0 \<le> b" "hold_sep \<notin> set sc"
  shows "used sc (fold (run_op ttl) ps no_holds) \<le> b"
  using org.run_capped [of no_holds ps sc b ttl] assms by simp

theorem burst_never_overshoots_witness:
  "used [] (fold (run_op 600000)
     [Reserve 1 ''a'' 6 [\<lparr>scope = [], available_micros = 10\<rparr>],
      Reserve 1 ''b'' 6 [\<lparr>scope = [], available_micros = 10\<rparr>],
      Reserve 2 ''a'' 3 [\<lparr>scope = [], available_micros = 10\<rparr>]] no_holds) \<le> 10"
  by (rule burst_never_overshoots) (simp_all add: plain_scopes_def)

section \<open>Holds die\<close>

lemma in_scope_prefix:
  "hold_sep \<notin> set sc \<Longrightarrow> has_prefix f (sc @ [hold_sep]) \<longleftrightarrow> in_scope sc f"
proof -
  assume sc: "hold_sep \<notin> set sc"
  have "has_prefix f (sc @ [hold_sep]) \<longleftrightarrow> (\<exists>r. f = hold_field sc r)"
    by (simp add: has_prefix_iff hold_field_def)
  also have "\<dots> \<longleftrightarrow> (\<exists>r. split_field f = Some (sc, r))" using sc by (simp add: split_field_Some)
  also have "\<dots> \<longleftrightarrow> in_scope sc f" by (auto simp: in_scope_def split: option.splits)
  finally show ?thesis .
qed

lemma outstanding_used:
  "hold_sep \<notin> set sc \<Longrightarrow> fst (outstanding now sc s) = used sc (sweep now (keys_at now s))"
  by (simp add: outstanding_def Let_def used_def in_scope_prefix)

lemma run_op_dies:
  assumes "dies_by (latest + ttl) s" "op_legal p" "reserved_by latest p"
  shows "dies_by (latest + ttl) (run_op ttl p s)"
proof (cases p)
  case (Reserve now rid need bounds)
  then show ?thesis using assms
    by (simp add: reserve_def Let_def take_holds(2) sweep_ok keys_at_ok)
qed (use assms in \<open>simp_all add: release_facts outstanding_def Let_def sweep_ok keys_at_ok\<close>)

lemma run_dies:
  "dies_by (latest + ttl) s \<Longrightarrow> \<forall>p\<in>set ps. op_legal p \<and> reserved_by latest p
   \<Longrightarrow> dies_by (latest + ttl) (fold (run_op ttl) ps s)"
  by (induction ps arbitrary: s) (auto intro: run_op_dies)

lemma dies_by_later: "dies_by d s \<Longrightarrow> d \<le> d' \<Longrightarrow> dies_by d' s"
  by (fastforce simp: dies_by_def)

lemma sweep_all: "holds_ok s \<Longrightarrow> dies_by now s \<Longrightarrow> holds (sweep now s) = []"
  by (fastforce simp: sweep_def drop_fields filter_empty_conv holds_ok_def dies_by_def image_iff)

text \<open>C9. A hold cannot leak: whatever was reserved and never released, from one time-to-live after the last
  reservation on nothing is counted in any scope, whenever releases, settlements and counts ran: they do
  not arm a hold anew.\<close>
theorem holds_never_leak:
  assumes "\<forall>p\<in>set ps. op_legal p \<and> reserved_by latest p" "hold_sep \<notin> set sc" "latest + ttl \<le> now"
  shows "fst (outstanding now sc (fold (run_op ttl) ps no_holds)) = 0"
proof -
  let ?s = "fold (run_op ttl) ps no_holds"
  have "dies_by (latest + ttl) ?s" using assms(1) by (intro run_dies) auto
  then have d: "dies_by now ?s" using assms(3) by (rule dies_by_later)
  have ok: "holds_ok ?s"
    using org.run_inv [of no_holds ps sc ttl] assms by simp
  have "holds (sweep now (keys_at now ?s)) = []"
    using d ok by (simp add: sweep_all keys_at_ok)
  then show ?thesis using assms(2) by (simp add: outstanding_used used_def)
qed

text \<open>Two reservations, a release of another request and a count half a million milliseconds later.\<close>

theorem holds_never_leak_witness:
  "fst (outstanding 600002 [] (fold (run_op 600000)
     [Reserve 1 ''a'' 6 [\<lparr>scope = [], available_micros = 10\<rparr>],
      Reserve 2 ''b'' 3 [\<lparr>scope = [], available_micros = 10\<rparr>],
      Release 500000 ''c'', Outstanding 600001 []] no_holds)) = 0"
  using holds_never_leak [of "[Reserve 1 ''a'' 6 [\<lparr>scope = [], available_micros = 10\<rparr>],
      Reserve 2 ''b'' 3 [\<lparr>scope = [], available_micros = 10\<rparr>],
      Release 500000 ''c'', Outstanding 600001 []]" 2 "[]" 600000 600002]
  by (simp add: plain_scopes_def)

section \<open>Settlement\<close>

lemma amounts_disjoint: "amounts P (filter (\<lambda>(f, a). \<not> P f) hs) = 0"
  by (induction hs) auto

text \<open>A settlement frees exactly one request: \<open>release\<close> returns the sum of the request's holds,
  leaves every other hold alone, and a redelivered settlement frees nothing.\<close>
theorem release_frees_request:
  "release now rid s = (freed, s') \<Longrightarrow> freed = amounts (of_request rid) (holds (keys_at now s))
     \<and> holds s' = filter (\<lambda>(f, a). \<not> of_request rid f) (holds (keys_at now s))
     \<and> fst (release now' rid s') = 0"
proof -
  assume r: "release now rid s = (freed, s')"
  then have s: "s' = snd (release now rid s)" "freed = fst (release now rid s)" by simp_all
  have "holds (keys_at now' s') \<in> {[], holds s'}" by (simp add: keys_at_def)
  then show ?thesis unfolding s(2)
    using amounts_disjoint by (auto simp: s(1) release_facts) (auto simp: release_def Let_def)
qed

theorem release_frees_request_witness:
  "\<exists>s'. release 5 ''a'' (\<lparr>holds = [(hold_field [] ''a'', 4), (hold_field [] ''b'', 2)],
      expiry = [], keys_die = 9\<rparr>) = (4, s') \<and> fst (release 6 ''a'' s') = 0"
proof -
  let ?s = "\<lparr>holds = [(hold_field [] ''a'', 4), (hold_field [] ''b'', 2)], expiry = [], keys_die = 9\<rparr>"
  have f: "fst (release 5 ''a'' ?s) = 4" by code_simp
  obtain n s' where r: "release 5 ''a'' ?s = (n, s')" by (cases "release 5 ''a'' ?s")
  then show ?thesis using release_frees_request [OF r, of 6] f by auto
qed

end
