(* ===== verification/Ledger.thy ===== *)
theory Ledger
  imports GoFloat "HOL-Library.List_Lexorder" "HOL-Library.Char_ord"
begin

text \<open>
  The billing ledger (\<open>services/billing\<close>: \<open>billing_repository.go\<close>, \<open>account_repository.go\<close> and the
  models they persist): usage lines, charge records, accounts and the append-only transactions.

  \<open>db\<close> is the four tables as lists in insertion order.  An operation is one database transaction:
  it returns an error, which rolls everything back, or the new tables.  Generated ids are arguments.
  \<open>cents\<close> is the database's \<open>COALESCE(ROUND(SUM(amount) * 100), 0)\<close> over the amounts a query selects;
  it is evaluated by the database, so it is a parameter.  Completion times are unix seconds, the
  resolution of the metering events the lines come from.  Money is kept in 64 bits (\<open>wrap64\<close>); the
  optimistic-lock counter, which counts writes, is not wrapped.
\<close>

section \<open>Tables\<close>

record account =
  acct_id :: string
  acct_org :: string
  acct_mode :: string
  balance_cents :: int
  monthly_quota_cents :: int
  used_this_cycle_cents :: int
  cycle_started_at :: int
  overdraw_policy :: string
  acct_currency :: string
  acct_version :: int
  monthly_spend_limit_cents :: int
  spent_this_cycle_cents :: int
  auto_recharge_enabled :: bool
  auto_recharge_threshold_cents :: int
  auto_recharge_topup_cents :: int
  auto_recharge_daily_cap_cents :: int

record transaction =
  tx_id :: string
  tx_account :: string
  tx_type :: string
  tx_amount_cents :: int
  tx_balance_after :: int
  tx_key :: string
  tx_reference :: string
  tx_source :: string
  tx_actor :: "string option"

record usage_line =
  ul_id :: string
  ul_request :: string
  ul_org :: string
  ul_key :: string
  ul_owner :: "string option"
  ul_project :: "string option"
  ul_model :: string
  ul_service :: "string option"
  ul_card :: string
  ul_prompt :: int
  ul_completion :: int
  ul_cached :: int
  ul_reasoning :: int
  ul_completed_at :: int
  ul_charge :: "string option"
  ul_accrual :: int

record charge_record =
  cr_id :: string
  cr_org :: string
  cr_key :: string
  cr_owner :: "string option"
  cr_project :: "string option"
  cr_model :: string
  cr_card :: string
  cr_period_start :: int
  cr_period_end :: int
  cr_prompt :: int
  cr_completion :: int
  cr_cached :: int
  cr_reasoning :: int
  cr_requests :: int
  cr_amount :: f64
  cr_currency :: string
  cr_price :: "string option"
  cr_tier :: int
  cr_priced :: bool
  cr_month_to_date :: int

record usage_group =
  ug_org :: string
  ug_key :: string
  ug_owner :: string
  ug_project :: string
  ug_model :: string
  ug_card :: string
  ug_period_start :: int
  ug_period_end :: int
  ug_prompt :: int
  ug_completion :: int
  ug_cached :: int
  ug_reasoning :: int
  ug_requests :: int

record db =
  accounts :: "account list"
  transactions :: "transaction list"
  usage_lines :: "usage_line list"
  charges :: "charge_record list"

datatype billing_error = AccountInvalid | TransactionInvalid | AccountNotFound | RecordNotFound
  | PaymentIntentInvalid | Internal string

definition empty_db :: db where
  "empty_db = \<lparr>accounts = [], transactions = [], usage_lines = [], charges = []\<rparr>"

definition find_by_org :: "string \<Rightarrow> db \<Rightarrow> account option" where
  "find_by_org org d = find (\<lambda>a. acct_org a = org) (accounts d)"

definition find_by_id :: "string \<Rightarrow> db \<Rightarrow> account option" where
  "find_by_id aid d = find (\<lambda>a. acct_id a = aid) (accounts d)"

definition find_transaction_by_key :: "string \<Rightarrow> db \<Rightarrow> transaction option" where
  "find_transaction_by_key k d = find (\<lambda>t. tx_key t = k) (transactions d)"

section \<open>Accounts\<close>

text \<open>Inserting a transaction fails on its unique id or idempotency key.\<close>

definition insert_transaction :: "transaction \<Rightarrow> db \<Rightarrow> billing_error + db" where
  "insert_transaction t d =
     (if \<exists>u\<in>set (transactions d). tx_id u = tx_id t \<or> tx_key u = tx_key t
      then Inl (Internal ''unique violation'')
      else Inr (d\<lparr>transactions := transactions d @ [t]\<rparr>))"

text \<open>The version-guarded update: whether a row was affected, and the tables.\<close>

definition update_account_row ::
  "string \<Rightarrow> int \<Rightarrow> (account \<Rightarrow> account) \<Rightarrow> db \<Rightarrow> bool \<times> db" where
  "update_account_row aid ver f d =
     ((\<exists>a\<in>set (accounts d). acct_id a = aid \<and> acct_version a = ver),
      d\<lparr>accounts := update_where (\<lambda>a. acct_id a = aid \<and> acct_version a = ver)
          (\<lambda>a. (f a)\<lparr>acct_version := ver + 1\<rparr>) (accounts d)\<rparr>)"

definition create_account ::
  "string \<Rightarrow> account \<Rightarrow> int \<Rightarrow> db \<Rightarrow> billing_error + (account \<times> transaction option \<times> db)" where
  "create_account tid account initial d =
     (if \<exists>a\<in>set (accounts d). acct_org a = acct_org account \<or> acct_id a = acct_id account
      then Inl AccountInvalid
      else
        (let d1 = d\<lparr>accounts := accounts d @ [account]\<rparr> in
         if 0 < initial then
           (let opening = \<lparr>tx_id = tid, tx_account = acct_id account, tx_type = ''recharge'',
                  tx_amount_cents = initial, tx_balance_after = initial,
                  tx_key = ''opening:'' @ acct_id account, tx_reference = ''opening balance'',
                  tx_source = [], tx_actor = None\<rparr> in
            case insert_transaction opening d1 of
              Inl e \<Rightarrow> Inl e
            | Inr d2 \<Rightarrow>
                Inr (account\<lparr>balance_cents := initial\<rparr>, Some opening,
                  d2\<lparr>accounts := update_where (\<lambda>a. acct_id a = acct_id account)
                       (\<lambda>a. a\<lparr>balance_cents := initial\<rparr>) (accounts d2)\<rparr>))
         else Inr (account, None, d1)))"

definition update_account ::
  "account \<Rightarrow> string \<Rightarrow> int \<Rightarrow> string \<Rightarrow> int \<Rightarrow> db \<Rightarrow> billing_error + (account option \<times> db)" where
  "update_account account mode quota policy spend_limit d =
     (case update_account_row (acct_id account) (acct_version account)
             (\<lambda>a. a\<lparr>acct_mode := mode, monthly_quota_cents := quota, overdraw_policy := policy,
                monthly_spend_limit_cents := spend_limit\<rparr>) d of
        (hit, d') \<Rightarrow> if hit then Inr (find_by_id (acct_id account) d', d') else Inl AccountInvalid)"

record money_movement =
  mm_note :: string
  mm_source :: string
  mm_actor :: string

definition max_balance_retries :: nat where
  "max_balance_retries = 8"

definition signed_amount :: "string \<Rightarrow> int \<Rightarrow> int" where
  "signed_amount ty amount = (if ty = ''refund'' then - amount else amount)"

text \<open>
  The bounded optimistic retry: \<open>others n\<close> is what other transactions commit between an attempt's
  read and its update, with \<open>n\<close> attempts left after it.  An error rolls back this transaction only.
\<close>

fun recharge_loop ::
  "nat \<Rightarrow> string \<Rightarrow> transaction \<Rightarrow> (nat \<Rightarrow> db \<Rightarrow> db) \<Rightarrow> db
   \<Rightarrow> (billing_error + (account \<times> transaction)) \<times> db" where
  "recharge_loop 0 aid row others d =
     (Inl (Internal ''billing: balance write conflict exhausted retries''), d)"
| "recharge_loop (Suc n) aid row others d =
     (case find_by_id aid d of
        None \<Rightarrow> (Inl RecordNotFound, d)
      | Some current \<Rightarrow>
          (let new_balance = wrap64 (balance_cents current
                 + signed_amount (tx_type row) (tx_amount_cents row));
               d1 = others n d;
               (hit, d2) = update_account_row (acct_id current) (acct_version current)
                 (\<lambda>a. a\<lparr>balance_cents := new_balance\<rparr>) d1;
               row' = row\<lparr>tx_balance_after := new_balance\<rparr>
           in if hit then
                (case insert_transaction row' d2 of
                   Inl e \<Rightarrow> (Inl e, d1)
                 | Inr d3 \<Rightarrow> (Inr (current\<lparr>balance_cents := new_balance,
                      acct_version := acct_version current + 1\<rparr>, row'), d3))
              else recharge_loop n aid row others d1))"

definition recharge ::
  "string \<Rightarrow> account \<Rightarrow> int \<Rightarrow> string \<Rightarrow> money_movement \<Rightarrow> string \<Rightarrow> (nat \<Rightarrow> db \<Rightarrow> db) \<Rightarrow> db
   \<Rightarrow> (billing_error + (account option \<times> transaction)) \<times> db" where
  "recharge tid account amount key movement ty others d =
     (case find_transaction_by_key key d of
        Some existing \<Rightarrow>
          if tx_account existing \<noteq> acct_id account \<or> tx_type existing \<noteq> ty
              \<or> tx_amount_cents existing \<noteq> amount
          then (Inl TransactionInvalid, d)
          else (Inr (find_by_id (acct_id account) d, existing), d)
      | None \<Rightarrow>
          (case recharge_loop max_balance_retries (acct_id account)
                  \<lparr>tx_id = tid, tx_account = acct_id account, tx_type = ty, tx_amount_cents = amount,
                   tx_balance_after = 0, tx_key = key, tx_reference = mm_note movement,
                   tx_source = mm_source movement,
                   tx_actor = (if mm_actor movement \<noteq> [] then Some (mm_actor movement) else None)\<rparr>
                  others d of
             (Inl e, d') \<Rightarrow> (Inl e, d')
           | (Inr (a, t), d') \<Rightarrow> (Inr (Some a, t), d')))"

definition reset_cycle :: "int \<Rightarrow> db \<Rightarrow> int \<times> db" where
  "reset_cycle month_start d =
     (int (length (filter (\<lambda>a. cycle_started_at a < month_start) (accounts d))),
      d\<lparr>accounts := update_where (\<lambda>a. cycle_started_at a < month_start)
          (\<lambda>a. a\<lparr>used_this_cycle_cents := 0, spent_this_cycle_cents := 0,
             cycle_started_at := month_start, acct_version := acct_version a + 1\<rparr>) (accounts d)\<rparr>)"

section \<open>Deductions\<close>

definition cycle_amounts :: "string \<Rightarrow> int \<Rightarrow> db \<Rightarrow> f64 list" where
  "cycle_amounts org since d =
     map cr_amount (filter (\<lambda>c. cr_org c = org \<and> since \<le> cr_period_start c) (charges d))"

definition cycle_accrual :: "(f64 list \<Rightarrow> int) \<Rightarrow> account \<Rightarrow> db \<Rightarrow> int" where
  "cycle_accrual cents a d =
     (let charged = cents (cycle_amounts (acct_org a) (cycle_started_at a) d)
      in if charged \<le> spent_this_cycle_cents a then 0 else charged - spent_this_cycle_cents a)"

record deduction_spec =
  ds_account :: string
  ds_charge :: string

text \<open>\<open>conflict\<close>: another transaction changed the account between the read and the update.\<close>

definition apply_deduction ::
  "(f64 list \<Rightarrow> int) \<Rightarrow> string \<Rightarrow> bool \<Rightarrow> deduction_spec \<Rightarrow> db \<Rightarrow> billing_error + db" where
  "apply_deduction cents tid conflict spec d =
     (case find_transaction_by_key (''charge:'' @ ds_charge spec) d of
        Some _ \<Rightarrow> Inr d
      | None \<Rightarrow>
          (case find_by_id (ds_account spec) d of
             None \<Rightarrow> Inl RecordNotFound
           | Some a \<Rightarrow>
               (let accrued = cycle_accrual cents a d;
                    postpaid = (acct_mode a = ''postpaid'');
                    new_balance = (if postpaid then balance_cents a
                      else wrap64 (balance_cents a - accrued));
                    new_used = (if postpaid then wrap64 (used_this_cycle_cents a + accrued)
                      else used_this_cycle_cents a);
                    new_spent = wrap64 (spent_this_cycle_cents a + accrued);
                    row = \<lparr>tx_id = tid, tx_account = acct_id a, tx_type = ''deduction'',
                      tx_amount_cents = accrued, tx_balance_after = new_balance,
                      tx_key = ''charge:'' @ ds_charge spec, tx_reference = ds_charge spec,
                      tx_source = [], tx_actor = None\<rparr>
                in case insert_transaction row d of
                     Inl e \<Rightarrow> Inl e
                   | Inr d1 \<Rightarrow>
                       (case update_account_row (acct_id a) (acct_version a)
                               (\<lambda>a. a\<lparr>balance_cents := new_balance, used_this_cycle_cents := new_used,
                                  spent_this_cycle_cents := new_spent\<rparr>) d1 of
                          (hit, d2) \<Rightarrow> if hit \<and> \<not> conflict then Inr d2
                            else Inl (Internal ''billing: deduction version conflict'')))))"

section \<open>Usage lines and charges\<close>

definition ingest_usage_line :: "usage_line \<Rightarrow> db \<Rightarrow> billing_error + (usage_line \<times> db)" where
  "ingest_usage_line line d =
     (if \<exists>l\<in>set (usage_lines d). ul_request l = ul_request line \<or> ul_id l = ul_id line
      then (case find (\<lambda>l. ul_request l = ul_request line) (usage_lines d) of
              None \<Rightarrow> Inl (Internal ''billing: usage line re-select failed'')
            | Some l \<Rightarrow> Inr (l, d))
      else Inr (line, d\<lparr>usage_lines := usage_lines d @ [line]\<rparr>))"

text \<open>SQL \<open>MAX\<close> over text, with \<open>''''\<close> for no value.\<close>

definition max_text :: "string option list \<Rightarrow> string" where
  "max_text xs = foldl max [] (map (\<lambda>x. opt_or x []) xs)"

definition group_key :: "usage_line \<Rightarrow> string \<times> string \<times> string \<times> string" where
  "group_key l = (ul_org l, ul_key l, ul_model l, ul_card l)"

definition uncharged_in :: "string \<Rightarrow> int \<Rightarrow> int \<Rightarrow> usage_line \<Rightarrow> bool" where
  "uncharged_in key ps pe l =
     (ul_key l = key \<and> ps \<le> ul_completed_at l \<and> ul_completed_at l < pe \<and> ul_charge l = None)"

definition group_of_lines :: "int \<Rightarrow> int \<Rightarrow> string \<times> string \<times> string \<times> string \<Rightarrow> usage_line list \<Rightarrow> usage_group" where
  "group_of_lines ps pe k ls =
     (case k of (org, key, mdl, crd) \<Rightarrow>
        \<lparr>ug_org = org, ug_key = key, ug_owner = max_text (map ul_owner ls),
         ug_project = max_text (map ul_project ls), ug_model = mdl, ug_card = crd,
         ug_period_start = ps, ug_period_end = pe,
         ug_prompt = sum_list (map ul_prompt ls), ug_completion = sum_list (map ul_completion ls),
         ug_cached = sum_list (map ul_cached ls), ug_reasoning = sum_list (map ul_reasoning ls),
         ug_requests = int (length ls)\<rparr>)"

definition uncharged_groups :: "string \<Rightarrow> int \<Rightarrow> int \<Rightarrow> db \<Rightarrow> usage_group list" where
  "uncharged_groups key ps pe d =
     (let ls = filter (uncharged_in key ps pe) (usage_lines d)
      in map (\<lambda>k. group_of_lines ps pe k (filter (\<lambda>l. group_key l = k) ls)) (remdups (map group_key ls)))"

definition uncharged_hour_buckets :: "int \<Rightarrow> db \<Rightarrow> (string \<times> string \<times> int) list" where
  "uncharged_hour_buckets eligible_before d =
     remdups (map (\<lambda>l. (ul_key l, ul_org l, ul_completed_at l div 3600 * 3600))
       (filter (\<lambda>l. ul_charge l = None \<and> ul_completed_at l < eligible_before) (usage_lines d)))"

definition same_group_period :: "charge_record \<Rightarrow> charge_record \<Rightarrow> bool" where
  "same_group_period c c' = (cr_key c = cr_key c' \<and> cr_model c = cr_model c'
     \<and> cr_card c = cr_card c' \<and> cr_period_start c = cr_period_start c')"

definition charges_line :: "usage_group \<Rightarrow> usage_line \<Rightarrow> bool" where
  "charges_line g l = (ul_key l = ug_key g \<and> ul_model l = ug_model g \<and> ul_card l = ug_card g
     \<and> ug_period_start g \<le> ul_completed_at l \<and> ul_completed_at l < ug_period_end g
     \<and> ul_charge l = None)"

definition mark_lines :: "usage_group \<Rightarrow> string \<Rightarrow> db \<Rightarrow> db" where
  "mark_lines g cid d = d\<lparr>usage_lines := update_where (charges_line g)
     (\<lambda>l. l\<lparr>ul_charge := Some cid, ul_accrual := 0\<rparr>) (usage_lines d)\<rparr>"

definition charge_group ::
  "(f64 list \<Rightarrow> int) \<Rightarrow> string \<Rightarrow> bool \<Rightarrow> usage_group \<Rightarrow> charge_record \<Rightarrow> deduction_spec option \<Rightarrow> db
   \<Rightarrow> billing_error + db" where
  "charge_group cents tid conflict g rec deduction d =
     (if \<exists>c\<in>set (charges d). same_group_period c rec \<or> cr_id c = cr_id rec
      then (case find (\<lambda>c. cr_key c = ug_key g \<and> cr_model c = ug_model g \<and> cr_card c = ug_card g
                    \<and> cr_period_start c = ug_period_start g) (charges d) of
              None \<Rightarrow> Inl RecordNotFound
            | Some c \<Rightarrow> Inr (mark_lines g (cr_id c) d))
      else
        (let d1 = d\<lparr>charges := charges d @ [rec]\<rparr> in
         case (case deduction of None \<Rightarrow> Inr d1 | Some spec \<Rightarrow> apply_deduction cents tid conflict spec d1) of
           Inl e \<Rightarrow> Inl e
         | Inr d2 \<Rightarrow> Inr (mark_lines g (cr_id rec) d2)))"

definition release_stale_accrual :: "int \<Rightarrow> db \<Rightarrow> int \<times> int \<times> db" where
  "release_stale_accrual before d =
     (let stale = (\<lambda>l. ul_charge l = None \<and> ul_accrual l \<noteq> 0 \<and> ul_completed_at l < before);
          released = sum_list (map ul_accrual (filter stale (usage_lines d)))
      in if released = 0 then (0, 0, d)
         else (int (length (filter stale (usage_lines d))), released,
               d\<lparr>usage_lines := update_where stale (\<lambda>l. l\<lparr>ul_accrual := 0\<rparr>) (usage_lines d)\<rparr>))"

definition month_to_date_tokens :: "string \<Rightarrow> string \<Rightarrow> string \<Rightarrow> int \<Rightarrow> int \<Rightarrow> db \<Rightarrow> int" where
  "month_to_date_tokens org mdl crd month_start before d =
     sum_list (map (\<lambda>c. cr_prompt c + cr_completion c + cr_cached c + cr_reasoning c)
       (filter (\<lambda>c. cr_org c = org \<and> cr_model c = mdl \<and> cr_card c = crd
          \<and> month_start \<le> cr_period_start c \<and> cr_period_start c < before) (charges d)))"

text \<open>The two sums of the funds gate; an empty owner or project does not restrict the scope.\<close>

definition scope_matches :: "string \<Rightarrow> string option \<Rightarrow> bool" where
  "scope_matches want have = (want = [] \<or> have = Some want)"

definition scoped_spent_cents ::
  "(f64 list \<Rightarrow> int) \<Rightarrow> string \<Rightarrow> int \<Rightarrow> string \<Rightarrow> string \<Rightarrow> db \<Rightarrow> int" where
  "scoped_spent_cents cents org since owner project d =
     cents (map cr_amount (filter (\<lambda>c. cr_org c = org \<and> since \<le> cr_period_start c
        \<and> scope_matches owner (cr_owner c) \<and> scope_matches project (cr_project c)) (charges d)))"

definition accrual_micros :: "string \<Rightarrow> int \<Rightarrow> string \<Rightarrow> string \<Rightarrow> db \<Rightarrow> int" where
  "accrual_micros org since owner project d =
     sum_list (map ul_accrual (filter (\<lambda>l. ul_org l = org \<and> ul_charge l = None
        \<and> since \<le> ul_completed_at l \<and> scope_matches owner (ul_owner l)
        \<and> scope_matches project (ul_project l)) (usage_lines d)))"

definition auto_recharge_candidates :: "db \<Rightarrow> account list" where
  "auto_recharge_candidates d = filter (\<lambda>a. acct_mode a = ''prepaid'' \<and> auto_recharge_enabled a
     \<and> balance_cents a < auto_recharge_threshold_cents a) (accounts d)"

section \<open>Histories\<close>

datatype ledger_op =
    Ingest usage_line
  | Charge string bool usage_group charge_record "deduction_spec option"
  | CreateAccount string account int
  | UpdateAccount account string int string int
  | Recharge string account int string money_movement string
  | ResetCycle int
  | ReleaseStale int

text \<open>One committed transaction; an error leaves the tables as they were.\<close>

fun run_ledger :: "(f64 list \<Rightarrow> int) \<Rightarrow> ledger_op \<Rightarrow> db \<Rightarrow> db" where
  "run_ledger cents (Ingest line) d =
     (case ingest_usage_line line d of Inl e \<Rightarrow> d | Inr (l, d') \<Rightarrow> d')"
| "run_ledger cents (Charge tid conflict g rec spec) d =
     (case charge_group cents tid conflict g rec spec d of Inl e \<Rightarrow> d | Inr d' \<Rightarrow> d')"
| "run_ledger cents (CreateAccount tid a initial) d =
     (case create_account tid a initial d of Inl e \<Rightarrow> d | Inr (a', t, d') \<Rightarrow> d')"
| "run_ledger cents (UpdateAccount a mode quota policy limit) d =
     (case update_account a mode quota policy limit d of Inl e \<Rightarrow> d | Inr (a', d') \<Rightarrow> d')"
| "run_ledger cents (Recharge tid a amount key mv ty) d =
     snd (recharge tid a amount key mv ty (\<lambda>n d. d) d)"
| "run_ledger cents (ResetCycle t) d = snd (reset_cycle t d)"
| "run_ledger cents (ReleaseStale t) d = snd (snd (release_stale_accrual t d))"

fun op_ok :: "ledger_op \<Rightarrow> bool" where
  "op_ok (Ingest line) = (ul_charge line = None)"
| "op_ok (Charge tid conflict g rec spec) = (cr_key rec = ug_key g \<and> cr_model rec = ug_model g
     \<and> cr_card rec = ug_card g \<and> cr_period_start rec = ug_period_start g)"
| "op_ok (CreateAccount tid a initial) = (balance_cents a = 0 \<and> in_int64 initial)"
| "op_ok (Recharge tid a amount key mv ty) = (ty = ''recharge'' \<or> ty = ''refund'')"
| "op_ok _ = True"

section \<open>The audit trail\<close>

definition rows_of :: "string \<Rightarrow> db \<Rightarrow> transaction list" where
  "rows_of aid d = filter (\<lambda>t. tx_account t = aid) (transactions d)"

definition row_follows :: "int \<Rightarrow> transaction \<Rightarrow> bool" where
  "row_follows b t =
     (if tx_type t = ''deduction''
      then tx_balance_after t = b \<or> tx_balance_after t = wrap64 (b - tx_amount_cents t)
      else tx_balance_after t = wrap64 (b + signed_amount (tx_type t) (tx_amount_cents t)))"

fun chain :: "int \<Rightarrow> transaction list \<Rightarrow> bool" where
  "chain b [] = True"
| "chain b (t # ts) = (row_follows b t \<and> chain (tx_balance_after t) ts)"

fun final_balance :: "int \<Rightarrow> transaction list \<Rightarrow> int" where
  "final_balance b [] = b"
| "final_balance b (t # ts) = final_balance (tx_balance_after t) ts"

lemma chain_append [simp]:
  "chain b (ts @ [t]) \<longleftrightarrow> chain b ts \<and> row_follows (final_balance b ts) t"
  "final_balance b (ts @ [t]) = tx_balance_after t"
  by (induction ts arbitrary: b) auto

definition keys_ok :: "db \<Rightarrow> bool" where
  "keys_ok d = (distinct (map acct_id (accounts d)) \<and> distinct (map tx_key (transactions d))
     \<and> (\<forall>t\<in>set (transactions d). tx_account t \<in> acct_id ` set (accounts d)))"

definition audited :: "db \<Rightarrow> bool" where
  "audited d = (\<forall>a\<in>set (accounts d). chain 0 (rows_of (acct_id a) d)
     \<and> balance_cents a = final_balance 0 (rows_of (acct_id a) d))"

definition ledger_ok :: "db \<Rightarrow> bool" where
  "ledger_ok d = (keys_ok d \<and> audited d)"

lemma find_by_idD: "find_by_id aid d = Some a \<Longrightarrow> a \<in> set (accounts d) \<and> acct_id a = aid"
  by (auto simp: find_by_id_def find_Some_iff)

lemma insert_transactionD:
  "insert_transaction t d = Inr d' \<Longrightarrow> d' = d\<lparr>transactions := transactions d @ [t]\<rparr>
     \<and> tx_key t \<notin> tx_key ` set (transactions d)"
  by (auto simp: insert_transaction_def split: if_splits)

text \<open>A row and the balance written with it keep the trail.\<close>

lemma audited_write:
  assumes ok: "ledger_ok d" and a: "a \<in> set (accounts d)"
    and t: "tx_account t = acct_id a" "row_follows (balance_cents a) t" "tx_key t \<notin> tx_key ` set (transactions d)"
    and f: "\<And>r. acct_id (f r) = acct_id r" "\<And>r. balance_cents (f r) = tx_balance_after t"
    and v: "acct_version a = ver"
    and d': "accounts d' = update_where (\<lambda>r. acct_id r = acct_id a \<and> acct_version r = ver) f (accounts d)"
      "transactions d' = transactions d @ [t]"
  shows "ledger_ok d'"
proof -
  have ids: "map acct_id (accounts d') = map acct_id (accounts d)"
    unfolding d' using f(1) by (rule update_where_map)
  have im: "acct_id ` set (accounts d') = acct_id ` set (accounts d)"
    using arg_cong [OF ids, of set] by simp
  have k: "keys_ok d'"
    using ok t(1,3) a unfolding ledger_ok_def keys_ok_def ids im d'(2) by auto
  have one: "r = a" if "r \<in> set (accounts d)" "acct_id r = acct_id a" for r
    using ok that a unfolding ledger_ok_def keys_ok_def distinct_map inj_on_def by blast
  have "chain 0 (rows_of (acct_id r') d') \<and> balance_cents r' = final_balance 0 (rows_of (acct_id r') d')"
    if mem: "r' \<in> set (accounts d')" for r'
  proof -
    obtain r where r: "r \<in> set (accounts d)"
      "r' = (if acct_id r = acct_id a \<and> acct_version r = ver then f r else r)"
      using mem unfolding d'(1) update_where_set by blast
    have au: "chain 0 (rows_of (acct_id r) d)" "balance_cents r = final_balance 0 (rows_of (acct_id r) d)"
      using ok r(1) by (auto simp: ledger_ok_def audited_def)
    show ?thesis
    proof (cases "acct_id r = acct_id a")
      case True
      then have "r = a" by (rule one [OF r(1)])
      then show ?thesis using au r(2) t f v by (simp add: rows_of_def d'(2))
    next
      case False
      then show ?thesis using au r(2) t(1) by (simp add: rows_of_def d'(2))
    qed
  qed
  then show ?thesis using k by (simp add: ledger_ok_def audited_def)
qed

text \<open>A write to the accounts that keeps ids and balances keeps it too.\<close>

lemma audited_other:
  assumes "ledger_ok d" "\<And>r. acct_id (f r) = acct_id r" "\<And>r. balance_cents (f r) = balance_cents r"
    "accounts d' = update_where P f (accounts d)" "transactions d' = transactions d"
  shows "ledger_ok d'"
proof -
  have ids: "map acct_id (accounts d') = map acct_id (accounts d)"
    unfolding assms(4) using assms(2) by (rule update_where_map)
  have im: "acct_id ` set (accounts d') = acct_id ` set (accounts d)"
    using arg_cong [OF ids, of set] by simp
  have "keys_ok d'" using assms(1) unfolding ledger_ok_def keys_ok_def ids assms(5) im by simp
  moreover have "audited d'" unfolding audited_def assms(4) update_where_set
    using assms(1-3,5) by (auto simp: ledger_ok_def audited_def rows_of_def)
  ultimately show ?thesis by (simp add: ledger_ok_def)
qed

lemma ledger_ok_cong:
  "accounts d' = accounts d \<Longrightarrow> transactions d' = transactions d \<Longrightarrow> ledger_ok d' = ledger_ok d"
  by (simp add: ledger_ok_def keys_ok_def audited_def rows_of_def)


text \<open>What each operation writes.\<close>

lemma recharge_loop_ok:
  "recharge_loop n aid row (\<lambda>n d. d) d = (r, d') \<Longrightarrow> ledger_ok d \<Longrightarrow> tx_account row = aid
   \<Longrightarrow> tx_type row \<noteq> ''deduction'' \<Longrightarrow> ledger_ok d'"
proof (induction n arbitrary: d)
  case (Suc n)
  show ?case
  proof (cases "find_by_id aid d")
    case (Some cur)
    note cur = find_by_idD [OF Some]
    let ?nb = "wrap64 (balance_cents cur + signed_amount (tx_type row) (tx_amount_cents row))"
    let ?t = "row\<lparr>tx_balance_after := ?nb\<rparr>"
    let ?d2 = "snd (update_account_row aid (acct_version cur) (\<lambda>a. a\<lparr>balance_cents := ?nb\<rparr>) d)"
    have hit: "fst (update_account_row aid (acct_version cur) (\<lambda>a. a\<lparr>balance_cents := ?nb\<rparr>) d)"
      using cur by (auto simp: update_account_row_def)
    have r: "(r, d') = (case insert_transaction ?t ?d2 of
                   Inl e \<Rightarrow> (Inl e, d)
                 | Inr d3 \<Rightarrow> (Inr (cur\<lparr>balance_cents := ?nb,
                      acct_version := acct_version cur + 1\<rparr>, ?t), d3))"
      using Suc.prems(1) Some hit cur by (simp add: Let_def split_beta)
    show ?thesis
    proof (cases "insert_transaction ?t ?d2")
      case (Inl e)
      then show ?thesis using r Suc.prems(2) by simp
    next
      case (Inr d3)
      note i = insert_transactionD [OF Inr]
      show ?thesis
        by (rule audited_write [OF Suc.prems(2), of cur ?t
              "\<lambda>a. a\<lparr>balance_cents := ?nb, acct_version := acct_version cur + 1\<rparr>" "acct_version cur"])
          (use r Inr i cur Suc.prems in \<open>simp_all add: row_follows_def update_account_row_def\<close>)
    qed
  qed (use Suc.prems in simp)
qed simp

lemma recharge_ok:
  assumes "ledger_ok d" "ty = ''recharge'' \<or> ty = ''refund''"
  shows "ledger_ok (snd (recharge tid a amount key mv ty (\<lambda>n d. d) d))"
proof (cases "find_transaction_by_key key d")
  case None
  obtain r d' where l: "recharge_loop max_balance_retries (acct_id a)
      \<lparr>tx_id = tid, tx_account = acct_id a, tx_type = ty, tx_amount_cents = amount,
       tx_balance_after = 0, tx_key = key, tx_reference = mm_note mv, tx_source = mm_source mv,
       tx_actor = (if mm_actor mv \<noteq> [] then Some (mm_actor mv) else None)\<rparr> (\<lambda>n d. d) d = (r, d')"
    by fastforce
  have "ledger_ok d'" by (rule recharge_loop_ok [OF l assms(1)]) (use assms(2) in auto)
  then show ?thesis using None l by (simp add: recharge_def split: sum.splits prod.splits)
qed (use assms in \<open>simp add: recharge_def\<close>)

text \<open>What a deduction writes, when it was not already applied.\<close>

definition deducted_balance :: "account \<Rightarrow> int \<Rightarrow> int" where
  "deducted_balance a accrued = (if acct_mode a = ''postpaid'' then balance_cents a
     else wrap64 (balance_cents a - accrued))"

definition deducted_used :: "account \<Rightarrow> int \<Rightarrow> int" where
  "deducted_used a accrued = (if acct_mode a = ''postpaid'' then wrap64 (used_this_cycle_cents a + accrued)
     else used_this_cycle_cents a)"

definition deduction_row :: "string \<Rightarrow> deduction_spec \<Rightarrow> account \<Rightarrow> int \<Rightarrow> transaction" where
  "deduction_row tid spec a accrued = \<lparr>tx_id = tid, tx_account = acct_id a, tx_type = ''deduction'',
     tx_amount_cents = accrued, tx_balance_after = deducted_balance a accrued,
     tx_key = ''charge:'' @ ds_charge spec, tx_reference = ds_charge spec, tx_source = [], tx_actor = None\<rparr>"

definition deducted :: "account \<Rightarrow> int \<Rightarrow> account \<Rightarrow> account" where
  "deducted a accrued r = r\<lparr>balance_cents := deducted_balance a accrued,
     used_this_cycle_cents := deducted_used a accrued,
     spent_this_cycle_cents := wrap64 (spent_this_cycle_cents a + accrued)\<rparr>"

lemma deducted_id [simp]: "acct_id (deducted a x r) = acct_id r"
  by (simp add: deducted_def)

lemma apply_deduction_unfold:
  "apply_deduction cents tid conflict spec d =
     (case find_transaction_by_key (''charge:'' @ ds_charge spec) d of
        Some _ \<Rightarrow> Inr d
      | None \<Rightarrow>
          (case find_by_id (ds_account spec) d of
             None \<Rightarrow> Inl RecordNotFound
           | Some a \<Rightarrow>
               (case insert_transaction (deduction_row tid spec a (cycle_accrual cents a d)) d of
                     Inl e \<Rightarrow> Inl e
                   | Inr d1 \<Rightarrow>
                       (case update_account_row (acct_id a) (acct_version a)
                               (deducted a (cycle_accrual cents a d)) d1 of
                          (hit, d2) \<Rightarrow> if hit \<and> \<not> conflict then Inr d2
                            else Inl (Internal ''billing: deduction version conflict'')))))"
  by (simp add: apply_deduction_def Let_def deduction_row_def deducted_balance_def deducted_used_def
      deducted_def [abs_def] cong: option.case_cong sum.case_cong)

lemma apply_deductionE:
  assumes "apply_deduction cents tid conflict spec d = Inr d'"
  obtains (replayed) t where "find_transaction_by_key (''charge:'' @ ds_charge spec) d = Some t" "d' = d"
  | (written) a d1 where "find_transaction_by_key (''charge:'' @ ds_charge spec) d = None"
      "find_by_id (ds_account spec) d = Some a"
      "insert_transaction (deduction_row tid spec a (cycle_accrual cents a d)) d = Inr d1"
      "d' = snd (update_account_row (acct_id a) (acct_version a) (deducted a (cycle_accrual cents a d)) d1)"
  using assms unfolding apply_deduction_unfold
  by (auto simp: split_beta split: option.splits sum.splits if_splits)

lemma apply_deduction_ok:
  assumes "apply_deduction cents tid conflict spec d = Inr d'" "ledger_ok d"
  shows "ledger_ok d' \<and> usage_lines d' = usage_lines d \<and> charges d' = charges d"
  using assms(1)
proof (cases rule: apply_deductionE)
  case (written a d1)
  note mem = find_by_idD [OF written(2)] and ins = insert_transactionD [OF written(3)]
  have "ledger_ok d'"
    by (rule audited_write [OF assms(2), of a "deduction_row tid spec a (cycle_accrual cents a d)"
          "\<lambda>r. (deducted a (cycle_accrual cents a d) r)\<lparr>acct_version := acct_version a + 1\<rparr>" "acct_version a"])
      (use mem ins written(4) in \<open>auto simp: deduction_row_def row_follows_def deducted_balance_def
        deducted_def update_account_row_def\<close>)
  then show ?thesis using written(4) ins by (simp add: update_account_row_def)
qed (use assms in simp)

lemma mark_lines_fields [simp]:
  "accounts (mark_lines g c d) = accounts d" "transactions (mark_lines g c d) = transactions d"
  "charges (mark_lines g c d) = charges d"
  by (simp_all add: mark_lines_def)

text \<open>The three ways a charge commits.\<close>

lemma charge_groupE:
  assumes "charge_group cents tid conflict g rec spec d = Inr d'"
  obtains (again) c where "c \<in> set (charges d)" "cr_key c = ug_key g" "cr_model c = ug_model g"
      "cr_card c = ug_card g" "cr_period_start c = ug_period_start g"
      "d' = mark_lines g (cr_id c) d"
  | (new) d2 where "\<not> (\<exists>c\<in>set (charges d). same_group_period c rec \<or> cr_id c = cr_id rec)"
      "spec = None \<and> d2 = d\<lparr>charges := charges d @ [rec]\<rparr>
       \<or> (\<exists>s. spec = Some s \<and> apply_deduction cents tid conflict s (d\<lparr>charges := charges d @ [rec]\<rparr>) = Inr d2)"
      "d' = mark_lines g (cr_id rec) d2"
proof (cases "\<exists>c\<in>set (charges d). same_group_period c rec \<or> cr_id c = cr_id rec")
  case True
  then obtain c where c: "find (\<lambda>c. cr_key c = ug_key g \<and> cr_model c = ug_model g \<and> cr_card c = ug_card g
      \<and> cr_period_start c = ug_period_start g) (charges d) = Some c" "d' = mark_lines g (cr_id c) d"
    using assms unfolding charge_group_def by (simp split: option.splits)
  show thesis using find_SomeD [OF c(1)] by (intro again [OF _ _ _ _ _ c(2)]) simp_all
next
  case False
  then show thesis using assms new
    by (cases spec) (auto simp: charge_group_def Let_def split: sum.splits)
qed

lemma charge_ok:
  assumes "charge_group cents tid conflict g rec spec d = Inr d'" "ledger_ok d"
  shows "ledger_ok d'"
proof -
  have c: "ledger_ok (d\<lparr>charges := cs\<rparr>)" for cs
    using assms(2) ledger_ok_cong [of "d\<lparr>charges := cs\<rparr>" d] by simp
  show ?thesis using assms(1)
  proof (cases rule: charge_groupE)
    case (again c)
    then show ?thesis using assms(2) ledger_ok_cong [of d' d] by simp
  next
    case (new d2)
    then have "ledger_ok d2" using c apply_deduction_ok by fastforce
    then show ?thesis using new(3) ledger_ok_cong [of d' d2] by simp
  qed
qed

lemma rows_none: "keys_ok d \<Longrightarrow> aid \<notin> acct_id ` set (accounts d) \<Longrightarrow> rows_of aid d = []"
  by (auto simp: keys_ok_def rows_of_def filter_empty_conv)

lemma ledger_ok_open:
  assumes "ledger_ok d" "acct_id a \<notin> acct_id ` set (accounts d)" "balance_cents a = 0"
  shows "ledger_ok (d\<lparr>accounts := accounts d @ [a]\<rparr>)"
proof -
  have "rows_of (acct_id a) d = []" using assms(1,2) rows_none by (simp add: ledger_ok_def)
  then show ?thesis using assms
    by (auto simp: ledger_ok_def keys_ok_def audited_def rows_of_def)
qed

lemma create_ok:
  assumes "create_account tid a initial d = Inr (a', t, d')" "ledger_ok d" "balance_cents a = 0" "in_int64 initial"
  shows "ledger_ok d' \<and> usage_lines d' = usage_lines d \<and> charges d' = charges d"
proof -
  let ?d1 = "d\<lparr>accounts := accounts d @ [a]\<rparr>"
  have new: "acct_id a \<notin> acct_id ` set (accounts d)"
    using assms(1) by (auto simp: create_account_def split: if_splits)
  note ok = ledger_ok_open [OF assms(2) new assms(3)]
  show ?thesis
  proof (cases "0 < initial")
    case False
    then show ?thesis using assms(1) ok by (auto simp: create_account_def Let_def split: if_splits)
  next
    case True
    define o' where "o' = \<lparr>tx_id = tid, tx_account = acct_id a, tx_type = ''recharge'',
                  tx_amount_cents = initial, tx_balance_after = initial,
                  tx_key = ''opening:'' @ acct_id a, tx_reference = ''opening balance'',
                  tx_source = [], tx_actor = None\<rparr>"
    obtain d2 where i: "insert_transaction o' ?d1 = Inr d2"
      and d': "d' = d2\<lparr>accounts := update_where (\<lambda>r. acct_id r = acct_id a)
                       (\<lambda>r. r\<lparr>balance_cents := initial\<rparr>) (accounts d2)\<rparr>"
      using assms(1) True
      by (auto simp: create_account_def o'_def Let_def split: if_splits sum.splits)
    note ins = insert_transactionD [OF i]
    have "update_where (\<lambda>r. acct_id r = acct_id a) f (accounts d @ [a])
        = update_where (\<lambda>r. acct_id r = acct_id a \<and> acct_version r = acct_version a) f (accounts d @ [a])" for f
      using new by (auto simp: update_where_def image_iff)
    then have "ledger_ok d'"
      by (intro audited_write [OF ok, of a o' "\<lambda>r. r\<lparr>balance_cents := initial\<rparr>" "acct_version a"])
        (use ins d' assms(3,4) in \<open>simp_all add: o'_def row_follows_def signed_amount_def\<close>)
    then show ?thesis using d' ins by simp
  qed
qed

lemma run_ledger_ok: "ledger_ok d \<Longrightarrow> op_ok p \<Longrightarrow> ledger_ok (run_ledger cents p d)"
proof (cases p)
  case (Ingest line)
  assume "ledger_ok d"
  then show ?thesis unfolding Ingest
    using ledger_ok_cong [of "d\<lparr>usage_lines := u\<rparr>" d for u]
    by (auto simp: ingest_usage_line_def split: sum.splits option.splits if_splits)
next
  case (Charge tid conflict g rec spec)
  assume "ledger_ok d"
  then show ?thesis unfolding Charge using charge_ok by (auto split: sum.splits)
next
  case (CreateAccount tid a initial)
  assume "ledger_ok d" "op_ok p"
  then show ?thesis unfolding CreateAccount using create_ok
    by (auto split: sum.splits)
next
  case (UpdateAccount a mode quota policy limit)
  assume ok: "ledger_ok d"
  have "ledger_ok (snd (update_account_row aid ver (\<lambda>r. r\<lparr>acct_mode := mode,
      monthly_quota_cents := quota, overdraw_policy := policy, monthly_spend_limit_cents := limit\<rparr>) d))"
    for aid ver
    by (rule audited_other [OF ok, of "\<lambda>r. r\<lparr>acct_mode := mode, monthly_quota_cents := quota,
          overdraw_policy := policy, monthly_spend_limit_cents := limit, acct_version := ver + 1\<rparr>" _
          "\<lambda>r. acct_id r = aid \<and> acct_version r = ver"])
      (simp_all add: update_account_row_def)
  then show ?thesis unfolding UpdateAccount using ok
    by (auto simp: update_account_def split_beta)
next
  case (Recharge tid a amount key mv ty)
  assume "ledger_ok d" "op_ok p"
  then show ?thesis unfolding Recharge using recharge_ok by simp
next
  case (ResetCycle t)
  assume ok: "ledger_ok d"
  show ?thesis unfolding ResetCycle
    by (rule audited_other [OF ok, of "\<lambda>a. a\<lparr>used_this_cycle_cents := 0, spent_this_cycle_cents := 0,
             cycle_started_at := t, acct_version := acct_version a + 1\<rparr>" _ "\<lambda>a. cycle_started_at a < t"])
      (simp_all add: reset_cycle_def)
next
  case (ReleaseStale t)
  assume "ledger_ok d"
  then show ?thesis unfolding ReleaseStale
    using ledger_ok_cong [of "d\<lparr>usage_lines := u\<rparr>" d for u]
    by (auto simp: release_stale_accrual_def Let_def)
qed

lemma empty_db_ok [simp]: "ledger_ok empty_db"
  by (simp add: ledger_ok_def keys_ok_def audited_def empty_db_def)

lemma run_ledgers_ok: "ledger_ok d \<Longrightarrow> \<forall>p\<in>set ps. op_ok p \<Longrightarrow> ledger_ok (fold (run_ledger cents) ps d)"
  by (induction ps arbitrary: d) (auto intro: run_ledger_ok)

text \<open>C4. The ledger is an audit trail: after any history of account, money, usage and charging
  transactions, idempotency keys are unique, every account's transactions form a chain in which each
  row's balance follows from the row before it by its type and amount, and the account's balance is
  the balance of its last row.\<close>
theorem ledger_audit_trail:
  assumes "\<forall>p\<in>set ps. op_ok p" "a \<in> set (accounts (fold (run_ledger cents) ps empty_db))"
  shows "distinct (map tx_key (transactions (fold (run_ledger cents) ps empty_db)))
    \<and> chain 0 (rows_of (acct_id a) (fold (run_ledger cents) ps empty_db))
    \<and> balance_cents a = final_balance 0 (rows_of (acct_id a) (fold (run_ledger cents) ps empty_db))"
  using run_ledgers_ok [OF empty_db_ok assms(1)] assms(2)
  by (auto simp: ledger_ok_def keys_ok_def audited_def)

definition demo_account :: account where
  "demo_account = \<lparr>acct_id = ''a'', acct_org = ''o'', acct_mode = ''prepaid'', balance_cents = 0,
     monthly_quota_cents = 0, used_this_cycle_cents = 0, cycle_started_at = 0,
     overdraw_policy = ''block'', acct_currency = ''CNY'', acct_version = 0,
     monthly_spend_limit_cents = 0, spent_this_cycle_cents = 0, auto_recharge_enabled = False,
     auto_recharge_threshold_cents = 0, auto_recharge_topup_cents = 0, auto_recharge_daily_cap_cents = 0\<rparr>"

definition demo_history :: "ledger_op list" where
  "demo_history = [CreateAccount ''t0'' demo_account 500,
     Recharge ''t1'' demo_account 100 ''k'' \<lparr>mm_note = [], mm_source = ''payment'', mm_actor = []\<rparr> ''recharge'',
     UpdateAccount (demo_account\<lparr>acct_version := 1\<rparr>) ''postpaid'' 0 ''warn'' 0, ResetCycle 5]"

lemma demo_history_facts:
  "\<forall>p\<in>set demo_history. op_ok p"
  "map balance_cents (accounts (fold (run_ledger (\<lambda>_. 0)) demo_history empty_db)) = [600]"
  by (simp add: demo_history_def demo_account_def in_int64_def) code_simp

theorem ledger_audit_trail_witness:
  "\<exists>a\<in>set (accounts (fold (run_ledger (\<lambda>_. 0)) demo_history empty_db)). 600 =
     final_balance 0 (rows_of (acct_id a) (fold (run_ledger (\<lambda>_. 0)) demo_history empty_db))"
proof -
  obtain a where "a \<in> set (accounts (fold (run_ledger (\<lambda>_. 0)) demo_history empty_db))" "balance_cents a = 600"
    using demo_history_facts(2) by (cases "accounts (fold (run_ledger (\<lambda>_. 0)) demo_history empty_db)") auto
  then show ?thesis using ledger_audit_trail [OF demo_history_facts(1)] by metis
qed

section \<open>In-flight and settled spend\<close>

text \<open>A charged line carries no accrual and names a charge of its own group.\<close>

definition line_settled :: "charge_record list \<Rightarrow> usage_line \<Rightarrow> bool" where
  "line_settled cs l = (\<forall>cid. ul_charge l = Some cid \<longrightarrow> ul_accrual l = 0
     \<and> (\<exists>c\<in>set cs. cr_id c = cid \<and> cr_key c = ul_key l \<and> cr_model c = ul_model l
          \<and> cr_card c = ul_card l \<and> cr_period_start c \<le> ul_completed_at l))"

definition lines_ok :: "db \<Rightarrow> bool" where
  "lines_ok d = (distinct (map ul_request (usage_lines d))
     \<and> (\<forall>l\<in>set (usage_lines d). line_settled (charges d) l))"

lemma line_settled_more: "line_settled cs l \<Longrightarrow> set cs \<subseteq> set cs' \<Longrightarrow> line_settled cs' l"
  unfolding line_settled_def by blast

lemma mark_lines_ok:
  assumes "lines_ok d" "c \<in> set (charges d)" "cr_key c = ug_key g" "cr_model c = ug_model g"
    "cr_card c = ug_card g" "cr_period_start c = ug_period_start g"
  shows "lines_ok (mark_lines g (cr_id c) d)"
proof -
  have "map ul_request (usage_lines (mark_lines g (cr_id c) d)) = map ul_request (usage_lines d)"
    by (simp add: mark_lines_def update_where_def)
  moreover have "line_settled (charges d) l" if mem: "l \<in> set (usage_lines (mark_lines g (cr_id c) d))" for l
  proof -
    obtain l0 where l0: "l0 \<in> set (usage_lines d)"
      "l = (if charges_line g l0 then l0\<lparr>ul_charge := Some (cr_id c), ul_accrual := 0\<rparr> else l0)"
      using mem by (simp add: mark_lines_def update_where_set) blast
    then show ?thesis using assms by (auto simp: lines_ok_def line_settled_def charges_line_def)
  qed
  ultimately show ?thesis using assms(1) by (simp add: lines_ok_def)
qed

lemma run_lines_ok:
  assumes "lines_ok d" "ledger_ok d" "op_ok p"
  shows "lines_ok (run_ledger cents p d)"
proof (cases p)
  case (Ingest line)
  then show ?thesis using assms
    by (auto simp: ingest_usage_line_def lines_ok_def line_settled_def split: option.splits)
next
  case (Charge tid conflict g rec spec)
  show ?thesis
  proof (cases "charge_group cents tid conflict g rec spec d")
    case (Inr d')
    then have "lines_ok d'"
    proof (cases rule: charge_groupE)
      case (again c)
      then show ?thesis using mark_lines_ok [OF assms(1)] by simp
    next
      case (new d2)
      have l: "lines_ok (d\<lparr>charges := charges d @ [rec]\<rparr>)"
        using assms(1) line_settled_more [of "charges d" _ "charges d @ [rec]"]
        by (auto simp: lines_ok_def)
      have "ledger_ok (d\<lparr>charges := charges d @ [rec]\<rparr>)"
        using assms(2) ledger_ok_cong [of "d\<lparr>charges := charges d @ [rec]\<rparr>" d] by simp
      then have "usage_lines d2 = usage_lines d \<and> charges d2 = charges d @ [rec]"
        using new(2) apply_deduction_ok by fastforce
      then have "lines_ok d2" "rec \<in> set (charges d2)" using l by (simp_all add: lines_ok_def)
      then show ?thesis using mark_lines_ok assms(3) Charge new(3) by simp
    qed
    then show ?thesis using Charge Inr by simp
  qed (use assms Charge in simp)
next
  case (CreateAccount tid a initial)
  then show ?thesis using assms create_ok
    by (auto simp: lines_ok_def split: sum.splits)
next
  case (Recharge tid a amount key mv ty)
  have "usage_lines (snd (recharge_loop n aid row (\<lambda>n d. d) d)) = usage_lines d
      \<and> charges (snd (recharge_loop n aid row (\<lambda>n d. d) d)) = charges d" for n aid row
    by (induction n) (auto simp: Let_def update_account_row_def split: option.splits sum.splits
        dest!: insert_transactionD)
  then have "usage_lines (run_ledger cents p d) = usage_lines d \<and> charges (run_ledger cents p d) = charges d"
    unfolding Recharge by (auto simp: recharge_def split: option.splits sum.splits prod.splits)
      (metis snd_conv)+
  then show ?thesis using assms(1) by (simp add: lines_ok_def)
next
  case (ReleaseStale t)
  have "lines_ok (d\<lparr>usage_lines := update_where P (\<lambda>l. l\<lparr>ul_accrual := 0\<rparr>) (usage_lines d)\<rparr>)" for P
  proof -
    have "map ul_request (update_where P (\<lambda>l. l\<lparr>ul_accrual := 0\<rparr>) (usage_lines d)) = map ul_request (usage_lines d)"
      by (simp add: update_where_def)
    then show ?thesis using assms(1) by (auto simp: lines_ok_def update_where_set line_settled_def)
  qed
  then show ?thesis using assms(1) ReleaseStale by (simp add: release_stale_accrual_def Let_def)
qed (use assms in \<open>auto simp: lines_ok_def update_account_def update_account_row_def reset_cycle_def split_beta
      split: sum.splits\<close>)

lemma run_lines_all:
  "lines_ok d \<Longrightarrow> ledger_ok d \<Longrightarrow> \<forall>p\<in>set ps. op_ok p \<Longrightarrow> lines_ok (fold (run_ledger cents) ps d)"
  by (induction ps arbitrary: d) (auto intro: run_lines_ok run_ledger_ok)

text \<open>C8. Settled and in-flight spend never overlap: after any history, a usage line is stored once per
  request, and a line that is charged accrues nothing and names a stored charge of its own key, model
  and card, so the funds gate never subtracts money the ledger already charged.\<close>
theorem settled_lines_accrue_nothing:
  assumes "\<forall>p\<in>set ps. op_ok p"
  shows "distinct (map ul_request (usage_lines (fold (run_ledger cents) ps empty_db)))
    \<and> (\<forall>l\<in>set (usage_lines (fold (run_ledger cents) ps empty_db)).
        line_settled (charges (fold (run_ledger cents) ps empty_db)) l)"
  using run_lines_all [OF _ empty_db_ok assms, of cents] by (simp add: lines_ok_def empty_db_def)

section \<open>Optimistic locking\<close>

text \<open>
  A store whose writers bump a row's version: a row read before some writes is the row after them as
  soon as the version is unchanged.  This is the contract the guarded updates rely on.
\<close>

locale versioned_store =
  fixes read :: "'k \<Rightarrow> 's \<Rightarrow> 'r option" and version :: "'r \<Rightarrow> int"
    and step :: "'op \<Rightarrow> 's \<Rightarrow> 's" and legal :: "'op \<Rightarrow> bool"
  assumes bumps: "legal p \<Longrightarrow> read k s = Some r \<Longrightarrow>
    \<exists>r'. read k (step p s) = Some r' \<and> (r' = r \<or> version r < version r')"
begin

lemma run_bumps:
  "\<forall>p\<in>set ps. legal p \<Longrightarrow> read k s = Some r \<Longrightarrow>
   \<exists>r'. read k (fold step ps s) = Some r' \<and> (r' = r \<or> version r < version r')"
proof (induction ps arbitrary: s r)
  case (Cons p ps)
  obtain r1 where r1: "read k (step p s) = Some r1" "r1 = r \<or> version r < version r1"
    using bumps [of p k s r] Cons.prems by auto
  obtain r2 where "read k (fold step ps (step p s)) = Some r2" "r2 = r1 \<or> version r1 < version r2"
    using Cons.IH [OF _ r1(1)] Cons.prems by auto
  then show ?case using r1(2) by auto
qed simp

lemma same_version:
  "\<forall>p\<in>set ps. legal p \<Longrightarrow> read k s = Some r \<Longrightarrow> read k (fold step ps s) = Some r'
   \<Longrightarrow> version r' = version r \<Longrightarrow> r' = r"
  using run_bumps [of ps k s r] by fastforce

end

lemma find_update_where:
  "(\<And>r. acct_id (f r) = acct_id r) \<Longrightarrow> find (\<lambda>a. acct_id a = aid) (update_where P f rows)
   = map_option (\<lambda>r. if P r then f r else r) (find (\<lambda>a. acct_id a = aid) rows)"
  by (induction rows) (auto simp: update_where_def)

lemma find_append: "find P (xs @ ys) = (case find P xs of None \<Rightarrow> find P ys | Some x \<Rightarrow> Some x)"
  by (induction xs) auto

lemma update_row_bumps:
  assumes "find_by_id k d = Some r" "\<And>a. acct_id (f a) = acct_id a"
    "accounts d' = accounts (snd (update_account_row aid ver f d))"
  shows "\<exists>r'. find_by_id k d' = Some r' \<and> (r' = r \<or> acct_version r < acct_version r')"
proof -
  have "find (\<lambda>a. acct_id a = k) (update_where P (\<lambda>a. f a\<lparr>acct_version := v\<rparr>) (accounts d))
      = Some (if P r then f r\<lparr>acct_version := v\<rparr> else r)" for P v
    using assms(1) find_update_where [of "\<lambda>a. f a\<lparr>acct_version := v\<rparr>" k P "accounts d"] assms(2)
    by (simp add: find_by_id_def)
  then show ?thesis using assms(3) by (auto simp: find_by_id_def update_account_row_def)
qed

lemma recharge_loop_bumps:
  assumes "find_by_id k d = Some r"
  shows "\<exists>r'. find_by_id k (snd (recharge_loop n aid row (\<lambda>n d. d) d)) = Some r'
    \<and> (r' = r \<or> acct_version r < acct_version r')"
proof (induction n)
  case (Suc n)
  show ?case
  proof (cases "find_by_id aid d")
    case (Some cur)
    let ?nb = "wrap64 (balance_cents cur + signed_amount (tx_type row) (tx_amount_cents row))"
    let ?u = "update_account_row (acct_id cur) (acct_version cur) (\<lambda>a. a\<lparr>balance_cents := ?nb\<rparr>) d"
    have u: "\<exists>r'. find_by_id k d' = Some r' \<and> (r' = r \<or> acct_version r < acct_version r')"
      if "accounts d' = accounts (snd ?u)" for d'
      by (rule update_row_bumps [OF assms _ that]) simp
    show ?thesis using Suc Some assms u
      by (auto simp: Let_def split_beta split: sum.splits dest!: insert_transactionD)
  qed (use assms in simp)
qed (use assms in simp)

lemma apply_deduction_bumps:
  assumes "apply_deduction cents tid conflict spec d = Inr d'" "find_by_id k d = Some r"
  shows "\<exists>r'. find_by_id k d' = Some r' \<and> (r' = r \<or> acct_version r < acct_version r')"
  using assms(1)
proof (cases rule: apply_deductionE)
  case (written a d1)
  have "find_by_id k d1 = Some r"
    using insert_transactionD [OF written(3)] assms(2) by (simp add: find_by_id_def)
  then show ?thesis by (rule update_row_bumps [where d' = d']) (simp_all add: written(4))
qed (use assms in simp)

lemma run_ledger_bumps:
  assumes "op_ok p" "find_by_id k d = Some r"
  shows "\<exists>r'. find_by_id k (run_ledger cents p d) = Some r' \<and> (r' = r \<or> acct_version r < acct_version r')"
proof (cases p)
  case (Ingest line)
  then show ?thesis using assms
    by (auto simp: ingest_usage_line_def find_by_id_def split: option.splits)
next
  case (Charge tid conflict g rec spec)
  show ?thesis
  proof (cases "charge_group cents tid conflict g rec spec d")
    case (Inr d')
    then have "\<exists>r'. find_by_id k d' = Some r' \<and> (r' = r \<or> acct_version r < acct_version r')"
    proof (cases rule: charge_groupE)
      case (again c)
      then show ?thesis using assms by (simp add: find_by_id_def)
    next
      case (new d2)
      have "find_by_id k (d\<lparr>charges := charges d @ [rec]\<rparr>) = Some r"
        using assms(2) by (simp add: find_by_id_def)
      then have "\<exists>r'. find_by_id k d2 = Some r' \<and> (r' = r \<or> acct_version r < acct_version r')"
        using new(2) apply_deduction_bumps by fastforce
      then show ?thesis using new(3) by (simp add: find_by_id_def)
    qed
    then show ?thesis using Charge Inr by simp
  qed (use assms Charge in simp)
next
  case (CreateAccount tid a initial)
  have k: "k = acct_id r" using find_by_idD [OF assms(2)] by simp
  have "find_by_id k d' = Some r" if "create_account tid a initial d = Inr (x, y, d')" for x y d'
  proof -
    have "acct_id a \<noteq> k \<and> acct_id r \<noteq> acct_id a" using that find_by_idD [OF assms(2)]
      by (auto simp: create_account_def split: if_splits)
    then show ?thesis using that assms(2)
      by (auto simp: create_account_def Let_def find_by_id_def find_update_where find_append
          split: if_splits sum.splits dest!: insert_transactionD)
  qed
  then show ?thesis using CreateAccount assms(2) by (auto split: sum.splits)
next
  case (UpdateAccount a mode quota policy limit)
  let ?f = "\<lambda>a. a\<lparr>acct_mode := mode, monthly_quota_cents := quota, overdraw_policy := policy,
                monthly_spend_limit_cents := limit\<rparr>"
  have "\<exists>r'. find_by_id k (snd (update_account_row aid ver ?f d)) = Some r'
      \<and> (r' = r \<or> acct_version r < acct_version r')" for aid ver
    by (rule update_row_bumps [OF assms(2)]) simp_all
  then show ?thesis using assms(2) UpdateAccount
    by (auto simp: update_account_def split_beta split: sum.splits)
next
  case (Recharge tid a amount key mv ty)
  then show ?thesis
    using recharge_loop_bumps [OF assms(2)] assms(2)
    by (auto simp: recharge_def split: option.splits sum.splits prod.splits) (metis snd_conv)+
next
  case (ResetCycle t)
  have "find (\<lambda>a. acct_id a = k) (update_where P (\<lambda>a. a\<lparr>used_this_cycle_cents := 0, spent_this_cycle_cents := 0,
             cycle_started_at := t, acct_version := acct_version a + 1\<rparr>) (accounts d))
    = Some (if P r then r\<lparr>used_this_cycle_cents := 0, spent_this_cycle_cents := 0,
             cycle_started_at := t, acct_version := acct_version r + 1\<rparr> else r)" for P
    using assms(2) by (simp add: find_by_id_def find_update_where)
  then show ?thesis using ResetCycle by (simp add: reset_cycle_def find_by_id_def)
next
  case (ReleaseStale t)
  then show ?thesis using assms by (simp add: release_stale_accrual_def Let_def find_by_id_def)
qed

interpretation ledger: versioned_store find_by_id acct_version "run_ledger cents" op_ok for cents
  by unfold_locales (rule run_ledger_bumps)

definition interleaved :: "(f64 list \<Rightarrow> int) \<Rightarrow> (nat \<Rightarrow> ledger_op list) \<Rightarrow> nat \<Rightarrow> db \<Rightarrow> db" where
  "interleaved cents ops n = fold (run_ledger cents) (ops n)"

lemma update_row_reads:
  assumes "find_by_id aid d = Some cur"
  shows "find_by_id aid (snd (update_account_row aid (acct_version cur) (\<lambda>a. a\<lparr>balance_cents := b\<rparr>) d))
    = Some (cur\<lparr>balance_cents := b, acct_version := acct_version cur + 1\<rparr>)"
  using assms find_by_idD [OF assms] by (simp add: find_by_id_def update_account_row_def find_update_where)

lemma recharge_loop_writes:
  assumes "\<forall>n. \<forall>p\<in>set (ops n). op_ok p"
  shows "recharge_loop n aid row (interleaved cents ops) d = (Inr (a, t), d') \<Longrightarrow> ledger_ok d \<Longrightarrow>
   \<exists>ps cur. (\<forall>p\<in>set ps. op_ok p) \<and> find_by_id aid (fold (run_ledger cents) ps d) = Some cur
    \<and> balance_cents a = wrap64 (balance_cents cur + signed_amount (tx_type row) (tx_amount_cents row))
    \<and> t = row\<lparr>tx_balance_after := balance_cents a\<rparr>
    \<and> find_by_id aid d' = Some a
    \<and> transactions d' = transactions (fold (run_ledger cents) ps d) @ [t]"
proof (induction n arbitrary: d)
  case (Suc n)
  obtain cur where cur: "find_by_id aid d = Some cur"
    using Suc.prems by (cases "find_by_id aid d") simp_all
  note mem = find_by_idD [OF cur]
  let ?b = "wrap64 (balance_cents cur + signed_amount (tx_type row) (tx_amount_cents row))"
  let ?d1 = "interleaved cents ops n d"
  let ?u = "update_account_row aid (acct_version cur) (\<lambda>a. a\<lparr>balance_cents := ?b\<rparr>) ?d1"
  have legal: "\<forall>p\<in>set (ops n). op_ok p" using assms by blast
  show ?case
  proof (cases "fst ?u")
    case True
    obtain cur1 where c1: "cur1 \<in> set (accounts ?d1)" "acct_id cur1 = aid" "acct_version cur1 = acct_version cur"
      using True by (auto simp: update_account_row_def)
    obtain r where r: "find_by_id aid ?d1 = Some r" "r = cur \<or> acct_version cur < acct_version r"
      using ledger.run_bumps [OF legal cur] by (auto simp: interleaved_def)
    have d3: "insert_transaction (row\<lparr>tx_balance_after := ?b\<rparr>) (snd ?u) = Inr d'"
      "a = cur\<lparr>balance_cents := ?b, acct_version := acct_version cur + 1\<rparr>" "t = row\<lparr>tx_balance_after := ?b\<rparr>"
      using Suc.prems cur mem True by (auto simp: Let_def split_beta split: sum.splits)
    have ok: "ledger_ok ?d1"
      using run_ledgers_ok [OF Suc.prems(2) legal] by (simp add: interleaved_def)
    have "r = cur1" using ok c1 find_by_idD [OF r(1)]
      unfolding ledger_ok_def keys_ok_def distinct_map inj_on_def by blast
    then have rc: "find_by_id aid ?d1 = Some cur" using r c1(3) by auto
    have f: "find_by_id aid d' = Some a"
      using update_row_reads [OF rc, of ?b] insert_transactionD [OF d3(1)] d3(2)
      by (simp add: find_by_id_def)
    have tr: "transactions d' = transactions ?d1 @ [t]"
      using insert_transactionD [OF d3(1)] d3(3) by (simp add: update_account_row_def)
    show ?thesis using rc f tr d3 legal
      by (intro exI [of _ "ops n"] exI [of _ cur]) (simp add: interleaved_def)
  next
    case False
    have l: "recharge_loop n aid row (interleaved cents ops) ?d1 = (Inr (a, t), d')"
      using Suc.prems cur mem False by (simp add: Let_def split_beta)
    have "ledger_ok ?d1"
      using run_ledgers_ok [OF Suc.prems(2) legal] by (simp add: interleaved_def)
    from Suc.IH [OF l this] obtain ps cur' where ps: "\<forall>p\<in>set ps. op_ok p"
      "find_by_id aid (fold (run_ledger cents) ps ?d1) = Some cur'"
      "balance_cents a = wrap64 (balance_cents cur' + signed_amount (tx_type row) (tx_amount_cents row))"
      "t = row\<lparr>tx_balance_after := balance_cents a\<rparr>" "find_by_id aid d' = Some a"
      "transactions d' = transactions (fold (run_ledger cents) ps ?d1) @ [t]"
      by blast
    show ?thesis
    proof (intro exI conjI)
      show "\<forall>p\<in>set (ops n @ ps). op_ok p" using ps(1) legal by auto
      show "find_by_id aid (fold (run_ledger cents) (ops n @ ps) d) = Some cur'"
        using ps(2) by (simp add: interleaved_def)
      show "transactions d' = transactions (fold (run_ledger cents) (ops n @ ps) d) @ [t]"
        using ps(6) by (simp add: interleaved_def)
    qed (fact ps(3-5))+
  qed
qed simp


text \<open>C5. No lost update: when a recharge or refund succeeds while other transactions commit between
  each attempt's read and its write, the new balance is the balance those transactions left plus the
  signed amount, the account reads back as returned, and exactly one row is appended after theirs.\<close>
theorem recharge_loses_no_update:
  assumes "ledger_ok d" "\<forall>n. \<forall>p\<in>set (ops n). op_ok p" "find_transaction_by_key key d = None"
    "recharge tid account amount key mv ty (interleaved cents ops) d = (Inr (Some a, t), d')"
  shows "\<exists>ps cur. (\<forall>p\<in>set ps. op_ok p)
    \<and> find_by_id (acct_id account) (fold (run_ledger cents) ps d) = Some cur
    \<and> balance_cents a = wrap64 (balance_cents cur + signed_amount ty amount)
    \<and> tx_balance_after t = balance_cents a
    \<and> find_by_id (acct_id account) d' = Some a
    \<and> transactions d' = transactions (fold (run_ledger cents) ps d) @ [t]"
proof -
  obtain row where l: "recharge_loop max_balance_retries (acct_id account) row (interleaved cents ops) d
      = (Inr (a, t), d')" "tx_type row = ty" "tx_amount_cents row = amount"
    using assms(3,4) by (auto simp: recharge_def split: sum.splits prod.splits)
  from recharge_loop_writes [OF assms(2) l(1) assms(1)] l(2,3) show ?thesis by auto
qed

definition demo_open :: db where
  "demo_open = fold (run_ledger (\<lambda>_. 0)) [CreateAccount ''t0'' demo_account 500] empty_db"

definition demo_others :: "nat \<Rightarrow> ledger_op list" where
  "demo_others n = (if n = 7 then [Recharge ''t9'' demo_account 7 ''other''
     \<lparr>mm_note = [], mm_source = [], mm_actor = []\<rparr> ''recharge''] else [])"

lemma demo_open_ok: "ledger_ok demo_open"
  unfolding demo_open_def by (rule run_ledgers_ok) (simp_all add: demo_account_def in_int64_def)

lemma demo_interleaved:
  "map_option (balance_cents \<circ> fst) (case fst (recharge ''t1'' demo_account 100 ''k''
      \<lparr>mm_note = [], mm_source = [], mm_actor = []\<rparr> ''recharge'' (interleaved (\<lambda>_. 0) demo_others) demo_open)
    of Inr (Some a, t) \<Rightarrow> Some (a, t) | _ \<Rightarrow> None) = Some 607"
  "find_transaction_by_key ''k'' demo_open = None"
  by code_simp+

theorem recharge_loses_no_update_witness:
  "\<exists>a t d' ps. recharge ''t1'' demo_account 100 ''k'' \<lparr>mm_note = [], mm_source = [], mm_actor = []\<rparr> ''recharge''
      (interleaved (\<lambda>_. 0) demo_others) demo_open = (Inr (Some a, t), d')
    \<and> balance_cents a = 607
    \<and> transactions d' = transactions (fold (run_ledger (\<lambda>_. 0)) ps demo_open) @ [t]"
proof -
  have legal: "\<forall>n. \<forall>p\<in>set (demo_others n). op_ok p" by (simp add: demo_others_def)
  obtain a t d' where r: "recharge ''t1'' demo_account 100 ''k'' \<lparr>mm_note = [], mm_source = [], mm_actor = []\<rparr>
      ''recharge'' (interleaved (\<lambda>_. 0) demo_others) demo_open = (Inr (Some a, t), d')" "balance_cents a = 607"
    using demo_interleaved(1)
    by (cases "recharge ''t1'' demo_account 100 ''k'' \<lparr>mm_note = [], mm_source = [], mm_actor = []\<rparr>
      ''recharge'' (interleaved (\<lambda>_. 0) demo_others) demo_open") (auto split: sum.splits option.splits prod.splits)
  from recharge_loses_no_update [OF demo_open_ok legal demo_interleaved(2) r(1)] r show ?thesis by blast
qed

text \<open>Money movements are idempotent: replaying a successful recharge or refund with its key
  changes nothing and returns the same ledger row, and the key with another amount or type is refused.\<close>
theorem recharge_replay:
  assumes "recharge tid account amount key mv ty others d = (Inr (r, t), d')"
  shows "recharge tid' account amount key mv' ty others' d' = (Inr (find_by_id (acct_id account) d', t), d')
    \<and> (amount' \<noteq> amount \<or> ty' \<noteq> ty \<longrightarrow>
        recharge tid' account amount' key mv' ty' others' d' = (Inl TransactionInvalid, d'))"
proof -
  have loop: "recharge_loop n aid row oth d0 = (Inr (a, t), d1) \<Longrightarrow>
      \<exists>ts b. transactions d1 = ts @ [t] \<and> tx_key t \<notin> tx_key ` set ts \<and> t = row\<lparr>tx_balance_after := b\<rparr>"
    for n aid row oth a d1 and d0 :: db
    by (induction n arbitrary: d0)
      (auto simp: Let_def split_beta split: option.splits sum.splits if_splits dest!: insert_transactionD)
  have "find_transaction_by_key key d' = Some t \<and> tx_account t = acct_id account \<and> tx_type t = ty
      \<and> tx_amount_cents t = amount"
  proof (cases "find_transaction_by_key key d")
    case None
    then obtain ts where ts: "transactions d' = ts @ [t]" "tx_key t \<notin> tx_key ` set ts" "tx_key t = key"
      "tx_account t = acct_id account" "tx_type t = ty" "tx_amount_cents t = amount"
      using assms by (auto simp: recharge_def split: sum.splits prod.splits dest!: loop)
    have "find (\<lambda>t. tx_key t = key) ts = None" using ts(2,3) unfolding find_None_iff by (metis image_eqI)
    then show ?thesis using ts by (simp add: find_transaction_by_key_def find_append)
  qed (use assms in \<open>auto simp: recharge_def split: if_splits\<close>)
  then show ?thesis by (auto simp: recharge_def)
qed

theorem recharge_replay_witness:
  "\<exists>r t d'. recharge ''t1'' demo_account 100 ''k'' \<lparr>mm_note = [], mm_source = [], mm_actor = []\<rparr> ''recharge''
      (\<lambda>n d. d) demo_open = (Inr (r, t), d')
    \<and> recharge ''t2'' demo_account 100 ''k'' \<lparr>mm_note = [], mm_source = [], mm_actor = []\<rparr> ''refund''
      (\<lambda>n d. d) d' = (Inl TransactionInvalid, d')"
proof -
  have "case fst (recharge ''t1'' demo_account 100 ''k'' \<lparr>mm_note = [], mm_source = [], mm_actor = []\<rparr> ''recharge''
      (\<lambda>n d. d) demo_open) of Inl e \<Rightarrow> False | Inr x \<Rightarrow> True" by code_simp
  then obtain r t d' where e: "recharge ''t1'' demo_account 100 ''k'' \<lparr>mm_note = [], mm_source = [], mm_actor = []\<rparr>
      ''recharge'' (\<lambda>n d. d) demo_open = (Inr (r, t), d')"
    by (cases "recharge ''t1'' demo_account 100 ''k'' \<lparr>mm_note = [], mm_source = [], mm_actor = []\<rparr>
      ''recharge'' (\<lambda>n d. d) demo_open") (auto split: sum.splits)
  from recharge_replay [OF e, where amount' = 100 and ty' = "''refund''" and tid' = "''t2''"
      and mv' = "\<lparr>mm_note = [], mm_source = [], mm_actor = []\<rparr>" and others' = "\<lambda>n d. d"] e
  show ?thesis by auto
qed

section \<open>Charging\<close>

text \<open>What the database's rounded sum promises: a 64-bit result that a further amount never lowers.\<close>

definition amount_ok :: "f64 \<Rightarrow> bool" where
  "amount_ok x = (\<exists>r\<ge>0. x = Fin r)"

definition cents_law :: "(f64 list \<Rightarrow> int) \<Rightarrow> bool" where
  "cents_law cents = (cents [] = 0 \<and> (\<forall>xs. in_int64 (cents xs))
     \<and> (\<forall>xs x. amount_ok x \<longrightarrow> cents xs \<le> cents (xs @ [x])))"

definition settled :: "(f64 list \<Rightarrow> int) \<Rightarrow> account \<Rightarrow> db \<Rightarrow> bool" where
  "settled cents a d =
     (spent_this_cycle_cents a = cents (cycle_amounts (acct_org a) (cycle_started_at a) d))"

definition charge_spec :: "string \<Rightarrow> charge_record \<Rightarrow> deduction_spec option" where
  "charge_spec aid rec = Some \<lparr>ds_account = aid, ds_charge = cr_id rec\<rparr>"

fun charge_each :: "(f64 list \<Rightarrow> int) \<Rightarrow> string \<Rightarrow> (string \<times> usage_group \<times> charge_record) list \<Rightarrow> db
    \<Rightarrow> billing_error + db" where
  "charge_each cents aid [] d = Inr d"
| "charge_each cents aid ((tid, g, rec) # cs) d =
     (case charge_group cents tid False g rec (charge_spec aid rec) d of
        Inl e \<Rightarrow> Inl e
      | Inr d' \<Rightarrow> charge_each cents aid cs d')"

lemma wrap64_add: "wrap64 (wrap64 x + y) = wrap64 (x + y)"
proof -
  have "wrap64 x + y + 2 ^ 63 = (x + 2 ^ 63) mod 2 ^ 64 + y" by (simp add: wrap64_def)
  then show ?thesis unfolding wrap64_def [of "wrap64 x + y"] wrap64_def [of "x + y"]
    by (simp add: mod_simps algebra_simps)
qed

lemma cycle_amounts_app: "cycle_amounts org since (d\<lparr>charges := charges d @ [rec]\<rparr>)
    = cycle_amounts org since d @ (if cr_org rec = org \<and> since \<le> cr_period_start rec then [cr_amount rec] else [])"
  by (simp add: cycle_amounts_def)

lemma cycle_amounts_cong: "charges d' = charges d \<Longrightarrow> cycle_amounts org since d' = cycle_amounts org since d"
  by (simp add: cycle_amounts_def)

lemma settled_accrual:
  assumes "cents_law cents" "settled cents a d" "amount_ok (cr_amount rec)"
  shows "cycle_accrual cents a (d\<lparr>charges := charges d @ [rec]\<rparr>)
    = cents (cycle_amounts (acct_org a) (cycle_started_at a) (d\<lparr>charges := charges d @ [rec]\<rparr>))
      - spent_this_cycle_cents a"
proof -
  have "cents xs \<le> cents (xs @ [cr_amount rec])" for xs using assms(1,3) by (simp add: cents_law_def)
  then show ?thesis
    using assms(2) by (simp add: cycle_accrual_def Let_def cycle_amounts_app settled_def antisym)
qed

lemma deduct_reads:
  assumes "find_by_id aid d = Some a"
    "insert_transaction (deduction_row tid spec a x) d = Inr d1"
    "d' = snd (update_account_row (acct_id a) (acct_version a) (deducted a x) d1)"
  shows "find_by_id aid d' = Some ((deducted a x a)\<lparr>acct_version := acct_version a + 1\<rparr>)"
    "charges d' = charges d" "transactions d' = transactions d @ [deduction_row tid spec a x]"
  using assms(1,3) find_by_idD [OF assms(1)] insert_transactionD [OF assms(2)]
  by (simp_all add: update_account_row_def find_by_id_def find_update_where)

text \<open>One charge keeps the account settled and moves exactly the cents the cycle's total grew by.\<close>

lemma charge_settles:
  assumes law: "cents_law cents" and a: "find_by_id aid d = Some a" "acct_mode a = ''prepaid''" "settled cents a d"
    and r: "amount_ok (cr_amount rec)" "find_transaction_by_key (''charge:'' @ cr_id rec) d = None"
    and c: "charge_group cents tid False g rec (charge_spec aid rec) d = Inr d'"
  shows "\<exists>a'. find_by_id aid d' = Some a' \<and> acct_mode a' = ''prepaid'' \<and> settled cents a' d'
    \<and> wrap64 (balance_cents a' + spent_this_cycle_cents a') = wrap64 (balance_cents a + spent_this_cycle_cents a)
    \<and> acct_org a' = acct_org a \<and> cycle_started_at a' = cycle_started_at a
    \<and> (\<forall>k. k \<noteq> ''charge:'' @ cr_id rec \<longrightarrow> find_transaction_by_key k d = None \<longrightarrow> find_transaction_by_key k d' = None)"
  using c
proof (cases rule: charge_groupE)
  case (again c)
  have "find_by_id aid d' = Some a" "settled cents a d'"
    "\<forall>k. find_transaction_by_key k d' = find_transaction_by_key k d"
    using a again(6) by (simp_all add: find_by_id_def find_transaction_by_key_def settled_def cycle_amounts_def)
  then show ?thesis using a(2) by simp
next
  case (new d2)
  let ?d1 = "d\<lparr>charges := charges d @ [rec]\<rparr>"
  let ?x = "cycle_accrual cents a ?d1"
  have ded: "apply_deduction cents tid False \<lparr>ds_account = aid, ds_charge = cr_id rec\<rparr> ?d1 = Inr d2"
    using new(2) by (simp add: charge_spec_def)
  have a1: "find_by_id aid ?d1 = Some a" "find_transaction_by_key (''charge:'' @ cr_id rec) ?d1 = None"
    using a r(2) by (simp_all add: find_by_id_def find_transaction_by_key_def)
  from ded show ?thesis
  proof (cases rule: apply_deductionE)
    case (written a0 d1)
    have "a0 = a" using written(2) a1 by simp
    note w = deduct_reads [OF a1(1) written(3,4) [unfolded \<open>a0 = a\<close>]]
    let ?a' = "(deducted a ?x a)\<lparr>acct_version := acct_version a + 1\<rparr>"
    let ?all = "cents (cycle_amounts (acct_org a) (cycle_started_at a) ?d1)"
    have x: "?x = ?all - spent_this_cycle_cents a" by (rule settled_accrual [OF law a(3) r(1)])
    have f: "find_by_id aid d' = Some ?a'" using new(3) w(1) by (simp add: find_by_id_def)
    have "in_int64 ?all" using law by (simp add: cents_law_def)
    then have s: "spent_this_cycle_cents ?a' = ?all" by (simp add: deducted_def x)
    have b: "balance_cents ?a' = wrap64 (balance_cents a - ?x)"
      using a(2) by (simp add: deducted_def deducted_balance_def)
    have k: "find_transaction_by_key k d' = None"
      if "k \<noteq> ''charge:'' @ cr_id rec" "find_transaction_by_key k d = None" for k
      using that new(3) w(3) by (auto simp: find_transaction_by_key_def find_append deduction_row_def)
    have "settled cents ?a' d'"
      using s new(3) w(2) by (simp add: settled_def deducted_def cycle_amounts_def)
    moreover have "wrap64 (balance_cents ?a' + spent_this_cycle_cents ?a')
        = wrap64 (balance_cents a + spent_this_cycle_cents a)"
    proof -
      have "wrap64 (balance_cents ?a' + spent_this_cycle_cents ?a') = wrap64 (balance_cents a - ?x + ?all)"
        by (simp only: s b wrap64_add)
      also have "balance_cents a - ?x + ?all = balance_cents a + spent_this_cycle_cents a"
        by (simp only: x)
      finally show ?thesis .
    qed
    ultimately show ?thesis using f k a(2) by (auto simp: deducted_def)
  qed (use a1 in simp)
qed

lemma charge_each_settles:
  assumes law: "cents_law cents"
  shows "charge_each cents aid cs d = Inr d' \<Longrightarrow> find_by_id aid d = Some a \<Longrightarrow> acct_mode a = ''prepaid''
    \<Longrightarrow> settled cents a d \<Longrightarrow> \<forall>(tid, g, rec)\<in>set cs. amount_ok (cr_amount rec)
    \<Longrightarrow> \<forall>(tid, g, rec)\<in>set cs. find_transaction_by_key (''charge:'' @ cr_id rec) d = None
    \<Longrightarrow> distinct (map (\<lambda>(tid, g, rec). cr_id rec) cs)
    \<Longrightarrow> \<exists>a'. find_by_id aid d' = Some a' \<and> settled cents a' d'
      \<and> wrap64 (balance_cents a' + spent_this_cycle_cents a') = wrap64 (balance_cents a + spent_this_cycle_cents a)"
proof (induction cs arbitrary: d a)
  case (Cons c cs)
  obtain tid g rec where c: "c = (tid, g, rec)" by (cases c)
  obtain d1 where d1: "charge_group cents tid False g rec (charge_spec aid rec) d = Inr d1"
    "charge_each cents aid cs d1 = Inr d'"
    using Cons.prems(1) c by (auto split: sum.splits)
  have r: "amount_ok (cr_amount rec)" "find_transaction_by_key (''charge:'' @ cr_id rec) d = None"
    using Cons.prems(5,6) c by auto
  obtain a1 where a1: "find_by_id aid d1 = Some a1" "acct_mode a1 = ''prepaid''" "settled cents a1 d1"
    "wrap64 (balance_cents a1 + spent_this_cycle_cents a1) = wrap64 (balance_cents a + spent_this_cycle_cents a)"
    and k: "\<forall>k. k \<noteq> ''charge:'' @ cr_id rec \<longrightarrow> find_transaction_by_key k d = None \<longrightarrow> find_transaction_by_key k d1 = None"
    using charge_settles [OF law Cons.prems(2-4) r d1(1)] by blast
  have "\<forall>(tid, g, rec)\<in>set cs. find_transaction_by_key (''charge:'' @ cr_id rec) d1 = None"
    using Cons.prems(6,7) k c by (force simp: image_iff)
  then obtain a' where "find_by_id aid d' = Some a'" "settled cents a' d'"
    "wrap64 (balance_cents a' + spent_this_cycle_cents a') = wrap64 (balance_cents a1 + spent_this_cycle_cents a1)"
    using Cons.IH [OF d1(2) a1(1-3)] Cons.prems(5,7) c by auto
  then show ?case using a1(4) by auto
qed auto

text \<open>C7. Charging does not drift: however many charges of an organization commit in a cycle, each far
  below a cent or not, the prepaid account's spend is the rounded total of all of them, not a total of
  roundings, and its balance went down by exactly what its spend went up.\<close>
theorem charges_do_not_drift:
  assumes "cents_law cents" "charge_each cents aid cs d = Inr d'"
    "find_by_id aid d = Some a" "acct_mode a = ''prepaid''" "settled cents a d"
    "\<forall>(tid, g, rec)\<in>set cs. amount_ok (cr_amount rec)
       \<and> find_transaction_by_key (''charge:'' @ cr_id rec) d = None"
    "distinct (map (\<lambda>(tid, g, rec). cr_id rec) cs)"
  shows "\<exists>a'. find_by_id aid d' = Some a'
    \<and> spent_this_cycle_cents a' = cents (cycle_amounts (acct_org a') (cycle_started_at a') d')
    \<and> wrap64 (balance_cents a' + spent_this_cycle_cents a')
      = wrap64 (balance_cents a + spent_this_cycle_cents a)"
proof -
  have "\<forall>(tid, g, rec)\<in>set cs. amount_ok (cr_amount rec)"
    "\<forall>(tid, g, rec)\<in>set cs. find_transaction_by_key (''charge:'' @ cr_id rec) d = None"
    using assms(6) by (simp_all add: case_prod_unfold)
  from charge_each_settles [OF assms(1-5) this assms(7)] show ?thesis by (auto simp: settled_def)
qed

definition demo_cents :: "f64 list \<Rightarrow> int" where
  "demo_cents xs = min (2 ^ 63 - 1)
     \<lfloor>100 * sum_list (map (\<lambda>x. case x of Fin r \<Rightarrow> max r 0 | _ \<Rightarrow> 0) xs) + 1 / 2\<rfloor>"

lemma amount_ok_Fin: "amount_ok (Fin r) \<longleftrightarrow> 0 \<le> r"
  by (auto simp: amount_ok_def)

lemma demo_cents_law: "cents_law demo_cents"
proof -
  let ?v = "\<lambda>x. case x of Fin r \<Rightarrow> max r 0 | _ \<Rightarrow> 0"
  have v: "0 \<le> ?v x" for x by (cases x) auto
  have n: "0 \<le> sum_list (map ?v xs)" for xs by (rule sum_list_nonneg) (use v in auto)
  have "in_int64 (demo_cents xs)" for xs
  proof -
    have "(0::rat) \<le> 100 * sum_list (map ?v xs) + 1 / 2" using n [of xs] by simp
    then have "0 \<le> \<lfloor>100 * sum_list (map ?v xs) + 1 / 2\<rfloor>" by simp
    then show ?thesis by (simp add: demo_cents_def in_int64_def)
  qed
  moreover have "demo_cents xs \<le> demo_cents (xs @ [x])" for xs x
  proof -
    have "\<lfloor>100 * sum_list (map ?v xs) + 1 / 2\<rfloor> \<le> \<lfloor>100 * sum_list (map ?v (xs @ [x])) + 1 / 2\<rfloor>"
      using v [of x] by (intro floor_mono) simp
    then show ?thesis unfolding demo_cents_def by (rule min.mono [OF order_refl])
  qed
  moreover have "demo_cents [] = 0" by (simp add: demo_cents_def floor_eq_iff)
  ultimately show ?thesis by (simp add: cents_law_def)
qed

definition demo_group :: usage_group where
  "demo_group = \<lparr>ug_org = ''o'', ug_key = ''k'', ug_owner = [], ug_project = [], ug_model = ''m'',
     ug_card = ''default'', ug_period_start = 3600, ug_period_end = 7200, ug_prompt = 1,
     ug_completion = 0, ug_cached = 0, ug_reasoning = 0, ug_requests = 1\<rparr>"

definition demo_charge :: "string \<Rightarrow> int \<Rightarrow> rat \<Rightarrow> charge_record" where
  "demo_charge cid start amount = \<lparr>cr_id = cid, cr_org = ''o'', cr_key = ''k'', cr_owner = None,
     cr_project = None, cr_model = ''m'', cr_card = ''default'', cr_period_start = start,
     cr_period_end = start + 3600, cr_prompt = 1, cr_completion = 0, cr_cached = 0, cr_reasoning = 0,
     cr_requests = 1, cr_amount = Fin amount, cr_currency = ''CNY'', cr_price = None, cr_tier = -1,
     cr_priced = True, cr_month_to_date = 0\<rparr>"

definition demo_charges :: "(string \<times> usage_group \<times> charge_record) list" where
  "demo_charges = [(''t1'', demo_group, demo_charge ''c1'' 3600 (4 / 1000)),
     (''t2'', demo_group\<lparr>ug_period_start := 7200, ug_period_end := 10800\<rparr>, demo_charge ''c2'' 7200 (4 / 1000))]"

lemma demo_charges_run:
  "(case charge_each demo_cents ''a'' demo_charges demo_open of
     Inr d' \<Rightarrow> map (\<lambda>a. (balance_cents a, spent_this_cycle_cents a)) (accounts d') | Inl e \<Rightarrow> []) = [(499, 1)]"
  by code_simp

theorem charges_do_not_drift_witness:
  "\<exists>d' a'. charge_each demo_cents ''a'' demo_charges demo_open = Inr d'
    \<and> find_by_id ''a'' d' = Some a'
    \<and> spent_this_cycle_cents a' = demo_cents (cycle_amounts (acct_org a') (cycle_started_at a') d')
    \<and> wrap64 (balance_cents a' + spent_this_cycle_cents a') = 500"
proof -
  obtain d' where d': "charge_each demo_cents ''a'' demo_charges demo_open = Inr d'"
    using demo_charges_run by (cases "charge_each demo_cents ''a'' demo_charges demo_open") auto
  have o: "demo_open = \<lparr>accounts = [demo_account\<lparr>balance_cents := 500\<rparr>],
      transactions = transactions demo_open, usage_lines = [], charges = []\<rparr>"
    "map tx_key (transactions demo_open) = [''opening:a'']" by code_simp+
  have a: "find_by_id ''a'' demo_open = Some (demo_account\<lparr>balance_cents := 500\<rparr>)"
    by (subst o(1)) (simp add: find_by_id_def demo_account_def)
  have s: "settled demo_cents (demo_account\<lparr>balance_cents := 500\<rparr>) demo_open"
    using demo_cents_law by (subst o(1)) (simp add: settled_def cycle_amounts_def demo_account_def cents_law_def)
  have k: "find_transaction_by_key k demo_open = None" if "k \<noteq> ''opening:a''" for k
    using o(2) that by (auto simp: find_transaction_by_key_def find_None_iff)
  have p: "acct_mode (demo_account\<lparr>balance_cents := 500\<rparr>) = ''prepaid''"
    "spent_this_cycle_cents (demo_account\<lparr>balance_cents := 500\<rparr>) = 0" by (simp_all add: demo_account_def)
  have "\<forall>(tid, g, rec)\<in>set demo_charges. amount_ok (cr_amount rec)
       \<and> find_transaction_by_key (''charge:'' @ cr_id rec) demo_open = None"
    "distinct (map (\<lambda>(tid, g, rec). cr_id rec) demo_charges)"
    by (simp_all add: demo_charges_def demo_charge_def amount_ok_Fin k)
  from charges_do_not_drift [OF demo_cents_law d' a p(1) s this] p(2) d' show ?thesis
    by (auto simp: wrap64_def)
qed

text \<open>A charge of a key, model, card and hour commits once: running it again bills nothing, and
  marks every uncharged line of the group as charged by the first charge.  That makes a concurrent pass
  harmless, and it also gives away the lines that arrive after their hour was charged.\<close>
theorem charge_again_bills_nothing:
  assumes "c \<in> set (charges d)" "same_group_period c rec" "cr_key rec = ug_key g"
    "cr_model rec = ug_model g" "cr_card rec = ug_card g" "cr_period_start rec = ug_period_start g"
  shows "\<exists>d'. charge_group cents tid conflict g rec spec d = Inr d' \<and> accounts d' = accounts d
    \<and> transactions d' = transactions d \<and> charges d' = charges d
    \<and> (\<forall>l\<in>set (usage_lines d'). \<not> charges_line g l)"
proof -
  obtain c' where c': "find (\<lambda>c. cr_key c = ug_key g \<and> cr_model c = ug_model g \<and> cr_card c = ug_card g
      \<and> cr_period_start c = ug_period_start g) (charges d) = Some c'"
    using assms by (cases "find (\<lambda>c. cr_key c = ug_key g \<and> cr_model c = ug_model g \<and> cr_card c = ug_card g
      \<and> cr_period_start c = ug_period_start g) (charges d)") (auto simp: find_None_iff same_group_period_def)
  have "charge_group cents tid conflict g rec spec d = Inr (mark_lines g (cr_id c') d)"
    using assms c' by (auto simp: charge_group_def)
  moreover have "\<forall>l\<in>set (usage_lines (mark_lines g (cr_id c') d)). \<not> charges_line g l"
    by (auto simp: mark_lines_def update_where_def charges_line_def)
  ultimately show ?thesis by simp
qed

definition demo_line :: "string \<Rightarrow> usage_line" where
  "demo_line r = \<lparr>ul_id = r, ul_request = r, ul_org = ''o'', ul_key = ''k'', ul_owner = None,
     ul_project = None, ul_model = ''m'', ul_service = None, ul_card = ''default'', ul_prompt = 1000000, ul_completion = 0,
     ul_cached = 0, ul_reasoning = 0, ul_completed_at = 4000, ul_charge = None, ul_accrual = 5\<rparr>"

text \<open>A line is delivered twice, another arrives, their hour is charged, and a third arrives after the charge.\<close>

definition demo_ingestion :: "ledger_op list" where
  "demo_ingestion = [Ingest (demo_line ''r1''), Ingest (demo_line ''r1''), Ingest (demo_line ''r2''),
     Charge ''t1'' False demo_group (demo_charge ''c1'' 3600 1) None, Ingest (demo_line ''r3'')]"

lemma demo_ingestion_facts:
  "\<forall>p\<in>set demo_ingestion. op_ok p"
  "map (\<lambda>l. (ul_request l, ul_charge l, ul_accrual l)) (usage_lines (fold (run_ledger (\<lambda>_. 0)) demo_ingestion empty_db))
    = [(''r1'', Some ''c1'', 0), (''r2'', Some ''c1'', 0), (''r3'', None, 5)]"
  by (simp add: demo_ingestion_def demo_line_def demo_group_def demo_charge_def) code_simp

theorem settled_lines_accrue_nothing_witness:
  "\<exists>l\<in>set (usage_lines (fold (run_ledger (\<lambda>_. 0)) demo_ingestion empty_db)).
     ul_request l = ''r1'' \<and> ul_charge l = Some ''c1'' \<and> ul_accrual l = 0
     \<and> (\<exists>c\<in>set (charges (fold (run_ledger (\<lambda>_. 0)) demo_ingestion empty_db)). cr_id c = ''c1'' \<and> cr_key c = ul_key l
          \<and> cr_model c = ul_model l)"
proof -
  let ?d = "fold (run_ledger (\<lambda>_. 0)) demo_ingestion empty_db"
  have "(''r1'', Some ''c1'', 0) \<in> set (map (\<lambda>l. (ul_request l, ul_charge l, ul_accrual l)) (usage_lines ?d))"
    unfolding demo_ingestion_facts(2) by simp
  then obtain l where l: "l \<in> set (usage_lines ?d)" "ul_request l = ''r1''" "ul_charge l = Some ''c1''" by auto
  then have "line_settled (charges ?d) l"
    using settled_lines_accrue_nothing [OF demo_ingestion_facts(1), of "\<lambda>_. 0"] by blast
  then show ?thesis using l by (auto simp: line_settled_def intro!: bexI [of _ l])
qed

theorem charge_again_bills_nothing_witness:
  "\<exists>d'. charge_group demo_cents ''t'' False demo_group (demo_charge ''c2'' 3600 9)
      (charge_spec ''a'' (demo_charge ''c2'' 3600 9))
      (empty_db\<lparr>charges := [demo_charge ''c1'' 3600 1], usage_lines := [demo_line ''late'']\<rparr>) = Inr d'
    \<and> charges d' = [demo_charge ''c1'' 3600 1] \<and> (\<forall>l\<in>set (usage_lines d'). \<not> charges_line demo_group l)"
  using charge_again_bills_nothing [of "demo_charge ''c1'' 3600 1"
      "empty_db\<lparr>charges := [demo_charge ''c1'' 3600 1], usage_lines := [demo_line ''late'']\<rparr>"
      "demo_charge ''c2'' 3600 9" demo_group demo_cents "''t''" False "charge_spec ''a'' (demo_charge ''c2'' 3600 9)"]
  by (auto simp: demo_charge_def demo_group_def same_group_period_def)

text \<open>The cycle boundary gives an hour away: a charge for an hour that ended before the account's
  cycle was reset (every month's last hour, charged after the reset) leaves the settled account's
  balance, usage and spend as they were.\<close>
theorem charge_before_cycle_is_free:
  assumes "find_by_id aid d = Some a" "settled cents a d" "cr_period_start rec < cycle_started_at a"
    "in_int64 (balance_cents a)" "in_int64 (used_this_cycle_cents a)" "in_int64 (spent_this_cycle_cents a)"
    "charge_group cents tid False g rec (charge_spec aid rec) d = Inr d'"
  shows "\<exists>a'. find_by_id aid d' = Some a' \<and> balance_cents a' = balance_cents a
    \<and> used_this_cycle_cents a' = used_this_cycle_cents a
    \<and> spent_this_cycle_cents a' = spent_this_cycle_cents a"
  using assms(7)
proof (cases rule: charge_groupE)
  case (again c)
  then show ?thesis using assms(1) by (simp add: find_by_id_def)
next
  case (new d2)
  let ?d1 = "d\<lparr>charges := charges d @ [rec]\<rparr>"
  have ded: "apply_deduction cents tid False \<lparr>ds_account = aid, ds_charge = cr_id rec\<rparr> ?d1 = Inr d2"
    using new(2) by (simp add: charge_spec_def)
  have a1: "find_by_id aid ?d1 = Some a" using assms(1) by (simp add: find_by_id_def)
  have x: "cycle_accrual cents a ?d1 = 0"
    using assms(2,3) by (simp add: cycle_accrual_def Let_def settled_def cycle_amounts_app)
  have "\<exists>a'. find_by_id aid d2 = Some a' \<and> balance_cents a' = balance_cents a
    \<and> used_this_cycle_cents a' = used_this_cycle_cents a
    \<and> spent_this_cycle_cents a' = spent_this_cycle_cents a"
    using ded
  proof (cases rule: apply_deductionE)
    case (written a0 d1)
    have "a0 = a" using written(2) a1 by simp
    from deduct_reads(1) [OF a1 written(3,4) [unfolded \<open>a0 = a\<close>]] show ?thesis
      using assms(4-6) by (simp add: x deducted_def deducted_balance_def deducted_used_def)
  qed (use a1 in simp)
  then show ?thesis using new(3) by (simp add: find_by_id_def)
qed

theorem charge_before_cycle_is_free_witness:
  "\<exists>d' a'. charge_group demo_cents ''t'' False demo_group (demo_charge ''c1'' 3600 50)
      (charge_spec ''a'' (demo_charge ''c1'' 3600 50))
      (empty_db\<lparr>accounts := [demo_account\<lparr>balance_cents := 500, cycle_started_at := 7200\<rparr>]\<rparr>) = Inr d'
    \<and> find_by_id ''a'' d' = Some a' \<and> balance_cents a' = 500"
proof -
  let ?d = "empty_db\<lparr>accounts := [demo_account\<lparr>balance_cents := 500, cycle_started_at := 7200\<rparr>]\<rparr>"
  let ?r = "demo_charge ''c1'' 3600 50"
  have "(case charge_group demo_cents ''t'' False demo_group ?r (charge_spec ''a'' ?r) ?d of Inl e \<Rightarrow> False | Inr d \<Rightarrow> True)"
    by code_simp
  then obtain d' where c: "charge_group demo_cents ''t'' False demo_group ?r (charge_spec ''a'' ?r) ?d = Inr d'"
    by (cases "charge_group demo_cents ''t'' False demo_group ?r (charge_spec ''a'' ?r) ?d") auto
  have "find_by_id ''a'' ?d = Some (demo_account\<lparr>balance_cents := 500, cycle_started_at := 7200\<rparr>)"
    by (simp add: find_by_id_def demo_account_def)
  from charge_before_cycle_is_free [OF this _ _ _ _ _ c] c show ?thesis
    using demo_cents_law
    by (auto simp: settled_def cycle_amounts_def cents_law_def demo_account_def demo_charge_def
        in_int64_def empty_db_def)
qed

end
