(* ===== verification/Pricing.thy ===== *)
theory Pricing
  imports Ledger
begin

text \<open>
  Pricing and charging (\<open>services/billing/pricing.go\<close>, the price queries of
  \<open>billing_repository.go\<close> and \<open>validatePrice\<close> of \<open>service.go\<close>).  Rates and amounts are the
  code's float64 (\<open>f64\<close>).  A price row's tiers are the decoded JSON column, \<open>None\<close> when it does not
  decode; the catalog's model name is a parameter, as its table belongs to another service.
\<close>

record price_tier =
  up_to_tokens :: int
  tier_input :: f64
  tier_output :: f64

record price_entry =
  pe_id :: string
  pe_model :: string
  pe_card :: string
  pe_input :: f64
  pe_output :: f64
  pe_cached :: f64
  pe_currency :: string
  pe_effective_from :: int
  pe_tiers :: "price_tier list option"

definition default_card_type :: string where
  "default_card_type = ''default''"

section \<open>Price rows\<close>

definition same_cell :: "price_entry \<Rightarrow> price_entry \<Rightarrow> bool" where
  "same_cell p q = (pe_model p = pe_model q \<and> pe_card p = pe_card q
     \<and> pe_effective_from p = pe_effective_from q)"

definition upsert_price :: "price_entry \<Rightarrow> price_entry list \<Rightarrow> price_entry list" where
  "upsert_price e ps =
     (if \<exists>p\<in>set ps. same_cell p e
      then update_where (\<lambda>p. same_cell p e) (\<lambda>p. p\<lparr>pe_input := pe_input e, pe_output := pe_output e,
             pe_cached := pe_cached e, pe_currency := pe_currency e, pe_tiers := pe_tiers e\<rparr>) ps
      else ps @ [e])"

text \<open>The first row of a query ordered by \<open>better\<close>.\<close>

fun first_by :: "('r \<Rightarrow> 'r \<Rightarrow> bool) \<Rightarrow> 'r list \<Rightarrow> 'r option" where
  "first_by better [] = None"
| "first_by better (r # rs) =
     (case first_by better rs of None \<Rightarrow> Some r | Some q \<Rightarrow> if better q r then Some q else Some r)"

definition applicable_price :: "string \<Rightarrow> string \<Rightarrow> int \<Rightarrow> price_entry list \<Rightarrow> price_entry option" where
  "applicable_price mdl crd moment ps =
     first_by (\<lambda>q r. pe_effective_from r < pe_effective_from q)
       (filter (\<lambda>p. pe_model p = mdl \<and> pe_card p = crd \<and> pe_effective_from p \<le> moment) ps)"

definition dearer :: "price_entry \<Rightarrow> price_entry \<Rightarrow> bool" where
  "dearer q r = (if flt (pe_input r) (pe_input q) then True
     else if flt (pe_input q) (pe_input r) then False
     else if flt (pe_output r) (pe_output q) then True
     else if flt (pe_output q) (pe_output r) then False
     else pe_effective_from r < pe_effective_from q)"

definition worst_case_price :: "string \<Rightarrow> int \<Rightarrow> price_entry list \<Rightarrow> price_entry option" where
  "worst_case_price mdl moment ps =
     first_by dearer (filter (\<lambda>p. pe_model p = mdl \<and> pe_effective_from p \<le> moment) ps)"

definition resolve_price_entry ::
  "(string \<Rightarrow> string) \<Rightarrow> string \<Rightarrow> string \<Rightarrow> int \<Rightarrow> price_entry list \<Rightarrow> price_entry option" where
  "resolve_price_entry model_name mdl crd moment ps =
     (case applicable_price mdl crd moment ps of
        Some e \<Rightarrow> Some e
      | None \<Rightarrow>
          (case (if crd \<noteq> default_card_type then applicable_price mdl default_card_type moment ps else None) of
             Some e \<Rightarrow> Some e
           | None \<Rightarrow>
               (let name = model_name mdl in
                if name = [] \<or> name = mdl then None
                else (case applicable_price name crd moment ps of
                        Some e \<Rightarrow> Some e
                      | None \<Rightarrow> applicable_price name default_card_type moment ps))))"

section \<open>Amounts\<close>

definition cents_to_micros :: "int \<Rightarrow> int" where
  "cents_to_micros c = wrap64 (c * 10000)"

definition amount_micros :: "f64 \<Rightarrow> int" where
  "amount_micros amount = to_int64_amd (math_round (fmul amount (Fin 1000000)))"

definition cents_from_amount :: "f64 \<Rightarrow> int" where
  "cents_from_amount amount = to_int64_amd (math_round (fmul amount (Fin 100)))"

fun select_tier_from :: "int \<Rightarrow> price_tier list \<Rightarrow> int \<Rightarrow> int \<times> f64 \<times> f64" where
  "select_tier_from i [] mtd = (i - 1, Fin 0, Fin 0)"
| "select_tier_from i [t] mtd = (i, tier_input t, tier_output t)"
| "select_tier_from i (t # u # ts) mtd =
     (if up_to_tokens t = 0 \<or> mtd < up_to_tokens t then (i, tier_input t, tier_output t)
      else select_tier_from (i + 1) (u # ts) mtd)"

definition select_tier :: "price_tier list \<Rightarrow> int \<Rightarrow> int \<times> f64 \<times> f64" where
  "select_tier tiers mtd = (if tiers = [] then (-1, Fin 0, Fin 0) else select_tier_from 0 tiers mtd)"

text \<open>\<open>float64(p)*in/1e6 + float64(c)*out/1e6 + float64(k)*cached/1e6\<close>, left to right.\<close>

definition token_amount :: "int \<Rightarrow> int \<Rightarrow> int \<Rightarrow> f64 \<Rightarrow> f64 \<Rightarrow> f64 \<Rightarrow> f64" where
  "token_amount p c k i out cd =
     fadd (fadd (fdivc (fmul (f64_of_int p) i) 1000000) (fdivc (fmul (f64_of_int c) out) 1000000))
       (fdivc (fmul (f64_of_int k) cd) 1000000)"

definition compute_amount :: "usage_group \<Rightarrow> price_entry \<Rightarrow> f64 \<Rightarrow> f64 \<Rightarrow> f64" where
  "compute_amount g e tin tout =
     (let (i, out) = (if flt (Fin 0) tin \<or> flt (Fin 0) tout then (tin, tout) else (pe_input e, pe_output e));
          amount = token_amount (ug_prompt g) (ug_completion g) (ug_cached g) i out (pe_cached e)
      in fdivc (math_round (fmul amount (Fin 1000000))) 1000000)"

text \<open>The dearest rate over the entry and its tiers; undecodable tiers are ignored.\<close>

definition max_rate :: "(price_tier \<Rightarrow> f64) \<Rightarrow> f64 \<Rightarrow> price_tier list option \<Rightarrow> f64" where
  "max_rate rate base tiers =
     foldl (\<lambda>r t. if flt r (rate t) then rate t else r) base (opt_or tiers [])"

definition estimate_accrual_micros :: "price_entry option \<Rightarrow> int \<Rightarrow> int \<Rightarrow> int \<Rightarrow> int" where
  "estimate_accrual_micros entry p c k =
     (case entry of
        None \<Rightarrow> 0
      | Some e \<Rightarrow> amount_micros (token_amount p c k (max_rate tier_input (pe_input e) (pe_tiers e))
                    (max_rate tier_output (pe_output e) (pe_tiers e)) (pe_cached e)))"

section \<open>Charging a bucket\<close>

text \<open>
  \<open>month_start_of\<close> is the UTC month start of a unix time (package \<open>time\<close>); \<open>None\<close> is the tier
  decoding error, which aborts the group before anything is written.
\<close>

definition priced_record ::
  "(string \<Rightarrow> string) \<Rightarrow> (int \<Rightarrow> int) \<Rightarrow> string \<Rightarrow> price_entry list \<Rightarrow> string \<Rightarrow> usage_group \<Rightarrow> db
   \<Rightarrow> charge_record option" where
  "priced_record model_name month_start_of currency ps cid g d =
     (let base = \<lparr>cr_id = cid, cr_org = ug_org g, cr_key = ug_key g,
            cr_owner = (if ug_owner g = [] then None else Some (ug_owner g)),
            cr_project = (if ug_project g = [] then None else Some (ug_project g)),
            cr_model = ug_model g, cr_card = ug_card g, cr_period_start = ug_period_start g,
            cr_period_end = ug_period_end g, cr_prompt = ug_prompt g, cr_completion = ug_completion g,
            cr_cached = ug_cached g, cr_reasoning = ug_reasoning g, cr_requests = ug_requests g,
            cr_amount = Fin 0, cr_currency = currency, cr_price = None, cr_tier = -1,
            cr_priced = False, cr_month_to_date = 0\<rparr>
      in case resolve_price_entry model_name (ug_model g) (ug_card g) (ug_period_start g) ps of
           None \<Rightarrow> Some base
         | Some e \<Rightarrow>
             (case pe_tiers e of
                None \<Rightarrow> None
              | Some tiers \<Rightarrow>
                  (let mtd = month_to_date_tokens (ug_org g) (ug_model g) (ug_card g)
                         (month_start_of (ug_period_start g)) (ug_period_start g) d;
                       (tier, tin, tout) = select_tier tiers mtd
                   in Some (base\<lparr>cr_amount := compute_amount g e tin tout, cr_currency := pe_currency e,
                        cr_tier := tier, cr_priced := True, cr_month_to_date := mtd,
                        cr_price := Some (pe_id e)\<rparr>))))"

text \<open>
  What a pass needs from outside: prices, the catalog and clock, the ids it generates per group and
  whether a group's account update conflicts.
\<close>

record pass_env =
  env_cents :: "f64 list \<Rightarrow> int"
  env_model_name :: "string \<Rightarrow> string"
  env_month_start :: "int \<Rightarrow> int"
  env_currency :: string
  env_prices :: "price_entry list"
  env_charge_id :: "usage_group \<Rightarrow> string"
  env_tx_id :: "usage_group \<Rightarrow> string"
  env_conflict :: "usage_group \<Rightarrow> bool"

definition charge_usage_group :: "pass_env \<Rightarrow> usage_group \<Rightarrow> account option \<Rightarrow> db \<Rightarrow> billing_error + db" where
  "charge_usage_group env g account d =
     (case priced_record (env_model_name env) (env_month_start env) (env_currency env) (env_prices env)
             (env_charge_id env g) g d of
        None \<Rightarrow> Inl (Internal ''tiers'')
      | Some rec \<Rightarrow> charge_group (env_cents env) (env_tx_id env g) (env_conflict env g) g rec
          (case account of None \<Rightarrow> None
             | Some a \<Rightarrow> Some \<lparr>ds_account = acct_id a, ds_charge = cr_id rec\<rparr>) d)"

text \<open>A failed group is skipped: the pass returns the groups that failed and the tables.  The account
  is looked up when the organization changes.\<close>

fun price_groups :: "pass_env \<Rightarrow> usage_group list \<Rightarrow> account option \<Rightarrow> db \<Rightarrow> usage_group list \<times> db" where
  "price_groups env [] account d = ([], d)"
| "price_groups env (g # gs) account d =
     (let account' = (case account of
            Some a \<Rightarrow> if acct_org a = ug_org g then Some a else find_by_org (ug_org g) d
          | None \<Rightarrow> find_by_org (ug_org g) d)
      in case charge_usage_group env g account' d of
           Inl e \<Rightarrow> (case price_groups env gs account' d of (bad, d') \<Rightarrow> (g # bad, d'))
         | Inr d1 \<Rightarrow> price_groups env gs account' d1)"

definition price_once :: "pass_env \<Rightarrow> string \<Rightarrow> int \<Rightarrow> db \<Rightarrow> usage_group list \<times> db" where
  "price_once env key period_start d =
     price_groups env (uncharged_groups key period_start (period_start + 3600) d) None d"

section \<open>Price validation\<close>

fun tiers_valid :: "int option \<Rightarrow> price_tier list \<Rightarrow> bool" where
  "tiers_valid prev [] = True"
| "tiers_valid prev [t] =
     (up_to_tokens t = 0 \<and> \<not> flt (tier_input t) (Fin 0) \<and> \<not> flt (tier_output t) (Fin 0))"
| "tiers_valid prev (t # u # ts) =
     (0 < up_to_tokens t \<and> (case prev of None \<Rightarrow> True | Some b \<Rightarrow> b < up_to_tokens t)
      \<and> \<not> flt (tier_input t) (Fin 0) \<and> \<not> flt (tier_output t) (Fin 0)
      \<and> tiers_valid (Some (up_to_tokens t)) (u # ts))"

definition validate_price :: "(string \<Rightarrow> bool) \<Rightarrow> price_entry \<Rightarrow> bool" where
  "validate_price supported e =
     (let mdl = trim_space (pe_model e); crd = trim_space (pe_card e); cur = trim_space (pe_currency e) in
      mdl \<noteq> [] \<and> length mdl \<le> 128 \<and> crd \<noteq> [] \<and> length crd \<le> 64
      \<and> \<not> flt (pe_input e) (Fin 0) \<and> \<not> flt (pe_output e) (Fin 0) \<and> \<not> flt (pe_cached e) (Fin 0)
      \<and> (cur \<noteq> [] \<longrightarrow> length cur \<le> 8 \<and> supported cur)
      \<and> 0 \<le> pe_effective_from e
      \<and> (case pe_tiers e of None \<Rightarrow> False | Some ts \<Rightarrow> tiers_valid None ts))"

section \<open>Rounding of money\<close>

lemma rnd_le_int: "x \<le> of_int n \<Longrightarrow> \<bar>n\<bar> \<le> 2 ^ 53 \<Longrightarrow> rnd x \<le> of_int n"
  using rnd_mono [of x "of_int n"] rnd_small_int [of n] by simp

lemma round64_small:
  assumes "0 \<le> x" "x \<le> 2 ^ 53"
  shows "round64 x = Fin (rnd x)"
proof -
  have le: "rnd x \<le> of_int (2 ^ 53)" using assms(2) by (intro rnd_le_int) simp_all
  have "ilog2 \<bar>rnd x\<bar> < 1024" if "rnd x \<noteq> 0"
  proof -
    have p: "0 < rnd x" using that rnd_nonneg [OF assms(1)] by simp
    then have "ilog2 \<bar>rnd x\<bar> \<le> ilog2 \<bar>of_int (2 ^ 53)\<bar>" using le by (intro ilog2_mono) simp_all
    also have "\<dots> < int 54" by (rule ilog2_int_less) simp_all
    finally show ?thesis by simp
  qed
  then show ?thesis by (auto simp: round64_def Let_def)
qed

lemma round_away_mono: "0 \<le> x \<Longrightarrow> x \<le> y \<Longrightarrow> round_away x \<le> round_away y"
  by (simp add: round_away_def floor_mono)

lemma round_away_near: "\<bar>x - of_int n\<bar> < 1 / 2 \<Longrightarrow> 0 \<le> x \<Longrightarrow> round_away x = n"
proof -
  assume a: "\<bar>x - of_int n\<bar> < 1 / 2" "0 \<le> x"
  have "of_int n \<le> x + 1 / 2 \<and> x + 1 / 2 < of_int n + 1" using a(1) by linarith
  then show ?thesis using a(2) by (simp add: round_away_def floor_eq_iff)
qed

lemma round_away_bounds: "0 \<le> x \<Longrightarrow> x \<le> of_int n \<Longrightarrow> 0 \<le> round_away x \<and> round_away x \<le> n"
proof -
  assume a: "0 \<le> x" "x \<le> of_int n"
  have "\<lfloor>x + 1 / 2\<rfloor> \<le> \<lfloor>of_int n + 1 / 2 :: rat\<rfloor>" using a(2) by (intro floor_mono) simp
  also have "\<lfloor>of_int n + 1 / 2 :: rat\<rfloor> = n" by (simp add: floor_eq_iff)
  finally show ?thesis using a(1) by (simp add: round_away_def)
qed

text \<open>The stored amount gives its micro-units back.\<close>

lemma micros_recover:
  assumes "0 \<le> n" "n \<le> 2 ^ 50"
  shows "round_away (rnd (rnd (of_int n / 1000000) * 1000000)) = n"
proof (cases "n = 0")
  case False
  let ?x = "of_int n / 1000000 :: rat" and ?y = "rnd (of_int n / 1000000) * 1000000"
  have n1: "(1 :: rat) \<le> of_int n" "(of_int n :: rat) \<le> 2 ^ 50" using False assms by simp_all
  have tiny: "(2 :: rat) powi (- 1022) \<le> 1 / 2 ^ 30"
  proof -
    have "(2 :: rat) powi (- 1022) \<le> 2 powi (- 30)" by (simp only: powi_le_iff)
    also have "(2 :: rat) powi (- 30) = 1 / 2 ^ 30" by (simp add: power_int_def power_one_over)
    finally show ?thesis .
  qed
  have x: "2 powi (- 1022) \<le> \<bar>?x\<bar>" using n1 tiny by simp
  have ex: "\<bar>rnd ?x - ?x\<bar> \<le> ?x / 2 ^ 53" using rnd_error [OF x] n1 by simp
  have ey: "\<bar>?y - of_int n\<bar> \<le> of_int n / 2 ^ 53"
    using ex n1 by linarith
  have y: "1 / 2 \<le> ?y" "?y \<le> 2 * of_int n" using ey n1 unfolding abs_le_iff by simp_all
  then have y': "2 powi (- 1022) \<le> \<bar>?y\<bar>" using tiny by simp
  have "\<bar>rnd ?y - ?y\<bar> \<le> ?y / 2 ^ 53" using rnd_error [OF y'] y(1) by simp
  also have "\<dots> \<le> 2 * of_int n / 2 ^ 53" using y(2) by simp
  finally have "\<bar>rnd ?y - of_int n\<bar> \<le> 3 * of_int n / 2 ^ 53"
    using ey unfolding abs_le_iff by simp
  also have "\<dots> < 1 / 2" using n1(2) by simp
  finally show ?thesis using rnd_nonneg [of ?y] y(1) by (intro round_away_near) simp_all
qed (simp add: round_away_def floor_eq_iff)

lemma amount_micros_recover:
  assumes "0 \<le> n" "n \<le> 2 ^ 50"
  shows "amount_micros (fdivc (Fin (of_int n)) 1000000) = n"
proof -
  have n: "(0 :: rat) \<le> of_int n" "(of_int n :: rat) \<le> 2 ^ 50" using assms by simp_all
  have r: "rnd (of_int n / 1000000) \<le> of_int (2 ^ 31)" using n by (intro rnd_le_int) simp_all
  have d: "fdivc (Fin (of_int n)) 1000000 = Fin (rnd (of_int n / 1000000))"
    using n by (simp add: round64_small)
  have "rnd (of_int n / 1000000 :: rat) * 1000000 \<le> of_int (2 ^ 31) * 1000000"
    using r by (intro mult_right_mono) simp_all
  then have "fmul (Fin (rnd (of_int n / 1000000))) (Fin 1000000) = Fin (rnd (rnd (of_int n / 1000000) * 1000000))"
    using n rnd_nonneg [of "of_int n / 1000000"] by (simp add: round64_small)
  then show ?thesis unfolding amount_micros_def d using assms micros_recover [OF assms]
    by (simp add: in_int64_def)
qed

definition tok :: "int \<Rightarrow> rat \<Rightarrow> rat" where
  "tok n r = rnd (rnd (of_int n * r) / 1000000)"

definition tok_bounds :: "int \<Rightarrow> rat \<Rightarrow> bool" where
  "tok_bounds n r = (0 \<le> n \<and> n \<le> 2 ^ 53 \<and> 0 \<le> r \<and> of_int n * r \<le> 2 ^ 47)"

lemma tok_facts:
  assumes "tok_bounds n r"
  shows "fdivc (fmul (f64_of_int n) (Fin r)) 1000000 = Fin (tok n r)" "0 \<le> tok n r" "tok n r \<le> 2 ^ 28"
proof -
  have b: "0 \<le> of_int n * r" "of_int n * r \<le> of_int (2 ^ 47)" using assms by (simp_all add: tok_bounds_def)
  have r: "rnd (of_int n * r) \<le> of_int (2 ^ 47)" using b by (intro rnd_le_int) simp_all
  have d: "0 \<le> rnd (of_int n * r) / 1000000" "rnd (of_int n * r) / 1000000 \<le> of_int (2 ^ 28)"
    using r rnd_nonneg [OF b(1)] by simp_all
  have m: "f64_of_int n = Fin (of_int n)" using assms by (intro f64_of_int_exact) (simp add: tok_bounds_def)
  show "fdivc (fmul (f64_of_int n) (Fin r)) 1000000 = Fin (tok n r)"
    using b d by (simp add: m round64_small tok_def)
  show "0 \<le> tok n r" "tok n r \<le> 2 ^ 28"
    using rnd_nonneg [OF d(1)] rnd_le_int [OF d(2)] by (simp_all add: tok_def)
qed

lemma tok_mono: "0 \<le> n \<Longrightarrow> r \<le> r' \<Longrightarrow> tok n r \<le> tok n r'"
  unfolding tok_def by (intro rnd_mono divide_right_mono mult_left_mono) simp_all

definition toks :: "int \<Rightarrow> int \<Rightarrow> int \<Rightarrow> rat \<Rightarrow> rat \<Rightarrow> rat \<Rightarrow> rat" where
  "toks p c k i out cd = rnd (rnd (tok p i + tok c out) + tok k cd)"

lemma toks_facts:
  assumes "tok_bounds p i" "tok_bounds c out" "tok_bounds k cd"
  shows "token_amount p c k (Fin i) (Fin out) (Fin cd) = Fin (toks p c k i out cd)"
    "0 \<le> toks p c k i out cd" "toks p c k i out cd \<le> 2 ^ 30"
proof -
  note t = tok_facts [OF assms(1)] tok_facts [OF assms(2)] tok_facts [OF assms(3)]
  have s: "0 \<le> tok p i + tok c out" "tok p i + tok c out \<le> of_int (2 ^ 29)" using t by simp_all
  note s' = rnd_nonneg [OF s(1)] rnd_le_int [OF s(2)]
  have u: "0 \<le> rnd (tok p i + tok c out) + tok k cd" "rnd (tok p i + tok c out) + tok k cd \<le> of_int (2 ^ 30)"
    using s' t by simp_all
  show "token_amount p c k (Fin i) (Fin out) (Fin cd) = Fin (toks p c k i out cd)"
    unfolding token_amount_def t(1,4,7) using s u by (simp add: round64_small toks_def)
  show "0 \<le> toks p c k i out cd" "toks p c k i out cd \<le> 2 ^ 30"
    using rnd_nonneg [OF u(1)] rnd_le_int [OF u(2)] by (simp_all add: toks_def)
qed

lemma toks_mono:
  "0 \<le> p \<Longrightarrow> 0 \<le> c \<Longrightarrow> i \<le> i' \<Longrightarrow> out \<le> out' \<Longrightarrow> toks p c k i out cd \<le> toks p c k i' out' cd"
  unfolding toks_def by (intro rnd_mono add_mono tok_mono order_refl)

text \<open>The micro-units of an amount.\<close>

definition micros :: "rat \<Rightarrow> int" where
  "micros a = round_away (rnd (a * 1000000))"

lemma micros_facts:
  assumes "0 \<le> a" "a \<le> 2 ^ 30"
  shows "fmul (Fin a) (Fin 1000000) = Fin (rnd (a * 1000000))"
    "amount_micros (Fin a) = micros a" "0 \<le> micros a" "micros a \<le> 2 ^ 50"
proof -
  have b: "0 \<le> a * 1000000" "a * 1000000 \<le> of_int (2 ^ 50)" using assms by simp_all
  show m: "fmul (Fin a) (Fin 1000000) = Fin (rnd (a * 1000000))" using b by (simp add: round64_small)
  have r: "0 \<le> micros a \<and> micros a \<le> 2 ^ 50"
    unfolding micros_def using rnd_nonneg [OF b(1)] rnd_le_int [OF b(2)] by (intro round_away_bounds) simp_all
  then show "0 \<le> micros a" "micros a \<le> 2 ^ 50" by simp_all
  show "amount_micros (Fin a) = micros a"
    unfolding amount_micros_def m using r by (simp add: micros_def in_int64_def)
qed

lemma micros_mono: "0 \<le> a \<Longrightarrow> a \<le> b \<Longrightarrow> micros a \<le> micros b"
  unfolding micros_def by (intro round_away_mono rnd_mono rnd_nonneg) simp_all


section \<open>The estimate bounds the charge\<close>

fun rate_ok :: "f64 \<Rightarrow> bool" where
  "rate_ok (Fin r) = (0 \<le> r)"
| "rate_ok _ = False"

fun rat_of :: "f64 \<Rightarrow> rat" where
  "rat_of (Fin r) = r"
| "rat_of _ = 0"

lemma rate_okD: "rate_ok x \<Longrightarrow> x = Fin (rat_of x) \<and> 0 \<le> rat_of x"
  by (cases x) auto

definition entry_rates_ok :: "price_entry \<Rightarrow> price_tier list \<Rightarrow> bool" where
  "entry_rates_ok e ts = (pe_tiers e = Some ts \<and> rate_ok (pe_input e) \<and> rate_ok (pe_output e)
     \<and> rate_ok (pe_cached e) \<and> (\<forall>t\<in>set ts. rate_ok (tier_input t) \<and> rate_ok (tier_output t)))"

lemma max_rate_ok:
  assumes "rate_ok base" "\<forall>t\<in>set ts. rate_ok (rate t)"
  shows "rate_ok (max_rate rate base (Some ts)) \<and> rat_of base \<le> rat_of (max_rate rate base (Some ts))
    \<and> (\<forall>t\<in>set ts. rat_of (rate t) \<le> rat_of (max_rate rate base (Some ts)))"
  using assms
proof (induction ts arbitrary: base)
  case (Cons t ts)
  let ?b = "if flt base (rate t) then rate t else base"
  have b: "rate_ok ?b" "rat_of base \<le> rat_of ?b" "rat_of (rate t) \<le> rat_of ?b"
    using Cons.prems by (cases base; cases "rate t"; auto)+
  show ?case using Cons.IH [OF b(1)] Cons.prems(2) b(2,3)
    by (auto simp: max_rate_def opt_or_def split del: if_split)
qed (simp add: max_rate_def opt_or_def)

lemma select_tier_rates:
  assumes "select_tier ts mtd = (i, tin, tout)"
  shows "(tin = Fin 0 \<and> tout = Fin 0) \<or> (\<exists>t\<in>set ts. tin = tier_input t \<and> tout = tier_output t)"
proof -
  have "select_tier_from j us mtd = (i, tin, tout) \<Longrightarrow>
      (tin = Fin 0 \<and> tout = Fin 0) \<or> (\<exists>t\<in>set us. tin = tier_input t \<and> tout = tier_output t)" for j us
    by (induction j us mtd rule: select_tier_from.induct) (auto split: if_splits)
  then show ?thesis using assms by (auto simp: select_tier_def split: if_splits)
qed

text \<open>The bounds under which float arithmetic on money is exact to the micro-unit: no term of the sum
  exceeds \<open>2 ^ 47\<close> micro-units (140 million currency units).\<close>

definition usage_bounds :: "int \<Rightarrow> int \<Rightarrow> int \<Rightarrow> price_entry \<Rightarrow> bool" where
  "usage_bounds p c k e = (tok_bounds p (rat_of (max_rate tier_input (pe_input e) (pe_tiers e)))
     \<and> tok_bounds c (rat_of (max_rate tier_output (pe_output e) (pe_tiers e)))
     \<and> tok_bounds k (rat_of (pe_cached e)))"

lemma tok_bounds_le: "tok_bounds n r \<Longrightarrow> 0 \<le> r' \<Longrightarrow> r' \<le> r \<Longrightarrow> tok_bounds n r'"
  unfolding tok_bounds_def by (auto intro: order_trans [OF mult_left_mono])

lemma compute_amount_micros:
  assumes "token_amount (ug_prompt g) (ug_completion g) (ug_cached g) i out (pe_cached e) = Fin a"
    "0 \<le> a" "a \<le> 2 ^ 30"
    "(i, out) = (if flt (Fin 0) tin \<or> flt (Fin 0) tout then (tin, tout) else (pe_input e, pe_output e))"
  shows "amount_micros (compute_amount g e tin tout) = micros a"
proof -
  note m = micros_facts [OF assms(2,3)]
  have "compute_amount g e tin tout = fdivc (Fin (of_int (micros a))) 1000000"
    using assms(1) m(1) by (simp add: compute_amount_def assms(4) [symmetric] micros_def)
  then show ?thesis using amount_micros_recover [OF m(3,4)] by simp
qed

text \<open>The in-flight figure bounds the bill: for every price row with non-negative rates, every tier
  the month's volume selects and every usage within bounds, the accrual written at ingestion is at
  least the micro-units the charge will store.\<close>
theorem estimate_bounds_charge:
  assumes "entry_rates_ok e ts" "usage_bounds (ug_prompt g) (ug_completion g) (ug_cached g) e"
    "select_tier ts mtd = (i, tin, tout)"
  shows "amount_micros (compute_amount g e tin tout)
    \<le> estimate_accrual_micros (Some e) (ug_prompt g) (ug_completion g) (ug_cached g)"
proof -
  let ?I = "max_rate tier_input (pe_input e) (pe_tiers e)"
  let ?O = "max_rate tier_output (pe_output e) (pe_tiers e)"
  let ?p = "ug_prompt g" and ?c = "ug_completion g" and ?k = "ug_cached g"
  have t: "pe_tiers e = Some ts" and ok: "rate_ok (pe_input e)" "rate_ok (pe_output e)" "rate_ok (pe_cached e)"
    "\<forall>t\<in>set ts. rate_ok (tier_input t) \<and> rate_ok (tier_output t)"
    using assms(1) by (simp_all add: entry_rates_ok_def)
  have I: "rate_ok ?I" "rat_of (pe_input e) \<le> rat_of ?I" "\<forall>t\<in>set ts. rat_of (tier_input t) \<le> rat_of ?I"
    using max_rate_ok [OF ok(1), of ts tier_input] ok(4) t by simp_all
  have O: "rate_ok ?O" "rat_of (pe_output e) \<le> rat_of ?O" "\<forall>t\<in>set ts. rat_of (tier_output t) \<le> rat_of ?O"
    using max_rate_ok [OF ok(2), of ts tier_output] ok(4) t by simp_all
  obtain ri ro where r: "(ri, ro) = (if flt (Fin 0) tin \<or> flt (Fin 0) tout then (tin, tout)
      else (pe_input e, pe_output e))" by (metis surj_pair)
  have "rate_ok ri \<and> rate_ok ro \<and> rat_of ri \<le> rat_of ?I \<and> rat_of ro \<le> rat_of ?O"
    using r select_tier_rates [OF assms(3)] I O ok by (auto split: if_splits)
  then have ri: "ri = Fin (rat_of ri)" "0 \<le> rat_of ri" "rat_of ri \<le> rat_of ?I"
    and ro: "ro = Fin (rat_of ro)" "0 \<le> rat_of ro" "rat_of ro \<le> rat_of ?O"
    using rate_okD by auto
  have b: "tok_bounds ?p (rat_of ?I)" "tok_bounds ?c (rat_of ?O)" "tok_bounds ?k (rat_of (pe_cached e))"
    using assms(2) by (simp_all add: usage_bounds_def)
  note big = toks_facts [OF b]
  note small = toks_facts [OF tok_bounds_le [OF b(1) ri(2,3)] tok_bounds_le [OF b(2) ro(2,3)] b(3)]
  have c: "pe_cached e = Fin (rat_of (pe_cached e))" using rate_okD [OF ok(3)] by simp
  have "token_amount ?p ?c ?k ri ro (pe_cached e)
      = Fin (toks ?p ?c ?k (rat_of ri) (rat_of ro) (rat_of (pe_cached e)))"
    using small(1) by (simp only: ri(1) [symmetric] ro(1) [symmetric] c [symmetric])
  from compute_amount_micros [OF this small(2,3) r]
  have "amount_micros (compute_amount g e tin tout)
      = micros (toks ?p ?c ?k (rat_of ri) (rat_of ro) (rat_of (pe_cached e)))" .
  also have "\<dots> \<le> micros (toks ?p ?c ?k (rat_of ?I) (rat_of ?O) (rat_of (pe_cached e)))"
    using b ri ro small(2) by (intro micros_mono toks_mono) (simp_all add: tok_bounds_def)
  also have "\<dots> = estimate_accrual_micros (Some e) ?p ?c ?k"
  proof -
    have "token_amount ?p ?c ?k ?I ?O (pe_cached e)
        = Fin (toks ?p ?c ?k (rat_of ?I) (rat_of ?O) (rat_of (pe_cached e)))"
      using big(1) rate_okD [OF I(1)] rate_okD [OF O(1)] c by metis
    then show ?thesis using micros_facts(2) [OF big(2,3)] by (simp add: estimate_accrual_micros_def)
  qed
  finally show ?thesis .
qed

definition demo_price :: price_entry where
  "demo_price = \<lparr>pe_id = ''p'', pe_model = ''m'', pe_card = ''default'', pe_input = Fin 2, pe_output = Fin 8,
     pe_cached = Fin 1, pe_currency = ''CNY'', pe_effective_from = 0,
     pe_tiers = Some [\<lparr>up_to_tokens = 1000, tier_input = Fin 3, tier_output = Fin 9\<rparr>,
       \<lparr>up_to_tokens = 0, tier_input = Fin 1, tier_output = Fin 4\<rparr>]\<rparr>"

lemma demo_price_rates:
  "max_rate tier_input (pe_input demo_price) (pe_tiers demo_price) = Fin 3"
  "max_rate tier_output (pe_output demo_price) (pe_tiers demo_price) = Fin 9"
  by (simp_all add: demo_price_def max_rate_def opt_or_def)

theorem estimate_bounds_charge_witness:
  "amount_micros (compute_amount (demo_group\<lparr>ug_completion := 500\<rparr>) demo_price (Fin 1) (Fin 4))
    \<le> estimate_accrual_micros (Some demo_price) 1 500 0"
  using estimate_bounds_charge [of demo_price "the (pe_tiers demo_price)" "demo_group\<lparr>ug_completion := 500\<rparr>"
      5000 1 "Fin 1" "Fin 4"] demo_price_rates
  by (simp add: entry_rates_ok_def usage_bounds_def tok_bounds_def select_tier_def)
    (simp add: demo_price_def demo_group_def)

section \<open>Tiers\<close>

lemma select_tier_from_spec:
  "select_tier_from j ts mtd = (i, tin, tout) \<Longrightarrow> ts \<noteq> [] \<Longrightarrow> tiers_valid prev ts \<Longrightarrow>
   j \<le> i \<and> nat (i - j) < length ts \<and> tin = tier_input (ts ! nat (i - j)) \<and> tout = tier_output (ts ! nat (i - j))
   \<and> (nat (i - j) = length ts - 1 \<or> mtd < up_to_tokens (ts ! nat (i - j)))
   \<and> (\<forall>n<nat (i - j). up_to_tokens (ts ! n) \<le> mtd)"
proof (induction j ts mtd arbitrary: prev rule: select_tier_from.induct)
  case (3 j t u ts mtd)
  show ?case
  proof (cases "up_to_tokens t = 0 \<or> mtd < up_to_tokens t")
    case True
    then show ?thesis using 3 by auto
  next
    case False
    then have v: "tiers_valid (Some (up_to_tokens t)) (u # ts)" "select_tier_from (j + 1) (u # ts) mtd = (i, tin, tout)"
      using "3.prems" by simp_all
    note ih = "3.IH" [OF False v(2) _ v(1)]
    have "j + 1 \<le> i" using ih by simp
    then have s: "nat (i - j) = Suc (nat (i - (j + 1)))" by arith
    have n: "(t # u # ts) ! nat (i - j) = (u # ts) ! nat (i - (j + 1))" unfolding s by simp
    have "\<forall>n<nat (i - j). up_to_tokens ((t # u # ts) ! n) \<le> mtd"
      using ih False unfolding s by (auto simp: less_Suc_eq_0_disj)
    then show ?thesis using ih unfolding n s by auto
  qed
qed auto

text \<open>C12. The tier a charge uses is the right one: for tiers the price validation accepts, the selected
  tier is the first whose exclusive bound is above the month's volume, or the unbounded last one, and
  the rates are that tier's.\<close>
theorem select_tier_spec:
  assumes "tiers_valid None ts" "ts \<noteq> []" "select_tier ts mtd = (i, tin, tout)"
  shows "0 \<le> i \<and> nat i < length ts \<and> tin = tier_input (ts ! nat i) \<and> tout = tier_output (ts ! nat i)
    \<and> (nat i = length ts - 1 \<or> mtd < up_to_tokens (ts ! nat i))
    \<and> (\<forall>n<nat i. up_to_tokens (ts ! n) \<le> mtd)"
  using select_tier_from_spec [OF _ assms(2,1), of 0 mtd i tin tout] assms(2,3) by (simp add: select_tier_def)

theorem select_tier_spec_witness:
  "select_tier (the (pe_tiers demo_price)) 1000 = (1, Fin 1, Fin 4)
   \<and> up_to_tokens (the (pe_tiers demo_price) ! 0) \<le> 1000"
proof -
  have s: "select_tier (the (pe_tiers demo_price)) 1000 = (1, Fin 1, Fin 4)"
    by (simp add: select_tier_def demo_price_def)
  have "tiers_valid None (the (pe_tiers demo_price))" "the (pe_tiers demo_price) \<noteq> []"
    by (simp_all add: demo_price_def)
  from select_tier_spec [OF this s] s show ?thesis by simp
qed

definition free_tier_price :: price_entry where
  "free_tier_price = demo_price\<lparr>pe_tiers := Some [\<lparr>up_to_tokens = 5000000, tier_input = Fin 0, tier_output = Fin 0\<rparr>,
       \<lparr>up_to_tokens = 0, tier_input = Fin 2, tier_output = Fin 8\<rparr>]\<rparr>"

text \<open>A free tier is not free: the price validation accepts a tier with both rates 0 and the volume
  selects it, but the amount falls back to the row's own rates, so a million prompt tokens inside the
  free volume are charged two currency units.\<close>
theorem free_tier_is_charged:
  "validate_price (\<lambda>c. True) free_tier_price
   \<and> select_tier (the (pe_tiers free_tier_price)) 0 = (0, Fin 0, Fin 0)
   \<and> compute_amount (demo_group\<lparr>ug_prompt := 1000000\<rparr>) free_tier_price (Fin 0) (Fin 0) = Fin 2"
  by code_simp

section \<open>A charging pass\<close>

lemma charge_group_lines:
  assumes "charge_group cents tid conflict g rec spec d = Inr d'"
  shows "\<exists>cid. usage_lines d' = update_where (charges_line g)
    (\<lambda>l. l\<lparr>ul_charge := Some cid, ul_accrual := 0\<rparr>) (usage_lines d)"
  using assms
proof (cases rule: charge_groupE)
  case (again c)
  then show ?thesis by (auto simp: mark_lines_def)
next
  case (new d2)
  have "usage_lines d2 = usage_lines d" if "apply_deduction cents tid conflict s (d\<lparr>charges := cs\<rparr>) = Inr d2" for s cs
    using that by (cases rule: apply_deductionE)
      (auto simp: update_account_row_def dest!: insert_transactionD)
  then show ?thesis using new by (auto simp: mark_lines_def)
qed

definition covered :: "string \<Rightarrow> int \<Rightarrow> int \<Rightarrow> usage_group list \<Rightarrow> db \<Rightarrow> bool" where
  "covered key ps pe gs d = (\<forall>l\<in>set (usage_lines d). uncharged_in key ps pe l \<longrightarrow> (\<exists>g\<in>set gs. charges_line g l))"

lemma charge_covers:
  assumes "usage_lines d1 = update_where (charges_line g)
      (\<lambda>l. l\<lparr>ul_charge := Some cid, ul_accrual := 0\<rparr>) (usage_lines d)" "covered key ps pe (g # gs) d"
  shows "covered key ps pe gs d1"
  unfolding covered_def
proof (intro ballI impI)
  fix l
  assume l: "l \<in> set (usage_lines d1)" "uncharged_in key ps pe l"
  then obtain l0 where l0: "l0 \<in> set (usage_lines d)"
    "l = (if charges_line g l0 then l0\<lparr>ul_charge := Some cid, ul_accrual := 0\<rparr> else l0)"
    unfolding assms(1) update_where_set by blast
  have n: "\<not> charges_line g l0" using l(2) l0(2) by (cases "charges_line g l0") (simp_all add: uncharged_in_def)
  then have e: "l = l0" using l0(2) by simp
  then have "\<exists>g'\<in>set (g # gs). charges_line g' l" using assms(2) l0(1) l(2) e unfolding covered_def by blast
  then show "\<exists>g\<in>set gs. charges_line g l" using n e by (simp only: list.set bex_simps) simp
qed

lemma price_groups_covers:
  "price_groups env gs account d = (bad, d') \<Longrightarrow> covered key ps pe (extra @ gs) d
   \<Longrightarrow> covered key ps pe (extra @ bad) d'"
proof (induction env gs account d arbitrary: bad extra rule: price_groups.induct)
  case (2 env g gs account d)
  let ?a = "case account of Some a \<Rightarrow> if acct_org a = ug_org g then Some a else find_by_org (ug_org g) d
          | None \<Rightarrow> find_by_org (ug_org g) d"
  show ?case
  proof (cases "charge_usage_group env g ?a d")
    case (Inl e)
    then obtain bad' where b: "price_groups env gs ?a d = (bad', d')" "bad = g # bad'"
      using "2.prems"(1) by (auto simp: Let_def split: prod.splits)
    from "2.IH"(1) [OF refl Inl b(1), of "extra @ [g]"] "2.prems"(2) b(2) show ?thesis by simp
  next
    case (Inr d1)
    then obtain cents tid conflict rec spec where "charge_group cents tid conflict g rec spec d = Inr d1"
      by (auto simp: charge_usage_group_def split: option.splits)
    from charge_group_lines [OF this] obtain cid where l: "usage_lines d1 = update_where (charges_line g)
      (\<lambda>l. l\<lparr>ul_charge := Some cid, ul_accrual := 0\<rparr>) (usage_lines d)" by blast
    have "covered key ps pe (g # extra @ gs) d" using "2.prems"(2) by (auto simp: covered_def)
    then have "covered key ps pe (extra @ gs) d1" by (rule charge_covers [OF l])
    then show ?thesis using "2.IH"(2) [OF refl Inr _] "2.prems"(1) Inr by (simp add: Let_def)
  qed
qed auto

lemma groups_cover: "covered key ps pe (uncharged_groups key ps pe d) d"
proof -
  have "\<exists>g\<in>set (uncharged_groups key ps pe d). charges_line g l"
    if "l \<in> set (usage_lines d)" "uncharged_in key ps pe l" for l
  proof (intro bexI)
    let ?ls = "filter (uncharged_in key ps pe) (usage_lines d)"
    let ?g = "group_of_lines ps pe (group_key l) (filter (\<lambda>l'. group_key l' = group_key l) ?ls)"
    show "?g \<in> set (uncharged_groups key ps pe d)"
      using that by (auto simp: uncharged_groups_def Let_def)
    show "charges_line ?g l"
      using that(2) by (simp add: group_of_lines_def group_key_def charges_line_def uncharged_in_def)
  qed
  then show ?thesis by (simp add: covered_def)
qed

text \<open>A charging pass leaves nothing behind silently: after \<open>PriceOnce\<close> on a key's hour, every line
  of the hour that is still uncharged belongs to a group whose charge failed and will be retried; with
  no failure the hour is fully charged.\<close>
theorem price_once_complete:
  assumes "price_once env key period_start d = (bad, d')"
    "l \<in> set (usage_lines d')" "uncharged_in key period_start (period_start + 3600) l"
  shows "\<exists>g\<in>set bad. charges_line g l"
proof -
  have "covered key period_start (period_start + 3600)
      ([] @ uncharged_groups key period_start (period_start + 3600) d) d"
    using groups_cover by simp
  then have "covered key period_start (period_start + 3600) ([] @ bad) d'"
    using assms(1) unfolding price_once_def by (rule price_groups_covers [rotated])
  then show ?thesis using assms(2,3) by (simp add: covered_def)
qed

definition demo_env_pass :: pass_env where
  "demo_env_pass = \<lparr>env_cents = demo_cents, env_model_name = (\<lambda>m. []), env_month_start = (\<lambda>t. 0),
     env_currency = ''CNY'', env_prices = [demo_price\<lparr>pe_tiers := None\<rparr>], env_charge_id = (\<lambda>g. ''c''),
     env_tx_id = (\<lambda>g. ''t''), env_conflict = (\<lambda>g. False)\<rparr>"

theorem price_once_complete_witness:
  "\<exists>g\<in>set (fst (price_once demo_env_pass ''k'' 3600 (empty_db\<lparr>usage_lines := [demo_line ''r'']\<rparr>))).
     charges_line g (demo_line ''r'')"
proof -
  have "map ul_charge (usage_lines (snd (price_once demo_env_pass ''k'' 3600 (empty_db\<lparr>usage_lines := [demo_line ''r'']\<rparr>)))) = [None]"
    "usage_lines (snd (price_once demo_env_pass ''k'' 3600 (empty_db\<lparr>usage_lines := [demo_line ''r'']\<rparr>))) = [demo_line ''r'']"
    by code_simp+
  then show ?thesis
    by (intro price_once_complete [OF prod.collapse [symmetric]])
      (simp_all add: uncharged_in_def demo_line_def)
qed

end
