(* ===== verification/FundsGate.thy ===== *)
theory FundsGate
  imports FundsHolds Pricing
begin

text \<open>
  The funds gate (\<open>services/billing/account_service.go\<close>): the account rule, the three spend tiers that
  tighten it, the ceilings an admission must fit, and the admission that reserves against all of them
  through the reserver interface.  \<open>gate_env\<close> is what the gate reads besides the ledger: the
  configuration, the tenancy limits (\<open>None\<close> is a failed read) and which reads of the ledger fail.
\<close>

record funds_query =
  fq_org :: string
  fq_owner :: string
  fq_project :: string
  fq_request :: string
  fq_model :: string
  fq_max_tokens :: int

record funds_evaluation =
  fe_account :: "account option"
  fe_allowed :: bool
  fe_reason :: string
  fe_accrued :: int
  fe_holds :: int
  fe_limit :: int
  fe_owner_spent :: int
  fe_project_spent :: int
  fe_scoped_spent :: int
  fe_member_spent :: int
  fe_bounds :: "funds_bound list"

record gate_env =
  ge_enforce_default :: bool
  ge_reservation :: bool
  ge_default_output_tokens :: int
  ge_limits :: bool
  ge_user_limit :: "string \<Rightarrow> string \<Rightarrow> int option"
  ge_project_limit :: "string \<Rightarrow> int option"
  ge_member_limit :: "string \<Rightarrow> string \<Rightarrow> int option"
  ge_spent_ok :: "string \<Rightarrow> string \<Rightarrow> bool"
  ge_accrual_ok :: "string \<Rightarrow> string \<Rightarrow> bool"
  ge_cents :: "f64 list \<Rightarrow> int"
  ge_model_name :: "string \<Rightarrow> string"
  ge_prices :: "price_entry list"
  ge_now :: int

section \<open>The account rule\<close>

definition funds_allowed :: "account \<Rightarrow> int \<Rightarrow> bool \<times> string" where
  "funds_allowed a accrued =
     (if 0 < monthly_spend_limit_cents a
         \<and> cents_to_micros (monthly_spend_limit_cents a)
           \<le> wrap64 (cents_to_micros (spent_this_cycle_cents a) + accrued)
      then (False, ''insufficient_funds'')
      else if acct_mode a = ''prepaid'' then
        (if wrap64 (cents_to_micros (balance_cents a) - accrued) \<le> 0
         then (False, ''insufficient_funds'') else (True, []))
      else if 0 < monthly_quota_cents a
         \<and> cents_to_micros (monthly_quota_cents a)
           \<le> wrap64 (cents_to_micros (used_this_cycle_cents a) + accrued)
         \<and> overdraw_policy a = ''block''
      then (False, ''insufficient_funds'')
      else (True, []))"

definition account_ceiling_micros :: "account \<Rightarrow> int" where
  "account_ceiling_micros a =
     (let ceiling = (if acct_mode a = ''prepaid'' then cents_to_micros (balance_cents a)
            else if 0 < monthly_quota_cents a
              then cents_to_micros (wrap64 (monthly_quota_cents a - used_this_cycle_cents a))
            else max_int64);
          remaining = cents_to_micros (wrap64 (monthly_spend_limit_cents a - spent_this_cycle_cents a))
      in if 0 < monthly_spend_limit_cents a \<and> remaining < ceiling then remaining else ceiling)"

definition min_non_zero_limit :: "int \<Rightarrow> int \<Rightarrow> int" where
  "min_non_zero_limit a b = (if a = 0 then b else if b = 0 then a else if a < b then a else b)"

definition scoped_spend_reached :: "int \<Rightarrow> int \<Rightarrow> int \<Rightarrow> bool" where
  "scoped_spend_reached spent accrued limit =
     (if limit \<le> 0 then False
      else cents_to_micros limit \<le> wrap64 (cents_to_micros spent + accrued))"

definition scope_bound :: "string \<Rightarrow> int \<Rightarrow> int \<Rightarrow> int \<Rightarrow> funds_bound option" where
  "scope_bound sc limit spent accrued =
     (if limit \<le> 0 then None
      else Some \<lparr>scope = sc, available_micros = wrap64 (cents_to_micros (wrap64 (limit - spent)) - accrued)\<rparr>)"

section \<open>Evaluation\<close>

definition scoped_accrual :: "gate_env \<Rightarrow> db \<Rightarrow> string \<Rightarrow> int \<Rightarrow> string \<Rightarrow> string \<Rightarrow> int" where
  "scoped_accrual env d org since owner project =
     (if ge_accrual_ok env owner project then accrual_micros org since owner project d else 0)"

text \<open>One spend tier, its limit read: the tightened evaluation and the tier's spend.\<close>

definition apply_tier ::
  "gate_env \<Rightarrow> db \<Rightarrow> string \<Rightarrow> int \<Rightarrow> string \<Rightarrow> string \<Rightarrow> string \<Rightarrow> int \<Rightarrow> funds_evaluation
   \<Rightarrow> funds_evaluation \<times> int" where
  "apply_tier env d org since sc owner project limit e =
     (let e1 = e\<lparr>fe_limit := min_non_zero_limit (fe_limit e) limit\<rparr>;
          accrued = scoped_accrual env d org since owner project
      in if \<not> ge_spent_ok env owner project then (e1, 0)
         else
           (let spent = scoped_spent_cents (ge_cents env) org since owner project d in
            if scoped_spend_reached spent accrued limit
            then (e1\<lparr>fe_allowed := False, fe_reason := ''insufficient_funds''\<rparr>, spent)
            else (case scope_bound sc limit spent accrued of
                    None \<Rightarrow> (e1, spent)
                  | Some b \<Rightarrow> (e1\<lparr>fe_bounds := fe_bounds e1 @ [b]\<rparr>, spent))))"

definition owner_tier :: "gate_env \<Rightarrow> db \<Rightarrow> string \<Rightarrow> int \<Rightarrow> string \<Rightarrow> funds_evaluation \<Rightarrow> funds_evaluation" where
  "owner_tier env d org since owner e =
     (if owner = [] then e
      else case ge_user_limit env org owner of
        None \<Rightarrow> e
      | Some limit \<Rightarrow>
          (case apply_tier env d org since (user_scope owner) owner [] limit e of
             (e1, spent) \<Rightarrow> e1\<lparr>fe_owner_spent := spent, fe_scoped_spent := spent\<rparr>))"

definition project_tier ::
  "gate_env \<Rightarrow> db \<Rightarrow> string \<Rightarrow> int \<Rightarrow> string \<Rightarrow> string \<Rightarrow> funds_evaluation \<Rightarrow> funds_evaluation" where
  "project_tier env d org since owner project e =
     (if project = [] then e
      else case ge_project_limit env project of
        None \<Rightarrow> e
      | Some limit \<Rightarrow>
          (case apply_tier env d org since (project_scope project) [] project limit e of
             (e1, spent) \<Rightarrow> e1\<lparr>fe_project_spent := spent,
               fe_scoped_spent := (if owner = [] then spent else fe_scoped_spent e1)\<rparr>))"

definition member_tier ::
  "gate_env \<Rightarrow> db \<Rightarrow> string \<Rightarrow> int \<Rightarrow> string \<Rightarrow> string \<Rightarrow> funds_evaluation \<Rightarrow> funds_evaluation" where
  "member_tier env d org since owner project e =
     (if owner = [] \<or> project = [] then e
      else case ge_member_limit env project owner of
        None \<Rightarrow> e
      | Some limit \<Rightarrow>
          (case apply_tier env d org since (project_member_scope project owner) owner project limit e of
             (e1, spent) \<Rightarrow> e1\<lparr>fe_member_spent := spent\<rparr>))"

definition evaluate_funds :: "gate_env \<Rightarrow> funds_query \<Rightarrow> int \<Rightarrow> db \<Rightarrow> funds_evaluation" where
  "evaluate_funds env q holds_micros d =
     (let org = trim_space (fq_org q);
          base = \<lparr>fe_account = None, fe_allowed = False, fe_reason = [], fe_accrued = 0, fe_holds = 0,
            fe_limit = 0, fe_owner_spent = 0, fe_project_spent = 0, fe_scoped_spent = 0,
            fe_member_spent = 0, fe_bounds = []\<rparr>
      in case find_by_org org d of
           None \<Rightarrow> if ge_enforce_default env then base\<lparr>fe_reason := ''no_billing_account''\<rparr>
                   else base\<lparr>fe_allowed := True\<rparr>
         | Some a \<Rightarrow>
             (let accrued = scoped_accrual env d org (cycle_started_at a) [] [];
                  (ok, why) = funds_allowed a (wrap64 (accrued + holds_micros));
                  e = base\<lparr>fe_account := Some a, fe_accrued := accrued, fe_holds := holds_micros,
                    fe_allowed := ok, fe_reason := why,
                    fe_bounds := [\<lparr>scope = scope_organization, available_micros =
                        wrap64 (wrap64 (account_ceiling_micros a - accrued) - holds_micros)\<rparr>],
                    fe_limit := monthly_spend_limit_cents a,
                    fe_scoped_spent := spent_this_cycle_cents a\<rparr>;
                  owner = trim_space (fq_owner q);
                  project = trim_space (fq_project q);
                  since = cycle_started_at a
              in if \<not> ge_limits env then e
                 else member_tier env d org since owner project
                   (project_tier env d org since owner project (owner_tier env d org since owner e))))"

section \<open>Admission\<close>

definition reservable_bounds :: "funds_evaluation \<Rightarrow> funds_bound list" where
  "reservable_bounds e = filter (\<lambda>b. 0 < available_micros b) (fe_bounds e)"

definition reserve_micros :: "gate_env \<Rightarrow> string \<Rightarrow> int \<Rightarrow> int" where
  "reserve_micros env mdl0 max_output_tokens =
     (let mdl = trim_space mdl0;
          tokens = (if max_output_tokens \<le> 0 then ge_default_output_tokens env else max_output_tokens)
      in if mdl = [] then 0
         else if tokens \<le> 0 then 0
         else estimate_accrual_micros
           (case resolve_price_entry (ge_model_name env) mdl default_card_type (ge_now env) (ge_prices env) of
              Some e \<Rightarrow> Some e
            | None \<Rightarrow> worst_case_price mdl (ge_now env) (ge_prices env)) 0 tokens 0)"

text \<open>\<open>rsv\<close> is the reserver's \<open>Reserve\<close>: \<open>None\<close> is an error, the boolean its answer.\<close>

definition evaluate_admission ::
  "gate_env \<Rightarrow> (string \<Rightarrow> string \<Rightarrow> int \<Rightarrow> funds_bound list \<Rightarrow> 's \<Rightarrow> bool option \<times> 's)
   \<Rightarrow> funds_query \<Rightarrow> db \<Rightarrow> 's \<Rightarrow> (bool \<times> string) \<times> 's" where
  "evaluate_admission env rsv q d s =
     (if trim_space (fq_org q) = [] then ((True, []), s)
      else
        (let e = evaluate_funds env q 0 d in
         if \<not> fe_allowed e then ((False, fe_reason e), s)
         else if fe_account e = None \<or> trim_space (fq_request q) = [] \<or> \<not> ge_reservation env
           then ((True, []), s)
         else
           (let need = reserve_micros env (fq_model q) (fq_max_tokens q) in
            if need \<le> 0 then ((True, []), s)
            else
              (let bounds = reservable_bounds e in
               if bounds = [] then ((True, []), s)
               else (case rsv (fq_org q) (fq_request q) need bounds s of
                       (None, s') \<Rightarrow> ((True, []), s')
                     | (Some ok, s') \<Rightarrow>
                         if ok then ((True, []), s') else ((False, ''insufficient_funds''), s'))))))"

text \<open>\<open>enabled\<close> is whether reservations are switched on and a reserver is wired.\<close>

definition release_hold ::
  "bool \<Rightarrow> (string \<Rightarrow> string \<Rightarrow> 's \<Rightarrow> int option \<times> 's) \<Rightarrow> string \<Rightarrow> string \<Rightarrow> 's \<Rightarrow> 's" where
  "release_hold enabled rel org request s =
     (if trim_space org = [] \<or> trim_space request = [] \<or> \<not> enabled then s
      else snd (rel org request s))"

lemma apply_tier_account [simp]: "fe_account (fst (apply_tier env d org since sc owner project limit e)) = fe_account e"
  by (simp add: apply_tier_def Let_def split: option.splits)

lemma tiers_account [simp]:
  "fe_account (owner_tier env d org since owner e) = fe_account e"
  "fe_account (project_tier env d org since owner project e) = fe_account e"
  "fe_account (member_tier env d org since owner project e) = fe_account e"
  by (simp_all add: owner_tier_def project_tier_def member_tier_def split_beta split: option.splits)

lemma fe_account_some:
  "fe_account (evaluate_funds env q holds_micros d) = None \<Longrightarrow> fe_bounds (evaluate_funds env q holds_micros d) = []"
  by (auto simp: evaluate_funds_def Let_def split: option.splits prod.splits if_splits)

section \<open>The reserver interface\<close>

text \<open>
  What the gate relies on: \<open>held\<close> is the money a scope holds, \<open>inv\<close> the reserver's own invariant.  An
  admission that is accepted leaves no named scope above the ceiling it was given; an admission that
  is refused or fails raises nothing.
\<close>

locale funds_reserver =
  fixes rsv :: "string \<Rightarrow> string \<Rightarrow> int \<Rightarrow> funds_bound list \<Rightarrow> 's \<Rightarrow> bool option \<times> 's"
    and held :: "string \<Rightarrow> string \<Rightarrow> 's \<Rightarrow> int" and inv :: "'s \<Rightarrow> bool"
  assumes accepted: "inv s \<Longrightarrow> 0 \<le> need \<Longrightarrow> plain_scopes bounds
      \<Longrightarrow> rsv org rid need bounds s = (Some True, s') \<Longrightarrow> b \<in> set bounds
      \<Longrightarrow> held org (scope b) s' \<le> available_micros b"
    and not_accepted: "inv s \<Longrightarrow> rsv org rid need bounds s = (r, s') \<Longrightarrow> r \<noteq> Some True
      \<Longrightarrow> held org sc s' \<le> held org sc s"
begin

lemma admission_fits:
  assumes "inv s" "plain_scopes (fe_bounds (evaluate_funds env q 0 d))"
    "trim_space (fq_org q) \<noteq> []" "trim_space (fq_request q) \<noteq> []" "ge_reservation env"
    "0 < reserve_micros env (fq_model q) (fq_max_tokens q)"
    "b \<in> set (reservable_bounds (evaluate_funds env q 0 d))"
    "fst (rsv (fq_org q) (fq_request q) (reserve_micros env (fq_model q) (fq_max_tokens q))
       (reservable_bounds (evaluate_funds env q 0 d)) s) \<noteq> None"
    "evaluate_admission env rsv q d s = ((True, why), s')"
  shows "held (fq_org q) (scope b) s' \<le> available_micros b"
proof -
  let ?bs = "reservable_bounds (evaluate_funds env q 0 d)"
  let ?n = "reserve_micros env (fq_model q) (fq_max_tokens q)"
  have p: "plain_scopes ?bs" using assms(2) by (simp add: plain_scopes_def reservable_bounds_def)
  have "fe_account (evaluate_funds env q 0 d) \<noteq> None"
  proof
    assume "fe_account (evaluate_funds env q 0 d) = None"
    then show False using assms(7) fe_account_some by (simp add: reservable_bounds_def)
  qed
  then have r: "rsv (fq_org q) (fq_request q) ?n ?bs s = (Some True, s')"
    using assms(3-9)
    by (auto simp: evaluate_admission_def Let_def split: if_splits option.splits prod.splits)
  have n: "0 \<le> ?n" using assms(6) by simp
  from accepted [OF assms(1) n p r assms(7)] show ?thesis .
qed

lemma refusal_holds_nothing:
  assumes "inv s" "evaluate_admission env rsv q d s = ((False, why), s')"
  shows "held (fq_org q) sc s' \<le> held (fq_org q) sc s"
  using assms(2) not_accepted [OF assms(1)]
  by (auto simp: evaluate_admission_def Let_def split: if_splits option.splits prod.splits)

end

section \<open>The gate on the Redis reserver\<close>

text \<open>Every organization's holds; \<open>up\<close> is whether Redis answers.\<close>

definition redis_reserve ::
  "int \<Rightarrow> int \<Rightarrow> bool \<Rightarrow> string \<Rightarrow> string \<Rightarrow> int \<Rightarrow> funds_bound list \<Rightarrow> (string \<Rightarrow> org_holds)
   \<Rightarrow> bool option \<times> (string \<Rightarrow> org_holds)" where
  "redis_reserve ttl now up org rid need bounds s =
     (if up then (case reserve ttl now rid need bounds (s org) of (ok, h) \<Rightarrow> (Some ok, s(org := h)))
      else (None, s))"

definition redis_release ::
  "int \<Rightarrow> bool \<Rightarrow> string \<Rightarrow> string \<Rightarrow> (string \<Rightarrow> org_holds) \<Rightarrow> int option \<times> (string \<Rightarrow> org_holds)" where
  "redis_release now up org rid s =
     (if up then (case release now rid (s org) of (freed, h) \<Rightarrow> (Some freed, s(org := h))) else (None, s))"

lemma reserve_within:
  assumes "holds_ok h" "0 \<le> need" "plain_scopes bounds" "reserve ttl now rid need bounds h = (True, h')"
    "b \<in> set bounds"
  shows "used (scope b) h' \<le> available_micros b"
proof -
  let ?s = "sweep now (keys_at now h)"
  have ok: "holds_ok ?s" using assms(1) by (simp add: sweep_ok keys_at_ok)
  have plain: "hold_sep \<notin> set (scope b)" using assms(3,5) by (simp add: plain_scopes_def)
  have fit: "used (scope b) ?s - own rid (scope b) ?s + need \<le> available_micros b"
    using assms(4,5) by (auto simp: reserve_def Let_def bounds_fit_def list_all_iff not_less split: if_splits)
  have h': "h' = (fold (take_hold rid need (now + ttl)) bounds ?s)\<lparr>keys_die := now + ttl * 10\<rparr>"
    using assms(4) by (auto simp: reserve_def Let_def split: if_splits)
  show ?thesis using take_holds(3) [OF assms(2) ok assms(3) plain] fit assms(5) by (simp add: h')
qed

lemma reserve_refused:
  assumes "holds_ok h" "reserve ttl now rid need bounds h = (False, h')"
  shows "used sc h' \<le> used sc h"
  using assms swept_used by (auto simp: reserve_def Let_def split: if_splits)

interpretation redis: funds_reserver "redis_reserve ttl now up" "\<lambda>org sc s. used sc (s org)"
    "\<lambda>s. \<forall>org. holds_ok (s org)" for ttl now up
  by unfold_locales
    (auto simp: redis_reserve_def intro: reserve_within reserve_refused split: if_splits prod.splits)

text \<open>C3. An admission that reserves cannot overspend: when the gate admits a request on a live reserver,
  the money held in every scope that constrained it (organization, person, project, member) is within
  that scope's ceiling, which already has the recorded but uncharged spend taken out.\<close>
theorem admission_within_ceilings:
  assumes "\<forall>org. holds_ok (s org)" "plain_scopes (fe_bounds (evaluate_funds env q 0 d))"
    "trim_space (fq_org q) \<noteq> []" "trim_space (fq_request q) \<noteq> []" "ge_reservation env"
    "0 < reserve_micros env (fq_model q) (fq_max_tokens q)"
    "b \<in> set (reservable_bounds (evaluate_funds env q 0 d))"
    "evaluate_admission env (redis_reserve ttl now True) q d s = ((True, why), s')"
  shows "used (scope b) (s' (fq_org q)) \<le> available_micros b"
  by (rule redis.admission_fits [OF assms(1-7) _ assms(8)])
    (simp add: redis_reserve_def split_beta)

text \<open>A refused request holds nothing: whatever tier refuses it, no scope of its organization holds
  more than before.\<close>
theorem refused_admission_holds_nothing:
  assumes "\<forall>org. holds_ok (s org)"
    "evaluate_admission env (redis_reserve ttl now up) q d s = ((False, why), s')"
  shows "used sc (s' (fq_org q)) \<le> used sc (s (fq_org q))"
  by (rule redis.refusal_holds_nothing [OF assms])

section \<open>The account rule and its ceiling\<close>

text \<open>Amounts for which no 64-bit product or difference of the rule wraps.\<close>

definition gate_bounds :: "account \<Rightarrow> int \<Rightarrow> bool" where
  "gate_bounds a accrued = (0 \<le> accrued \<and> accrued \<le> 2 ^ 60 \<and>
     (\<forall>x\<in>set [balance_cents a, monthly_quota_cents a, used_this_cycle_cents a,
        monthly_spend_limit_cents a, spent_this_cycle_cents a]. - (2 ^ 46) \<le> x \<and> x \<le> 2 ^ 46))"

lemma micros_small: "- (2 ^ 47) \<le> c \<Longrightarrow> c \<le> 2 ^ 47 \<Longrightarrow> cents_to_micros c = c * 10000"
  unfolding cents_to_micros_def by (rule wrap64_id) (simp add: in_int64_def)

lemma wrap64_small: "- (2 ^ 62) \<le> x \<Longrightarrow> x \<le> 2 ^ 62 \<Longrightarrow> wrap64 x = x"
  by (rule wrap64_id) (simp add: in_int64_def)

text \<open>The two forms of the account rule agree: except under the postpaid "warn" policy, an account
  is allowed exactly when its ceiling minus the in-flight spend is positive, so an admitted request
  always has an organization bound to reserve against.\<close>
theorem funds_allowed_iff_ceiling:
  assumes "gate_bounds a accrued" "acct_mode a = ''prepaid'' \<or> overdraw_policy a = ''block''"
  shows "fst (funds_allowed a accrued) \<longleftrightarrow> 0 < wrap64 (account_ceiling_micros a - accrued)"
proof -
  have b: "0 \<le> accrued" "accrued \<le> 2 ^ 60"
    "- (2 ^ 46) \<le> balance_cents a" "balance_cents a \<le> 2 ^ 46"
    "- (2 ^ 46) \<le> monthly_quota_cents a" "monthly_quota_cents a \<le> 2 ^ 46"
    "- (2 ^ 46) \<le> used_this_cycle_cents a" "used_this_cycle_cents a \<le> 2 ^ 46"
    "- (2 ^ 46) \<le> monthly_spend_limit_cents a" "monthly_spend_limit_cents a \<le> 2 ^ 46"
    "- (2 ^ 46) \<le> spent_this_cycle_cents a" "spent_this_cycle_cents a \<le> 2 ^ 46"
    using assms(1) by (simp_all add: gate_bounds_def)
  have m: "cents_to_micros (balance_cents a) = balance_cents a * 10000"
    "cents_to_micros (monthly_quota_cents a) = monthly_quota_cents a * 10000"
    "cents_to_micros (used_this_cycle_cents a) = used_this_cycle_cents a * 10000"
    "cents_to_micros (monthly_spend_limit_cents a) = monthly_spend_limit_cents a * 10000"
    "cents_to_micros (spent_this_cycle_cents a) = spent_this_cycle_cents a * 10000"
    "cents_to_micros (wrap64 (monthly_quota_cents a - used_this_cycle_cents a))
      = (monthly_quota_cents a - used_this_cycle_cents a) * 10000"
    "cents_to_micros (wrap64 (monthly_spend_limit_cents a - spent_this_cycle_cents a))
      = (monthly_spend_limit_cents a - spent_this_cycle_cents a) * 10000"
    using b by (simp_all add: micros_small wrap64_small)
  define C where "C = (if acct_mode a = ''prepaid'' then balance_cents a * 10000
    else if 0 < monthly_quota_cents a then (monthly_quota_cents a - used_this_cycle_cents a) * 10000
    else max_int64)"
  define D where "D = (if 0 < monthly_spend_limit_cents a
      \<and> (monthly_spend_limit_cents a - spent_this_cycle_cents a) * 10000 < C
    then (monthly_spend_limit_cents a - spent_this_cycle_cents a) * 10000 else C)"
  have ceiling: "account_ceiling_micros a = D"
    unfolding account_ceiling_micros_def Let_def m D_def C_def by (rule refl)
  have C: "- (2 ^ 62) \<le> C" "C \<le> max_int64" using b by (auto simp: C_def max_int64_def)
  have D: "- (2 ^ 62) \<le> D" "D \<le> max_int64" using b C by (auto simp: D_def max_int64_def)
  have wd: "wrap64 (D - accrued) = D - accrued"
    using D b(1,2) by (intro wrap64_id) (simp add: in_int64_def max_int64_def)
  have w: "wrap64 (balance_cents a * 10000 - accrued) = balance_cents a * 10000 - accrued"
    "wrap64 (used_this_cycle_cents a * 10000 + accrued) = used_this_cycle_cents a * 10000 + accrued"
    "wrap64 (spent_this_cycle_cents a * 10000 + accrued) = spent_this_cycle_cents a * 10000 + accrued"
    using b by (simp_all add: wrap64_small)
  have allowed: "fst (funds_allowed a accrued) \<longleftrightarrow>
      \<not> (0 < monthly_spend_limit_cents a
         \<and> monthly_spend_limit_cents a * 10000 \<le> spent_this_cycle_cents a * 10000 + accrued)
      \<and> (if acct_mode a = ''prepaid'' then accrued < balance_cents a * 10000
         else \<not> (0 < monthly_quota_cents a
           \<and> monthly_quota_cents a * 10000 \<le> used_this_cycle_cents a * 10000 + accrued))"
    unfolding funds_allowed_def m w using assms(2) by auto
  have limit: "0 < D - accrued \<longleftrightarrow> accrued < C \<and> (0 < monthly_spend_limit_cents a
      \<longrightarrow> accrued < (monthly_spend_limit_cents a - spent_this_cycle_cents a) * 10000)"
    by (auto simp: D_def)
  have "accrued < max_int64" using b(2) by (simp add: max_int64_def)
  then show ?thesis unfolding ceiling wd allowed limit C_def by auto
qed

definition demo_gate :: gate_env where
  "demo_gate = \<lparr>ge_enforce_default = False, ge_reservation = True, ge_default_output_tokens = 0,
     ge_limits = False, ge_user_limit = (\<lambda>g u. None), ge_project_limit = (\<lambda>p. None),
     ge_member_limit = (\<lambda>p u. None), ge_spent_ok = (\<lambda>g p. True), ge_accrual_ok = (\<lambda>g p. True),
     ge_cents = demo_cents, ge_model_name = (\<lambda>m. []), ge_prices = [demo_price], ge_now = 10\<rparr>"

definition demo_query :: "int \<Rightarrow> funds_query" where
  "demo_query tokens = \<lparr>fq_org = ''o'', fq_owner = [], fq_project = [], fq_request = ''r'',
     fq_model = ''m'', fq_max_tokens = tokens\<rparr>"

definition no_org_holds :: "string \<Rightarrow> org_holds" where
  "no_org_holds = (\<lambda>org. no_holds)"

lemma demo_gate_facts:
  "reserve_micros demo_gate ''m'' 500000 = 4500000"
  "reservable_bounds (evaluate_funds demo_gate (demo_query 500000) 0 demo_open) = [\<lparr>scope = [], available_micros = 5000000\<rparr>]"
  "fe_bounds (evaluate_funds demo_gate (demo_query 500000) 0 demo_open) = [\<lparr>scope = [], available_micros = 5000000\<rparr>]"
  "fst (evaluate_admission demo_gate (redis_reserve 600000 1 True) (demo_query 500000) demo_open no_org_holds) = (True, [])"
  "fst (evaluate_admission demo_gate (redis_reserve 600000 1 True) (demo_query 1000000) demo_open no_org_holds)
    = (False, ''insufficient_funds'')"
  by code_simp+

lemma no_org_holds_ok: "\<forall>org. holds_ok (no_org_holds org)"
  by (simp add: no_org_holds_def)

theorem admission_within_ceilings_witness:
  "\<exists>why s'. evaluate_admission demo_gate (redis_reserve 600000 1 True) (demo_query 500000) demo_open no_org_holds
      = ((True, why), s') \<and> used [] (s' ''o'') \<le> 5000000"
proof -
  obtain why s' where e: "evaluate_admission demo_gate (redis_reserve 600000 1 True) (demo_query 500000) demo_open
      no_org_holds = ((True, why), s')"
    using demo_gate_facts(4)
    by (cases "evaluate_admission demo_gate (redis_reserve 600000 1 True) (demo_query 500000) demo_open no_org_holds") auto
  have "used (scope \<lparr>scope = [], available_micros = 5000000\<rparr>) (s' (fq_org (demo_query 500000)))
      \<le> available_micros \<lparr>scope = [], available_micros = 5000000\<rparr>"
    by (rule admission_within_ceilings [OF no_org_holds_ok _ _ _ _ _ _ e])
      (use demo_gate_facts in \<open>simp_all add: plain_scopes_def demo_query_def demo_gate_def trim_space_def
        trim_right_def is_space_def\<close>)
  then show ?thesis using e by (simp add: demo_query_def)
qed

theorem refused_admission_holds_nothing_witness:
  "\<exists>why s'. evaluate_admission demo_gate (redis_reserve 600000 1 True) (demo_query 1000000) demo_open no_org_holds
      = ((False, why), s') \<and> used [] (s' ''o'') \<le> 0"
proof -
  obtain why s' where e: "evaluate_admission demo_gate (redis_reserve 600000 1 True) (demo_query 1000000) demo_open
      no_org_holds = ((False, why), s')"
    using demo_gate_facts(5)
    by (cases "evaluate_admission demo_gate (redis_reserve 600000 1 True) (demo_query 1000000) demo_open no_org_holds") auto
  from refused_admission_holds_nothing [OF no_org_holds_ok e, of "[]"] e show ?thesis
    by (simp add: demo_query_def no_org_holds_def)
qed

theorem funds_allowed_iff_ceiling_witness:
  "fst (funds_allowed (demo_account\<lparr>balance_cents := 500\<rparr>) 4999999)
   \<and> 0 < wrap64 (account_ceiling_micros (demo_account\<lparr>balance_cents := 500\<rparr>) - 4999999)"
proof -
  have "gate_bounds (demo_account\<lparr>balance_cents := 500\<rparr>) 4999999"
    "acct_mode (demo_account\<lparr>balance_cents := 500\<rparr>) = ''prepaid''"
    by (simp_all add: gate_bounds_def demo_account_def)
  moreover have "fst (funds_allowed (demo_account\<lparr>balance_cents := 500\<rparr>) 4999999)" by code_simp
  ultimately show ?thesis using funds_allowed_iff_ceiling by blast
qed

section \<open>Two gaps of the reservation\<close>

definition warn_db :: db where
  "warn_db = empty_db\<lparr>accounts := [demo_account\<lparr>acct_mode := ''postpaid'', monthly_quota_cents := 100,
     used_this_cycle_cents := 99, overdraw_policy := ''warn''\<rparr>]\<rparr>"

text \<open>The "warn" policy blocks at the edge of the quota: a postpaid account that only warns is
  allowed by the account rule with one cent of quota left, and would be allowed past it, but an
  admission whose worst case exceeds that cent is refused for insufficient funds.\<close>
theorem warn_policy_blocks_at_quota_edge:
  "fe_allowed (evaluate_funds demo_gate (demo_query 500000) 0 warn_db)
   \<and> fst (evaluate_admission demo_gate (redis_reserve 600000 1 True) (demo_query 500000) warn_db no_org_holds)
     = (False, ''insufficient_funds'')
   \<and> fst (evaluate_admission demo_gate (redis_reserve 600000 1 True) (demo_query 500000)
        (warn_db\<lparr>accounts := map (\<lambda>a. a\<lparr>used_this_cycle_cents := 150\<rparr>) (accounts warn_db)\<rparr>) no_org_holds)
     = (True, [])"
  by code_simp

definition card_prices :: "price_entry list" where
  "card_prices =
     [demo_price\<lparr>pe_id := ''slow'', pe_card := ''a10'', pe_input := Fin 10, pe_output := Fin 1, pe_tiers := Some []\<rparr>,
      demo_price\<lparr>pe_id := ''fast'', pe_card := ''h100'', pe_input := Fin 1, pe_output := Fin 100, pe_tiers := Some []\<rparr>]"

text \<open>The worst-case hold is not a worst case: the row is chosen by its input rate but the hold prices
  output, so a model priced on two cards holds one currency unit for a million output tokens that the
  dearer card bills at a hundred.\<close>
theorem worst_case_hold_underestimates:
  "reserve_micros (demo_gate\<lparr>ge_prices := card_prices\<rparr>) ''m'' 1000000 = 1000000
   \<and> resolve_price_entry (\<lambda>m. []) ''m'' ''h100'' 10 card_prices = Some (card_prices ! 1)
   \<and> amount_micros (compute_amount (demo_group\<lparr>ug_card := ''h100'', ug_prompt := 0, ug_completion := 1000000\<rparr>)
        (card_prices ! 1) (Fin 0) (Fin 0)) = 100000000"
  by code_simp

end
