(* ===== verification/GoJson.thy ===== *)
theory GoJson
  imports GatewayJson
begin

text \<open>
  Package \<open>encoding/json\<close> as the server uses it: \<open>json.Marshal\<close> of strings and integers, and
  \<open>json.Unmarshal\<close> into a struct of string, integer and nested struct fields.  The plugin writes and reads
  its JSON by hand (\<open>GatewayJson\<close>); here is the other end of that wire, so that the theorems about the
  wire are about both ends.

  The decoder follows the package: RFC 8259 syntax with its nesting limit, the text of a number kept and
  converted by \<open>strconv.ParseInt\<close>, members matched to fields by exact name and then ignoring case,
  unknown members skipped, \<open>null\<close> leaving a field alone, later members overwriting earlier ones, and a
  value of the wrong type failing the whole call.  Strings are byte strings: bytes above 127 pass
  unchanged, as the package does with valid UTF-8, and case is ignored for ASCII letters.
\<close>

section \<open>Syntax\<close>

datatype jtree = TNull | TBool bool | TNum string | TStr string | TArr "jtree list"
  | TObj "(string \<times> jtree) list"

definition hex_val :: "char \<Rightarrow> nat option" where
  "hex_val c =
     (if is_digit c then Some (byte c - 48)
      else if 97 \<le> byte c \<and> byte c \<le> 102 then Some (byte c - 87)
      else if 65 \<le> byte c \<and> byte c \<le> 70 then Some (byte c - 55)
      else None)"

definition hex4 :: "string \<Rightarrow> nat option" where
  "hex4 s =
     (case map hex_val (take 4 s) of
        [Some a, Some b, Some c, Some d] \<Rightarrow> Some (((a * 16 + b) * 16 + c) * 16 + d)
      | _ \<Rightarrow> None)"

text \<open>\<open>utf8.AppendRune\<close>; a lone surrogate is written as the replacement character.\<close>

definition utf8 :: "nat \<Rightarrow> string" where
  "utf8 r =
     (if r < 128 then [char_of r]
      else if r < 2048 then [char_of (192 + r div 64), char_of (128 + r mod 64)]
      else if 55296 \<le> r \<and> r < 57344 \<or> 1114111 < r then [CHR 0xEF, CHR 0xBF, CHR 0xBD]
      else if r < 65536 then
        [char_of (224 + r div 4096), char_of (128 + r div 64 mod 64), char_of (128 + r mod 64)]
      else [char_of (240 + r div 262144), char_of (128 + r div 4096 mod 64),
            char_of (128 + r div 64 mod 64), char_of (128 + r mod 64)])"

text \<open>The rune of a \<open>\u\<close> escape and what follows it: a surrogate pair is two escapes.\<close>

definition read_rune :: "string \<Rightarrow> (string \<times> string) option" where
  "read_rune s =
     (case hex4 s of
        None \<Rightarrow> None
      | Some r \<Rightarrow>
          let t = drop 4 s in
          if 55296 \<le> r \<and> r < 56320 \<and> has_prefix t [CHR 0x5C, CHR ''u''] then
            (case hex4 (drop 2 t) of
               Some q \<Rightarrow>
                 if 56320 \<le> q \<and> q < 57344
                 then Some (utf8 (65536 + (r - 55296) * 1024 + (q - 56320)), drop 6 t)
                 else Some (utf8 r, t)
             | None \<Rightarrow> Some (utf8 r, t))
          else Some (utf8 r, t))"

lemma read_rune_shrinks: "read_rune s = Some (x, t) \<Longrightarrow> length t \<le> length s"
  by (auto simp: read_rune_def Let_def split: option.splits if_splits)

function go_chars :: "string \<Rightarrow> (string \<times> string) option" where
  "go_chars [] = None"
| "go_chars (c # s) =
     (if c = CHR ''\"'' then Some ([], s)
      else if c = CHR 0x5C then
        (case s of
           [] \<Rightarrow> None
         | e # t \<Rightarrow>
             if e = CHR ''u'' then
               (case read_rune t of
                  None \<Rightarrow> None
                | Some (x, r) \<Rightarrow> map_option (apfst ((@) x)) (go_chars r))
             else (case unescape e of
                     None \<Rightarrow> None
                   | Some x \<Rightarrow> map_option (apfst ((#) x)) (go_chars t)))
      else if byte c < 32 then None
      else map_option (apfst ((#) c)) (go_chars s))"
  by pat_completeness auto
termination
  by (relation "measure length") (auto dest: read_rune_shrinks)

text \<open>The longest number at the head of the input, with its text.\<close>

definition digits_of :: "string \<Rightarrow> string \<times> string" where
  "digits_of s = (takeWhile is_digit s, dropWhile is_digit s)"

definition go_fraction :: "string \<Rightarrow> (string \<times> string) option" where
  "go_fraction s =
     (if next_is (CHR ''.'') s
      then (case digits_of (tl s) of (ds, r) \<Rightarrow> if ds = [] then None else Some (CHR ''.'' # ds, r))
      else Some ([], s))"

definition go_exponent :: "string \<Rightarrow> (string \<times> string) option" where
  "go_exponent s =
     (if next_is (CHR ''e'') s \<or> next_is (CHR ''E'') s
      then (let t = tl s; sign = (if next_is (CHR ''+'') t \<or> next_is (CHR ''-'') t then [hd t] else [])
            in case digits_of (drop (length sign) t) of
                 (ds, r) \<Rightarrow> if ds = [] then None else Some (hd s # sign @ ds, r))
      else Some ([], s))"

definition go_number :: "string \<Rightarrow> (string \<times> string) option" where
  "go_number s =
     (let sign = (if next_is (CHR ''-'') s then ''-'' else []);
          t = drop (length sign) s;
          (ds, r) = (if next_is (CHR ''0'') t then (''0'', tl t) else digits_of t)
      in if ds = [] then None
         else case go_fraction r of
           None \<Rightarrow> None
         | Some (f, r1) \<Rightarrow>
             (case go_exponent r1 of
                None \<Rightarrow> None
              | Some (e, r2) \<Rightarrow> Some (sign @ ds @ f @ e, r2)))"

definition max_nesting :: int where
  "max_nesting = 10000"

fun go_value :: "nat \<Rightarrow> int \<Rightarrow> string \<Rightarrow> (jtree \<times> string) option"
  and go_members :: "nat \<Rightarrow> int \<Rightarrow> (string \<times> jtree) list \<Rightarrow> string \<Rightarrow> (jtree \<times> string) option"
  and go_elems :: "nat \<Rightarrow> int \<Rightarrow> jtree list \<Rightarrow> string \<Rightarrow> (jtree \<times> string) option" where
  "go_value 0 depth s = None"
| "go_value (Suc n) depth s =
     (let u = skip_space s in
      if u = [] then None
      else if next_is (CHR ''{'') u then
        (if max_nesting \<le> depth then None
         else let w = skip_space (tl u)
              in if next_is (CHR ''}'') w then Some (TObj [], tl w) else go_members n (depth + 1) [] w)
      else if next_is (CHR ''['') u then
        (if max_nesting \<le> depth then None
         else let w = skip_space (tl u)
              in if next_is (CHR '']'') w then Some (TArr [], tl w) else go_elems n (depth + 1) [] w)
      else if next_is (CHR ''\"'') u then map_option (apfst TStr) (go_chars (tl u))
      else if has_prefix u ''true'' then Some (TBool True, drop 4 u)
      else if has_prefix u ''false'' then Some (TBool False, drop 5 u)
      else if has_prefix u ''null'' then Some (TNull, drop 4 u)
      else map_option (apfst TNum) (go_number u))"
| "go_members 0 depth acc s = None"
| "go_members (Suc n) depth acc s =
     (if \<not> next_is (CHR ''\"'') s then None
      else case go_chars (tl s) of
        None \<Rightarrow> None
      | Some (key, r) \<Rightarrow>
          let u = skip_space r in
          if \<not> next_is (CHR '':'') u then None
          else (case go_value n depth (tl u) of
                  None \<Rightarrow> None
                | Some (v, r2) \<Rightarrow>
                    let w = skip_space r2 in
                    if next_is (CHR '','') w then go_members n depth (acc @ [(key, v)]) (skip_space (tl w))
                    else if next_is (CHR ''}'') w then Some (TObj (acc @ [(key, v)]), tl w)
                    else None))"
| "go_elems 0 depth acc s = None"
| "go_elems (Suc n) depth acc s =
     (case go_value n depth s of
        None \<Rightarrow> None
      | Some (v, r) \<Rightarrow>
          let w = skip_space r in
          if next_is (CHR '','') w then go_elems n depth (acc @ [v]) (tl w)
          else if next_is (CHR '']'') w then Some (TArr (acc @ [v]), tl w)
          else None)"

declare go_value.simps(2) [simp del] go_members.simps(2) [simp del] go_elems.simps(2) [simp del]

text \<open>A whole body: one value, with the fuel of \<open>GatewayJson\<close>, which its length bounds.\<close>

definition go_parse :: "string \<Rightarrow> jtree option" where
  "go_parse s =
     (case go_value (json_fuel s) 0 s of
        None \<Rightarrow> None
      | Some (v, r) \<Rightarrow> if skip_space r = [] then Some v else None)"

section \<open>Decoding into a struct\<close>

text \<open>\<open>strconv.ParseInt(text, 10, 64)\<close> on the text of a number: no fraction, no exponent, in range.\<close>

definition parse_int64 :: "string \<Rightarrow> int option" where
  "parse_int64 s =
     (let neg = next_is (CHR ''-'') s; ds = (if neg then tl s else s);
          n = int (dec_val 0 ds); v = (if neg then - n else n)
      in if ds = [] \<or> \<not> list_all is_digit ds \<or> \<not> in_int64 v then None else Some v)"

text \<open>A field is its name and how a value is stored; \<open>None\<close> is the type error.\<close>

type_synonym 'a field_setter = "jtree \<Rightarrow> 'a \<Rightarrow> 'a option"

definition str_setter :: "(string \<Rightarrow> 'a \<Rightarrow> 'a) \<Rightarrow> 'a field_setter" where
  "str_setter f v x = (case v of TStr s \<Rightarrow> Some (f s x) | TNull \<Rightarrow> Some x | _ \<Rightarrow> None)"

definition int_setter :: "(int \<Rightarrow> 'a \<Rightarrow> 'a) \<Rightarrow> 'a field_setter" where
  "int_setter f v x =
     (case v of TNum t \<Rightarrow> map_option (\<lambda>n. f n x) (parse_int64 t) | TNull \<Rightarrow> Some x | _ \<Rightarrow> None)"

definition same_fold :: "string \<Rightarrow> string \<Rightarrow> bool" where
  "same_fold a b = (to_lower a = to_lower b)"

definition find_field :: "(string \<times> 'a field_setter) list \<Rightarrow> string \<Rightarrow> 'a field_setter option" where
  "find_field fields key =
     (case find (\<lambda>f. fst f = key) fields of
        Some f \<Rightarrow> Some (snd f)
      | None \<Rightarrow> map_option snd (find (\<lambda>f. same_fold (fst f) key) fields))"

definition set_member :: "(string \<times> 'a field_setter) list \<Rightarrow> string \<times> jtree \<Rightarrow> 'a \<Rightarrow> 'a option" where
  "set_member fields m x =
     (case find_field fields (fst m) of None \<Rightarrow> Some x | Some f \<Rightarrow> f (snd m) x)"

fun set_members :: "(string \<times> 'a field_setter) list \<Rightarrow> (string \<times> jtree) list \<Rightarrow> 'a \<Rightarrow> 'a option" where
  "set_members fields [] x = Some x"
| "set_members fields (m # ms) x =
     (case set_member fields m x of None \<Rightarrow> None | Some y \<Rightarrow> set_members fields ms y)"

definition struct_setter :: "(string \<times> 'a field_setter) list \<Rightarrow> 'a field_setter" where
  "struct_setter fields v x =
     (case v of TObj ms \<Rightarrow> set_members fields ms x | TNull \<Rightarrow> Some x | _ \<Rightarrow> None)"

definition go_unmarshal :: "(string \<times> 'a field_setter) list \<Rightarrow> 'a \<Rightarrow> string \<Rightarrow> 'a option" where
  "go_unmarshal fields zero body =
     (case go_parse body of None \<Rightarrow> None | Some v \<Rightarrow> struct_setter fields v zero)"

section \<open>Encoding\<close>

definition hex_digit :: "nat \<Rightarrow> char" where
  "hex_digit n = (if n < 10 then digit_char n else char_of (87 + n))"

definition go_escape :: "char \<Rightarrow> string" where
  "go_escape c =
     (if c = CHR ''\"'' then [CHR 0x5C, CHR ''\"'']
      else if c = CHR 0x5C then [CHR 0x5C, CHR 0x5C]
      else if c = CHR 0x0A then [CHR 0x5C, CHR ''n'']
      else if c = CHR 0x0D then [CHR 0x5C, CHR ''r'']
      else if c = CHR 0x09 then [CHR 0x5C, CHR ''t'']
      else if c = CHR 0x08 then [CHR 0x5C, CHR ''b'']
      else if c = CHR 0x0C then [CHR 0x5C, CHR ''f'']
      else if byte c < 32 \<or> c = CHR ''<'' \<or> c = CHR ''>'' \<or> c = CHR ''&'' then
        CHR 0x5C # ''u00'' @ [hex_digit (byte c div 16), hex_digit (byte c mod 16)]
      else [c])"

definition go_string :: "string \<Rightarrow> string" where
  "go_string s = CHR ''\"'' # concat (map go_escape s) @ [CHR ''\"'']"

definition go_int :: "int \<Rightarrow> string" where
  "go_int n = (if n < 0 then CHR ''-'' # format_int (- n) else format_int n)"

section \<open>What the writers write is read back\<close>

lemma go_chars_escape_char:
  "go_chars (escape_char c @ s) = map_option (apfst ((#) (plain_char c))) (go_chars s)"
proof -
  consider "c = CHR ''\"''" | "c = CHR 0x5C" | "c = CHR 0x0A" | "c = CHR 0x0D" | "c = CHR 0x09"
    | "byte c < 32" "c \<notin> {CHR ''\"'', CHR 0x5C, CHR 0x0A, CHR 0x0D, CHR 0x09}"
    | "\<not> byte c < 32" "c \<notin> {CHR ''\"'', CHR 0x5C, CHR 0x0A, CHR 0x0D, CHR 0x09}"
    by blast
  then show ?thesis
    by cases (simp_all add: escape_char_def plain_char_def unescape_def byte_def)
qed

lemma go_chars_escape:
  "go_chars (json_escape s @ CHR ''\"'' # r) = Some (map plain_char s, r)"
  by (induction s) (simp_all add: json_escape_def go_chars_escape_char)

lemma hex_digit_val: "n < 16 \<Longrightarrow> hex_val (hex_digit n) = Some n"
proof (cases "n < 10")
  case True
  then show ?thesis by (simp add: hex_val_def hex_digit_def)
next
  case False
  assume "n < 16"
  then have "byte (char_of (87 + n)) = 87 + n" by (simp add: byte_def)
  then show ?thesis using False \<open>n < 16\<close> by (simp add: hex_val_def hex_digit_def is_digit_def)
qed

lemma hex4_byte:
  "n < 256 \<Longrightarrow> hex4 (CHR ''0'' # CHR ''0'' # hex_digit (n div 16) # hex_digit (n mod 16) # s) = Some n"
proof -
  assume "n < 256"
  then have "n div 16 < 16" "n mod 16 < 16" by simp_all
  moreover have "hex_val (CHR ''0'') = Some 0" by (simp add: hex_val_def is_digit_def byte_def)
  ultimately show ?thesis by (simp add: hex4_def hex_digit_val)
qed

lemma go_chars_go_escape: "go_chars (go_escape c @ s) = map_option (apfst ((#) c)) (go_chars s)"
proof -
  have b: "byte c < 256" by simp
  consider "c \<in> {CHR ''\"'', CHR 0x5C, CHR 0x0A, CHR 0x0D, CHR 0x09, CHR 0x08, CHR 0x0C}"
    | "c \<notin> {CHR ''\"'', CHR 0x5C, CHR 0x0A, CHR 0x0D, CHR 0x09, CHR 0x08, CHR 0x0C}"
      "byte c < 32 \<or> c = CHR ''<'' \<or> c = CHR ''>'' \<or> c = CHR ''&''"
    | "c \<notin> {CHR ''\"'', CHR 0x5C}" "\<not> byte c < 32" "c \<noteq> CHR ''<''" "c \<noteq> CHR ''>''" "c \<noteq> CHR ''&''"
    by auto
  then show ?thesis
  proof cases
    case 1
    have "go_chars (CHR 0x5C # e # s) = map_option (apfst ((#) x)) (go_chars s)"
      if "unescape e = Some x" "e \<noteq> CHR ''u''" for e x using that by simp
    then show ?thesis using 1 by (auto simp: go_escape_def unescape_def simp del: go_chars.simps)
  next
    case 2
    have "byte c < 128" using 2(2) by (elim disjE) (simp_all add: byte_def)
    then have u: "utf8 (byte c) = [c]" by (simp add: utf8_def byte_def)
    have g: "go_escape c = CHR 0x5C # ''u00'' @ [hex_digit (byte c div 16), hex_digit (byte c mod 16)]"
      using 2 by (simp add: go_escape_def)
    have "read_rune (''00'' @ hex_digit (byte c div 16) # hex_digit (byte c mod 16) # s) = Some ([c], s)"
      using \<open>byte c < 128\<close> hex4_byte [OF b, of s] by (simp add: read_rune_def Let_def u)
    moreover have "(@) [c] = (#) c" by (rule ext) simp
    ultimately show ?thesis by (simp add: g)
  next
    case 3
    have ne: "c \<noteq> x" if "byte x < 32" for x using 3(2) that by auto
    have "c \<noteq> CHR 0x0A" "c \<noteq> CHR 0x0D" "c \<noteq> CHR 0x09" "c \<noteq> CHR 0x08" "c \<noteq> CHR 0x0C"
      by (rule ne, simp add: byte_def)+
    then have "go_escape c = [c]" using 3 by (simp add: go_escape_def)
    then show ?thesis using 3(1,2) by simp
  qed
qed

lemma go_chars_go: "go_chars (concat (map go_escape s) @ CHR ''\"'' # r) = Some (s, r)"
  by (induction s) (simp_all add: go_chars_go_escape)

text \<open>
  \<open>go_reads h t v\<close>: wherever \<open>t\<close> stands before a separator, with room for \<open>h\<close> more levels of nesting, the
  reader takes it for \<open>v\<close> and goes on after it.
\<close>

definition go_reads :: "int \<Rightarrow> string \<Rightarrow> jtree \<Rightarrow> bool" where
  "go_reads h t v = (\<forall>n d r. delim r \<longrightarrow> d + h \<le> max_nesting \<longrightarrow> 2 * length (t @ r) < n
     \<longrightarrow> go_value n d (t @ r) = Some (v, r))"

lemma go_readsI:
  assumes "\<And>n d r. delim r \<Longrightarrow> d + h \<le> max_nesting \<Longrightarrow> 2 * length (t @ r) < Suc n
      \<Longrightarrow> go_value (Suc n) d (t @ r) = Some (v, r)"
  shows "go_reads h t v"
  unfolding go_reads_def
proof (intro allI impI)
  fix n d r assume a: "delim r" "d + h \<le> max_nesting" "2 * length (t @ r) < n"
  then show "go_value n d (t @ r) = Some (v, r)" using assms [of r d "n - 1"] by (cases n) auto
qed

lemma go_reads_quoted: "go_reads h (CHR ''\"'' # json_escape s @ [CHR ''\"'']) (TStr (map plain_char s))"
  by (rule go_readsI) (simp add: go_value.simps(2) go_chars_escape)

lemma go_reads_string: "go_reads h (go_string s) (TStr s)"
  by (rule go_readsI) (simp add: go_value.simps(2) go_string_def go_chars_go)

lemma go_reads_bool: "go_reads h (if b then ''true'' else ''false'') (TBool b)"
  by (rule go_readsI) (simp add: go_value.simps(2) skip_space_def has_prefix_def)

text \<open>The texts the integer writers produce.\<close>

definition int_text :: "string \<Rightarrow> bool" where
  "int_text t = (let ds = (if next_is (CHR ''-'') t then tl t else t)
     in ds \<noteq> [] \<and> list_all is_digit ds \<and> (next_is (CHR ''0'') ds \<longrightarrow> length ds = 1))"

lemma digit_next: "is_digit c \<Longrightarrow> c \<noteq> CHR ''-'' \<and> c \<noteq> CHR ''.'' \<and> c \<noteq> CHR ''e'' \<and> c \<noteq> CHR ''E''"
  by (auto simp: is_digit_def byte_def)

lemma delim_stops:
  assumes "delim r" "list_all is_digit ds"
  shows "takeWhile is_digit (ds @ r) = ds" "dropWhile is_digit (ds @ r) = r"
    "go_fraction r = Some ([], r)" "go_exponent r = Some ([], r)"
proof -
  have h: "r = [] \<or> \<not> is_digit (hd r)" using assms(1) by (auto simp: delim_def num_char_def)
  then show "takeWhile is_digit (ds @ r) = ds" "dropWhile is_digit (ds @ r) = r"
    using assms(2) by (cases r; simp add: list_all_iff)+
  have "\<not> next_is (CHR ''.'') r" "\<not> next_is (CHR ''e'') r" "\<not> next_is (CHR ''E'') r"
    using assms(1) by (auto simp: delim_def num_char_def next_is_def split: list.splits)
  then show "go_fraction r = Some ([], r)" "go_exponent r = Some ([], r)"
    by (simp_all add: go_fraction_def go_exponent_def)
qed

lemma go_number_int:
  assumes "int_text t" "delim r"
  shows "go_number (t @ r) = Some (t, r)"
proof -
  define sg where "sg = (if next_is (CHR ''-'') t then ''-'' else [])"
  define ds where "ds = (if next_is (CHR ''-'') t then tl t else t)"
  have t: "t = sg @ ds" "sg = [] \<or> sg = ''-''" "ds \<noteq> []" "list_all is_digit ds"
      "next_is (CHR ''0'') ds \<longrightarrow> length ds = 1"
    using assms(1) by (cases t; simp add: sg_def ds_def int_text_def Let_def split: if_splits)+
  obtain x xs where ds: "ds = x # xs" using t(3) by (cases ds) auto
  have x: "is_digit x" "x \<noteq> CHR ''-''" using t(4) ds digit_next by auto
  have s: "(if next_is (CHR ''-'') (t @ r) then ''-'' else []) = sg" using t(1,2) ds x by (auto simp: next_is_def)
  have d: "drop (length sg) (t @ r) = ds @ r" using t(1) by simp
  have p: "(if next_is (CHR ''0'') (ds @ r) then (''0'', tl (ds @ r)) else digits_of (ds @ r)) = (ds, r)"
    using t(5) ds delim_stops(1,2) [OF assms(2) t(4)] by (auto simp: digits_of_def next_is_def)
  show ?thesis
    by (simp only: go_number_def Let_def s d p prod.case delim_stops(3,4) [OF assms(2) t(4)] option.case)
      (simp add: t(1,3))
qed

lemma int_text_head:
  assumes "int_text t"
  obtains x xs where "t = x # xs" "x = CHR ''-'' \<or> is_digit x"
proof (cases t)
  case (Cons x xs)
  then have "x = CHR ''-'' \<or> is_digit x" using assms by (simp add: int_text_def Let_def split: if_splits)
  with Cons that show ?thesis by blast
qed (use assms in \<open>simp add: int_text_def\<close>)

lemma go_reads_number:
  assumes "int_text t"
  shows "go_reads h t (TNum t)"
proof (rule go_readsI)
  fix n d r assume r: "delim r"
  obtain x xs where t: "t = x # xs" "x = CHR ''-'' \<or> is_digit x" using int_text_head [OF assms] .
  have "x \<notin> {CHR '' '', CHR 0x09, CHR 0x0A, CHR 0x0D, CHR ''{'', CHR ''['', CHR ''\"'',
     CHR ''t'', CHR ''f'', CHR ''n''}" using t(2) digit_not_special [of x] by (elim disjE) simp_all
  then show "go_value (Suc n) d (t @ r) = Some (TNum t, r)"
    using go_number_int [OF assms r] t(1)
    by (simp add: go_value.simps(2) skip_space_def has_prefix_def)
qed

text \<open>Integers: no leading zero, and \<open>ParseInt\<close> gives the number back.\<close>

lemma digit_char_zero: "d < 10 \<Longrightarrow> digit_char d = CHR ''0'' \<longleftrightarrow> d = 0"
proof -
  assume "d < 10"
  then have "byte (digit_char d) = 48 + d" by simp
  moreover have "byte (CHR ''0'') = 48" by (simp add: byte_def)
  ultimately show ?thesis by (metis add_cancel_right_right byte_eq_iff)
qed

lemma format_loop_head: "0 < v \<Longrightarrow> \<exists>x xs. format_loop v acc = x # xs \<and> x \<noteq> CHR ''0''"
proof (induction v acc rule: format_loop.induct)
  case (1 v acc)
  let ?c = "digit_char (nat (v mod 10))"
  show ?case
  proof (cases "0 < v div 10")
    case True
    then show ?thesis using "1.IH" [OF "1.prems"] by (simp add: format_loop.simps [of v acc] "1.prems")
  next
    case False
    then have "v < 10" using "1.prems" by (simp add: pos_imp_zdiv_pos_iff)
    then have "?c \<noteq> CHR ''0''" using "1.prems" by (subst digit_char_zero) auto
    moreover have "format_loop v acc = ?c # acc"
      using False "1.prems" by (simp add: format_loop.simps [of v acc] format_loop.simps [of 0])
    ultimately show ?thesis by simp
  qed
qed

lemma int_text_format: "0 \<le> v \<Longrightarrow> int_text (format_int v) \<and> \<not> next_is (CHR ''-'') (format_int v)"
proof -
  assume v: "0 \<le> v"
  note f = format_int_digits [OF v]
  obtain x xs where t: "format_int v = x # xs" using f(1) by (cases "format_int v") auto
  have "x \<noteq> CHR ''-''" using f(2) t digit_next by auto
  moreover have "x = CHR ''0'' \<longrightarrow> xs = []"
    using t format_loop_head [of v "[]"] v by (cases "v = 0") (auto simp: format_int_def)
  ultimately show ?thesis using f(2) t by (simp add: int_text_def Let_def list_all_iff)
qed

lemma int_text_go: "int_text (go_int n)"
proof (cases "n < 0")
  case True
  then have "int_text (format_int (- n)) \<and> \<not> next_is (CHR ''-'') (format_int (- n))" by (simp add: int_text_format)
  then show ?thesis using True by (simp add: go_int_def int_text_def Let_def split: if_splits)
qed (simp add: go_int_def int_text_format)

lemma parse_int64_format: "0 \<le> n \<Longrightarrow> in_int64 n \<Longrightarrow> parse_int64 (format_int n) = Some n"
  using format_int_digits [of n] int_text_format [of n]
  by (simp add: parse_int64_def Let_def list_all_iff)

lemma parse_int64_go: "in_int64 n \<Longrightarrow> parse_int64 (go_int n) = Some n"
proof (cases "n < 0")
  case True
  then show "in_int64 n \<Longrightarrow> ?thesis"
    using format_int_digits [of "- n"] by (simp add: go_int_def parse_int64_def Let_def list_all_iff)
qed (simp add: go_int_def parse_int64_format)

text \<open>Objects.\<close>

lemma go_member_text:
  assumes "go_reads h t v" "delim r" "d + h \<le> max_nesting" "2 * length (member_text (k, t) @ r) < Suc n"
  shows "go_members (Suc n) d acc (member_text (k, t) @ r) =
    (let acc' = acc @ [(map plain_char k, v)]; w = skip_space r in
     if next_is (CHR '','') w then go_members n d acc' (skip_space (tl w))
     else if next_is (CHR ''}'') w then Some (TObj acc', tl w) else None)"
proof -
  have "go_value n d (t @ r) = Some (v, r)"
    using assms unfolding go_reads_def member_text_def by simp
  then show ?thesis
    by (simp add: member_text_def go_members.simps(2) go_chars_escape Let_def)
qed

definition tree_members :: "(string \<times> string \<times> jtree) list \<Rightarrow> (string \<times> jtree) list" where
  "tree_members ms = map (\<lambda>(k, t, v). (map plain_char k, v)) ms"

lemma go_members_text:
  assumes "ms \<noteq> []" "\<forall>(k, t, v)\<in>set ms. go_reads h t v" "d + h \<le> max_nesting"
    "2 * length (members_text (texts ms) @ CHR ''}'' # r) < n"
  shows "go_members n d acc (members_text (texts ms) @ CHR ''}'' # r)
    = Some (TObj (acc @ tree_members ms), r)"
  using assms
proof (induction ms arbitrary: acc n)
  case (Cons m ms)
  obtain k t v where m: "m = (k, t, v)" by (cases m)
  have rd: "go_reads h t v" using Cons.prems(2) m by simp
  obtain n' where n: "n = Suc n'" using Cons.prems(4) by (cases n) auto
  show ?case
  proof (cases ms)
    case Nil
    then show ?thesis using Cons.prems(3,4) m n go_member_text [OF rd, of "CHR ''}'' # r" d k n' acc]
      by (simp add: texts_def tree_members_def)
  next
    case (Cons m' ms')
    then have split: "members_text (texts (m # ms)) @ CHR ''}'' # r
        = member_text (k, t) @ CHR '','' # members_text (texts ms) @ CHR ''}'' # r"
      using m by (cases m') (simp add: texts_def)
    obtain q where "members_text (texts ms) = CHR ''\"'' # q"
      using Cons by (cases ms'; cases m') (auto simp: texts_def member_text_def)
    then have sk: "skip_space (members_text (texts ms) @ CHR ''}'' # r) = members_text (texts ms) @ CHR ''}'' # r"
      by simp
    have "go_members n' d (acc @ [(map plain_char k, v)]) (members_text (texts ms) @ CHR ''}'' # r)
        = Some (TObj ((acc @ [(map plain_char k, v)]) @ tree_members ms), r)"
      using Cons.prems Cons n unfolding split by (intro Cons.IH) auto
    then show ?thesis
      using Cons.prems(3,4) n go_member_text [OF rd, of "CHR '','' # members_text (texts ms) @ CHR ''}'' # r" d k n' acc]
      unfolding split by (simp add: m tree_members_def sk)
  qed
qed simp

lemma go_reads_object:
  assumes "ms \<noteq> []" "\<forall>(k, t, v)\<in>set ms. go_reads h t v" "0 \<le> h"
  shows "go_reads (h + 1) (object_text (texts ms)) (TObj (tree_members ms))"
proof (rule go_readsI)
  fix n d r assume d: "d + (h + 1) \<le> max_nesting" and l: "2 * length (object_text (texts ms) @ r) < Suc n"
  obtain q where q: "members_text (texts ms) = CHR ''\"'' # q"
    using assms(1) by (cases ms; cases "tl ms") (auto simp: texts_def member_text_def)
  have "go_members n (d + 1) [] (members_text (texts ms) @ CHR ''}'' # r)
      = Some (TObj ([] @ tree_members ms), r)"
    using l d by (intro go_members_text [OF assms(1,2)]) (simp_all add: object_text_def)
  then show "go_value (Suc n) d (object_text (texts ms) @ r) = Some (TObj (tree_members ms), r)"
    using d assms(3) by (simp add: object_text_def go_value.simps(2) q)
qed

lemma go_parse_reads:
  assumes "go_reads h t v" "h \<le> max_nesting" "skip_space s = []"
  shows "go_parse (t @ s) = Some v"
proof -
  have "delim s"
  proof (cases s)
    case (Cons x xs)
    then have "x = CHR '' '' \<or> x = CHR 0x09 \<or> x = CHR 0x0A \<or> x = CHR 0x0D"
      using assms(3) by (simp add: skip_space_def split: if_splits)
    then have "\<not> num_char x" by (elim disjE) (simp_all add: num_char_def is_digit_def byte_def)
    then show ?thesis using Cons by (simp add: delim_def)
  qed simp
  then have "go_value (2 * length (t @ s) + 2) 0 (t @ s) = Some (v, s)"
    using assms(1,2) unfolding go_reads_def by simp
  then show ?thesis using assms(3) by (simp add: go_parse_def json_fuel_def)
qed

lemma unmarshal_object:
  assumes "go_reads h t (TObj ms)" "h \<le> max_nesting" "skip_space s = []"
  shows "go_unmarshal fields zero (t @ s) = set_members fields ms zero"
  by (simp add: go_unmarshal_def go_parse_reads [OF assms] struct_setter_def)

text \<open>A nested struct field.\<close>

definition nested :: "(string \<times> 'b field_setter) list \<Rightarrow> ('a \<Rightarrow> 'b) \<Rightarrow> ('b \<Rightarrow> 'a \<Rightarrow> 'a) \<Rightarrow> 'a field_setter" where
  "nested fields sel put v x = map_option (\<lambda>y. put y x) (struct_setter fields v (sel x))"

lemma setter_simps [simp]:
  "str_setter f (TStr s) x = Some (f s x)"
  "int_setter g (TNum t) x = map_option (\<lambda>n. g n x) (parse_int64 t)"
  "struct_setter fields (TObj ms) y = set_members fields ms y"
  "nested fields sel put (TObj ms) z = map_option (\<lambda>y. put y z) (set_members fields ms (sel z))"
  by (simp_all add: str_setter_def int_setter_def struct_setter_def nested_def)

end
