(* ===== verification/KeyGateway.thy ===== *)
theory KeyGateway
  imports KeyRegistry GatewayAuth FundsGate GoJson
begin

text \<open>
  The contract between the control plane and the gateway plugin: \<open>VerifyGatewayKey\<close> and
  \<open>VerifyPlaygroundKey\<close> (\<open>services/auth/gateway_verifier.go\<close>), the internal HTTP endpoint and its JSON
  answer (\<open>pkg/server/gateway_api.go\<close>), read back by the plugin's parser (\<open>GatewayAuth\<close>); and the
  billing service as the funds gate of the verification (\<open>CheckInferenceAllowed\<close>).  The JSON decoder of
  the request and the encoder of the answer are \<open>GoJson\<close>'s on the fields of the two structs.
\<close>

section \<open>Verification for the gateway\<close>

record gateway_request =
  gr_digest :: string
  gr_model :: string
  gr_source_ip :: string
  gr_request :: string
  gr_max_tokens :: int

record gateway_response =
  gw_allowed :: bool
  gw_code :: int
  gw_message :: string
  gw_org :: string
  gw_key :: string
  gw_role :: string
  gw_rpm :: int
  gw_tpm :: int
  gw_concurrent :: int
  gw_output :: int
  gw_owner :: string
  gw_project :: string
  gw_reserve :: bool

definition verdict_message :: "int \<Rightarrow> string" where
  "verdict_message code =
     (if code = 10007 then ''API key not found''
      else if code = 10008 then ''API key invalid''
      else if code = 10009 then ''API key revoked''
      else if code = 10010 then ''API key expired''
      else if code = 10039 then ''model not allowed for this api key''
      else if code = 10101 then ''model not found''
      else if code = 10105 then ''model not authorized''
      else if code = 10502 then ''insufficient funds''
      else [])"

definition reject_with :: "int \<Rightarrow> gateway_response" where
  "reject_with code =
     \<lparr>gw_allowed = False, gw_code = code, gw_message = verdict_message code, gw_org = [], gw_key = [],
      gw_role = [], gw_rpm = 0, gw_tpm = 0, gw_concurrent = 0, gw_output = 0, gw_owner = [], gw_project = [],
      gw_reserve = False\<rparr>"

definition is_verdict_code :: "int \<Rightarrow> bool" where
  "is_verdict_code code = (code \<in> {10007, 10008, 10009, 10010, 10039, 10101, 10105, 10502})"

definition verify_gateway_key ::
  "'g auth_env \<Rightarrow> gateway_request option \<Rightarrow> auth_state \<times> 'g \<Rightarrow> (int + gateway_response) \<times> auth_state \<times> 'g" where
  "verify_gateway_key env req sg =
     (case req of
        None \<Rightarrow> (Inr (reject_with 10008), sg)
      | Some q \<Rightarrow>
          if gr_digest q = [] then (Inr (reject_with 10008), sg)
          else (case verify_api_key env (gr_digest q) (gr_model q)
                       (with_funds_hint (gr_request q) (gr_max_tokens q)) sg of
             (Inl code, sg') \<Rightarrow> (if is_verdict_code code then Inr (reject_with code) else Inl code, sg')
           | (Inr v, sg') \<Rightarrow>
               (Inr \<lparr>gw_allowed = True, gw_code = 0, gw_message = [], gw_org = kv_org v, gw_key = kv_key v,
                  gw_role = kv_role v, gw_rpm = kv_rpm v, gw_tpm = kv_tpm v, gw_concurrent = kv_concurrent v,
                  gw_output = kv_output v, gw_owner = kv_owner v, gw_project = kv_project v,
                  gw_reserve = (case ae_gate env of None \<Rightarrow> False | Some gate \<Rightarrow> fg_active gate)\<rparr>, sg')))"

definition verify_playground_key ::
  "'g auth_env \<Rightarrow> (string \<Rightarrow> string) \<Rightarrow> string \<Rightarrow> string \<Rightarrow> string \<Rightarrow> auth_state \<times> 'g
   \<Rightarrow> int option \<times> auth_state \<times> 'g" where
  "verify_playground_key env digest plaintext m org sg =
     (let key = trim_space plaintext in
      if key = [] then (Some 10008, sg)
      else (case verify_api_key env (digest key) (trim_space m) no_hint sg of
         (Inl code, sg') \<Rightarrow> (Some code, sg')
       | (Inr v, sg') \<Rightarrow>
           (if org \<noteq> [] \<and> kv_org v \<noteq> [] \<and> kv_org v \<noteq> org then Some 10008 else None, sg')))"

section \<open>The endpoint\<close>

definition token_matches :: "string \<Rightarrow> string \<Rightarrow> bool" where
  "token_matches presented expected = (if expected = [] \<or> presented = [] then False else presented = expected)"

text \<open>\<open>None\<close> is a missing body, \<open>Some None\<close> a failed read.\<close>

definition read_json_body :: "nat \<Rightarrow> string option option \<Rightarrow> string + string" where
  "read_json_body limit body =
     (case body of
        None \<Rightarrow> Inl ''empty body''
      | Some None \<Rightarrow> Inl ''unreadable body''
      | Some (Some full) \<Rightarrow>
          if trim_space (take limit full) = [] then Inl ''empty body'' else Inr (take limit full))"

definition gateway_max_verify_body :: nat where
  "gateway_max_verify_body = 65536"

datatype endpoint_answer = Verdict gateway_response | Refusal int int string

definition verify_request_fields :: "(string \<times> gateway_request field_setter) list" where
  "verify_request_fields =
     [(''key_digest'', str_setter (\<lambda>s q. q\<lparr>gr_digest := s\<rparr>)), (''model'', str_setter (\<lambda>s q. q\<lparr>gr_model := s\<rparr>)),
      (''source_ip'', str_setter (\<lambda>s q. q\<lparr>gr_source_ip := s\<rparr>)),
      (''request_id'', str_setter (\<lambda>s q. q\<lparr>gr_request := s\<rparr>)),
      (''max_tokens'', int_setter (\<lambda>n q. q\<lparr>gr_max_tokens := n\<rparr>))]"

definition decode_verify_request :: "string \<Rightarrow> gateway_request option" where
  "decode_verify_request =
     go_unmarshal verify_request_fields
       \<lparr>gr_digest = [], gr_model = [], gr_source_ip = [], gr_request = [], gr_max_tokens = 0\<rparr>"

definition verify_endpoint ::
  "'g auth_env \<Rightarrow> string \<Rightarrow> string \<Rightarrow> string \<Rightarrow> string option option
   \<Rightarrow> auth_state \<times> 'g \<Rightarrow> endpoint_answer \<times> auth_state \<times> 'g" where
  "verify_endpoint env secret presented verb body sg =
     (if \<not> token_matches presented secret then (Refusal 401 12910 ''invalid gateway token'', sg)
      else if verb \<noteq> ''POST'' then (Refusal 405 0 ''use POST'', sg)
      else case read_json_body gateway_max_verify_body body of
        Inl e \<Rightarrow> (Refusal 400 0 e, sg)
      | Inr b \<Rightarrow>
          (case decode_verify_request b of
             None \<Rightarrow> (Refusal 400 0 ''malformed verify request'', sg)
           | Some q \<Rightarrow>
               (case verify_gateway_key env (Some q) sg of
                  (Inl code, sg') \<Rightarrow> (Refusal 503 0 ''key verification unavailable'', sg')
                | (Inr r, sg') \<Rightarrow> (Verdict r, sg'))))"

text \<open>
  The JSON of an answer: the members that are not empty, in the order of the struct.  A byte of a string
  is escaped as \<open>encoding/json\<close> does it, HTML escapes included.
\<close>

definition str_field :: "string \<Rightarrow> string \<Rightarrow> (string \<times> string) list" where
  "str_field k s = (if s = [] then [] else [(k, go_string s)])"

definition int_field :: "string \<Rightarrow> int \<Rightarrow> (string \<times> string) list" where
  "int_field k n = (if n = 0 then [] else [(k, go_int n)])"

definition response_fields :: "gateway_response \<Rightarrow> (string \<times> string) list" where
  "response_fields r =
     (''allowed'', bool_field (gw_allowed r)) # int_field ''code'' (gw_code r) @ str_field ''message'' (gw_message r)
     @ str_field ''organization_id'' (gw_org r) @ str_field ''key_id'' (gw_key r) @ str_field ''role'' (gw_role r)
     @ int_field ''rate_limit_rpm'' (gw_rpm r) @ int_field ''rate_limit_tpm'' (gw_tpm r)
     @ int_field ''max_concurrent_requests'' (gw_concurrent r)
     @ int_field ''max_output_tokens_per_request'' (gw_output r) @ str_field ''owner_user_id'' (gw_owner r)
     @ str_field ''project_id'' (gw_project r) @ (if gw_reserve r then [(''reserve'', ''true'')] else [])"

definition response_text :: "gateway_response \<Rightarrow> string" where
  "response_text r = object_text (response_fields r) @ [CHR 0x0A]"

section \<open>The billing service as the funds gate\<close>

definition check_inference_allowed ::
  "gate_env \<Rightarrow> (string \<Rightarrow> string \<Rightarrow> int \<Rightarrow> funds_bound list \<Rightarrow> 's \<Rightarrow> bool option \<times> 's) \<Rightarrow> db
   \<Rightarrow> string \<Rightarrow> string \<Rightarrow> string \<Rightarrow> string \<Rightarrow> string \<Rightarrow> int \<Rightarrow> 's \<Rightarrow> (bool \<times> string) option \<times> 's" where
  "check_inference_allowed ge rsv d org owner project rid m n s =
     (case evaluate_admission ge rsv \<lparr>fq_org = org, fq_owner = owner, fq_project = project, fq_request = rid,
             fq_model = m, fq_max_tokens = n\<rparr> d s of
        (answer, s') \<Rightarrow> (Some answer, s'))"

definition billing_gate ::
  "gate_env \<Rightarrow> (string \<Rightarrow> string \<Rightarrow> int \<Rightarrow> funds_bound list \<Rightarrow> 's \<Rightarrow> bool option \<times> 's) \<Rightarrow> db \<Rightarrow> 's funds_gate" where
  "billing_gate ge rsv d = \<lparr>fg_check = check_inference_allowed ge rsv d, fg_active = ge_reservation ge\<rparr>"

section \<open>The plugin reads the platform's answer\<close>

definition safe_char :: "char \<Rightarrow> bool" where
  "safe_char c = ((32 \<le> byte c \<or> c = CHR 0x0A \<or> c = CHR 0x0D \<or> c = CHR 0x09)
     \<and> c \<noteq> CHR ''<'' \<and> c \<noteq> CHR ''>'' \<and> c \<noteq> CHR ''&'')"

lemma safe_escape:
  assumes "list_all safe_char s"
  shows "go_string s = CHR ''\"'' # json_escape s @ [CHR ''\"'']" "map plain_char s = s"
proof -
  have same: "go_escape c = escape_char c" "plain_char c = c" if "safe_char c" for c
    using that by (auto simp: go_escape_def escape_char_def safe_char_def plain_char_def byte_def)
  have "concat (map go_escape s) = concat (map escape_char s) \<and> map plain_char s = s"
    using assms same by (induction s) auto
  then show "go_string s = CHR ''\"'' # json_escape s @ [CHR ''\"'']" "map plain_char s = s"
    by (simp_all add: go_string_def json_escape_def)
qed

lemma reads_go_string: "list_all safe_char s \<Longrightarrow> reads (go_string s) (JString s)"
  using reads_string [of s] by (simp add: safe_escape)

lemma reads_go_int: "0 \<le> n \<Longrightarrow> n \<le> 2 ^ 53 \<Longrightarrow> reads (go_int n) (JNumber (Fin (of_int n)))"
  using reads_int [of n] by (simp add: go_int_def)

lemma reads_bool: "reads ''true'' (JBool True)" "reads ''false'' (JBool False)"
proof (unfold reads_def, safe)
  fix n r assume "2 * length (''true'' @ r) < n"
  then show "parse_value n (''true'' @ r) = Some (JBool True, r)"
    by (cases n) (simp_all add: parse_value.simps(2) skip_space_def has_prefix_def Let_def)
next
  fix n r assume "2 * length (''false'' @ r) < n"
  then show "parse_value n (''false'' @ r) = Some (JBool False, r)"
    by (cases n) (simp_all add: parse_value.simps(2) skip_space_def has_prefix_def Let_def)
qed

text \<open>The members of an answer with the values they read as.\<close>

definition str_read :: "string \<Rightarrow> string \<Rightarrow> (string \<times> string \<times> json) list" where
  "str_read k s = (if s = [] then [] else [(k, go_string s, JString s)])"

definition int_read :: "string \<Rightarrow> int \<Rightarrow> (string \<times> string \<times> json) list" where
  "int_read k n = (if n = 0 then [] else [(k, go_int n, JNumber (Fin (of_int n)))])"

definition response_reads :: "gateway_response \<Rightarrow> (string \<times> string \<times> json) list" where
  "response_reads r =
     (''allowed'', bool_field (gw_allowed r), JBool (gw_allowed r)) # int_read ''code'' (gw_code r)
     @ str_read ''message'' (gw_message r) @ str_read ''organization_id'' (gw_org r) @ str_read ''key_id'' (gw_key r)
     @ str_read ''role'' (gw_role r) @ int_read ''rate_limit_rpm'' (gw_rpm r) @ int_read ''rate_limit_tpm'' (gw_tpm r)
     @ int_read ''max_concurrent_requests'' (gw_concurrent r)
     @ int_read ''max_output_tokens_per_request'' (gw_output r) @ str_read ''owner_user_id'' (gw_owner r)
     @ str_read ''project_id'' (gw_project r) @ (if gw_reserve r then [(''reserve'', ''true'', JBool True)] else [])"

lemma texts_simps [simp]:
  "texts (a @ b) = texts a @ texts b" "texts ((k, t, v) # a) = (k, t) # texts a" "texts [] = []"
  by (simp_all add: texts_def)

lemma texts_reads [simp]: "texts (str_read k s) = str_field k s" "texts (int_read k n) = int_field k n"
  by (simp_all add: texts_def str_read_def int_read_def str_field_def int_field_def)

lemma response_fields_texts: "response_fields r = texts (response_reads r)"
  by (simp add: response_fields_def response_reads_def)

definition answer_number :: "int \<Rightarrow> bool" where
  "answer_number n = (0 \<le> n \<and> n \<le> 2 ^ 53)"

definition sendable :: "gateway_response \<Rightarrow> bool" where
  "sendable r = (list_all (list_all safe_char) [gw_message r, gw_org r, gw_key r, gw_role r, gw_owner r, gw_project r]
     \<and> list_all answer_number [gw_code r, gw_rpm r, gw_tpm r, gw_concurrent r, gw_output r] \<and> gw_code r < 2 ^ 31)"

lemma str_read_reads: "(k', t, v) \<in> set (str_read k s) \<Longrightarrow> list_all safe_char s \<Longrightarrow> reads t v"
  by (auto simp: str_read_def reads_go_string split: if_splits)

lemma int_read_reads: "(k', t, v) \<in> set (int_read k n) \<Longrightarrow> answer_number n \<Longrightarrow> reads t v"
  by (auto simp: int_read_def reads_go_int answer_number_def split: if_splits)

lemma reads_response:
  assumes "sendable r"
  shows "reads (object_text (response_fields r)) (JObject (read_members (response_reads r) []))"
  unfolding response_fields_texts
proof (rule reads_object)
  show "response_reads r \<noteq> []" by (simp add: response_reads_def)
  have "reads (bool_field (gw_allowed r)) (JBool (gw_allowed r))"
    using reads_bool by (simp add: bool_field_def)
  with assms reads_bool(1) show "\<forall>(k, t, v)\<in>set (response_reads r). reads t v"
    by (auto simp: response_reads_def sendable_def split: if_splits elim: str_read_reads int_read_reads)
qed

text \<open>Reading a member out of the optional ones.\<close>

definition put :: "bool \<Rightarrow> string \<Rightarrow> json \<Rightarrow> (string \<rightharpoonup> json) \<Rightarrow> string \<rightharpoonup> json" where
  "put b k v m = (if b then m(k \<mapsto> v) else m)"

lemma put_apply [simp]: "put b k v m j = (if b \<and> j = k then Some v else m j)"
  by (simp add: put_def)

lemma read_put:
  assumes "map plain_char k = k"
  shows "map_of (read_members (str_read k s) acc) = put (s \<noteq> []) k (JString s) (map_of acc)"
    "map_of (read_members (int_read k n) acc) = put (n \<noteq> 0) k (JNumber (Fin (of_int n))) (map_of acc)"
  using assms by (simp_all add: str_read_def int_read_def read_members_def put_def update_conv')

lemma answer_keys:
  "map plain_char ''allowed'' = ''allowed''" "map plain_char ''code'' = ''code''"
  "map plain_char ''message'' = ''message''" "map plain_char ''organization_id'' = ''organization_id''"
  "map plain_char ''key_id'' = ''key_id''" "map plain_char ''role'' = ''role''"
  "map plain_char ''rate_limit_rpm'' = ''rate_limit_rpm''" "map plain_char ''rate_limit_tpm'' = ''rate_limit_tpm''"
  "map plain_char ''max_concurrent_requests'' = ''max_concurrent_requests''"
  "map plain_char ''max_output_tokens_per_request'' = ''max_output_tokens_per_request''"
  "map plain_char ''owner_user_id'' = ''owner_user_id''" "map plain_char ''project_id'' = ''project_id''"
  "map plain_char ''reserve'' = ''reserve''"
  by (rule key_plain, simp add: key_char_def byte_def)+

lemma response_map:
  "map_of (read_members (response_reads r) []) =
     put (gw_reserve r) ''reserve'' (JBool True)
    (put (gw_project r \<noteq> []) ''project_id'' (JString (gw_project r))
    (put (gw_owner r \<noteq> []) ''owner_user_id'' (JString (gw_owner r))
    (put (gw_output r \<noteq> 0) ''max_output_tokens_per_request'' (JNumber (Fin (of_int (gw_output r))))
    (put (gw_concurrent r \<noteq> 0) ''max_concurrent_requests'' (JNumber (Fin (of_int (gw_concurrent r))))
    (put (gw_tpm r \<noteq> 0) ''rate_limit_tpm'' (JNumber (Fin (of_int (gw_tpm r))))
    (put (gw_rpm r \<noteq> 0) ''rate_limit_rpm'' (JNumber (Fin (of_int (gw_rpm r))))
    (put (gw_role r \<noteq> []) ''role'' (JString (gw_role r))
    (put (gw_key r \<noteq> []) ''key_id'' (JString (gw_key r))
    (put (gw_org r \<noteq> []) ''organization_id'' (JString (gw_org r))
    (put (gw_message r \<noteq> []) ''message'' (JString (gw_message r))
    (put (gw_code r \<noteq> 0) ''code'' (JNumber (Fin (of_int (gw_code r))))
    [''allowed'' \<mapsto> JBool (gw_allowed r)])))))))))))"
proof -
  have "map_of (read_members (if b then [(''reserve'', ''true'', JBool True)] else []) acc)
      = put b ''reserve'' (JBool True) (map_of acc)" for b acc
    by (simp add: read_members_def put_def update_conv' answer_keys del: list.map(2))
  then show ?thesis
    unfolding response_reads_def read_members_app
    by (simp add: read_members_app read_members_Cons read_put answer_keys del: list.map(2))
qed

lemma response_get:
  fixes r
  defines "doc \<equiv> JObject (read_members (response_reads r) [])"
  shows "get doc ''allowed'' = Some (JBool (gw_allowed r))"
    "get doc ''code'' = (if gw_code r \<noteq> 0 then Some (JNumber (Fin (of_int (gw_code r)))) else None)"
    "get doc ''message'' = (if gw_message r \<noteq> [] then Some (JString (gw_message r)) else None)"
    "get doc ''organization_id'' = (if gw_org r \<noteq> [] then Some (JString (gw_org r)) else None)"
    "get doc ''key_id'' = (if gw_key r \<noteq> [] then Some (JString (gw_key r)) else None)"
    "get doc ''role'' = (if gw_role r \<noteq> [] then Some (JString (gw_role r)) else None)"
    "get doc ''rate_limit_rpm'' = (if gw_rpm r \<noteq> 0 then Some (JNumber (Fin (of_int (gw_rpm r)))) else None)"
    "get doc ''rate_limit_tpm'' = (if gw_tpm r \<noteq> 0 then Some (JNumber (Fin (of_int (gw_tpm r)))) else None)"
    "get doc ''max_concurrent_requests''
       = (if gw_concurrent r \<noteq> 0 then Some (JNumber (Fin (of_int (gw_concurrent r)))) else None)"
    "get doc ''max_output_tokens_per_request''
       = (if gw_output r \<noteq> 0 then Some (JNumber (Fin (of_int (gw_output r)))) else None)"
    "get doc ''owner_user_id'' = (if gw_owner r \<noteq> [] then Some (JString (gw_owner r)) else None)"
    "get doc ''project_id'' = (if gw_project r \<noteq> [] then Some (JString (gw_project r)) else None)"
    "get doc ''reserve'' = (if gw_reserve r then Some (JBool True) else None)"
  by (simp_all add: doc_def response_map)

lemma read_optional:
  "get v k = (if s \<noteq> [] then Some (JString s) else None) \<Longrightarrow> string_or v k = s"
  "get v k = (if n \<noteq> 0 then Some (JNumber (Fin (of_int n))) else None) \<Longrightarrow> answer_number n \<Longrightarrow> int_or v k = n"
  "get v k = Some (JBool b) \<Longrightarrow> bool_or v k = b"
  "get v k = (if b then Some (JBool True) else None) \<Longrightarrow> bool_or v k = b"
  using to_int64_sat_small [of n]
  by (auto simp: string_or_def int_or_def bool_or_def answer_number_def simp del: to_int64_sat.simps split: if_splits)

definition answered_verdict :: "gateway_response \<Rightarrow> verdict" where
  "answered_verdict r =
     \<lparr>v_allowed = gw_allowed r, v_code = gw_code r, v_message = gw_message r, v_organization_id = gw_org r,
      v_key_id = gw_key r, v_role = gw_role r, v_rate_limit_rpm = gw_rpm r, v_rate_limit_tpm = gw_tpm r,
      v_max_concurrent = gw_concurrent r, v_max_output_tokens = gw_output r, v_owner_user_id = gw_owner r,
      v_project_id = gw_project r, v_fetched_at = 0, v_reserve = gw_reserve r\<rparr>"

lemma parse_response:
  assumes "sendable r"
  shows "parse_verdict (response_text r) = Some (answered_verdict r)"
proof -
  have "parse_value (json_fuel (response_text r)) (object_text (response_fields r) @ [CHR 0x0A])
      = Some (JObject (read_members (response_reads r) []), [CHR 0x0A])"
    using reads_response [OF assms, unfolded reads_def, rule_format, of "[CHR 0x0A]" "json_fuel (response_text r)"]
    by (simp add: json_fuel_def response_text_def delim_def num_char_def is_digit_def byte_def)
  then have p: "parse_json (response_text r) = Some (JObject (read_members (response_reads r) []))"
    by (simp add: parse_json_def response_text_def skip_space_def)
  have code: "wrap32 (gw_code r) = gw_code r"
    using assms by (intro wrap32_id) (simp_all add: sendable_def answer_number_def)
  note str = response_get(3,4,5,6,11,12) [THEN read_optional(1)]
    and int = response_get(2,7,8,9,10) [THEN read_optional(2)]
    and bool = response_get(1) [THEN read_optional(3)] response_get(13) [THEN read_optional(4)]
  show ?thesis
    using assms by (simp add: parse_verdict_def p str int bool code answered_verdict_def sendable_def)
qed



text \<open>The plugin reads what the platform answers: the JSON of every answer whose strings are printable
  without HTML-escaped characters and whose numbers are exact in a double parses, in the plugin, to the
  verdict with exactly those fields, omitted members included.\<close>

theorem verdict_roundtrip:
  assumes "sendable r"
  shows "parse_verdict (response_text r) = Some (answered_verdict r)"
  by (rule parse_response [OF assms])

definition demo_answer :: gateway_response where
  "demo_answer = \<lparr>gw_allowed = True, gw_code = 0, gw_message = [], gw_org = ''org-1'', gw_key = ''k1'',
     gw_role = ''agent'', gw_rpm = 60, gw_tpm = 0, gw_concurrent = 4, gw_output = 1024, gw_owner = [],
     gw_project = ''p\"1'', gw_reserve = True\<rparr>"

theorem verdict_roundtrip_witness:
  "parse_verdict (response_text demo_answer) = Some (answered_verdict demo_answer)
   \<and> v_max_output_tokens (answered_verdict demo_answer) = 1024"
  using verdict_roundtrip [of demo_answer]
  by (simp add: sendable_def demo_answer_def safe_char_def answer_number_def byte_def answered_verdict_def)

section \<open>Refusals and outages\<close>

lemma verify_gateway_cases:
  assumes "verify_gateway_key env req sg = (Inr r, sg')"
  obtains (refused) code where "is_verdict_code code" "r = reject_with code"
  | (admitted) q v where "req = Some q" "gw_allowed r"
      "verify_api_key env (gr_digest q) (gr_model q) (with_funds_hint (gr_request q) (gr_max_tokens q)) sg = (Inr v, sg')"
  using assms
  by (auto simp: verify_gateway_key_def is_verdict_code_def split: option.splits if_splits prod.splits sum.splits)

lemma reject_sendable: "is_verdict_code code \<Longrightarrow> sendable (reject_with code)"
  by (auto simp: is_verdict_code_def sendable_def reject_with_def verdict_message_def safe_char_def
      answer_number_def byte_def)

text \<open>C19. Every refusal reaches the caller as theirs: whatever the platform refuses a key for, the plugin
  reads an answer that does not allow the request, with a message and a code it turns into a 401, 402 or
  403, never into a retry.\<close>

theorem refusals_reach_the_caller:
  assumes "verify_gateway_key env req sg = (Inr r, sg')" "\<not> gw_allowed r"
  shows "\<exists>v. parse_verdict (response_text r) = Some v \<and> \<not> v_allowed v \<and> v_message v \<noteq> []
     \<and> fst (rejection (v_code v)) \<in> {401, 402, 403}"
  using assms(1)
proof (cases rule: verify_gateway_cases)
  case (refused code)
  have "answered_verdict r = answered_verdict (reject_with code)" by (simp add: refused(2))
  moreover have "v_message (answered_verdict (reject_with code)) \<noteq> []
      \<and> fst (rejection (v_code (answered_verdict (reject_with code)))) \<in> {401, 402, 403}"
    using refused(1)
    by (auto simp: is_verdict_code_def answered_verdict_def reject_with_def verdict_message_def rejection_def)
  ultimately show ?thesis
    using parse_response [OF reject_sendable [OF refused(1)]] refused(2)
    by (simp add: answered_verdict_def reject_with_def)
qed (use assms(2) in simp)

theorem refusals_reach_the_caller_witness:
  "\<exists>v. parse_verdict (response_text (reject_with 10007)) = Some v \<and> \<not> v_allowed v
     \<and> fst (rejection (v_code v)) \<in> {401, 402, 403}"
proof -
  have ne: "demo_digest \<noteq> []" by (simp add: demo_digest_def)
  have "fst (lookup_verdict (demo_key_env 1 True) demo_digest empty_auth) = Inl 10007"
    "snd (lookup_verdict (demo_key_env 1 True) demo_digest empty_auth) = empty_auth"
    by (simp_all add: lookup_verdict_def cache_get_def demo_key_env_def empty_auth_def find_by_lookup_hash_def)
  then have "verify_api_key (demo_key_env 1 True) demo_digest [] hint (empty_auth, ()) = (Inl 10007, (empty_auth, ()))"
    for hint by (simp add: verify_unfold [OF demo_valid])
  then have v: "verify_gateway_key (demo_key_env 1 True)
      (Some \<lparr>gr_digest = demo_digest, gr_model = [], gr_source_ip = [], gr_request = [], gr_max_tokens = 0\<rparr>) (empty_auth, ())
      = (Inr (reject_with 10007), (empty_auth, ()))"
    using ne by (simp add: verify_gateway_key_def is_verdict_code_def)
  have "\<not> gw_allowed (reject_with 10007)" by (simp add: reject_with_def)
  from refusals_reach_the_caller [OF v this] show ?thesis by blast
qed

text \<open>An outage is never a verdict: when the key of a well-formed request cannot be looked up (the
  cache cannot be read, or misses while the database fails) or its model grant cannot be checked, the
  endpoint answers 503, which the plugin fails closed on; the key tables are untouched.\<close>

theorem outages_answer_503:
  assumes "token_matches presented secret" "read_json_body gateway_max_verify_body body = Inr b" "decode_verify_request b = Some q"
    and "is_valid_digest (gr_digest q)"
    and "\<not> ae_get env \<or> cache_get (ae_now env) (verdicts s) (gr_digest q) = None \<and> \<not> ae_db env
      \<or> (\<exists>v a. fst (lookup_verdict env (gr_digest q) s) = Inr v \<and> in_key_models env (kv_models v) (gr_model q)
           \<and> ae_models env = Some a \<and> gr_model q \<noteq> [] \<and> \<not> ae_mget env \<and> ma_authorized a (gr_model q) (kv_org v) = None)"
  shows "fst (verify_endpoint env secret presented ''POST'' body (s, g))
       = Refusal 503 0 ''key verification unavailable''
     \<and> api_keys (fst (snd (verify_endpoint env secret presented ''POST'' body (s, g)))) = api_keys s"
proof -
  let ?h = "with_funds_hint (gr_request q) (gr_max_tokens q)"
  have "fst (verify_api_key env (gr_digest q) (gr_model q) ?h (s, g)) = Inl 500"
    using assms(5)
    by (auto simp: verify_unfold [OF assms(4)] Let_def check_model_authorization_def)
      (simp_all add: lookup_verdict_def)
  moreover have "gr_digest q \<noteq> []" using assms(4) by (auto simp: is_valid_digest_def)
  moreover have "api_keys (fst (snd (verify_api_key env (gr_digest q) (gr_model q) ?h (s, g)))) = api_keys s"
    by (rule verify_state(1))
  ultimately show ?thesis
    using assms(1-3)
    by (cases "verify_api_key env (gr_digest q) (gr_model q) ?h (s, g)")
      (simp add: verify_endpoint_def verify_gateway_key_def is_verdict_code_def)
qed

definition demo_verify_body :: string where
  "demo_verify_body = ''{\"key_digest\":\"'' @ demo_digest @ ''\"}''"

lemma demo_verify_decodes:
  "decode_verify_request demo_verify_body
    = Some \<lparr>gr_digest = demo_digest, gr_model = [], gr_source_ip = [], gr_request = [], gr_max_tokens = 0\<rparr>"
  by code_simp

theorem outages_answer_503_witness:
  "fst (verify_endpoint ((demo_key_env 1 True)\<lparr>ae_get := False\<rparr>) ''t'' ''t'' ''POST''
      (Some (Some demo_verify_body)) (empty_auth, ())) = Refusal 503 0 ''key verification unavailable''"
proof -
  have "trim_space demo_verify_body \<noteq> []" "length demo_verify_body \<le> gateway_max_verify_body" by code_simp+
  then show ?thesis
    using outages_answer_503 [of "''t''" "''t''" "Some (Some demo_verify_body)" demo_verify_body
        "\<lparr>gr_digest = demo_digest, gr_model = [], gr_source_ip = [], gr_request = [], gr_max_tokens = 0\<rparr>"
        "(demo_key_env 1 True)\<lparr>ae_get := False\<rparr>" empty_auth "()"]
    by (simp add: token_matches_def read_json_body_def demo_verify_decodes demo_valid)
qed

section \<open>An admission reserves its cost\<close>

lemma trim_space_blank: "trim_space s = [] \<longleftrightarrow> list_all is_space s"
proof
  assume "trim_space s = []"
  then obtain w where w: "dropWhile is_space s = w" "\<forall>c\<in>set w. is_space c"
    using trim_right_decomp [of "dropWhile is_space s" is_space] by (auto simp: trim_space_def)
  then have "dropWhile is_space s = []" by (metis hd_dropWhile hd_in_set)
  then show "list_all is_space s" by (simp add: dropWhile_eq_Nil_conv list_all_iff)
next
  assume "list_all is_space s"
  then have "\<forall>c\<in>set s. is_space c" by (simp add: list_all_iff)
  then have "dropWhile is_space s = []" by (simp add: dropWhile_eq_Nil_conv)
  then show "trim_space s = []" by (simp add: trim_space_def trim_right_def del: dropWhile_eq_Nil_conv)
qed

lemma trim_space_kept: "trim_space s \<noteq> [] \<Longrightarrow> trim_space (trim_space s) \<noteq> []"
  using trim_right_last [of is_space "dropWhile is_space s"]
  by (metis last_in_set list_all_iff trim_space_blank trim_space_def)

definition gate_query :: "key_verdict \<Rightarrow> gateway_request \<Rightarrow> funds_query" where
  "gate_query v q = \<lparr>fq_org = trim_space (kv_org v), fq_owner = kv_owner v, fq_project = kv_project v,
     fq_request = trim_space (gr_request q), fq_model = gr_model q,
     fq_max_tokens = clamp_hint v (gr_max_tokens q)\<rparr>"

text \<open>C15. An admitted request holds its cost.  While the billing gate is wired, reservations are on and Redis answers,
  for a request that names itself, with the key of an organization (not the platform's own), a positive
  estimate and scopes without separators: the money then held in every scope that constrains it is within that
  scope's ceiling, and the answer tells the plugin not to reuse the verdict.  (With Redis down the code admits
  on the accrual alone and holds nothing.)\<close>

theorem admitted_request_is_reserved:
  fixes ge d s v q
  defines "e \<equiv> evaluate_funds ge (gate_query v q) 0 d"
  assumes "ae_gate env = Some (billing_gate ge (redis_reserve ttl now True) d)" "ge_reservation ge"
    and "fst (lookup_verdict env (gr_digest q) s) = Inr v" "\<not> kv_system v" "trim_space (kv_org v) \<noteq> []"
    and "trim_space (gr_request q) \<noteq> []" "\<forall>org. holds_ok (h org)" "plain_scopes (fe_bounds e)"
    and "0 < reserve_micros ge (gr_model q) (clamp_hint v (gr_max_tokens q))" "b \<in> set (reservable_bounds e)"
    and "verify_gateway_key env (Some q) (s, h) = (Inr r, (s', h'))" "gw_allowed r"
  shows "gw_reserve r \<and> used (scope b) (h' (trim_space (kv_org v))) \<le> available_micros b"
proof -
  let ?hint = "with_funds_hint (gr_request q) (gr_max_tokens q)"
  have ok: "verify_api_key env (gr_digest q) (gr_model q) ?hint (s, h) = (Inr v, (s', h'))"
    using assms(12,13) verify_accepts(1) [of env "gr_digest q" "gr_model q" ?hint s h _ "(s', h')"] assms(4)
    by (auto simp: verify_gateway_key_def reject_with_def split: if_splits prod.splits sum.splits)
  then have "gr_digest q \<noteq> []" using verify_accepts(5) [OF ok] by (auto simp: is_valid_digest_def)
  then have r: "gw_reserve r"
    using assms(2,3,12) ok by (auto simp: verify_gateway_key_def billing_gate_def)
  obtain s2 where "check_inference_funds env ?hint v (gr_model q) (s2, h) = (None, (s', h'))"
    using verify_accepts(4) [OF ok] by blast
  moreover obtain a why h1 where
    ev: "evaluate_admission ge (redis_reserve ttl now True) (gate_query v q) d h = ((a, why), h1)"
    by (metis surj_pair)
  ultimately have "a" "h1 = h'"
    using assms(2,3,5-7)
    by (simp_all add: check_inference_funds_def billing_gate_def check_inference_allowed_def with_funds_hint_def
        gate_query_def Let_def split: if_splits)
  with ev have "evaluate_admission ge (redis_reserve ttl now True) (gate_query v q) d h = ((True, why), h')" by simp
  then have "used (scope b) (h' (fq_org (gate_query v q))) \<le> available_micros b"
    by (rule redis.admission_fits [OF assms(8), rotated 7])
      (use assms(3,6,7,9-11) trim_space_kept in
        \<open>simp_all add: gate_query_def e_def redis_reserve_def split_beta\<close>)
  with r show ?thesis by (simp add: gate_query_def)
qed

definition demo_gate_env :: "(string \<Rightarrow> org_holds) auth_env" where
  "demo_gate_env = \<lparr>ae_now = 10, ae_db = True, ae_get = True, ae_set = True, ae_del = True, ae_mget = True,
     ae_mset = True, ae_argon = (\<lambda>d salt. salt @ d), ae_ttl = 300, ae_model_ttl = 5, ae_quota = None,
     ae_org_quota = None, ae_models = None,
     ae_gate = Some (billing_gate demo_gate (redis_reserve 600000 1 True) demo_open)\<rparr>"

definition demo_ask :: gateway_request where
  "demo_ask = \<lparr>gr_digest = demo_digest, gr_model = ''m'', gr_source_ip = [], gr_request = ''r'', gr_max_tokens = 500000\<rparr>"

definition demo_verdict :: key_verdict where
  "demo_verdict = \<lparr>kv_org = ''o'', kv_key = ''k1'', kv_role = ''agent'', kv_rpm = 0, kv_tpm = 0, kv_concurrent = 0,
     kv_output = 0, kv_models = [''m''], kv_owner = ''u'', kv_project = [], kv_system = False\<rparr>"

lemma demo_key_cached: "lookup_verdict demo_gate_env demo_digest demo_auth = (Inr demo_verdict, demo_auth)"
proof -
  have "verdict_of (demo_key_env 2 True) demo_key = demo_verdict"
    by (simp add: verdict_of_def demo_key_def demo_verdict_def deref_def effective_hot_path_caps_def demo_key_env_def)
  then show ?thesis by (simp add: lookup_verdict_def demo_gate_env_def demo_auth_def cache_get_def)
qed

lemma demo_ask_facts:
  "trim_space ''o'' = ''o''" "trim_space ''r'' = ''r''"
  "reserve_micros demo_gate ''m'' (clamp_hint demo_verdict 500000) = 4500000"
  "reservable_bounds (evaluate_funds demo_gate (gate_query demo_verdict demo_ask) 0 demo_open)
     = [\<lparr>scope = [], available_micros = 5000000\<rparr>]"
  "fe_bounds (evaluate_funds demo_gate (gate_query demo_verdict demo_ask) 0 demo_open)
     = [\<lparr>scope = [], available_micros = 5000000\<rparr>]"
  "fst (evaluate_admission demo_gate (redis_reserve 600000 1 True) (gate_query demo_verdict demo_ask) demo_open
     no_org_holds) = (True, [])"
  by code_simp+

theorem admitted_request_is_reserved_witness:
  "\<exists>r s' h'. verify_gateway_key demo_gate_env (Some demo_ask) (demo_auth, no_org_holds) = (Inr r, (s', h'))
     \<and> gw_reserve r \<and> used [] (h' ''o'') \<le> 5000000"
proof -
  have gate: "ae_gate demo_gate_env = Some (billing_gate demo_gate (redis_reserve 600000 1 True) demo_open)"
    and res: "ge_reservation demo_gate"
    by (simp_all add: demo_gate_env_def demo_gate_def)
  obtain why h' where ev: "evaluate_admission demo_gate (redis_reserve 600000 1 True)
      (gate_query demo_verdict demo_ask) demo_open no_org_holds = ((True, why), h')"
    using demo_ask_facts(6) by (metis prod.collapse)
  have ask: "gr_digest demo_ask = demo_digest" "gr_model demo_ask = ''m''" "gr_request demo_ask = ''r''"
    "gr_max_tokens demo_ask = 500000" and v: "kv_org demo_verdict = ''o''" "\<not> kv_system demo_verdict"
    by (simp_all add: demo_ask_def demo_verdict_def)
  have model: "in_key_models demo_gate_env (kv_models demo_verdict) ''m''"
    "check_model_authorization demo_gate_env ''m'' ''o'' demo_auth = (None, demo_auth)"
    by (simp_all add: in_key_models_def demo_gate_env_def demo_verdict_def demo_trims check_model_authorization_def)
  have "check_inference_funds demo_gate_env (with_funds_hint ''r'' 500000) demo_verdict ''m'' (demo_auth, no_org_holds)
      = (None, (demo_auth, h'))"
    using ev gate res v demo_ask_facts(1,2)
    by (simp add: check_inference_funds_def billing_gate_def check_inference_allowed_def with_funds_hint_def
        gate_query_def ask Let_def)
  then have "verify_api_key demo_gate_env demo_digest ''m'' (with_funds_hint ''r'' 500000) (demo_auth, no_org_holds)
      = (Inr demo_verdict, (demo_auth, h'))"
    using model v by (simp add: verify_unfold [OF demo_valid] demo_key_cached)
  moreover have "demo_digest \<noteq> []" by (simp add: demo_digest_def)
  ultimately obtain r where r: "verify_gateway_key demo_gate_env (Some demo_ask) (demo_auth, no_org_holds)
      = (Inr r, (demo_auth, h'))" "gw_allowed r"
    by (simp add: verify_gateway_key_def ask)
  have "gw_reserve r \<and> used (scope \<lparr>scope = [], available_micros = 5000000\<rparr>) (h' (trim_space (kv_org demo_verdict)))
      \<le> available_micros \<lparr>scope = [], available_micros = 5000000\<rparr>"
    by (rule admitted_request_is_reserved [OF gate res _ v(2) _ _ no_org_holds_ok _ _ _ r])
      (simp_all add: ask v demo_key_cached demo_ask_facts plain_scopes_def)
  then show ?thesis using r v demo_ask_facts(1) by auto
qed

end
