(* ===== verification/Metering.thy ===== *)
theory Metering
  imports GatewayJson
begin

text \<open>
  Metering (\<open>services/metering\<close>): the usage event of the queue, its consumer
  (\<open>event_consumer.go\<close>, \<open>service.go\<close>), the three tables (\<open>metering_model.go\<close>,
  \<open>metering_repository.go\<close>), the hourly settlement (\<open>settlement_runner.go\<close>) and the retention passes
  (\<open>retention_runner.go\<close>, \<open>request_log_retention_runner.go\<close>).

  \<open>metering_db\<close> is the tables as lists in insertion order, an operation one database transaction.
  Times the code keeps with sub-second resolution (row creation, cutoffs, the clock) are nanoseconds,
  the completion time of an event is unix seconds as in the event.  Generated ids are arguments, and so
  is whether the database answers: an unreachable database is the error branch that makes the broker
  deliver again.  A selected sum is an integer of any size in the database and must fit 64 bits to be
  scanned.
\<close>

section \<open>Events and tables\<close>

record usage_event =
  ev_request :: string
  ev_org :: string
  ev_key :: string
  ev_owner :: string
  ev_project :: string
  ev_model :: string
  ev_service :: string
  ev_prompt :: int
  ev_completion :: int
  ev_cached :: int
  ev_reasoning :: int
  ev_completed_at :: int
  ev_latency_ms :: int
  ev_status :: string
  ev_error :: string
  ev_ttft_ms :: int
  ev_generation_ms :: int

record voucher =
  vo_id :: string
  vo_request :: string
  vo_org :: string
  vo_key :: string
  vo_owner :: "string option"
  vo_project :: "string option"
  vo_model :: string
  vo_service :: "string option"
  vo_prompt :: int
  vo_completion :: int
  vo_cached :: int
  vo_reasoning :: int
  vo_completed_at :: int
  vo_created_at :: int
  vo_settled :: "string option"

record usage_record =
  ur_id :: string
  ur_org :: string
  ur_key :: string
  ur_owner :: "string option"
  ur_project :: "string option"
  ur_period_start :: int
  ur_period_end :: int
  ur_prompt :: int
  ur_completion :: int
  ur_cached :: int
  ur_reasoning :: int
  ur_requests :: int
  ur_settled_at :: int
  ur_published :: bool

record log_row =
  lr_id :: string
  lr_request :: string
  lr_org :: string
  lr_key :: string
  lr_owner :: "string option"
  lr_project :: "string option"
  lr_model :: string
  lr_service :: "string option"
  lr_prompt :: int
  lr_completion :: int
  lr_cached :: int
  lr_reasoning :: int
  lr_latency_ms :: int
  lr_status :: string
  lr_error :: string
  lr_created_at :: int

record metering_db =
  vouchers :: "voucher list"
  usage_records :: "usage_record list"
  log_rows :: "log_row list"

datatype metering_error = EventInvalid | VoucherError | VoucherNotFound | UsageUnrecorded

definition empty_metering :: metering_db where
  "empty_metering = \<lparr>vouchers = [], usage_records = [], log_rows = []\<rparr>"

definition nanos :: "int \<Rightarrow> int" where
  "nanos seconds = seconds * 1000000000"

definition optional_id :: "string \<Rightarrow> string option" where
  "optional_id v = (if v = [] then None else Some v)"

section \<open>Ingestion\<close>

definition is_blank :: "string \<Rightarrow> bool" where
  "is_blank s = (trim_space s = [])"

definition validate_event :: "usage_event \<Rightarrow> bool" where
  "validate_event ev =
     (\<not> is_blank (ev_request ev) \<and> length (ev_request ev) \<le> 128
      \<and> \<not> is_blank (ev_org ev) \<and> length (ev_org ev) \<le> 64
      \<and> \<not> is_blank (ev_key ev) \<and> length (ev_key ev) \<le> 64
      \<and> length (ev_owner ev) \<le> 64 \<and> length (ev_project ev) \<le> 64
      \<and> \<not> is_blank (ev_model ev) \<and> length (ev_model ev) \<le> 128
      \<and> length (ev_service ev) \<le> 64
      \<and> 0 \<le> ev_prompt ev \<and> 0 \<le> ev_completion ev \<and> 0 \<le> ev_cached ev \<and> 0 \<le> ev_reasoning ev
      \<and> 0 < ev_completed_at ev)"

definition find_voucher :: "string \<Rightarrow> metering_db \<Rightarrow> voucher option" where
  "find_voucher request d = find (\<lambda>v. vo_request v = request) (vouchers d)"

definition ingest_voucher :: "bool \<Rightarrow> voucher \<Rightarrow> metering_db \<Rightarrow> metering_error + (voucher \<times> metering_db)" where
  "ingest_voucher up v d =
     (if \<not> up then Inl VoucherError
      else if \<exists>w\<in>set (vouchers d). vo_request w = vo_request v \<or> vo_id w = vo_id v
      then (case find_voucher (vo_request v) d of
              None \<Rightarrow> Inl VoucherNotFound
            | Some w \<Rightarrow> Inr (w, d))
      else Inr (v, d\<lparr>vouchers := vouchers d @ [v]\<rparr>))"

text \<open>The log write is best effort: an error of the database is logged and changes nothing.\<close>

definition ingest_request_log :: "bool \<Rightarrow> log_row \<Rightarrow> metering_db \<Rightarrow> metering_db" where
  "ingest_request_log up l d =
     (if \<not> up \<or> (\<exists>m\<in>set (log_rows d). lr_request m = lr_request l \<or> lr_id m = lr_id l) then d
      else d\<lparr>log_rows := log_rows d @ [l]\<rparr>)"

text \<open>What one delivery meets: the ids it would use, the clock and whether each write succeeds.\<close>

record delivery =
  dl_voucher_id :: string
  dl_log_id :: string
  dl_now :: int
  dl_up :: bool
  dl_log_up :: bool

definition voucher_of :: "delivery \<Rightarrow> usage_event \<Rightarrow> voucher" where
  "voucher_of dl ev =
     \<lparr>vo_id = dl_voucher_id dl, vo_request = ev_request ev, vo_org = ev_org ev, vo_key = ev_key ev,
      vo_owner = optional_id (ev_owner ev), vo_project = optional_id (ev_project ev),
      vo_model = ev_model ev, vo_service = optional_id (ev_service ev),
      vo_prompt = ev_prompt ev, vo_completion = ev_completion ev, vo_cached = ev_cached ev,
      vo_reasoning = ev_reasoning ev, vo_completed_at = ev_completed_at ev,
      vo_created_at = dl_now dl, vo_settled = None\<rparr>"

definition log_of :: "delivery \<Rightarrow> usage_event \<Rightarrow> log_row" where
  "log_of dl ev =
     \<lparr>lr_id = dl_log_id dl, lr_request = ev_request ev, lr_org = ev_org ev, lr_key = ev_key ev,
      lr_owner = optional_id (ev_owner ev), lr_project = optional_id (ev_project ev),
      lr_model = ev_model ev, lr_service = optional_id (ev_service ev),
      lr_prompt = ev_prompt ev, lr_completion = ev_completion ev, lr_cached = ev_cached ev,
      lr_reasoning = ev_reasoning ev, lr_latency_ms = ev_latency_ms ev,
      lr_status = (if ev_status ev = [] then ''success'' else ev_status ev), lr_error = ev_error ev,
      lr_created_at = nanos (ev_completed_at ev)\<rparr>"

definition handle_event ::
  "delivery \<Rightarrow> usage_event \<Rightarrow> metering_db \<Rightarrow> metering_error + (string \<times> metering_db)" where
  "handle_event dl ev d =
     (if \<not> validate_event ev then Inl EventInvalid
      else case ingest_voucher (dl_up dl) (voucher_of dl ev) d of
        Inl e \<Rightarrow> Inl e
      | Inr (v, d') \<Rightarrow> Inr (vo_id v, ingest_request_log (dl_log_up dl) (log_of dl ev) d'))"

text \<open>
  One delivery to the consumer: \<open>None\<close> is a body that does not decode.  The flag is the acknowledgement;
  a delivery that is not acknowledged comes again.
\<close>

definition consume :: "delivery \<Rightarrow> usage_event option \<Rightarrow> metering_db \<Rightarrow> bool \<times> metering_db" where
  "consume dl m d =
     (case m of
        None \<Rightarrow> (True, d)
      | Some ev \<Rightarrow>
          (case handle_event dl ev d of
             Inl e \<Rightarrow> (e = EventInvalid, d)
           | Inr (vid, d') \<Rightarrow> (True, d')))"

section \<open>Settlement\<close>

record hour_bucket =
  hb_key :: string
  hb_org :: string
  hb_period_start :: int
  hb_owner :: "string option"
  hb_project :: "string option"

definition in_bucket :: "string \<Rightarrow> int \<Rightarrow> voucher \<Rightarrow> bool" where
  "in_bucket key start v =
     (vo_key v = key \<and> start \<le> vo_completed_at v \<and> vo_completed_at v < start + 3600 \<and> vo_settled v = None)"

definition total :: "('r \<Rightarrow> int) \<Rightarrow> 'r list \<Rightarrow> int" where
  "total f rs = sum_list (map f rs)"

definition record_of :: "string \<Rightarrow> hour_bucket \<Rightarrow> int \<Rightarrow> voucher list \<Rightarrow> usage_record" where
  "record_of rid b now vs =
     \<lparr>ur_id = rid, ur_org = hb_org b, ur_key = hb_key b, ur_owner = hb_owner b, ur_project = hb_project b,
      ur_period_start = hb_period_start b, ur_period_end = hb_period_start b + 3600,
      ur_prompt = total vo_prompt vs, ur_completion = total vo_completion vs,
      ur_cached = total vo_cached vs, ur_reasoning = total vo_reasoning vs,
      ur_requests = int (length vs), ur_settled_at = now, ur_published = False\<rparr>"

definition link_vouchers :: "string \<Rightarrow> hour_bucket \<Rightarrow> metering_db \<Rightarrow> metering_db" where
  "link_vouchers rid b d = d\<lparr>vouchers := map (\<lambda>v. if in_bucket (hb_key b) (hb_period_start b) v
     then v\<lparr>vo_settled := Some rid\<rparr> else v) (vouchers d)\<rparr>"

definition settle_bucket ::
  "string \<Rightarrow> bool \<Rightarrow> hour_bucket \<Rightarrow> int \<Rightarrow> metering_db \<Rightarrow> metering_error + (usage_record option \<times> metering_db)" where
  "settle_bucket rid up b now d =
     (let vs = filter (in_bucket (hb_key b) (hb_period_start b)) (vouchers d); rec = record_of rid b now vs in
      if \<not> up \<or> \<not> (in_int64 (ur_prompt rec) \<and> in_int64 (ur_completion rec) \<and> in_int64 (ur_cached rec)
           \<and> in_int64 (ur_reasoning rec)) then Inl VoucherError
      else if vs = [] then Inr (None, d)
      else if \<exists>r\<in>set (usage_records d).
           ur_id r = rid \<or> ur_key r = hb_key b \<and> ur_period_start r = hb_period_start b
      then (case find (\<lambda>r. ur_key r = hb_key b \<and> ur_period_start r = hb_period_start b) (usage_records d) of
              None \<Rightarrow> Inl VoucherError
            | Some r \<Rightarrow> Inr (Some r, link_vouchers (ur_id r) b d))
      else Inr (Some rec, link_vouchers rid b (d\<lparr>usage_records := usage_records d @ [rec]\<rparr>)))"

definition unsettled_vouchers :: "int \<Rightarrow> metering_db \<Rightarrow> voucher list" where
  "unsettled_vouchers before d =
     filter (\<lambda>v. vo_settled v = None \<and> nanos (vo_completed_at v) < before) (vouchers d)"

text \<open>The decimal digits of the hour, most significant first; nothing for a negative number.\<close>

function bucket_digits :: "int \<Rightarrow> string \<Rightarrow> string" where
  "bucket_digits v acc =
     (if 0 < v then bucket_digits (v div 10) (digit_char (nat (v mod 10)) # acc) else acc)"
  by pat_completeness auto

termination by (relation "measure (\<lambda>(v, acc). nat v)") auto

declare bucket_digits.simps [simp del]

definition format_bucket_start :: "int \<Rightarrow> string" where
  "format_bucket_start v = (if v = 0 then ''0'' else bucket_digits v [])"

definition hour_start :: "int \<Rightarrow> int" where
  "hour_start t = (if 0 \<le> t then t div 3600 * 3600 else - ((- t) div 3600 * 3600))"

definition bucket_of :: "voucher \<Rightarrow> hour_bucket" where
  "bucket_of v = \<lparr>hb_key = vo_key v, hb_org = vo_org v, hb_period_start = hour_start (vo_completed_at v),
     hb_owner = vo_owner v, hb_project = vo_project v\<rparr>"

definition bucket_key :: "hour_bucket \<Rightarrow> string" where
  "bucket_key b = hb_key b @ ''|'' @ format_bucket_start (hb_period_start b)"

text \<open>The first voucher of a bucket key gives the bucket its organization and attribution.\<close>

fun add_bucket :: "hour_bucket \<Rightarrow> hour_bucket list \<Rightarrow> hour_bucket list" where
  "add_bucket b bs = (if bucket_key b \<in> bucket_key ` set bs then bs else bs @ [b])"

definition due_buckets :: "int \<Rightarrow> int \<Rightarrow> metering_db \<Rightarrow> hour_bucket list" where
  "due_buckets grace now d =
     foldl (\<lambda>bs v. add_bucket (bucket_of v) bs) []
       (filter (\<lambda>v. \<not> now div 1000000000 < hour_start (vo_completed_at v) + 3600 + grace)
          (unsettled_vouchers now d))"

text \<open>
  The workers settle the buckets of a pass in some order; each bucket is its own transaction on its own
  rows.  \<open>sp_order\<close> is that order, \<open>sp_record_id\<close> the generated id, the others tell which calls succeed.
\<close>

record settle_pass =
  sp_now :: int
  sp_grace :: int
  sp_up :: bool
  sp_order :: "hour_bucket list \<Rightarrow> hour_bucket list"
  sp_record_id :: "hour_bucket \<Rightarrow> string"
  sp_bucket_up :: "hour_bucket \<Rightarrow> bool"
  sp_publish :: "usage_record \<Rightarrow> bool"
  sp_mark :: "usage_record \<Rightarrow> bool"

fun settle_all :: "settle_pass \<Rightarrow> hour_bucket list \<Rightarrow> metering_db \<Rightarrow> metering_db" where
  "settle_all sp [] d = d"
| "settle_all sp (b # bs) d =
     settle_all sp bs
       (case settle_bucket (sp_record_id sp b) (sp_bucket_up sp b) b (sp_now sp) d of
          Inl e \<Rightarrow> d
        | Inr (r, d') \<Rightarrow> d')"

record settlement_event =
  se_record_id :: string
  se_key :: string
  se_org :: string
  se_owner :: string
  se_project :: string
  se_period_start :: int
  se_period_end :: int
  se_prompt :: int
  se_completion :: int
  se_cached :: int
  se_reasoning :: int
  se_requests :: int
  se_settled_at :: int

definition deref_id :: "string option \<Rightarrow> string" where
  "deref_id v = opt_or v []"

definition settlement_event_of :: "usage_record \<Rightarrow> settlement_event" where
  "settlement_event_of r =
     \<lparr>se_record_id = ur_id r, se_key = ur_key r, se_org = ur_org r, se_owner = deref_id (ur_owner r),
      se_project = deref_id (ur_project r), se_period_start = ur_period_start r,
      se_period_end = ur_period_end r, se_prompt = ur_prompt r, se_completion = ur_completion r,
      se_cached = ur_cached r, se_reasoning = ur_reasoning r, se_requests = ur_requests r,
      se_settled_at = ur_settled_at r\<rparr>"

definition mark_published :: "string \<Rightarrow> metering_db \<Rightarrow> metering_db" where
  "mark_published rid d = d\<lparr>usage_records := map (\<lambda>r. if ur_id r = rid then r\<lparr>ur_published := True\<rparr> else r)
     (usage_records d)\<rparr>"

fun publish_all :: "settle_pass \<Rightarrow> usage_record list \<Rightarrow> metering_db \<Rightarrow> settlement_event list \<times> metering_db" where
  "publish_all sp [] d = ([], d)"
| "publish_all sp (r # rs) d =
     (if sp_publish sp r
      then (case publish_all sp rs (if sp_mark sp r then mark_published (ur_id r) d else d) of
              (es, d') \<Rightarrow> (settlement_event_of r # es, d'))
      else publish_all sp rs d)"

definition unpublished_records :: "metering_db \<Rightarrow> usage_record list" where
  "unpublished_records d = filter (\<lambda>r. \<not> ur_published r) (usage_records d)"

text \<open>The events a pass puts on the settlements queue, and the tables after it.\<close>

definition settle_once :: "settle_pass \<Rightarrow> metering_db \<Rightarrow> settlement_event list \<times> metering_db" where
  "settle_once sp d =
     (if \<not> sp_up sp then ([], d)
      else let d' = settle_all sp (sp_order sp (due_buckets (sp_grace sp) (sp_now sp) d)) d
           in publish_all sp (unpublished_records d') d')"

section \<open>Retention\<close>

text \<open>
  A batch is selected by \<open>LIMIT\<close>, here in insertion order, and deleted by id.  The answer is the number
  of rows deleted; a database error ends the pass.
\<close>

definition settled_before :: "int \<Rightarrow> voucher \<Rightarrow> bool" where
  "settled_before cutoff v = (vo_settled v \<noteq> None \<and> vo_created_at v < cutoff)"

definition logged_before :: "int \<Rightarrow> log_row \<Rightarrow> bool" where
  "logged_before cutoff l = (lr_created_at l < cutoff)"

definition batch_ids :: "('r \<Rightarrow> string) \<Rightarrow> ('r \<Rightarrow> bool) \<Rightarrow> int \<Rightarrow> 'r list \<Rightarrow> string list" where
  "batch_ids idf dead batch rows = map idf (take (nat (if batch \<le> 0 then 1 else batch)) (filter dead rows))"

definition without :: "('r \<Rightarrow> string) \<Rightarrow> string list \<Rightarrow> 'r list \<Rightarrow> 'r list" where
  "without idf ids rows = filter (\<lambda>r. idf r \<notin> set ids) rows"

definition delete_settled_before :: "int \<Rightarrow> int \<Rightarrow> metering_db \<Rightarrow> int \<times> metering_db" where
  "delete_settled_before cutoff batch d =
     (let kept = without vo_id (batch_ids vo_id (settled_before cutoff) batch (vouchers d)) (vouchers d)
      in (int (length (vouchers d)) - int (length kept), d\<lparr>vouchers := kept\<rparr>))"

definition delete_request_logs_before :: "int \<Rightarrow> int \<Rightarrow> metering_db \<Rightarrow> int \<times> metering_db" where
  "delete_request_logs_before cutoff batch d =
     (let kept = without lr_id (batch_ids lr_id (logged_before cutoff) batch (log_rows d)) (log_rows d)
      in (int (length (log_rows d)) - int (length kept), d\<lparr>log_rows := kept\<rparr>))"

definition count_unsettled_older_than :: "int \<Rightarrow> metering_db \<Rightarrow> int" where
  "count_unsettled_older_than cutoff d =
     int (length (filter (\<lambda>v. vo_settled v = None \<and> vo_created_at v < cutoff) (vouchers d)))"

text \<open>
  The drain loop of both runners: it goes on while a full batch was deleted.  \<open>up i\<close> is whether the
  \<open>i\<close>-th delete reaches the database.  Whether the loop ends is a theorem below, so it is a partial function.
\<close>

partial_function (option) drain ::
  "(int \<Rightarrow> 's \<Rightarrow> int \<times> 's) \<Rightarrow> int \<Rightarrow> (nat \<Rightarrow> bool) \<Rightarrow> nat \<Rightarrow> int \<Rightarrow> 's \<Rightarrow> (int \<times> 's) option" where
  "drain del batch up i deleted s =
     (if \<not> up i then Some (deleted, s)
      else let (n, s') = del batch s in
        if n < batch then Some (deleted + n, s')
        else drain del batch up (Suc i) (deleted + n) s')"

declare drain.simps [code]

definition retention_batch :: "int \<Rightarrow> int" where
  "retention_batch batch_size = (if batch_size \<le> 0 then 1000 else batch_size)"

text \<open>One pass: the number of deleted vouchers, the unsettled ones it warns about, and the tables.\<close>

definition retain_once :: "int \<Rightarrow> int \<Rightarrow> int \<Rightarrow> (nat \<Rightarrow> bool) \<Rightarrow> metering_db \<Rightarrow> (int \<times> int \<times> metering_db) option" where
  "retain_once ttl batch_size now up d =
     (case drain (delete_settled_before (now - ttl)) (retention_batch batch_size) up 0 0 d of
        None \<Rightarrow> None
      | Some (n, d') \<Rightarrow> Some (n, count_unsettled_older_than (now - ttl) d', d'))"

definition retain_logs_once :: "int \<Rightarrow> int \<Rightarrow> int \<Rightarrow> (nat \<Rightarrow> bool) \<Rightarrow> metering_db \<Rightarrow> (int \<times> metering_db) option" where
  "retain_logs_once ttl batch_size now up d =
     drain (delete_request_logs_before (now - ttl)) (retention_batch batch_size) up 0 0 d"

section \<open>Draining in batches\<close>

text \<open>
  What a bounded delete promises: of the rows that should go it removes at most a batch, all of them when
  they fit, and it touches no other row.
\<close>

locale batch_delete =
  fixes del :: "int \<Rightarrow> 's \<Rightarrow> int \<times> 's"
    and rows :: "'s \<Rightarrow> 'r list"
    and dead :: "'r \<Rightarrow> bool"
    and inv :: "'s \<Rightarrow> bool"
  assumes count: "inv s \<Longrightarrow> 0 < n \<Longrightarrow> fst (del n s) = min n (int (length (filter dead (rows s))))"
    and rest: "inv s \<Longrightarrow> 0 < n \<Longrightarrow>
      int (length (filter dead (rows (snd (del n s))))) = int (length (filter dead (rows s))) - fst (del n s)"
    and others: "inv s \<Longrightarrow> 0 < n \<Longrightarrow>
      filter (\<lambda>r. \<not> dead r) (rows (snd (del n s))) = filter (\<lambda>r. \<not> dead r) (rows s)"
    and keeps: "inv s \<Longrightarrow> 0 < n \<Longrightarrow> inv (snd (del n s))"
begin

lemma drain_returns:
  assumes "inv s" "0 < n"
  shows "\<exists>k s'. drain del n up i a s = Some (a + k, s') \<and> inv s' \<and> 0 \<le> k
    \<and> k = int (length (filter dead (rows s))) - int (length (filter dead (rows s')))
    \<and> filter (\<lambda>r. \<not> dead r) (rows s') = filter (\<lambda>r. \<not> dead r) (rows s)
    \<and> ((\<forall>j. up j) \<longrightarrow> filter dead (rows s') = [])"
  using assms(1)
proof (induction "length (filter dead (rows s))" arbitrary: i a s rule: less_induct)
  case less
  obtain m s1 where e: "del n s = (m, s1)" by fastforce
  have m: "m = min n (int (length (filter dead (rows s))))" using count [OF less.prems assms(2)] e by simp
  have l: "int (length (filter dead (rows s1))) = int (length (filter dead (rows s))) - m"
    using rest [OF less.prems assms(2)] e by simp
  have o: "filter (\<lambda>r. \<not> dead r) (rows s1) = filter (\<lambda>r. \<not> dead r) (rows s)"
    using others [OF less.prems assms(2)] e by simp
  have k: "inv s1" using keeps [OF less.prems assms(2)] e by simp
  show ?case
  proof (cases "up i")
    case False
    then show ?thesis using less.prems by (subst drain.simps) auto
  next
    case True
    show ?thesis
    proof (cases "m < n")
      case True
      then have "filter dead (rows s1) = []" using l m by (simp flip: length_0_conv)
      then show ?thesis using True \<open>up i\<close> e m l o k by (subst drain.simps) auto
    next
      case False
      then have "length (filter dead (rows s1)) < length (filter dead (rows s))" using l m assms(2) by linarith
      from less.hyps [OF this k, of "Suc i" "a + m"] obtain k' s' where
        d: "drain del n up (Suc i) (a + m) s1 = Some (a + m + k', s')" and s': "inv s'" "0 \<le> k'"
        "k' = int (length (filter dead (rows s1))) - int (length (filter dead (rows s')))"
        "filter (\<lambda>r. \<not> dead r) (rows s') = filter (\<lambda>r. \<not> dead r) (rows s1)"
        "(\<forall>j. up j) \<longrightarrow> filter dead (rows s') = []" by blast
      have "drain del n up i a s = Some (a + (m + k'), s')"
        using False \<open>up i\<close> e d by (subst drain.simps) (simp add: add.assoc)
      then show ?thesis using s' l o m assms(2) by (intro exI [of _ "m + k'"] exI [of _ s']) simp
    qed
  qed
qed

end

lemma filter_partition: "length (filter P xs) + length (filter (\<lambda>x. \<not> P x) xs) = length xs"
  by (induction xs) auto

lemma filter_not_taken:
  assumes "distinct xs"
  shows "filter (\<lambda>r. r \<notin> set (take n xs)) xs = drop n xs"
proof -
  have d: "set (take n xs) \<inter> set (drop n xs) = {}"
    using assms by (metis append_take_drop_id distinct_append)
  have "filter (\<lambda>r. r \<notin> set (take n xs)) xs
      = filter (\<lambda>r. r \<notin> set (take n xs)) (take n xs) @ filter (\<lambda>r. r \<notin> set (take n xs)) (drop n xs)"
    by (metis append_take_drop_id filter_append)
  also have "\<dots> = drop n xs" using d by (simp add: filter_id_conv disjoint_iff) blast
  finally show ?thesis .
qed

lemma without_batch:
  assumes "distinct (map idf rows)" "0 < n"
  shows "filter (\<lambda>r. \<not> dead r) (without idf (batch_ids idf dead n rows) rows) = filter (\<lambda>r. \<not> dead r) rows"
    and "length (filter dead (without idf (batch_ids idf dead n rows) rows))
      = length (filter dead rows) - nat n"
proof -
  let ?ids = "batch_ids idf dead n rows" and ?ds = "filter dead rows"
  have inj: "inj_on idf (set rows)" using assms(1) by (simp add: distinct_map)
  have in_ids: "idf r \<in> set ?ids \<longleftrightarrow> r \<in> set (take (nat n) ?ds)" if "r \<in> set rows" for r
  proof -
    have "set (take (nat n) ?ds) \<subseteq> set rows" by (auto dest!: in_set_takeD)
    then have "idf r \<in> idf ` set (take (nat n) ?ds) \<longleftrightarrow> r \<in> set (take (nat n) ?ds)"
      using inj_on_image_mem_iff [OF inj that] by blast
    then show ?thesis using assms(2) by (simp add: batch_ids_def)
  qed
  have "filter (\<lambda>r. idf r \<notin> set ?ids \<and> \<not> dead r) rows = filter (\<lambda>r. \<not> dead r) rows"
    by (rule filter_cong [OF refl]) (auto simp: in_ids dest!: in_set_takeD)
  then show "filter (\<lambda>r. \<not> dead r) (without idf ?ids rows) = filter (\<lambda>r. \<not> dead r) rows"
    by (simp add: without_def)
  have "distinct ?ds" using assms(1) by (simp add: distinct_map)
  then have "filter (\<lambda>r. r \<notin> set (take (nat n) ?ds)) ?ds = drop (nat n) ?ds" by (rule filter_not_taken)
  moreover have "filter (\<lambda>r. idf r \<notin> set ?ids \<and> dead r) rows = filter (\<lambda>r. r \<notin> set (take (nat n) ?ds)) ?ds"
    by (simp add: filter_filter) (rule filter_cong [OF refl], auto simp: in_ids)
  ultimately show "length (filter dead (without idf ?ids rows)) = length ?ds - nat n"
    by (simp add: without_def)
qed

lemma without_length:
  assumes "distinct (map idf rows)" "0 < n"
  shows "int (length rows) - int (length (without idf (batch_ids idf dead n rows) rows))
    = min n (int (length (filter dead rows)))"
proof -
  let ?k = "without idf (batch_ids idf dead n rows) rows" and ?a = "length (filter dead rows)"
  have "length rows = ?a + length (filter (\<lambda>r. \<not> dead r) rows)"
    "length ?k = (?a - nat n) + length (filter (\<lambda>r. \<not> dead r) rows)"
    using filter_partition [of dead rows] filter_partition [of dead ?k] without_batch [OF assms, of dead] by simp_all
  then show ?thesis using assms(2) by (simp add: min_def of_nat_diff)
qed

lemma without_distinct: "distinct (map f rows) \<Longrightarrow> distinct (map f (without idf ids rows))"
  by (simp add: without_def distinct_map_filter)

section \<open>Histories\<close>

datatype metering_op =
    Deliver delivery "usage_event option"
  | Settle settle_pass
  | Retain int int int "nat \<Rightarrow> bool"
  | RetainLogs int int int "nat \<Rightarrow> bool"

fun run_metering :: "metering_op \<Rightarrow> metering_db \<Rightarrow> metering_db" where
  "run_metering (Deliver dl m) d = snd (consume dl m d)"
| "run_metering (Settle sp) d = snd (settle_once sp d)"
| "run_metering (Retain ttl n now up) d =
     (case retain_once ttl n now up d of None \<Rightarrow> d | Some (k, w, d') \<Rightarrow> d')"
| "run_metering (RetainLogs ttl n now up) d =
     (case retain_logs_once ttl n now up d of None \<Rightarrow> d | Some (k, d') \<Rightarrow> d')"

text \<open>
  Keys are unique, and a settled voucher points to the record of its key that covers its completion time.
\<close>

definition covers :: "usage_record \<Rightarrow> voucher \<Rightarrow> bool" where
  "covers r v = (ur_key r = vo_key v \<and> ur_period_start r \<le> vo_completed_at v
     \<and> vo_completed_at v < ur_period_start r + 3600)"

definition linked :: "usage_record list \<Rightarrow> voucher \<Rightarrow> bool" where
  "linked rs v = (case vo_settled v of None \<Rightarrow> True
     | Some rid \<Rightarrow> \<exists>r\<in>set rs. ur_id r = rid \<and> covers r v)"

lemma linked_mono: "linked rs v \<Longrightarrow> set rs \<subseteq> set qs \<Longrightarrow> linked qs v"
  by (auto simp: linked_def split: option.splits)

definition metering_ok :: "metering_db \<Rightarrow> bool" where
  "metering_ok d =
     (distinct (map vo_request (vouchers d)) \<and> distinct (map vo_id (vouchers d))
      \<and> distinct (map ur_id (usage_records d))
      \<and> distinct (map (\<lambda>r. (ur_key r, ur_period_start r)) (usage_records d))
      \<and> distinct (map lr_request (log_rows d)) \<and> distinct (map lr_id (log_rows d))
      \<and> list_all (linked (usage_records d)) (vouchers d))"

lemma ingest_voucher_cases:
  assumes "ingest_voucher up v d = Inr (w, d')"
  obtains "d' = d" "w \<in> set (vouchers d)" "vo_request w = vo_request v" "up"
  | "d' = d\<lparr>vouchers := vouchers d @ [v]\<rparr>" "w = v" "up"
      "\<forall>u\<in>set (vouchers d). vo_request u \<noteq> vo_request v \<and> vo_id u \<noteq> vo_id v"
proof (cases "\<exists>u\<in>set (vouchers d). vo_request u = vo_request v \<or> vo_id u = vo_id v")
  case True
  then have "find_voucher (vo_request v) d = Some w" "d' = d" "up"
    using assms by (simp_all add: ingest_voucher_def split: if_splits option.splits)
  then show ?thesis using that(1) by (auto simp: find_voucher_def dest!: find_SomeD)
next
  case False
  then have "d' = d\<lparr>vouchers := vouchers d @ [v]\<rparr>" "w = v" "up"
    using assms by (auto simp: ingest_voucher_def split: if_splits)
  then show ?thesis using False by (intro that(2)) auto
qed

lemma ingest_log_fields [simp]:
  "vouchers (ingest_request_log up l d) = vouchers d"
  "usage_records (ingest_request_log up l d) = usage_records d"
  by (simp_all add: ingest_request_log_def)

lemma link_fields [simp]:
  "usage_records (link_vouchers rid b d) = usage_records d" "log_rows (link_vouchers rid b d) = log_rows d"
  "map vo_request (vouchers (link_vouchers rid b d)) = map vo_request (vouchers d)"
  "map vo_id (vouchers (link_vouchers rid b d)) = map vo_id (vouchers d)"
  by (simp_all add: link_vouchers_def)

lemma ingest_log_ok: "metering_ok d \<Longrightarrow> metering_ok (ingest_request_log up l d)"
  by (auto simp: ingest_request_log_def metering_ok_def linked_def list_all_iff split: option.splits)

lemma ingest_voucher_ok:
  assumes "ingest_voucher up v d = Inr (w, d')" "metering_ok d" "vo_settled v = None"
  shows "metering_ok d'"
  using assms(1)
proof (cases rule: ingest_voucher_cases)
  case 2
  then show ?thesis using assms(2,3) by (auto simp: metering_ok_def list_all_iff linked_def split: option.splits)
qed (use assms in simp)

lemma handle_event_ok:
  "handle_event dl ev d = Inr (vid, d') \<Longrightarrow> metering_ok d \<Longrightarrow> metering_ok d'"
  by (auto simp: handle_event_def voucher_of_def intro!: ingest_log_ok split: if_splits sum.splits
      elim!: ingest_voucher_ok)

lemma link_ok:
  assumes "metering_ok d" "r \<in> set (usage_records d)" "ur_key r = hb_key b" "ur_period_start r = hb_period_start b"
  shows "metering_ok (link_vouchers (ur_id r) b d)"
proof -
  have "linked (usage_records d) v" if v: "v \<in> set (vouchers (link_vouchers (ur_id r) b d))" for v
  proof -
    obtain u where u: "u \<in> set (vouchers d)" "v = (if in_bucket (hb_key b) (hb_period_start b) u
        then u\<lparr>vo_settled := Some (ur_id r)\<rparr> else u)" using v by (auto simp: link_vouchers_def)
    have "linked (usage_records d) u" using assms(1) u(1) by (simp add: metering_ok_def list_all_iff)
    moreover have "covers r v" if "in_bucket (hb_key b) (hb_period_start b) u"
      using that u(2) assms(3,4) by (simp add: covers_def in_bucket_def)
    ultimately show ?thesis using u(2) assms(2) by (cases "in_bucket (hb_key b) (hb_period_start b) u") (auto simp: linked_def)
  qed
  then show ?thesis using assms(1) by (simp add: metering_ok_def list_all_iff)
qed

lemma settle_bucket_cases:
  assumes "settle_bucket rid up b now d = Inr (r, d')"
  obtains "r = None" "d' = d" "filter (in_bucket (hb_key b) (hb_period_start b)) (vouchers d) = []"
  | q where "r = Some q" "q \<in> set (usage_records d)" "ur_key q = hb_key b" "ur_period_start q = hb_period_start b"
      "d' = link_vouchers (ur_id q) b d"
      "filter (in_bucket (hb_key b) (hb_period_start b)) (vouchers d) \<noteq> []"
  | q where "r = Some q" "q = record_of rid b now (filter (in_bucket (hb_key b) (hb_period_start b)) (vouchers d))"
      "\<forall>u\<in>set (usage_records d). ur_id u \<noteq> rid \<and> \<not> (ur_key u = hb_key b \<and> ur_period_start u = hb_period_start b)"
      "d' = link_vouchers rid b (d\<lparr>usage_records := usage_records d @ [q]\<rparr>)"
      "filter (in_bucket (hb_key b) (hb_period_start b)) (vouchers d) \<noteq> []"
proof -
  let ?vs = "filter (in_bucket (hb_key b) (hb_period_start b)) (vouchers d)"
  let ?hit = "\<lambda>r. ur_key r = hb_key b \<and> ur_period_start r = hb_period_start b"
  show ?thesis
  proof (cases "?vs = []")
    case True
    then show ?thesis using assms that(1) by (simp add: settle_bucket_def Let_def split: if_splits)
  next
    case ne: False
    show ?thesis
    proof (cases "\<exists>u\<in>set (usage_records d). ur_id u = rid \<or> ?hit u")
      case True
      then obtain q where q: "find ?hit (usage_records d) = Some q" "r = Some q" "d' = link_vouchers (ur_id q) b d"
        using assms ne by (auto simp: settle_bucket_def Let_def split: if_splits option.splits)
      from find_SomeD [OF q(1)] show ?thesis using q(2,3) ne by (intro that(2)) auto
    next
      case False
      then have "r = Some (record_of rid b now ?vs)"
        "d' = link_vouchers rid b (d\<lparr>usage_records := usage_records d @ [record_of rid b now ?vs]\<rparr>)"
        using assms ne by (auto simp: settle_bucket_def Let_def split: if_splits)
      then show ?thesis using False ne by (intro that(3)) auto
    qed
  qed
qed

lemma settle_bucket_ok:
  assumes "settle_bucket rid up b now d = Inr (r, d')" "metering_ok d"
  shows "metering_ok d'"
  using assms(1)
proof (cases rule: settle_bucket_cases)
  case (2 q)
  then show ?thesis using link_ok [OF assms(2)] by simp
next
  case (3 q)
  let ?d = "d\<lparr>usage_records := usage_records d @ [q]\<rparr>"
  have "metering_ok ?d" using assms(2) 3(2,3)
    by (auto simp: metering_ok_def list_all_iff linked_def record_of_def split: option.splits)
  from link_ok [OF this, of q b] show ?thesis using 3(2,4) by (simp add: record_of_def)
qed (use assms(2) in simp)

lemma settle_all_ok: "metering_ok d \<Longrightarrow> metering_ok (settle_all sp bs d)"
proof (induction sp bs d rule: settle_all.induct)
  case (2 sp b bs d)
  show ?case
    using "2.IH" "2.prems" settle_bucket_ok [OF _ "2.prems"]
    by (cases "settle_bucket (sp_record_id sp b) (sp_bucket_up sp b) b (sp_now sp) d") auto
qed simp

lemma linked_map:
  assumes "\<And>r. ur_id (f r) = ur_id r" "\<And>r. covers (f r) v = covers r v"
  shows "linked (map f rs) v = linked rs v"
  by (simp add: linked_def assms split: option.splits)

definition publish_mark :: "string \<Rightarrow> usage_record \<Rightarrow> usage_record" where
  "publish_mark rid r = (if ur_id r = rid then r\<lparr>ur_published := True\<rparr> else r)"

lemma publish_mark_fields [simp]:
  "ur_id (publish_mark rid r) = ur_id r" "ur_key (publish_mark rid r) = ur_key r"
  "ur_period_start (publish_mark rid r) = ur_period_start r" "covers (publish_mark rid r) v = covers r v"
  by (simp_all add: publish_mark_def covers_def)

lemma mark_published_ok: "metering_ok d \<Longrightarrow> metering_ok (mark_published rid d)"
proof -
  have "mark_published rid d = d\<lparr>usage_records := map (publish_mark rid) (usage_records d)\<rparr>"
    by (simp add: mark_published_def publish_mark_def)
  moreover have "linked (map (publish_mark rid) rs) = linked rs" for rs
    by (rule ext, rule linked_map) simp_all
  ultimately show "metering_ok d \<Longrightarrow> ?thesis" by (simp add: metering_ok_def o_def)
qed

lemma publish_all_ok: "metering_ok d \<Longrightarrow> metering_ok (snd (publish_all sp rs d))"
  by (induction sp rs d rule: publish_all.induct) (auto simp: mark_published_ok split: prod.splits)

lemma settle_once_ok: "metering_ok d \<Longrightarrow> metering_ok (snd (settle_once sp d))"
  by (simp add: settle_once_def Let_def publish_all_ok settle_all_ok)

section \<open>Retention passes\<close>

lemma without_subset: "set (without idf ids rows) \<subseteq> set rows"
  by (auto simp: without_def)

lemma delete_settled_ok: "metering_ok d \<Longrightarrow> metering_ok (snd (delete_settled_before cutoff n d))"
  by (simp add: metering_ok_def delete_settled_before_def Let_def without_distinct)
    (auto simp: list_all_iff dest: subsetD [OF without_subset])

lemma delete_logs_ok: "metering_ok d \<Longrightarrow> metering_ok (snd (delete_request_logs_before cutoff n d))"
  by (simp add: metering_ok_def delete_request_logs_before_def Let_def without_distinct)

interpretation old_vouchers: batch_delete "delete_settled_before cutoff" vouchers "settled_before cutoff"
  "\<lambda>d. metering_ok d \<and> usage_records d = rs \<and> log_rows d = ls" for cutoff rs ls
proof unfold_locales
  fix s :: metering_db and n :: int
  assume s: "metering_ok s \<and> usage_records s = rs \<and> log_rows s = ls" and n: "0 < n"
  then have d: "distinct (map vo_id (vouchers s))" by (simp add: metering_ok_def)
  show "metering_ok (snd (delete_settled_before cutoff n s))
      \<and> usage_records (snd (delete_settled_before cutoff n s)) = rs \<and> log_rows (snd (delete_settled_before cutoff n s)) = ls"
    using s delete_settled_ok by (simp add: delete_settled_before_def Let_def)
qed (simp_all add: metering_ok_def delete_settled_before_def Let_def without_batch without_length min_def of_nat_diff)

interpretation old_logs: batch_delete "delete_request_logs_before cutoff" log_rows "logged_before cutoff"
  "\<lambda>d. metering_ok d \<and> usage_records d = rs \<and> vouchers d = vs" for cutoff rs vs
proof unfold_locales
  fix s :: metering_db and n :: int
  assume s: "metering_ok s \<and> usage_records s = rs \<and> vouchers s = vs" and n: "0 < n"
  show "metering_ok (snd (delete_request_logs_before cutoff n s))
      \<and> usage_records (snd (delete_request_logs_before cutoff n s)) = rs \<and> vouchers (snd (delete_request_logs_before cutoff n s)) = vs"
    using s delete_logs_ok by (simp add: delete_request_logs_before_def Let_def)
qed (simp_all add: metering_ok_def delete_request_logs_before_def Let_def without_batch without_length min_def of_nat_diff)

lemma retention_batch_pos: "0 < retention_batch n"
  by (simp add: retention_batch_def)

lemma retain_once_returns:
  assumes "metering_ok d"
  shows "\<exists>n d'. retain_once ttl bs now up d = Some (n, count_unsettled_older_than (now - ttl) d', d')
    \<and> metering_ok d' \<and> usage_records d' = usage_records d \<and> log_rows d' = log_rows d
    \<and> filter (\<lambda>v. \<not> settled_before (now - ttl) v) (vouchers d') = filter (\<lambda>v. \<not> settled_before (now - ttl) v) (vouchers d)
    \<and> n = int (length (filter (settled_before (now - ttl)) (vouchers d)))
        - int (length (filter (settled_before (now - ttl)) (vouchers d')))
    \<and> ((\<forall>i. up i) \<longrightarrow> filter (settled_before (now - ttl)) (vouchers d') = [])"
  using old_vouchers.drain_returns [of d "usage_records d" "log_rows d" "retention_batch bs" "now - ttl" up 0 0]
    assms retention_batch_pos by (auto simp: retain_once_def)

lemma retain_logs_returns:
  assumes "metering_ok d"
  shows "\<exists>n d'. retain_logs_once ttl bs now up d = Some (n, d') \<and> metering_ok d'
    \<and> usage_records d' = usage_records d \<and> vouchers d' = vouchers d"
  using old_logs.drain_returns [of d "usage_records d" "vouchers d" "retention_batch bs" "now - ttl" up 0 0]
    assms retention_batch_pos by (auto simp: retain_logs_once_def)

lemma run_metering_ok: "metering_ok d \<Longrightarrow> metering_ok (run_metering p d)"
proof (cases p)
  case (Deliver dl m)
  then show "metering_ok d \<Longrightarrow> ?thesis"
    by (auto simp: consume_def dest: handle_event_ok split: option.splits sum.splits)
next
  case (Settle sp)
  then show "metering_ok d \<Longrightarrow> ?thesis" by (simp add: settle_once_ok)
next
  case (Retain ttl bs now up)
  then show "metering_ok d \<Longrightarrow> ?thesis" using retain_once_returns [of d ttl bs now up] by auto
next
  case (RetainLogs ttl bs now up)
  then show "metering_ok d \<Longrightarrow> ?thesis" using retain_logs_returns [of d ttl bs now up] by auto
qed

definition run_meterings :: "metering_op list \<Rightarrow> metering_db \<Rightarrow> metering_db" where
  "run_meterings ps d = fold run_metering ps d"

lemma empty_metering_ok: "metering_ok empty_metering"
  by (simp add: metering_ok_def empty_metering_def)

lemma run_meterings_ok: "metering_ok d \<Longrightarrow> metering_ok (run_meterings ps d)"
  unfolding run_meterings_def by (induction ps arbitrary: d) (simp_all add: run_metering_ok)

lemma filter_rest: "filter P xs = [] \<Longrightarrow> filter (\<lambda>x. \<not> P x) xs = xs"
  by (induction xs) (auto split: if_splits)

text \<open>The retention pass ends, whatever the batch size is configured to and whichever delete fails:
  it removes settled vouchers that are older than the time to live and nothing else, and when the
  database answers throughout it removes every one of them and reports their number.\<close>
theorem retention_pass_ends:
  assumes "metering_ok d"
  shows "\<exists>n w d'. retain_once ttl bs now up d = Some (n, w, d')
    \<and> usage_records d' = usage_records d
    \<and> filter (\<lambda>v. \<not> settled_before (now - ttl) v) (vouchers d') = filter (\<lambda>v. \<not> settled_before (now - ttl) v) (vouchers d)
    \<and> ((\<forall>i. up i) \<longrightarrow> vouchers d' = filter (\<lambda>v. \<not> settled_before (now - ttl) v) (vouchers d)
         \<and> n = int (length (filter (settled_before (now - ttl)) (vouchers d))))"
proof -
  obtain n d' where r: "retain_once ttl bs now up d = Some (n, count_unsettled_older_than (now - ttl) d', d')"
    "usage_records d' = usage_records d"
    "filter (\<lambda>v. \<not> settled_before (now - ttl) v) (vouchers d') = filter (\<lambda>v. \<not> settled_before (now - ttl) v) (vouchers d)"
    "n = int (length (filter (settled_before (now - ttl)) (vouchers d)))
        - int (length (filter (settled_before (now - ttl)) (vouchers d')))"
    "(\<forall>i. up i) \<longrightarrow> filter (settled_before (now - ttl)) (vouchers d') = []"
    using retain_once_returns [OF assms, of ttl bs now up] by (elim exE conjE)
  have "vouchers d' = filter (\<lambda>v. \<not> settled_before (now - ttl) v) (vouchers d)
      \<and> n = int (length (filter (settled_before (now - ttl)) (vouchers d)))" if "\<forall>i. up i"
    using filter_rest [of "settled_before (now - ttl)" "vouchers d'"] r(3-5) that by simp
  with r(1-3) show ?thesis by blast
qed

section \<open>No usage is lost or counted twice\<close>

datatype quantity = PromptTokens | CompletionTokens | CachedTokens | ReasoningTokens | RequestCount

fun event_quantity :: "quantity \<Rightarrow> usage_event \<Rightarrow> int" where
  "event_quantity PromptTokens ev = ev_prompt ev"
| "event_quantity CompletionTokens ev = ev_completion ev"
| "event_quantity CachedTokens ev = ev_cached ev"
| "event_quantity ReasoningTokens ev = ev_reasoning ev"
| "event_quantity RequestCount ev = 1"

fun voucher_quantity :: "quantity \<Rightarrow> voucher \<Rightarrow> int" where
  "voucher_quantity PromptTokens v = vo_prompt v"
| "voucher_quantity CompletionTokens v = vo_completion v"
| "voucher_quantity CachedTokens v = vo_cached v"
| "voucher_quantity ReasoningTokens v = vo_reasoning v"
| "voucher_quantity RequestCount v = 1"

fun record_quantity :: "quantity \<Rightarrow> usage_record \<Rightarrow> int" where
  "record_quantity PromptTokens r = ur_prompt r"
| "record_quantity CompletionTokens r = ur_completion r"
| "record_quantity CachedTokens r = ur_cached r"
| "record_quantity ReasoningTokens r = ur_reasoning r"
| "record_quantity RequestCount r = ur_requests r"

text \<open>What is booked for a key and the hour that begins at a second: its records of that hour and what is pending for it.\<close>

definition in_hour :: "int \<Rightarrow> int \<Rightarrow> bool" where
  "in_hour hour t = (hour \<le> t \<and> t < hour + 3600)"

definition pending :: "string \<Rightarrow> int \<Rightarrow> voucher \<Rightarrow> bool" where
  "pending key hour v = (vo_key v = key \<and> in_hour hour (vo_completed_at v) \<and> vo_settled v = None)"

definition booked :: "quantity \<Rightarrow> string \<Rightarrow> int \<Rightarrow> metering_db \<Rightarrow> int" where
  "booked k key hour d =
     total (record_quantity k) (filter (\<lambda>r. ur_key r = key \<and> ur_period_start r = hour) (usage_records d))
     + total (voucher_quantity k) (filter (pending key hour) (vouchers d))"

text \<open>The events of a history that were stored: valid, delivered to a live database, first of their request.\<close>

definition fresh_for :: "delivery \<Rightarrow> usage_event \<Rightarrow> metering_db \<Rightarrow> bool" where
  "fresh_for dl ev d = list_all (\<lambda>w. vo_request w \<noteq> ev_request ev \<and> vo_id w \<noteq> dl_voucher_id dl) (vouchers d)"

fun stored_events :: "metering_op list \<Rightarrow> metering_db \<Rightarrow> usage_event list" where
  "stored_events [] d = []"
| "stored_events (p # ps) d =
     (case p of
        Deliver dl (Some ev) \<Rightarrow> if validate_event ev \<and> dl_up dl \<and> fresh_for dl ev d then [ev] else []
      | _ \<Rightarrow> []) @ stored_events ps (run_metering p d)"

text \<open>No event arrives after the record of its hour was written.\<close>

fun punctual :: "metering_op list \<Rightarrow> metering_db \<Rightarrow> bool" where
  "punctual [] d = True"
| "punctual (p # ps) d =
     ((case p of
         Deliver dl (Some ev) \<Rightarrow> list_all (\<lambda>r. \<not> covers r (voucher_of dl ev)) (usage_records d)
       | _ \<Rightarrow> True) \<and> punctual ps (run_metering p d))"

definition quiet :: "metering_db \<Rightarrow> bool" where
  "quiet d = (\<forall>v\<in>set (vouchers d). vo_settled v = None \<longrightarrow> (\<forall>r\<in>set (usage_records d). \<not> covers r v))"

lemma total_simps [simp]:
  "total f [] = 0" "total f (x # xs) = f x + total f xs" "total f (xs @ ys) = total f xs + total f ys"
  by (simp_all add: total_def)

lemma total_split: "total f (filter P xs) = total f (filter (\<lambda>x. P x \<and> Q x) xs) + total f (filter (\<lambda>x. P x \<and> \<not> Q x) xs)"
  by (induction xs) auto

lemma total_map: "(\<And>x. f (g x) = f x) \<Longrightarrow> total f (map g xs) = total f xs"
  by (induction xs) auto

lemma total_one: "total (\<lambda>x. 1) xs = int (length xs)"
  by (induction xs) auto

lemma voucher_quantity_fun:
  "voucher_quantity PromptTokens = vo_prompt" "voucher_quantity CompletionTokens = vo_completion"
  "voucher_quantity CachedTokens = vo_cached" "voucher_quantity ReasoningTokens = vo_reasoning"
  "voucher_quantity RequestCount = (\<lambda>v. 1)"
  by (simp_all add: fun_eq_iff)

lemma record_of_quantity: "record_quantity k (record_of rid b now vs) = total (voucher_quantity k) vs"
  by (cases k) (simp_all add: record_of_def voucher_quantity_fun total_one)

lemma add_bucket_keys: "bucket_key ` set (add_bucket b bs) = insert (bucket_key b) (bucket_key ` set bs)"
  by auto

lemma add_bucket_set: "set (add_bucket b bs) \<subseteq> insert b (set bs)"
  by auto

declare add_bucket.simps [simp del]

lemma fold_buckets:
  "bucket_key ` set (foldl (\<lambda>bs v. add_bucket (bucket_of v) bs) acc vs)
     = bucket_key ` set acc \<union> (\<lambda>v. bucket_key (bucket_of v)) ` set vs"
  "set (foldl (\<lambda>bs v. add_bucket (bucket_of v) bs) acc vs) \<subseteq> set acc \<union> bucket_of ` set vs"
proof (induction vs arbitrary: acc)
  case (Cons v vs)
  { case 1 show ?case using Cons(1) [of "add_bucket (bucket_of v) acc"] by (simp add: add_bucket_keys) }
  { case 2 show ?case using Cons(2) [of "add_bucket (bucket_of v) acc"] add_bucket_set [of "bucket_of v" acc] by auto }
qed simp_all

text \<open>The buckets of a pass begin on full hours.\<close>

lemma due_buckets_aligned: "b \<in> set (due_buckets grace now d) \<Longrightarrow> hb_period_start b mod 3600 = 0"
  using fold_buckets(2) [of "[]"] by (fastforce simp: due_buckets_def bucket_of_def hour_start_def)

lemma filter_linked:
  "filter (pending key hour) (map (\<lambda>v. if in_bucket c s v then v\<lparr>vo_settled := Some rid\<rparr> else v) vs)
    = filter (\<lambda>v. pending key hour v \<and> \<not> in_bucket c s v) vs"
  by (induction vs) (auto simp: pending_def in_bucket_def)

lemma pending_linked:
  "filter (pending key hour) (vouchers (link_vouchers rid b d))
    = filter (\<lambda>v. pending key hour v \<and> \<not> in_bucket (hb_key b) (hb_period_start b) v) (vouchers d)"
  by (simp add: link_vouchers_def filter_linked)

lemma same_hour: "in_hour s t \<Longrightarrow> in_hour hour t \<Longrightarrow> s mod 3600 = 0 \<Longrightarrow> hour mod 3600 = 0 \<Longrightarrow> s = hour"
  by (auto simp: in_hour_def zmod_eq_0_iff)

lemma pending_in_bucket:
  assumes "s mod 3600 = 0" "hour mod 3600 = 0"
  shows "filter (\<lambda>v. pending key hour v \<and> in_bucket c s v) vs = (if c = key \<and> s = hour then filter (in_bucket c s) vs else [])"
proof -
  have "(\<lambda>v. pending key hour v \<and> in_bucket c s v) = (\<lambda>v. c = key \<and> s = hour \<and> in_bucket c s v)"
    using same_hour [OF _ _ assms] by (auto simp: pending_def in_bucket_def in_hour_def fun_eq_iff)
  then show ?thesis by (cases "c = key \<and> s = hour") auto
qed

lemma settle_bucket_books:
  assumes "settle_bucket rid up b now d = Inr (r, d')" "quiet d" "hb_period_start b mod 3600 = 0" "hour mod 3600 = 0"
  shows "quiet d' \<and> booked k key hour d' = booked k key hour d"
  using assms(1)
proof (cases rule: settle_bucket_cases)
  case (2 q)
  then obtain v where "v \<in> set (vouchers d)" "in_bucket (hb_key b) (hb_period_start b) v"
    by (auto simp: filter_empty_conv)
  moreover from this have "covers q v" "vo_settled v = None"
    using 2(3,4) by (simp_all add: in_bucket_def covers_def)
  ultimately have False using assms(2) 2(2) unfolding quiet_def by blast
  then show ?thesis ..
next
  case (3 q)
  let ?in = "in_bucket (hb_key b) (hb_period_start b)"
  have q: "ur_key q = hb_key b" "ur_period_start q = hb_period_start b"
    unfolding 3(2) by (simp_all add: record_of_def)
  have n: "record_quantity k q = total (voucher_quantity k) (filter ?in (vouchers d))"
    unfolding 3(2) by (rule record_of_quantity)
  have "booked k key hour d' = booked k key hour d"
    using q n total_split [of "voucher_quantity k" "pending key hour" "vouchers d" ?in]
    unfolding 3(4) by (simp add: booked_def pending_linked pending_in_bucket [OF assms(3,4)])
  moreover have "quiet d'"
    unfolding quiet_def
  proof (intro ballI impI)
    fix v u assume v: "v \<in> set (vouchers d')" "vo_settled v = None" and u: "u \<in> set (usage_records d')"
    from v have "v \<in> set (vouchers d)" "\<not> ?in v"
      unfolding 3(4) by (auto simp: link_vouchers_def split: if_splits)
    then show "\<not> covers u v" using assms(2) u v(2) q unfolding 3(4)
      by (auto simp: quiet_def in_bucket_def covers_def)
  qed
  ultimately show ?thesis by simp
qed (use assms(2) in simp)

lemma settle_all_books:
  "quiet d \<Longrightarrow> \<forall>b\<in>set bs. hb_period_start b mod 3600 = 0 \<Longrightarrow> hour mod 3600 = 0
   \<Longrightarrow> quiet (settle_all sp bs d) \<and> booked k key hour (settle_all sp bs d) = booked k key hour d"
proof (induction sp bs d rule: settle_all.induct)
  case (2 sp b bs d)
  show ?case
  proof (cases "settle_bucket (sp_record_id sp b) (sp_bucket_up sp b) b (sp_now sp) d")
    case (Inl e)
    then show ?thesis using 2 by simp
  next
    case (Inr rd)
    then obtain r d' where e: "settle_bucket (sp_record_id sp b) (sp_bucket_up sp b) b (sp_now sp) d = Inr (r, d')"
      by (cases rd) simp
    have "hb_period_start b mod 3600 = 0" using "2.prems"(2) by simp
    from settle_bucket_books [OF e "2.prems"(1) this "2.prems"(3), of k key] 2 e show ?thesis by simp
  qed
qed simp

lemma mark_published_books: "quiet d \<Longrightarrow> quiet (mark_published rid d) \<and> booked k key hour (mark_published rid d) = booked k key hour d"
proof -
  have e: "mark_published rid d = d\<lparr>usage_records := map (publish_mark rid) (usage_records d)\<rparr>"
    by (simp add: mark_published_def publish_mark_def)
  have f: "filter (\<lambda>r. ur_key r = key \<and> ur_period_start r = hour) (map (publish_mark rid) rs) = map (publish_mark rid) (filter (\<lambda>r. ur_key r = key \<and> ur_period_start r = hour) rs)" for rs
    by (induction rs) auto
  have "record_quantity k (publish_mark rid r) = record_quantity k r" for r
    by (cases k) (simp_all add: publish_mark_def)
  then show "quiet d \<Longrightarrow> ?thesis"
    unfolding e by (simp add: quiet_def booked_def f total_map)
qed

lemma publish_all_books:
  "quiet d \<Longrightarrow> quiet (snd (publish_all sp rs d)) \<and> booked k key hour (snd (publish_all sp rs d)) = booked k key hour d"
  by (induction sp rs d rule: publish_all.induct) (auto simp: mark_published_books split: prod.splits)

text \<open>A pass visits, in some order, only buckets it found.\<close>

definition visits_found :: "settle_pass \<Rightarrow> bool" where
  "visits_found sp = (\<forall>bs. set (sp_order sp bs) \<subseteq> set bs)"

lemma settle_once_books:
  assumes q: "quiet d" and "visits_found sp" "hour mod 3600 = 0"
  shows "quiet (snd (settle_once sp d)) \<and> booked k key hour (snd (settle_once sp d)) = booked k key hour d"
proof -
  let ?d = "settle_all sp (sp_order sp (due_buckets (sp_grace sp) (sp_now sp) d)) d"
  have s: "quiet ?d" "booked k key hour ?d = booked k key hour d" using settle_all_books [OF q _ assms(3)] assms(2) due_buckets_aligned
    unfolding visits_found_def by blast+
  show ?thesis using publish_all_books [OF s(1), of sp "unpublished_records ?d" k key hour] s(2) q
    by (simp add: settle_once_def Let_def)
qed

lemma deliver_books:
  assumes "quiet d" "\<And>ev. m = Some ev \<Longrightarrow> list_all (\<lambda>r. \<not> covers r (voucher_of dl ev)) (usage_records d)"
  shows "quiet (snd (consume dl m d)) \<and> booked k key hour (snd (consume dl m d)) = booked k key hour d
    + (case m of Some ev \<Rightarrow> if validate_event ev \<and> dl_up dl \<and> fresh_for dl ev d \<and> ev_key ev = key \<and> in_hour hour (ev_completed_at ev)
         then event_quantity k ev else 0 | None \<Rightarrow> 0)"
proof (cases m)
  case (Some ev)
  let ?v = "voucher_of dl ev"
  have val: "voucher_quantity k ?v = event_quantity k ev" by (cases k) (simp_all add: voucher_of_def)
  have v: "vo_request ?v = ev_request ev" "vo_id ?v = dl_voucher_id dl" "vo_settled ?v = None" "vo_key ?v = ev_key ev" "vo_completed_at ?v = ev_completed_at ev"
    by (simp_all add: voucher_of_def)
  have log: "quiet (ingest_request_log u l d1) = quiet d1" "booked k key hour (ingest_request_log u l d1) = booked k key hour d1"
    for u l d1 by (simp_all add: quiet_def booked_def)
  show ?thesis
  proof (cases "validate_event ev \<and> dl_up dl")
    case False
    then show ?thesis using assms(1) Some by (auto simp: consume_def handle_event_def ingest_voucher_def split: sum.splits)
  next
    case live: True
    show ?thesis
    proof (cases "fresh_for dl ev d")
      case True
      then have "snd (consume dl m d) = ingest_request_log (dl_log_up dl) (log_of dl ev) (d\<lparr>vouchers := vouchers d @ [?v]\<rparr>)"
        using live Some v by (auto simp: consume_def handle_event_def ingest_voucher_def fresh_for_def list_all_iff)
      moreover have "\<forall>r\<in>set (usage_records d). \<not> covers r ?v" using assms(2) [OF Some] by (simp add: list_all_iff)
      ultimately show ?thesis using assms(1) True live Some val v log
        by (auto simp: quiet_def booked_def pending_def)
    next
      case False
      then have "vouchers (snd (consume dl m d)) = vouchers d" "usage_records (snd (consume dl m d)) = usage_records d"
        using live Some v by (auto simp: consume_def handle_event_def ingest_voucher_def fresh_for_def list_all_iff
            split: sum.splits option.splits)
      then show ?thesis using False assms(1) Some by (simp add: quiet_def booked_def)
    qed
  qed
qed (use assms in \<open>simp add: consume_def\<close>)

lemma retain_books:
  assumes "metering_ok d" "quiet d"
  shows "quiet (run_metering (Retain ttl bs now up) d) \<and> booked k key hour (run_metering (Retain ttl bs now up) d) = booked k key hour d"
proof -
  obtain n d' where r: "retain_once ttl bs now up d = Some (n, count_unsettled_older_than (now - ttl) d', d')"
    "metering_ok d'" "usage_records d' = usage_records d" "log_rows d' = log_rows d"
    "filter (\<lambda>v. \<not> settled_before (now - ttl) v) (vouchers d') = filter (\<lambda>v. \<not> settled_before (now - ttl) v) (vouchers d)"
    "n = int (length (filter (settled_before (now - ttl)) (vouchers d)))
        - int (length (filter (settled_before (now - ttl)) (vouchers d')))"
    "(\<forall>i. up i) \<longrightarrow> filter (settled_before (now - ttl)) (vouchers d') = []"
    using retain_once_returns [OF assms(1), of ttl bs now up] by (elim exE conjE)
  have open_kept: "filter P vs = filter P (filter (\<lambda>v. \<not> settled_before (now - ttl) v) vs)"
    if "\<And>v. P v \<Longrightarrow> vo_settled v = None" for P vs
    using that by (induction vs) (auto simp: settled_before_def)
  have p: "filter (pending key hour) (vouchers d') = filter (pending key hour) (vouchers d)"
    "filter (\<lambda>v. vo_settled v = None) (vouchers d') = filter (\<lambda>v. vo_settled v = None) (vouchers d)"
    by (subst (1 2) open_kept, simp_all add: pending_def r(5))+
  then have "v \<in> set (vouchers d)" if "v \<in> set (vouchers d')" "vo_settled v = None" for v
  proof -
    have "v \<in> set (filter (\<lambda>v. vo_settled v = None) (vouchers d'))" using that by simp
    then show ?thesis unfolding p(2) by simp
  qed
  then show ?thesis using assms(2) r(1,3) p(1) by (simp add: quiet_def booked_def)
qed

lemma run_metering_books:
  assumes "metering_ok d" "quiet d" "punctual (p # ps) d" "\<And>sp. p = Settle sp \<Longrightarrow> visits_found sp" "hour mod 3600 = 0"
  shows "quiet (run_metering p d) \<and> booked k key hour (run_metering p d) = booked k key hour d
    + total (event_quantity k) (filter (\<lambda>ev. ev_key ev = key \<and> in_hour hour (ev_completed_at ev)) (stored_events [p] d))"
proof (cases p)
  case (Deliver dl m)
  show ?thesis
  proof (cases m)
    case None
    then show ?thesis using deliver_books [OF assms(2), where m = m and k = k and key = key and hour = hour] Deliver by simp
  next
    case (Some ev)
    then show ?thesis using deliver_books [OF assms(2), where m = m and dl = dl and k = k and key = key and hour = hour]
        Deliver assms(3) by simp
  qed
next
  case (Settle sp)
  then show ?thesis using settle_once_books [OF assms(2,4,5), of sp k key] by simp
next
  case (Retain ttl bs now up)
  then show ?thesis using retain_books [OF assms(1,2), of ttl bs now up k key hour] by simp
next
  case (RetainLogs ttl bs now up)
  then show ?thesis using retain_logs_returns [OF assms(1), of ttl bs now up] assms(2)
    by (auto simp: quiet_def booked_def)
qed

lemma history_books:
  "metering_ok d \<Longrightarrow> quiet d \<Longrightarrow> punctual ps d \<Longrightarrow> \<forall>sp. Settle sp \<in> set ps \<longrightarrow> visits_found sp \<Longrightarrow> hour mod 3600 = 0
   \<Longrightarrow> booked k key hour (run_meterings ps d) = booked k key hour d
    + total (event_quantity k) (filter (\<lambda>ev. ev_key ev = key \<and> in_hour hour (ev_completed_at ev)) (stored_events ps d))"
proof (induction ps arbitrary: d)
  case (Cons p ps)
  have "\<And>sp. p = Settle sp \<Longrightarrow> visits_found sp" and rest: "\<forall>sp. Settle sp \<in> set ps \<longrightarrow> visits_found sp"
    using Cons.prems(4) by simp_all
  from run_metering_books [OF Cons.prems(1-3) this(1) Cons.prems(5), of k key]
  have s: "quiet (run_metering p d)" "booked k key hour (run_metering p d) = booked k key hour d
    + total (event_quantity k) (filter (\<lambda>ev. ev_key ev = key \<and> in_hour hour (ev_completed_at ev)) (stored_events [p] d))" by simp_all
  have "punctual ps (run_metering p d)" using Cons.prems(3) by simp
  from Cons.IH [OF run_metering_ok [OF Cons.prems(1)] s(1) this rest Cons.prems(5)] s(2)
  show ?case by (simp add: run_meterings_def)
qed (simp add: run_meterings_def)

text \<open>Whatever is delivered, redelivered, settled and retained, the metering tables stay well formed:
  one voucher and one request log per request id, one usage record per key and hour, and every settled
  voucher points to the record of its own key whose hour holds its completion time.\<close>
theorem metering_well_formed: "metering_ok (run_meterings ps empty_metering)"
  by (rule run_meterings_ok) (rule empty_metering_ok)

text \<open>C33. No usage is lost, counted twice or booked under another hour: as long as no event arrives after the record of
  its hour was written, the tokens and requests in the usage records and pending vouchers of a key and an hour are
  exactly those of the stored events of that key completed in that hour, however often events are redelivered,
  passes fail or settled vouchers are deleted.\<close>
theorem usage_is_conserved:
  assumes "punctual ps empty_metering" "\<forall>sp. Settle sp \<in> set ps \<longrightarrow> visits_found sp" "hour mod 3600 = 0"
  shows "booked k key hour (run_meterings ps empty_metering)
    = total (event_quantity k) (filter (\<lambda>ev. ev_key ev = key \<and> hour \<le> ev_completed_at ev \<and> ev_completed_at ev < hour + 3600)
        (stored_events ps empty_metering))"
proof -
  have "quiet empty_metering" "booked k key hour empty_metering = 0"
    by (simp_all add: quiet_def booked_def empty_metering_def)
  then show ?thesis using history_books [OF empty_metering_ok _ assms, of k key] by (simp add: in_hour_def)
qed

definition demo_event :: "string \<Rightarrow> int \<Rightarrow> int \<Rightarrow> usage_event" where
  "demo_event rid at_time tokens =
     \<lparr>ev_request = rid, ev_org = ''org'', ev_key = ''key'', ev_owner = [], ev_project = [], ev_model = ''m'',
      ev_service = [], ev_prompt = tokens, ev_completion = 0, ev_cached = 0, ev_reasoning = 0,
      ev_completed_at = at_time, ev_latency_ms = 1, ev_status = [], ev_error = [], ev_ttft_ms = 0,
      ev_generation_ms = 0\<rparr>"

definition demo_delivery :: "string \<Rightarrow> int \<Rightarrow> int \<Rightarrow> metering_op" where
  "demo_delivery rid at_time tokens =
     Deliver \<lparr>dl_voucher_id = rid, dl_log_id = rid, dl_now = nanos at_time, dl_up = True, dl_log_up = True\<rparr>
       (Some (demo_event rid at_time tokens))"

definition demo_pass :: "int \<Rightarrow> settle_pass" where
  "demo_pass now = \<lparr>sp_now = nanos now, sp_grace = 300, sp_up = True, sp_order = (\<lambda>bs. bs),
     sp_record_id = (\<lambda>b. hb_key b @ format_bucket_start (hb_period_start b)), sp_bucket_up = (\<lambda>b. True),
     sp_publish = (\<lambda>r. True), sp_mark = (\<lambda>r. True)\<rparr>"

definition demo_metering :: "metering_op list" where
  "demo_metering = [demo_delivery ''a'' 3700 5, demo_delivery ''b'' 3800 7, demo_delivery ''a'' 3700 5,
     Settle (demo_pass 7600), Retain 100 1 (nanos 9000) (\<lambda>i. True), demo_delivery ''c'' 7300 9]"

theorem usage_is_conserved_witness:
  "booked PromptTokens ''key'' 3600 (run_meterings demo_metering empty_metering) = 12
   \<and> booked PromptTokens ''key'' 7200 (run_meterings demo_metering empty_metering) = 9
   \<and> map ur_prompt (usage_records (run_meterings demo_metering empty_metering)) = [12]"
proof -
  have p: "punctual demo_metering empty_metering" by code_simp
  have v: "\<forall>sp. Settle sp \<in> set demo_metering \<longrightarrow> visits_found sp"
    by (simp add: demo_metering_def demo_delivery_def demo_pass_def visits_found_def)
  let ?sum = "\<lambda>hour. total (event_quantity PromptTokens) (filter (\<lambda>ev. ev_key ev = ''key'' \<and> hour \<le> ev_completed_at ev
      \<and> ev_completed_at ev < hour + 3600) (stored_events demo_metering empty_metering))"
  have "booked PromptTokens ''key'' 3600 (run_meterings demo_metering empty_metering) = ?sum 3600"
    "booked PromptTokens ''key'' 7200 (run_meterings demo_metering empty_metering) = ?sum 7200"
    by (rule usage_is_conserved [OF p v], simp)+
  moreover have "?sum 3600 = 12 \<and> ?sum 7200 = 9" by code_simp
  moreover have "map ur_prompt (usage_records (run_meterings demo_metering empty_metering)) = [12]" by code_simp
  ultimately show ?thesis by simp
qed

text \<open>
  Without that hypothesis it fails: a voucher that arrives after its hour was settled is linked to the
  existing record, whose sums stay, so its tokens are in no record and no longer pending.
\<close>

lemma late_voucher_is_lost:
  "let d = run_meterings [demo_delivery ''a'' 3700 5, Settle (demo_pass 7600), demo_delivery ''late'' 3900 7,
        Settle (demo_pass 8000)] empty_metering
   in booked PromptTokens ''key'' 3600 d = 5 \<and> map vo_settled (vouchers d) = [Some ''key3600'', Some ''key3600'']"
  by code_simp

section \<open>Settlement events\<close>

lemma publish_all_events: "fst (publish_all sp rs d) = map settlement_event_of (filter (sp_publish sp) rs)"
  by (induction sp rs d rule: publish_all.induct) (auto split: prod.splits)

lemma mark_published_records: "usage_records (mark_published rid d) = map (publish_mark rid) (usage_records d)"
  by (simp add: mark_published_def publish_mark_def)

lemma publish_all_open:
  "unpublished_records (snd (publish_all sp rs d))
    = filter (\<lambda>q. \<not> (\<exists>r\<in>set rs. ur_id r = ur_id q \<and> sp_publish sp r \<and> sp_mark sp r)) (unpublished_records d)"
proof (induction sp rs d rule: publish_all.induct)
  case (2 sp r rs d)
  have "filter (\<lambda>q. \<not> ur_published q) (map (publish_mark (ur_id r)) qs)
      = filter (\<lambda>q. ur_id q \<noteq> ur_id r) (filter (\<lambda>q. \<not> ur_published q) qs)" for qs
    by (induction qs) (auto simp: publish_mark_def)
  then have m: "unpublished_records (mark_published (ur_id r) d) = filter (\<lambda>q. ur_id q \<noteq> ur_id r) (unpublished_records d)"
    unfolding unpublished_records_def mark_published_records .
  show ?case
  proof (cases "sp_publish sp r \<and> sp_mark sp r")
    case True
    then show ?thesis using 2 m by (auto simp: split_beta filter_filter intro!: filter_cong)
  next
    case False
    then show ?thesis using 2 by (auto simp: split_beta intro!: filter_cong)
  qed
qed (simp add: filter_id_conv)

text \<open>A record's settlement event is delivered at least once: every pass that reaches the database
  offers the event of every unpublished record to the queue, with the record's own figures, and a record
  leaves the retry list only when its event was published and that was noted down.\<close>
theorem settlements_are_published:
  assumes "metering_ok d" "sp_up sp"
    "d1 = settle_all sp (sp_order sp (due_buckets (sp_grace sp) (sp_now sp) d)) d"
  shows "fst (settle_once sp d) = map settlement_event_of (filter (sp_publish sp) (unpublished_records d1))
    \<and> unpublished_records (snd (settle_once sp d))
      = filter (\<lambda>r. \<not> (sp_publish sp r \<and> sp_mark sp r)) (unpublished_records d1)"
proof -
  have "distinct (map ur_id (usage_records d1))"
    using settle_all_ok [OF assms(1)] assms(3) by (simp add: metering_ok_def)
  then have "ur_id r = ur_id q \<longleftrightarrow> r = q" if "r \<in> set (unpublished_records d1)" "q \<in> set (unpublished_records d1)" for r q
    using that by (auto simp: unpublished_records_def distinct_map dest: inj_onD)
  then have "filter (\<lambda>q. \<not> (\<exists>r\<in>set (unpublished_records d1). ur_id r = ur_id q \<and> sp_publish sp r \<and> sp_mark sp r))
      (unpublished_records d1) = filter (\<lambda>r. \<not> (sp_publish sp r \<and> sp_mark sp r)) (unpublished_records d1)"
    by (intro filter_cong) auto
  then show ?thesis using assms(2,3) by (simp add: settle_once_def Let_def publish_all_events publish_all_open)
qed

section \<open>A pass settles every closed hour\<close>

lemma bucket_digits_loop: "bucket_digits v acc = format_loop v acc"
  by (induction v acc rule: bucket_digits.induct) (subst bucket_digits.simps, subst format_loop.simps, simp)

lemma format_bucket_start_int: "format_bucket_start v = format_int v"
  by (simp add: format_bucket_start_def format_int_def bucket_digits_loop)

lemma bucket_key_inject:
  assumes "bucket_key b = bucket_key c" "0 \<le> hb_period_start b" "0 \<le> hb_period_start c"
  shows "hb_key b = hb_key c \<and> hb_period_start b = hb_period_start c"
proof -
  obtain ds es where ds: "format_int (hb_period_start b) = ds" "\<forall>x\<in>set ds. is_digit x" "dec_val 0 ds = nat (hb_period_start b)"
    and es: "format_int (hb_period_start c) = es" "\<forall>x\<in>set es. is_digit x" "dec_val 0 es = nat (hb_period_start c)"
    using format_int_digits [OF assms(2)] format_int_digits [OF assms(3)] by blast
  have "is_digit (CHR ''|'') = False" by (simp add: is_digit_def byte_def)
  then have "CHR ''|'' \<notin> set (rev ds)" "CHR ''|'' \<notin> set (rev es)" using ds(2) es(2) by auto
  moreover have "rev ds @ CHR ''|'' # rev (hb_key b) = rev es @ CHR ''|'' # rev (hb_key c)"
    using arg_cong [OF assms(1), of rev] ds(1) es(1) by (simp add: bucket_key_def format_bucket_start_int)
  ultimately have "rev ds = rev es \<and> rev (hb_key b) = rev (hb_key c)"
    using sep_split [of "CHR ''|''" "rev ds" "rev es" "rev (hb_key b)" "rev (hb_key c)"] by simp
  then show ?thesis using ds(3) es(3) assms(2,3) by simp
qed

text \<open>A voucher is due when its hour closed at least the grace period ago.\<close>

definition due :: "int \<Rightarrow> int \<Rightarrow> voucher \<Rightarrow> bool" where
  "due grace now v = (hour_start (vo_completed_at v) + 3600 + grace \<le> now div 1000000000)"

lemma hour_start_bounds:
  "0 \<le> t \<Longrightarrow> 0 \<le> hour_start t \<and> hour_start t \<le> t \<and> t < hour_start t + 3600"
  by (simp add: hour_start_def pos_imp_zdiv_nonneg_iff) presburger

lemma due_in_bucket:
  assumes "v \<in> set (vouchers d)" "vo_settled v = None" "due grace now v" "0 \<le> grace"
    "\<forall>w\<in>set (vouchers d). 0 < vo_completed_at w"
  shows "\<exists>b\<in>set (due_buckets grace now d). in_bucket (hb_key b) (hb_period_start b) v"
proof -
  let ?vs = "filter (\<lambda>v. \<not> now div 1000000000 < hour_start (vo_completed_at v) + 3600 + grace) (unsettled_vouchers now d)"
  have t: "0 < vo_completed_at v" using assms(1,5) by blast
  have "vo_completed_at v < now div 1000000000"
    using hour_start_bounds [of "vo_completed_at v"] t assms(3,4) by (simp add: due_def)
  then have "nanos (vo_completed_at v) < now" by (simp add: nanos_def)
  then have "v \<in> set ?vs" using assms(1-3) by (simp add: unsettled_vouchers_def due_def not_less)
  then have "bucket_key (bucket_of v) \<in> bucket_key ` set (due_buckets grace now d)"
    unfolding due_buckets_def fold_buckets(1) by blast
  then obtain b where b: "b \<in> set (due_buckets grace now d)" "bucket_key b = bucket_key (bucket_of v)" by auto
  obtain w where w: "w \<in> set (vouchers d)" "b = bucket_of w"
    using b(1) fold_buckets(2) [of "[]" ?vs] unfolding due_buckets_def by (auto simp: unsettled_vouchers_def)
  have "0 \<le> hour_start (vo_completed_at w)" "0 \<le> hour_start (vo_completed_at v)"
    using hour_start_bounds assms(5) w(1) t by (simp_all add: less_imp_le)
  then have "hb_key b = vo_key v" "hb_period_start b = hour_start (vo_completed_at v)"
    using bucket_key_inject [OF b(2)] w(2) by (simp_all add: bucket_of_def)
  then show ?thesis using b(1) hour_start_bounds [of "vo_completed_at v"] t assms(2)
    by (intro bexI [OF _ b(1)]) (simp add: in_bucket_def)
qed

text \<open>Every transaction of the pass commits.\<close>

fun commits :: "settle_pass \<Rightarrow> hour_bucket list \<Rightarrow> metering_db \<Rightarrow> bool" where
  "commits sp [] d = True"
| "commits sp (b # bs) d =
     (case settle_bucket (sp_record_id sp b) (sp_bucket_up sp b) b (sp_now sp) d of
        Inl e \<Rightarrow> False
      | Inr (r, d') \<Rightarrow> commits sp bs d')"

definition pending_in :: "metering_db \<Rightarrow> voucher set" where
  "pending_in d = {v \<in> set (vouchers d). vo_settled v = None}"

lemma pending_link: "pending_in (link_vouchers rid b d) = {v \<in> pending_in d. \<not> in_bucket (hb_key b) (hb_period_start b) v}"
  by (auto simp: pending_in_def link_vouchers_def in_bucket_def split: if_splits)

lemma settle_bucket_pending:
  assumes "settle_bucket rid up b now d = Inr (r, d')"
  shows "pending_in d' = {v \<in> pending_in d. \<not> in_bucket (hb_key b) (hb_period_start b) v}"
  using assms
proof (cases rule: settle_bucket_cases)
  case 1
  then show ?thesis by (auto simp: pending_in_def filter_empty_conv)
next
  case (3 q)
  then show ?thesis using pending_link [of "rid" b "d\<lparr>usage_records := usage_records d @ [q]\<rparr>"]
    by (simp add: pending_in_def)
qed (simp add: pending_link)

lemma settle_all_pending:
  "commits sp bs d \<Longrightarrow> pending_in (settle_all sp bs d)
    = {v \<in> pending_in d. \<forall>b\<in>set bs. \<not> in_bucket (hb_key b) (hb_period_start b) v}"
proof (induction sp bs d rule: settle_all.induct)
  case (2 sp b bs d)
  then obtain r d' where e: "settle_bucket (sp_record_id sp b) (sp_bucket_up sp b) b (sp_now sp) d = Inr (r, d')"
    "commits sp bs d'" by (auto split: sum.splits)
  then show ?case using "2.IH" settle_bucket_pending [OF e(1)] by auto
qed simp

lemma publish_all_vouchers [simp]: "vouchers (snd (publish_all sp rs d)) = vouchers d"
  by (induction sp rs d rule: publish_all.induct) (auto simp: mark_published_def split: prod.splits)

text \<open>A settlement pass leaves nothing behind: when its transactions commit, no voucher of an hour that
  closed at least the grace period ago is still unsettled, in whatever order the workers took the
  buckets.\<close>
theorem settlement_pass_complete:
  assumes "sp_up sp" "0 \<le> sp_grace sp" "\<forall>v\<in>set (vouchers d). 0 < vo_completed_at v"
    "set (sp_order sp (due_buckets (sp_grace sp) (sp_now sp) d)) = set (due_buckets (sp_grace sp) (sp_now sp) d)"
    "commits sp (sp_order sp (due_buckets (sp_grace sp) (sp_now sp) d)) d"
    "v \<in> set (vouchers (snd (settle_once sp d)))" "due (sp_grace sp) (sp_now sp) v"
  shows "vo_settled v \<noteq> None"
proof
  assume "vo_settled v = None"
  then have "v \<in> pending_in (settle_all sp (sp_order sp (due_buckets (sp_grace sp) (sp_now sp) d)) d)"
    using assms(1,6) by (simp add: pending_in_def settle_once_def Let_def)
  then have v: "v \<in> set (vouchers d)" "vo_settled v = None"
    "\<forall>b\<in>set (due_buckets (sp_grace sp) (sp_now sp) d). \<not> in_bucket (hb_key b) (hb_period_start b) v"
    unfolding settle_all_pending [OF assms(5)] assms(4) by (auto simp: pending_in_def)
  from due_in_bucket [OF v(1,2) assms(7,2,3)] v(3) show False by blast
qed

theorem settlement_pass_complete_witness:
  "let d = run_meterings [demo_delivery ''a'' 3700 5, demo_delivery ''c'' 7300 9] empty_metering in
     \<forall>v\<in>set (vouchers (snd (settle_once (demo_pass 7600) d))). due 300 (nanos 7600) v \<longrightarrow> vo_settled v \<noteq> None"
proof -
  let ?d = "run_meterings [demo_delivery ''a'' 3700 5, demo_delivery ''c'' 7300 9] empty_metering"
  have f: "sp_up (demo_pass 7600)" "0 \<le> sp_grace (demo_pass 7600)"
    "\<forall>v\<in>set (vouchers ?d). 0 < vo_completed_at v"
    "set (sp_order (demo_pass 7600) (due_buckets (sp_grace (demo_pass 7600)) (sp_now (demo_pass 7600)) ?d))
      = set (due_buckets (sp_grace (demo_pass 7600)) (sp_now (demo_pass 7600)) ?d)"
    "commits (demo_pass 7600) (sp_order (demo_pass 7600) (due_buckets (sp_grace (demo_pass 7600)) (sp_now (demo_pass 7600)) ?d)) ?d"
    by (simp_all add: demo_pass_def) (code_simp, code_simp)
  have g: "sp_grace (demo_pass 7600) = 300" "sp_now (demo_pass 7600) = nanos 7600" by (simp_all add: demo_pass_def)
  from settlement_pass_complete [OF f] show ?thesis unfolding Let_def g by blast
qed

end
