(* ===== verification/Pipeline.thy ===== *)
theory Pipeline
  imports GatewayPlugin KeyGateway Metering Pricing
begin

text \<open>
  The usage pipeline across the services: the plugin's report reaches the internal usage endpoint
  (\<open>pkg/server/gateway_api.go\<close>), the metering sink publishes it on the queue
  (\<open>services/metering/gateway_sink.go\<close>), and the metering and billing consumers
  (\<open>event_consumer.go\<close> of both services) write a voucher and a usage line from the same message; the
  settlement events and the reconciliation pass (\<open>settlements_consumer.go\<close>, \<open>reconciliation_runner.go\<close>)
  drive the charging of \<open>Pricing\<close>.  Every hop is the JSON text on the wire.  The catalog, the service
  lookup and the outcome of each call to the broker or the database are arguments.
\<close>

section \<open>The usage endpoint and the sink\<close>

record sink_request = usage_report + service_id :: string

definition no_usage :: token_usage where
  "no_usage = \<lparr>prompt = 0, completion = 0, cached = 0, reasoning = 0\<rparr>"

definition zero_sink_request :: sink_request where
  "zero_sink_request = \<lparr>request_id = [], organization_id = [], report_key = [], owner_user_id = [], project_id = [],
     model = [], usage = no_usage, status = [], err_message = [], completed_at = 0, latency_ms = 0, ttft_ms = 0,
     generation_ms = 0, service_id = []\<rparr>"

definition token_fields :: "(string \<times> token_usage field_setter) list" where
  "token_fields =
     [(''prompt_tokens'', int_setter (\<lambda>n u. u\<lparr>prompt := n\<rparr>)),
      (''completion_tokens'', int_setter (\<lambda>n u. u\<lparr>completion := n\<rparr>)),
      (''cached_tokens'', int_setter (\<lambda>n u. u\<lparr>cached := n\<rparr>)),
      (''reasoning_tokens'', int_setter (\<lambda>n u. u\<lparr>reasoning := n\<rparr>))]"

definition usage_request_fields :: "(string \<times> sink_request field_setter) list" where
  "usage_request_fields =
     [(''request_id'', str_setter (\<lambda>s q. q\<lparr>request_id := s\<rparr>)),
      (''organization_id'', str_setter (\<lambda>s q. q\<lparr>organization_id := s\<rparr>)),
      (''api_key_id'', str_setter (\<lambda>s q. q\<lparr>report_key := s\<rparr>)),
      (''model'', str_setter (\<lambda>s q. q\<lparr>model := s\<rparr>)),
      (''service_id'', str_setter (\<lambda>s q. q\<lparr>service_id := s\<rparr>)),
      (''usage'', nested token_fields usage (\<lambda>u q. q\<lparr>usage := u\<rparr>)),
      (''completed_at'', int_setter (\<lambda>n q. q\<lparr>completed_at := n\<rparr>)),
      (''latency_ms'', int_setter (\<lambda>n q. q\<lparr>latency_ms := n\<rparr>)),
      (''ttft_ms'', int_setter (\<lambda>n q. q\<lparr>ttft_ms := n\<rparr>)),
      (''generation_ms'', int_setter (\<lambda>n q. q\<lparr>generation_ms := n\<rparr>)),
      (''status'', str_setter (\<lambda>s q. q\<lparr>status := s\<rparr>)),
      (''error'', str_setter (\<lambda>s q. q\<lparr>err_message := s\<rparr>)),
      (''owner_user_id'', str_setter (\<lambda>s q. q\<lparr>owner_user_id := s\<rparr>)),
      (''project_id'', str_setter (\<lambda>s q. q\<lparr>project_id := s\<rparr>))]"

definition decode_usage_request :: "string \<Rightarrow> sink_request option" where
  "decode_usage_request = go_unmarshal usage_request_fields zero_sink_request"

text \<open>
  \<open>sk_catalog\<close> is the lookup of a model by its served name (\<open>None\<close> when it fails or misses),
  \<open>sk_service\<close> the wired service lookup (\<open>None\<close> when there is none), \<open>sk_client\<close> and \<open>sk_publish\<close>
  whether the queue client exists and takes the message.
\<close>

record sink_env =
  sk_now :: int
  sk_catalog :: "string \<Rightarrow> string option"
  sk_service :: "(string \<Rightarrow> string) option"
  sk_client :: bool
  sk_publish :: bool

definition service_for_model :: "sink_env \<Rightarrow> string \<Rightarrow> string" where
  "service_for_model env mid = (case sk_service env of None \<Rightarrow> [] | Some f \<Rightarrow> f mid)"

definition resolve_gateway_model :: "sink_env \<Rightarrow> sink_request \<Rightarrow> string \<times> string" where
  "resolve_gateway_model env q =
     (if model q = [] then (service_id q, service_id q)
      else case sk_catalog env (model q) of
        None \<Rightarrow> (model q, service_id q)
      | Some mid \<Rightarrow> (mid, if service_id q = [] then service_for_model env mid else service_id q))"

definition sink_event :: "sink_env \<Rightarrow> sink_request \<Rightarrow> usage_event" where
  "sink_event env q =
     (case resolve_gateway_model env q of (mid, sid) \<Rightarrow>
        \<lparr>ev_request = request_id q, ev_org = organization_id q, ev_key = report_key q, ev_owner = owner_user_id q,
         ev_project = project_id q, ev_model = mid, ev_service = sid, ev_prompt = prompt (usage q),
         ev_completion = completion (usage q), ev_cached = cached (usage q), ev_reasoning = reasoning (usage q),
         ev_completed_at = (if completed_at q = 0 then sk_now env else completed_at q),
         ev_latency_ms = latency_ms q, ev_status = status q, ev_error = err_message q, ev_ttft_ms = ttft_ms q,
         ev_generation_ms = generation_ms q\<rparr>)"

text \<open>The text of a message: \<open>json.Marshal\<close> of the event.\<close>

definition event_fields :: "usage_event \<Rightarrow> (string \<times> string) list" where
  "event_fields ev =
     [(''request_id'', go_string (ev_request ev)), (''organization_id'', go_string (ev_org ev)),
      (''api_key_id'', go_string (ev_key ev)), (''owner_user_id'', go_string (ev_owner ev)),
      (''project_id'', go_string (ev_project ev)), (''model_id'', go_string (ev_model ev)),
      (''service_id'', go_string (ev_service ev)),
      (''usage'', object_text [(''prompt_tokens'', go_int (ev_prompt ev)), (''completion_tokens'', go_int (ev_completion ev)),
         (''cached_tokens'', go_int (ev_cached ev)), (''reasoning_tokens'', go_int (ev_reasoning ev))]),
      (''completed_at'', go_int (ev_completed_at ev)), (''latency_ms'', go_int (ev_latency_ms ev)),
      (''status'', go_string (ev_status ev)), (''error'', go_string (ev_error ev)),
      (''ttft_ms'', go_int (ev_ttft_ms ev)), (''generation_ms'', go_int (ev_generation_ms ev))]"

definition event_text :: "usage_event \<Rightarrow> string" where
  "event_text ev = object_text (event_fields ev)"

text \<open>The answer (an error code) and the message published, if any.\<close>

definition record_gateway_usage :: "sink_env \<Rightarrow> sink_request option \<Rightarrow> int option \<times> string option" where
  "record_gateway_usage env req =
     (case req of
        None \<Rightarrow> (Some 10401, None)
      | Some q \<Rightarrow>
          if request_id q = [] then (Some 10401, None)
          else if usage_empty (usage q) \<and> status q = [] then (None, None)
          else if \<not> sk_client env then (Some 500, None)
          else if \<not> sk_publish env then (Some 500, None)
          else (None, Some (event_text (sink_event env q))))"

definition gateway_max_usage_body :: nat where
  "gateway_max_usage_body = 1048576"

datatype usage_answer = UsageRecorded | UsageRefused int int string

definition usage_endpoint ::
  "sink_env \<Rightarrow> string \<Rightarrow> string \<Rightarrow> string \<Rightarrow> string option option \<Rightarrow> usage_answer \<times> string option" where
  "usage_endpoint env secret presented verb body =
     (if \<not> token_matches presented secret then (UsageRefused 401 12910 ''invalid gateway token'', None)
      else if verb \<noteq> ''POST'' then (UsageRefused 405 0 ''use POST'', None)
      else case read_json_body gateway_max_usage_body body of
        Inl e \<Rightarrow> (UsageRefused 400 0 e, None)
      | Inr b \<Rightarrow>
          (case decode_usage_request b of
             None \<Rightarrow> (UsageRefused 400 0 ''malformed usage request'', None)
           | Some q \<Rightarrow>
               if request_id q = [] then (UsageRefused 400 0 ''request_id is required'', None)
               else (case record_gateway_usage env (Some q) of
                       (Some code, m) \<Rightarrow> (UsageRefused 503 0 ''usage not recorded'', m)
                     | (None, m) \<Rightarrow> (UsageRecorded, m))))"

section \<open>The consumers' side of the wire\<close>

definition zero_event :: usage_event where
  "zero_event = \<lparr>ev_request = [], ev_org = [], ev_key = [], ev_owner = [], ev_project = [], ev_model = [],
     ev_service = [], ev_prompt = 0, ev_completion = 0, ev_cached = 0, ev_reasoning = 0, ev_completed_at = 0,
     ev_latency_ms = 0, ev_status = [], ev_error = [], ev_ttft_ms = 0, ev_generation_ms = 0\<rparr>"

text \<open>The token members of an event are a struct of their own.\<close>

definition ev_usage :: "usage_event \<Rightarrow> token_usage" where
  "ev_usage ev = \<lparr>prompt = ev_prompt ev, completion = ev_completion ev, cached = ev_cached ev, reasoning = ev_reasoning ev\<rparr>"

definition put_usage :: "token_usage \<Rightarrow> usage_event \<Rightarrow> usage_event" where
  "put_usage u ev = ev\<lparr>ev_prompt := prompt u, ev_completion := completion u, ev_cached := cached u, ev_reasoning := reasoning u\<rparr>"

definition metering_event_fields :: "(string \<times> usage_event field_setter) list" where
  "metering_event_fields =
     [(''request_id'', str_setter (\<lambda>s ev. ev\<lparr>ev_request := s\<rparr>)),
      (''organization_id'', str_setter (\<lambda>s ev. ev\<lparr>ev_org := s\<rparr>)),
      (''api_key_id'', str_setter (\<lambda>s ev. ev\<lparr>ev_key := s\<rparr>)),
      (''owner_user_id'', str_setter (\<lambda>s ev. ev\<lparr>ev_owner := s\<rparr>)),
      (''project_id'', str_setter (\<lambda>s ev. ev\<lparr>ev_project := s\<rparr>)),
      (''model_id'', str_setter (\<lambda>s ev. ev\<lparr>ev_model := s\<rparr>)),
      (''service_id'', str_setter (\<lambda>s ev. ev\<lparr>ev_service := s\<rparr>)),
      (''usage'', nested token_fields ev_usage put_usage),
      (''completed_at'', int_setter (\<lambda>n ev. ev\<lparr>ev_completed_at := n\<rparr>)),
      (''latency_ms'', int_setter (\<lambda>n ev. ev\<lparr>ev_latency_ms := n\<rparr>)),
      (''status'', str_setter (\<lambda>s ev. ev\<lparr>ev_status := s\<rparr>)),
      (''error'', str_setter (\<lambda>s ev. ev\<lparr>ev_error := s\<rparr>)),
      (''ttft_ms'', int_setter (\<lambda>n ev. ev\<lparr>ev_ttft_ms := n\<rparr>)),
      (''generation_ms'', int_setter (\<lambda>n ev. ev\<lparr>ev_generation_ms := n\<rparr>))]"

definition decode_metering_event :: "string \<Rightarrow> usage_event option" where
  "decode_metering_event = go_unmarshal metering_event_fields zero_event"

definition metering_consume :: "delivery \<Rightarrow> string \<Rightarrow> metering_db \<Rightarrow> bool \<times> metering_db" where
  "metering_consume dl body d = consume dl (decode_metering_event body) d"

record billing_event =
  be_request :: string
  be_org :: string
  be_key :: string
  be_owner :: string
  be_project :: string
  be_model :: string
  be_service :: string
  be_card :: string
  be_usage :: token_usage
  be_completed_at :: int

definition zero_billing_event :: billing_event where
  "zero_billing_event = \<lparr>be_request = [], be_org = [], be_key = [], be_owner = [], be_project = [], be_model = [],
     be_service = [], be_card = [], be_usage = no_usage, be_completed_at = 0\<rparr>"

definition billing_event_fields :: "(string \<times> billing_event field_setter) list" where
  "billing_event_fields =
     [(''request_id'', str_setter (\<lambda>s ev. ev\<lparr>be_request := s\<rparr>)),
      (''organization_id'', str_setter (\<lambda>s ev. ev\<lparr>be_org := s\<rparr>)),
      (''api_key_id'', str_setter (\<lambda>s ev. ev\<lparr>be_key := s\<rparr>)),
      (''owner_user_id'', str_setter (\<lambda>s ev. ev\<lparr>be_owner := s\<rparr>)),
      (''project_id'', str_setter (\<lambda>s ev. ev\<lparr>be_project := s\<rparr>)),
      (''model_id'', str_setter (\<lambda>s ev. ev\<lparr>be_model := s\<rparr>)),
      (''service_id'', str_setter (\<lambda>s ev. ev\<lparr>be_service := s\<rparr>)),
      (''accelerator_type'', str_setter (\<lambda>s ev. ev\<lparr>be_card := s\<rparr>)),
      (''usage'', nested token_fields be_usage (\<lambda>u ev. ev\<lparr>be_usage := u\<rparr>)),
      (''completed_at'', int_setter (\<lambda>n ev. ev\<lparr>be_completed_at := n\<rparr>))]"

definition decode_billing_event :: "string \<Rightarrow> billing_event option" where
  "decode_billing_event = go_unmarshal billing_event_fields zero_billing_event"

section \<open>The wire\<close>

text \<open>Members as text and as what the decoder sees: written by the plugin (\<open>q\<close>) or by \<open>json.Marshal\<close> (\<open>m\<close>).\<close>

definition q_str :: "string \<Rightarrow> string \<Rightarrow> string \<times> string \<times> jtree" where
  "q_str k s = (k, quoted s, TStr (map plain_char s))"

definition q_int :: "string \<Rightarrow> int \<Rightarrow> string \<times> string \<times> jtree" where
  "q_int k n = (k, format_int n, TNum (format_int n))"

definition m_str :: "string \<Rightarrow> string \<Rightarrow> string \<times> string \<times> jtree" where
  "m_str k s = (k, go_string s, TStr s)"

definition m_int :: "string \<Rightarrow> int \<Rightarrow> string \<times> string \<times> jtree" where
  "m_int k n = (k, go_int n, TNum (go_int n))"

definition sub_object :: "string \<Rightarrow> (string \<times> string \<times> jtree) list \<Rightarrow> string \<times> string \<times> jtree" where
  "sub_object k ms = (k, object_text (texts ms), TObj (tree_members ms))"

definition reads_member :: "int \<Rightarrow> string \<times> string \<times> jtree \<Rightarrow> bool" where
  "reads_member h m = go_reads h (fst (snd m)) (snd (snd m))"

lemma member_reads [simp]:
  "reads_member h (q_str k s)" "0 \<le> n \<Longrightarrow> reads_member h (q_int k n)"
  "reads_member h (m_str k s)" "reads_member h (m_int k i)"
  by (simp_all add: reads_member_def q_str_def q_int_def m_str_def m_int_def quoted_def go_reads_quoted [simplified]
      go_reads_string go_reads_number int_text_go int_text_format)

lemma sub_object_reads:
  "ms \<noteq> [] \<Longrightarrow> list_all (reads_member 0) ms \<Longrightarrow> reads_member 1 (sub_object k ms)"
  using go_reads_object [of ms 0] by (simp add: reads_member_def sub_object_def list_all_iff split_beta)

lemma object_reads:
  "ms \<noteq> [] \<Longrightarrow> list_all (reads_member h) ms \<Longrightarrow> 0 \<le> h \<Longrightarrow> go_reads (h + 1) (object_text (texts ms)) (TObj (tree_members ms))"
  using go_reads_object [of ms h] by (simp add: reads_member_def list_all_iff split_beta)

lemma decode_object:
  assumes "ms \<noteq> []" "list_all (reads_member h) ms" "0 \<le> h" "h < max_nesting"
  shows "go_unmarshal tbl zero (object_text (texts ms)) = set_members tbl (tree_members ms) zero"
  using unmarshal_object [OF object_reads [OF assms(1-3)], of "[]"] assms(4) by (simp add: skip_space_def)

lemma plain_keys:
  "map plain_char ''model_id'' = ''model_id''" "map plain_char ''service_id'' = ''service_id''"
  "map plain_char ''key_digest'' = ''key_digest''" "map plain_char ''max_tokens'' = ''max_tokens''"
  by (rule key_plain, simp add: key_char_def byte_def)+

lemma tree_members_simps:
  "tree_members [] = []"
  "tree_members (q_str k s # ms) = (map plain_char k, TStr (map plain_char s)) # tree_members ms"
  "tree_members (q_int k n # ms) = (map plain_char k, TNum (format_int n)) # tree_members ms"
  "tree_members (m_str k s # ms) = (map plain_char k, TStr s) # tree_members ms"
  "tree_members (m_int k n # ms) = (map plain_char k, TNum (go_int n)) # tree_members ms"
  "tree_members (sub_object k subs # ms) = (map plain_char k, TObj (tree_members subs)) # tree_members ms"
  by (simp_all add: tree_members_def q_str_def q_int_def m_str_def m_int_def sub_object_def)

lemmas decode_simps = tree_members_simps plain_keys literal_keys_read set_member_def find_field_def

text \<open>The numbers a struct of 64-bit fields can hold.\<close>

definition go_number64 :: "int \<Rightarrow> bool" where
  "go_number64 i = (0 \<le> i \<and> i < 2 ^ 63)"

lemma go_number64D: "go_number64 i \<Longrightarrow> 0 \<le> i \<and> in_int64 i"
  by (simp add: go_number64_def in_int64_def)

definition token_tree :: "token_usage \<Rightarrow> (string \<times> string \<times> jtree) list" where
  "token_tree u = [q_int ''prompt_tokens'' (prompt u), q_int ''completion_tokens'' (completion u),
     q_int ''cached_tokens'' (cached u), q_int ''reasoning_tokens'' (reasoning u)]"

definition report_tree :: "usage_report \<Rightarrow> (string \<times> string \<times> jtree) list" where
  "report_tree rep =
     [q_str ''request_id'' (request_id rep), q_str ''organization_id'' (organization_id rep),
      q_str ''api_key_id'' (report_key rep), q_str ''owner_user_id'' (owner_user_id rep),
      q_str ''project_id'' (project_id rep), q_str ''model'' (model rep),
      sub_object ''usage'' (token_tree (usage rep)),
      q_int ''completed_at'' (completed_at rep), q_int ''latency_ms'' (latency_ms rep),
      q_int ''ttft_ms'' (ttft_ms rep), q_int ''generation_ms'' (generation_ms rep),
      q_str ''status'' (status rep), q_str ''error'' (err_message rep)]"

lemma report_texts: "texts (report_members rep) = texts (report_tree rep)"
  by (simp add: texts_def report_members_def report_usage_members_def report_tree_def token_tree_def str_member_def
      int_member_def q_str_def q_int_def sub_object_def)

definition tokens_ok :: "token_usage \<Rightarrow> bool" where
  "tokens_ok u = (go_number64 (prompt u) \<and> go_number64 (completion u) \<and> go_number64 (cached u) \<and> go_number64 (reasoning u))"

definition report_ok :: "usage_report \<Rightarrow> bool" where
  "report_ok rep = (tokens_ok (usage rep) \<and> go_number64 (completed_at rep) \<and> go_number64 (latency_ms rep)
     \<and> go_number64 (ttft_ms rep) \<and> go_number64 (generation_ms rep))"

text \<open>The report as the server holds it: control characters became spaces on the way.\<close>

definition received :: "usage_report \<Rightarrow> sink_request" where
  "received rep = usage_report.extend
     \<lparr>request_id = map plain_char (request_id rep), organization_id = map plain_char (organization_id rep),
      report_key = map plain_char (report_key rep), owner_user_id = map plain_char (owner_user_id rep),
      project_id = map plain_char (project_id rep), model = map plain_char (model rep), usage = usage rep,
      status = map plain_char (status rep), err_message = map plain_char (err_message rep),
      completed_at = completed_at rep, latency_ms = latency_ms rep, ttft_ms = ttft_ms rep,
      generation_ms = generation_ms rep\<rparr> \<lparr>service_id = []\<rparr>"

lemma decode_tokens:
  "tokens_ok u \<Longrightarrow> set_members token_fields (tree_members (token_tree u)) v = Some u"
  by (simp add: tokens_ok_def token_tree_def token_fields_def decode_simps parse_int64_format go_number64D
      del: list.map(2))

lemma decode_report:
  assumes "report_ok rep"
  shows "decode_usage_request (usage_body rep) = Some (received rep)"
proof -
  have t: "list_all (reads_member 0) (token_tree (usage rep))"
    using assms by (simp add: token_tree_def report_ok_def tokens_ok_def go_number64D)
  have u: "reads_member 1 (sub_object ''usage'' (token_tree (usage rep)))"
    by (rule sub_object_reads [OF _ t]) (simp add: token_tree_def)
  have "list_all (reads_member 1) (report_tree rep)"
    using assms u by (simp add: report_tree_def report_ok_def go_number64D)
  moreover have "report_tree rep \<noteq> []" by (simp add: report_tree_def)
  ultimately have "decode_usage_request (usage_body rep)
      = set_members usage_request_fields (tree_members (report_tree rep)) zero_sink_request"
    unfolding decode_usage_request_def usage_body_text report_texts
    by (intro decode_object [where h = 1]) (simp_all add: max_nesting_def)
  also have "\<dots> = Some (received rep)"
    using assms decode_tokens [of "usage rep"]
    by (simp add: report_ok_def report_tree_def usage_request_fields_def decode_simps parse_int64_format go_number64D
        zero_sink_request_def received_def usage_report.defs sink_request.defs del: list.map(2))
  finally show ?thesis .
qed

text \<open>The verification request of the plugin.\<close>

definition verify_tree :: "http_ctx \<Rightarrow> (string \<times> string \<times> jtree) list" where
  "verify_tree h = [q_str ''key_digest'' (last_digest h), q_str ''model'' (rq_model h),
     q_str ''request_id'' (rq_id h), q_int ''max_tokens'' (rq_max_tokens h)]"

lemma more_keys:
  "json_escape ''key_digest'' = ''key_digest''" "json_escape ''max_tokens'' = ''max_tokens''"
  "json_escape ''model_id'' = ''model_id''" "json_escape ''service_id'' = ''service_id''"
  by (rule key_plain, simp add: key_char_def byte_def)+

lemma verify_texts: "verify_payload h = object_text (texts (verify_tree h))"
  by (simp add: verify_payload_def object_text_def texts_def verify_tree_def q_str_def q_int_def member_text_def
      literal_keys more_keys quoted_def)

text \<open>The key digest, model, request id and output limit that the server verifies are those the plugin
  asked about: the verification request survives the wire unchanged but for control characters.\<close>
theorem verify_request_arrives:
  assumes "0 \<le> rq_max_tokens h" "in_int64 (rq_max_tokens h)"
  shows "decode_verify_request (verify_payload h)
    = Some \<lparr>gr_digest = map plain_char (last_digest h), gr_model = map plain_char (rq_model h), gr_source_ip = [],
        gr_request = map plain_char (rq_id h), gr_max_tokens = rq_max_tokens h\<rparr>"
proof -
  have "list_all (reads_member 0) (verify_tree h)" "verify_tree h \<noteq> []"
    using assms(1) by (simp_all add: verify_tree_def)
  then have "decode_verify_request (verify_payload h) = set_members verify_request_fields (tree_members (verify_tree h))
      \<lparr>gr_digest = [], gr_model = [], gr_source_ip = [], gr_request = [], gr_max_tokens = 0\<rparr>"
    unfolding decode_verify_request_def verify_texts
    by (intro decode_object [where h = 0]) (simp_all add: max_nesting_def)
  then show ?thesis using assms
    by (simp add: verify_tree_def verify_request_fields_def decode_simps parse_int64_format del: list.map(2))
qed

theorem verify_request_arrives_witness:
  "decode_verify_request (verify_payload (new_http_context\<lparr>last_digest := ''ab'', rq_model := ''m'', rq_id := ''r'', rq_max_tokens := 9\<rparr>))
   = Some \<lparr>gr_digest = ''ab'', gr_model = ''m'', gr_source_ip = [], gr_request = ''r'', gr_max_tokens = 9\<rparr>"
  by (subst verify_request_arrives) (simp_all add: in_int64_def plain_char_def byte_def)

text \<open>The message of the queue and its two readers.\<close>

definition event_token_tree :: "usage_event \<Rightarrow> (string \<times> string \<times> jtree) list" where
  "event_token_tree ev = [m_int ''prompt_tokens'' (ev_prompt ev), m_int ''completion_tokens'' (ev_completion ev),
     m_int ''cached_tokens'' (ev_cached ev), m_int ''reasoning_tokens'' (ev_reasoning ev)]"

definition event_tree :: "usage_event \<Rightarrow> (string \<times> string \<times> jtree) list" where
  "event_tree ev =
     [m_str ''request_id'' (ev_request ev), m_str ''organization_id'' (ev_org ev), m_str ''api_key_id'' (ev_key ev),
      m_str ''owner_user_id'' (ev_owner ev), m_str ''project_id'' (ev_project ev), m_str ''model_id'' (ev_model ev),
      m_str ''service_id'' (ev_service ev), sub_object ''usage'' (event_token_tree ev),
      m_int ''completed_at'' (ev_completed_at ev), m_int ''latency_ms'' (ev_latency_ms ev),
      m_str ''status'' (ev_status ev), m_str ''error'' (ev_error ev), m_int ''ttft_ms'' (ev_ttft_ms ev),
      m_int ''generation_ms'' (ev_generation_ms ev)]"

lemma event_texts: "event_text ev = object_text (texts (event_tree ev))"
  by (simp add: event_text_def event_fields_def event_tree_def event_token_tree_def texts_def m_str_def m_int_def sub_object_def)

definition event_in_range :: "usage_event \<Rightarrow> bool" where
  "event_in_range ev = list_all in_int64 [ev_prompt ev, ev_completion ev, ev_cached ev, ev_reasoning ev,
     ev_completed_at ev, ev_latency_ms ev, ev_ttft_ms ev, ev_generation_ms ev]"

lemma decode_event_tokens:
  "event_in_range ev \<Longrightarrow> set_members token_fields (tree_members (event_token_tree ev)) u = Some (ev_usage ev)"
  by (simp add: event_in_range_def event_token_tree_def token_fields_def decode_simps parse_int64_go ev_usage_def
      del: list.map(2))

lemma decode_event:
  "go_unmarshal tbl zero (event_text ev) = set_members tbl (tree_members (event_tree ev)) zero"
proof -
  have "list_all (reads_member 0) (event_token_tree ev)" "event_token_tree ev \<noteq> []"
    by (simp_all add: event_token_tree_def)
  then have "list_all (reads_member 1) (event_tree ev)" "event_tree ev \<noteq> []"
    using sub_object_reads by (simp_all add: event_tree_def)
  then show ?thesis unfolding event_texts by (intro decode_object [where h = 1]) (simp_all add: max_nesting_def)
qed

text \<open>What billing's struct keeps of an event; no producer of the platform sends an accelerator type.\<close>

definition billed_view :: "usage_event \<Rightarrow> billing_event" where
  "billed_view ev = \<lparr>be_request = ev_request ev, be_org = ev_org ev, be_key = ev_key ev, be_owner = ev_owner ev,
     be_project = ev_project ev, be_model = ev_model ev, be_service = ev_service ev, be_card = [],
     be_usage = ev_usage ev, be_completed_at = ev_completed_at ev\<rparr>"

lemma event_numbers:
  assumes "event_in_range ev"
  shows "parse_int64 (go_int (ev_completed_at ev)) = Some (ev_completed_at ev)"
    "parse_int64 (go_int (ev_latency_ms ev)) = Some (ev_latency_ms ev)"
    "parse_int64 (go_int (ev_ttft_ms ev)) = Some (ev_ttft_ms ev)"
    "parse_int64 (go_int (ev_generation_ms ev)) = Some (ev_generation_ms ev)"
  using assms by (simp_all add: event_in_range_def parse_int64_go)

lemma decode_for_metering:
  assumes "event_in_range ev"
  shows "decode_metering_event (event_text ev) = Some ev"
  unfolding decode_metering_event_def decode_event
  by (simp add: event_tree_def metering_event_fields_def decode_simps event_numbers [OF assms] zero_event_def
      decode_event_tokens [OF assms] put_usage_def ev_usage_def del: list.map(2))

lemma unknown_to_billing:
  "find_field billing_event_fields ''latency_ms'' = None" "find_field billing_event_fields ''status'' = None"
  "find_field billing_event_fields ''error'' = None" "find_field billing_event_fields ''ttft_ms'' = None"
  "find_field billing_event_fields ''generation_ms'' = None"
  by code_simp+

lemma known_to_billing:
  "find_field billing_event_fields ''request_id'' = Some (str_setter (\<lambda>s ev. ev\<lparr>be_request := s\<rparr>))"
  "find_field billing_event_fields ''organization_id'' = Some (str_setter (\<lambda>s ev. ev\<lparr>be_org := s\<rparr>))"
  "find_field billing_event_fields ''api_key_id'' = Some (str_setter (\<lambda>s ev. ev\<lparr>be_key := s\<rparr>))"
  "find_field billing_event_fields ''owner_user_id'' = Some (str_setter (\<lambda>s ev. ev\<lparr>be_owner := s\<rparr>))"
  "find_field billing_event_fields ''project_id'' = Some (str_setter (\<lambda>s ev. ev\<lparr>be_project := s\<rparr>))"
  "find_field billing_event_fields ''model_id'' = Some (str_setter (\<lambda>s ev. ev\<lparr>be_model := s\<rparr>))"
  "find_field billing_event_fields ''service_id'' = Some (str_setter (\<lambda>s ev. ev\<lparr>be_service := s\<rparr>))"
  "find_field billing_event_fields ''usage'' = Some (nested token_fields be_usage (\<lambda>u ev. ev\<lparr>be_usage := u\<rparr>))"
  "find_field billing_event_fields ''completed_at'' = Some (int_setter (\<lambda>n ev. ev\<lparr>be_completed_at := n\<rparr>))"
  by (simp_all add: find_field_def billing_event_fields_def)

lemma decode_for_billing:
  assumes "event_in_range ev"
  shows "decode_billing_event (event_text ev) = Some (billed_view ev)"
  unfolding decode_billing_event_def decode_event
  by (simp add: event_tree_def tree_members_simps plain_keys literal_keys_read set_member_def unknown_to_billing
      known_to_billing decode_event_tokens [OF assms] event_numbers [OF assms] zero_billing_event_def billed_view_def
      del: list.map(2))

text \<open>
  The event that carries a report: its strings with control characters as spaces, its counts and times as they are,
  the model's catalog id in place of its served name where the catalog knows it, and the server's clock in
  place of a missing completion time.
\<close>

definition carries :: "sink_env \<Rightarrow> usage_report \<Rightarrow> usage_event \<Rightarrow> bool" where
  "carries env rep ev =
     (let served = map plain_char (model rep); known = (if served = [] then None else sk_catalog env served) in
      ev_request ev = map plain_char (request_id rep) \<and> ev_org ev = map plain_char (organization_id rep)
      \<and> ev_key ev = map plain_char (report_key rep) \<and> ev_owner ev = map plain_char (owner_user_id rep)
      \<and> ev_project ev = map plain_char (project_id rep)
      \<and> ev_model ev = (case known of None \<Rightarrow> served | Some mid \<Rightarrow> mid)
      \<and> ev_service ev = (case (known, sk_service env) of (Some mid, Some f) \<Rightarrow> f mid | _ \<Rightarrow> [])
      \<and> ev_prompt ev = prompt (usage rep) \<and> ev_completion ev = completion (usage rep)
      \<and> ev_cached ev = cached (usage rep) \<and> ev_reasoning ev = reasoning (usage rep)
      \<and> ev_completed_at ev = (if completed_at rep = 0 then sk_now env else completed_at rep)
      \<and> ev_latency_ms ev = latency_ms rep \<and> ev_ttft_ms ev = ttft_ms rep \<and> ev_generation_ms ev = generation_ms rep
      \<and> ev_status ev = map plain_char (status rep) \<and> ev_error ev = map plain_char (err_message rep))"

lemma received_fields [simp]:
  "request_id (received rep) = map plain_char (request_id rep)" "organization_id (received rep) = map plain_char (organization_id rep)"
  "report_key (received rep) = map plain_char (report_key rep)" "owner_user_id (received rep) = map plain_char (owner_user_id rep)"
  "project_id (received rep) = map plain_char (project_id rep)" "model (received rep) = map plain_char (model rep)"
  "usage (received rep) = usage rep" "status (received rep) = map plain_char (status rep)"
  "err_message (received rep) = map plain_char (err_message rep)" "completed_at (received rep) = completed_at rep"
  "latency_ms (received rep) = latency_ms rep" "ttft_ms (received rep) = ttft_ms rep"
  "generation_ms (received rep) = generation_ms rep" "service_id (received rep) = []"
  by (simp_all add: received_def usage_report.defs)

lemma sink_event_carries: "carries env rep (sink_event env (received rep))"
  by (auto simp: carries_def sink_event_def resolve_gateway_model_def service_for_model_def Let_def split: option.split)

lemma sink_event_in_range:
  assumes "report_ok rep" "in_int64 (sk_now env)"
  shows "event_in_range (sink_event env (received rep))"
  using assms go_number64D by (simp add: event_in_range_def sink_event_def report_ok_def tokens_ok_def case_prod_beta)

lemma usage_body_not_blank: "trim_space (usage_body rep) \<noteq> []"
proof -
  have "trim_space (CHR ''{'' # s) \<noteq> []" for s
    by (simp add: trim_space_def trim_right_def is_space_def byte_def dropWhile_eq_Nil_conv)
  moreover obtain s where "usage_body rep = CHR ''{'' # s" by (simp add: usage_body_def)
  ultimately show ?thesis by simp
qed

text \<open>C40. A usage report of the plugin arrives: sent to the usage endpoint with the gateway's token, while the queue takes
  messages, it is recorded, and the message the server publishes is read by metering as the event that carries
  the report, and by billing as the billed part of the same event.  Token counts and times are exact over the whole
  range of 64-bit integers, and of the strings only control characters change (to spaces), whatever bytes the
  model name, the ids or the error text hold.\<close>
theorem usage_report_arrives:
  assumes "report_ok rep" "request_id rep \<noteq> []" "\<not> usage_empty (usage rep) \<or> status rep \<noteq> []"
    "length (usage_body rep) \<le> 1048576" "token_matches presented secret"
    "sk_client env" "sk_publish env" "in_int64 (sk_now env)"
  shows "\<exists>msg ev. usage_endpoint env secret presented ''POST'' (Some (Some (usage_body rep))) = (UsageRecorded, Some msg)
    \<and> decode_metering_event msg = Some ev \<and> decode_billing_event msg = Some (billed_view ev) \<and> carries env rep ev"
proof -
  let ?ev = "sink_event env (received rep)"
  note range = sink_event_in_range [OF assms(1,8)]
  have "read_json_body gateway_max_usage_body (Some (Some (usage_body rep))) = Inr (usage_body rep)"
    using assms(4) usage_body_not_blank [of rep] by (simp add: read_json_body_def gateway_max_usage_body_def)
  then have "usage_endpoint env secret presented ''POST'' (Some (Some (usage_body rep))) = (UsageRecorded, Some (event_text ?ev))"
    using assms(2,3,5-7) by (auto simp: usage_endpoint_def decode_report [OF assms(1)] record_gateway_usage_def)
  then show ?thesis using decode_for_metering [OF range] decode_for_billing [OF range] sink_event_carries by blast
qed

definition demo_report :: usage_report where
  "demo_report = \<lparr>request_id = ''r1'', organization_id = ''org'', report_key = ''key'', owner_user_id = [],
     project_id = [], model = ''qw'' @ [CHR ''\"''], usage = \<lparr>prompt = 7, completion = 9007199254740993, cached = 0, reasoning = 0\<rparr>,
     status = ''success'', err_message = [], completed_at = 3700, latency_ms = 2000, ttft_ms = 0, generation_ms = 0\<rparr>"

definition demo_sink :: sink_env where
  "demo_sink = \<lparr>sk_now = 4000, sk_catalog = (\<lambda>n. if n = model demo_report then Some ''m-1'' else None), sk_service = None,
     sk_client = True, sk_publish = True\<rparr>"

theorem usage_report_arrives_witness:
  "\<exists>msg ev. usage_endpoint demo_sink ''t'' ''t'' ''POST'' (Some (Some (usage_body demo_report))) = (UsageRecorded, Some msg)
    \<and> decode_metering_event msg = Some ev \<and> decode_billing_event msg = Some (billed_view ev)
    \<and> ev_model ev = ''m-1'' \<and> ev_completion ev = 9007199254740993"
proof -
  have "report_ok demo_report"
    by (simp add: report_ok_def tokens_ok_def go_number64_def demo_report_def)
  moreover
  have "length (usage_body demo_report) < 500" by code_simp
  then have "length (usage_body demo_report) \<le> 1048576" by simp
  moreover have "request_id demo_report \<noteq> []" "\<not> usage_empty (usage demo_report)"
    by (simp_all add: demo_report_def usage_empty_def)
  moreover have "token_matches ''t'' ''t''" "sk_client demo_sink" "sk_publish demo_sink" "in_int64 (sk_now demo_sink)"
    by (simp_all add: token_matches_def demo_sink_def in_int64_def)
  ultimately obtain msg ev where m:
    "usage_endpoint demo_sink ''t'' ''t'' ''POST'' (Some (Some (usage_body demo_report))) = (UsageRecorded, Some msg)"
    "decode_metering_event msg = Some ev" "decode_billing_event msg = Some (billed_view ev)" "carries demo_sink demo_report ev"
    using usage_report_arrives [of demo_report "''t''" "''t''" demo_sink] by blast
  have f: "map plain_char (model demo_report) = model demo_report" "model demo_report \<noteq> []" "completion (usage demo_report) = 9007199254740993"
    by code_simp+
  have "ev_model ev = ''m-1''" "ev_completion ev = 9007199254740993"
    using m(4) by (simp_all add: carries_def Let_def f demo_sink_def)
  then show ?thesis using m(1-3) by blast
qed

end
