(* ===== verification/Consumers.thy ===== *)
theory Consumers
  imports Pipeline "HOL-Library.Multiset"
begin

text \<open>
  The billing consumer of the metering events queue (\<open>src/services/billing/event_consumer.go\<close>) and what
  at-least-once delivery gives the two ledgers that read that queue: the vouchers of metering and the
  usage lines of billing.
\<close>

section \<open>The billing consumer\<close>

text \<open>
  How an instance of the billing service was built: \<open>New\<close> gets the server's components, \<open>NewForFVT\<close>
  only a database and a queue client.  The reserver is resolved from the components.
\<close>

record service_parts =
  sv_components :: bool
  sv_reserver :: bool

definition new_service :: service_parts where
  "new_service = \<lparr>sv_components = True, sv_reserver = False\<rparr>"

definition new_for_fvt :: service_parts where
  "new_for_fvt = \<lparr>sv_components = False, sv_reserver = False\<rparr>"

definition reserver_resolves :: "bool \<Rightarrow> service_parts \<Rightarrow> bool" where
  "reserver_resolves redis sv = (sv_reserver sv \<or> sv_components sv \<and> redis)"

definition funds_reservation_enabled :: "bool \<Rightarrow> bool \<Rightarrow> service_parts \<Rightarrow> bool" where
  "funds_reservation_enabled config redis sv = (config \<and> reserver_resolves redis sv)"

text \<open>
  One delivery: the generated line id, the accelerator lookup (\<open>None\<close> fails, \<open>Some None\<close> finds no service),
  the price table (\<open>None\<close> when it cannot be read), whether the line can be written, and the reservation
  switches.
\<close>

record billing_env =
  bn_line_id :: string
  bn_cards :: "string \<Rightarrow> string option option"
  bn_prices :: "price_entry list option"
  bn_model_name :: "string \<Rightarrow> string"
  bn_up :: bool
  bn_service :: service_parts
  bn_reservation :: bool
  bn_redis :: bool
  bn_redis_up :: bool
  bn_now :: int

datatype consume_error = InvalidEvent | Transient

definition validate_billing_event :: "billing_event \<Rightarrow> bool" where
  "validate_billing_event ev =
     (\<not> is_blank (be_request ev) \<and> length (be_request ev) \<le> 128
      \<and> \<not> is_blank (be_org ev) \<and> length (be_org ev) \<le> 64
      \<and> \<not> is_blank (be_key ev) \<and> length (be_key ev) \<le> 64
      \<and> \<not> is_blank (be_model ev) \<and> length (be_model ev) \<le> 128
      \<and> length (be_service ev) \<le> 64 \<and> length (be_card ev) \<le> 64
      \<and> 0 \<le> prompt (be_usage ev) \<and> 0 \<le> completion (be_usage ev) \<and> 0 \<le> cached (be_usage ev)
      \<and> 0 \<le> reasoning (be_usage ev) \<and> 0 < be_completed_at ev)"

definition resolve_card :: "billing_env \<Rightarrow> billing_event \<Rightarrow> string option" where
  "resolve_card env ev =
     (let own = trim_space (be_card ev);
          found = (if own = [] \<and> be_service ev \<noteq> []
                   then map_option (\<lambda>c. opt_or c []) (bn_cards env (be_service ev)) else Some own)
      in map_option (\<lambda>c. if c = [] then default_card_type else c) found)"

definition accrual_for :: "billing_env \<Rightarrow> usage_line \<Rightarrow> int" where
  "accrual_for env l =
     (case bn_prices env of
        None \<Rightarrow> 0
      | Some ps \<Rightarrow> estimate_accrual_micros
          (resolve_price_entry (bn_model_name env) (ul_model l) (ul_card l) (ul_completed_at l) ps)
          (ul_prompt l) (ul_completion l) (ul_cached l))"

definition line_of :: "billing_env \<Rightarrow> billing_event \<Rightarrow> string \<Rightarrow> usage_line" where
  "line_of env ev card_type =
     (let l = \<lparr>ul_id = bn_line_id env, ul_request = be_request ev, ul_org = be_org ev, ul_key = be_key ev,
         ul_owner = optional_id (be_owner ev), ul_project = optional_id (be_project ev), ul_model = be_model ev,
         ul_service = optional_id (be_service ev), ul_card = card_type, ul_prompt = prompt (be_usage ev),
         ul_completion = completion (be_usage ev), ul_cached = cached (be_usage ev),
         ul_reasoning = reasoning (be_usage ev), ul_completed_at = be_completed_at ev, ul_charge = None,
         ul_accrual = 0\<rparr>
      in l\<lparr>ul_accrual := accrual_for env l\<rparr>)"

definition handle_metering_event ::
  "billing_env \<Rightarrow> billing_event \<Rightarrow> db \<times> (string \<Rightarrow> org_holds)
   \<Rightarrow> consume_error + (string \<times> db \<times> (string \<Rightarrow> org_holds))" where
  "handle_metering_event env ev dh =
     (case dh of (d, h) \<Rightarrow>
        if \<not> validate_billing_event ev then Inl InvalidEvent
        else case resolve_card env ev of
          None \<Rightarrow> Inl Transient
        | Some c \<Rightarrow>
            if \<not> bn_up env then Inl Transient
            else case ingest_usage_line (line_of env ev c) d of
              Inl e \<Rightarrow> Inl Transient
            | Inr (stored, d') \<Rightarrow>
                Inr (ul_id stored, d',
                  release_hold (funds_reservation_enabled (bn_reservation env) (bn_redis env) (bn_service env))
                    (redis_release (bn_now env) (bn_redis_up env)) (ul_org stored) (ul_request stored) h))"

definition billing_consume ::
  "billing_env \<Rightarrow> string \<Rightarrow> db \<times> (string \<Rightarrow> org_holds) \<Rightarrow> bool \<times> db \<times> (string \<Rightarrow> org_holds)" where
  "billing_consume env body dh =
     (case decode_billing_event body of
        None \<Rightarrow> (True, dh)
      | Some ev \<Rightarrow>
          (case handle_metering_event env ev dh of
             Inl e \<Rightarrow> (e = InvalidEvent, dh)
           | Inr (lid, d', h') \<Rightarrow> (True, d', h')))"

text \<open>
  The consumer of the server is built with \<open>NewForFVT\<close>, so it has no reserver: it never frees the hold of
  a request it has recorded.  The hold lasts until its time to live, next to the accrual of the line.
\<close>

lemma consumer_never_releases:
  assumes "bn_service env = new_for_fvt"
  shows "snd (snd (billing_consume env body (d, h))) = h"
  using assms by (auto simp: billing_consume_def handle_metering_event_def release_hold_def funds_reservation_enabled_def
      reserver_resolves_def new_for_fvt_def split: option.splits sum.splits)

section \<open>At-least-once delivery to two ledgers\<close>

text \<open>
  What a consumer of the queue promises.  \<open>deliver c e s\<close> is one delivery of event \<open>e\<close> in circumstances \<open>c\<close>
  with its acknowledgement; \<open>facts\<close> is what the store holds.  An invalid event is acknowledged and leaves the
  store alone; a valid one adds at most its fact, once per id, and is not acknowledged unless the store
  holds its id.
\<close>

fun deliveries :: "('c \<Rightarrow> 'e \<Rightarrow> 's \<Rightarrow> bool \<times> 's) \<Rightarrow> ('c \<times> 'e) list \<Rightarrow> 's \<Rightarrow> 'e set \<times> 's" where
  "deliveries deliver [] s = ({}, s)"
| "deliveries deliver ((c, e) # ms) s =
     (case deliver c e s of (ack, s1) \<Rightarrow>
        (case deliveries deliver ms s1 of (ackd, s2) \<Rightarrow> (if ack then insert e ackd else ackd, s2)))"

lemma subset_step: "B \<subseteq> A \<union> D \<Longrightarrow> C \<subseteq> B \<union> E \<Longrightarrow> E \<subseteq> D \<Longrightarrow> C \<subseteq> A \<union> D"
  by blast

locale queue_consumer =
  fixes deliver :: "'c \<Rightarrow> 'e \<Rightarrow> 's \<Rightarrow> bool \<times> 's"
    and facts :: "'s \<Rightarrow> 'f list"
    and valid :: "'e \<Rightarrow> bool"
    and fact :: "'e \<Rightarrow> 'f"
    and fact_id :: "'f \<Rightarrow> 'i"
  assumes skipped: "\<not> valid e \<Longrightarrow> facts (snd (deliver c e s)) = facts s"
    and stored: "valid e \<Longrightarrow> facts (snd (deliver c e s)) = facts s
      \<or> facts (snd (deliver c e s)) = facts s @ [fact e] \<and> fact_id (fact e) \<notin> fact_id ` set (facts s)"
    and acknowledged: "valid e \<Longrightarrow> fst (deliver c e s) \<Longrightarrow> fact_id (fact e) \<in> fact_id ` set (facts (snd (deliver c e s)))"
begin

lemma step_keeps: "set (facts s) \<subseteq> set (facts (snd (deliver c e s)))"
  using stored [of e c s] skipped [of e c s] by (cases "valid e") auto

lemma step_adds: "set (facts (snd (deliver c e s))) \<subseteq> set (facts s) \<union> fact ` {x. x = e \<and> valid x}"
  using stored [of e c s] skipped [of e c s] by (cases "valid e") auto

lemma step_distinct: "distinct (map fact_id (facts s)) \<Longrightarrow> distinct (map fact_id (facts (snd (deliver c e s))))"
  using stored [of e c s] skipped [of e c s] by (cases "valid e") auto

lemma run_facts:
  assumes "deliveries deliver ms s = (ackd, s')"
  shows "set (facts s) \<subseteq> set (facts s')
    \<and> set (facts s') \<subseteq> set (facts s) \<union> fact ` {e \<in> snd ` set ms. valid e}
    \<and> (distinct (map fact_id (facts s)) \<longrightarrow> distinct (map fact_id (facts s')))
    \<and> (\<forall>e\<in>ackd. valid e \<longrightarrow> fact_id (fact e) \<in> fact_id ` set (facts s'))"
  using assms
proof (induction ms arbitrary: s ackd)
  case (Cons m ms)
  obtain c e where m: "m = (c, e)" by (cases m)
  obtain ack s1 where d: "deliver c e s = (ack, s1)" by fastforce
  obtain ackd1 where r: "deliveries deliver ms s1 = (ackd1, s')" "ackd = (if ack then insert e ackd1 else ackd1)"
    using Cons.prems m d by (auto split: prod.splits)
  note step = step_keeps [of s c e, unfolded d] step_adds [of c e s, unfolded d] step_distinct [of s c e, unfolded d]
    acknowledged [of e c s, unfolded d]
  note run = Cons.IH [OF r(1)]
  have "set (facts s) \<subseteq> set (facts s')" using step(1) run by simp blast
  moreover have "set (facts s') \<subseteq> set (facts s) \<union> fact ` {e \<in> snd ` set (m # ms). valid e}"
  proof -
    let ?B = "\<lambda>ms. fact ` {e \<in> snd ` set ms. valid e}"
    have "set (facts s1) \<subseteq> set (facts s) \<union> ?B (m # ms)"
    proof -
      have sub: "{x. x = e \<and> valid x} \<subseteq> {e \<in> snd ` set (m # ms). valid e}" using m by auto
      show ?thesis
        using step(2) Un_mono [OF subset_refl image_mono [OF sub, of fact], of "set (facts s)"]
        by (simp only: snd_conv)
    qed
    moreover have "set (facts s') \<subseteq> set (facts s1) \<union> ?B ms" using run by blast
    moreover have "?B ms \<subseteq> ?B (m # ms)" by auto
    ultimately show ?thesis by (rule subset_step)
  qed
  moreover have "distinct (map fact_id (facts s)) \<longrightarrow> distinct (map fact_id (facts s'))"
    using step(3) run by simp
  moreover have "fact_id (fact x) \<in> fact_id ` set (facts s')" if "x \<in> ackd" "valid x" for x
  proof (cases "x \<in> ackd1")
    case True
    then show ?thesis using run that(2) by blast
  next
    case False
    then have "x = e" "ack" using that(1) r(2) by (auto split: if_splits)
    then have "fact_id (fact e) \<in> fact_id ` set (facts s1)" using step(4) that(2) by simp
    then show ?thesis using run \<open>x = e\<close> by (metis (no_types, lifting) image_mono subsetD)
  qed
  ultimately show ?case by blast
qed auto

lemma ledger_converges:
  assumes "deliveries deliver ms s = (ackd, s')" "facts s = []" "inj_on (\<lambda>e. fact_id (fact e)) {e \<in> snd ` set ms. valid e}"
    "{e \<in> snd ` set ms. valid e} \<subseteq> ackd"
  shows "set (facts s') = fact ` {e \<in> snd ` set ms. valid e} \<and> distinct (facts s')"
proof -
  let ?E = "{e \<in> snd ` set ms. valid e}"
  have r: "set (facts s') \<subseteq> fact ` ?E" "distinct (map fact_id (facts s'))"
    "\<forall>e\<in>ackd. valid e \<longrightarrow> fact_id (fact e) \<in> fact_id ` set (facts s')"
    using run_facts [OF assms(1)] assms(2) by auto
  have "fact e \<in> set (facts s')" if e: "e \<in> ?E" for e
  proof -
    obtain f where f: "f \<in> set (facts s')" "fact_id f = fact_id (fact e)"
      using r(3) assms(4) e by (metis (no_types, lifting) imageE mem_Collect_eq subsetD)
    then obtain x where x: "x \<in> ?E" "f = fact x" using r(1) by blast
    have "x = e" using inj_onD [OF assms(3) _ x(1) e] x(2) f(2) by simp
    then show ?thesis using f(1) x(2) by simp
  qed
  then show ?thesis using r(1) distinct_map [of fact_id "facts s'"] r(2) by blast
qed

end


text \<open>What both ledgers record of one request.\<close>

record usage_fact =
  uf_request :: string
  uf_org :: string
  uf_key :: string
  uf_owner :: "string option"
  uf_project :: "string option"
  uf_model :: string
  uf_service :: "string option"
  uf_usage :: token_usage
  uf_completed_at :: int

definition event_fact :: "usage_event \<Rightarrow> usage_fact" where
  "event_fact ev = \<lparr>uf_request = ev_request ev, uf_org = ev_org ev, uf_key = ev_key ev,
     uf_owner = optional_id (ev_owner ev), uf_project = optional_id (ev_project ev), uf_model = ev_model ev,
     uf_service = optional_id (ev_service ev), uf_usage = ev_usage ev, uf_completed_at = ev_completed_at ev\<rparr>"

definition voucher_fact :: "voucher \<Rightarrow> usage_fact" where
  "voucher_fact v = \<lparr>uf_request = vo_request v, uf_org = vo_org v, uf_key = vo_key v, uf_owner = vo_owner v,
     uf_project = vo_project v, uf_model = vo_model v, uf_service = vo_service v,
     uf_usage = \<lparr>prompt = vo_prompt v, completion = vo_completion v, cached = vo_cached v, reasoning = vo_reasoning v\<rparr>,
     uf_completed_at = vo_completed_at v\<rparr>"

definition line_fact :: "usage_line \<Rightarrow> usage_fact" where
  "line_fact l = \<lparr>uf_request = ul_request l, uf_org = ul_org l, uf_key = ul_key l, uf_owner = ul_owner l,
     uf_project = ul_project l, uf_model = ul_model l, uf_service = ul_service l,
     uf_usage = \<lparr>prompt = ul_prompt l, completion = ul_completion l, cached = ul_cached l, reasoning = ul_reasoning l\<rparr>,
     uf_completed_at = ul_completed_at l\<rparr>"

definition voucher_facts :: "metering_db \<Rightarrow> usage_fact list" where
  "voucher_facts d = map voucher_fact (vouchers d)"

definition line_facts :: "db \<times> (string \<Rightarrow> org_holds) \<Rightarrow> usage_fact list" where
  "line_facts dh = map line_fact (usage_lines (fst dh))"

definition metering_valid :: "string \<Rightarrow> bool" where
  "metering_valid body = (case decode_metering_event body of None \<Rightarrow> False | Some ev \<Rightarrow> validate_event ev)"

definition billing_valid :: "string \<Rightarrow> bool" where
  "billing_valid body = (case decode_billing_event body of None \<Rightarrow> False | Some ev \<Rightarrow> validate_billing_event ev)"

definition metering_fact :: "string \<Rightarrow> usage_fact" where
  "metering_fact body = event_fact (opt_or (decode_metering_event body) zero_event)"

definition billing_fact :: "string \<Rightarrow> usage_fact" where
  "billing_fact body = (case opt_or (decode_billing_event body) zero_billing_event of ev \<Rightarrow>
     \<lparr>uf_request = be_request ev, uf_org = be_org ev, uf_key = be_key ev,
     uf_owner = optional_id (be_owner ev), uf_project = optional_id (be_project ev), uf_model = be_model ev,
     uf_service = optional_id (be_service ev), uf_usage = be_usage ev, uf_completed_at = be_completed_at ev\<rparr>)"

lemma voucher_of_fact: "voucher_fact (voucher_of dl ev) = event_fact ev"
  by (simp add: voucher_fact_def voucher_of_def event_fact_def ev_usage_def)

lemma voucher_of_request [simp]: "vo_request (voucher_of dl ev) = ev_request ev" "uf_request (event_fact ev) = ev_request ev"
  by (simp_all add: voucher_of_def event_fact_def)

lemma voucher_fact_request [simp]: "uf_request (voucher_fact v) = vo_request v"
  by (simp add: voucher_fact_def)

lemma line_fact_request [simp]: "uf_request (line_fact l) = ul_request l"
  by (simp add: line_fact_def)

lemma ingest_log_vouchers [simp]: "vouchers (ingest_request_log up l d) = vouchers d"
  by (simp add: ingest_request_log_def)

lemma metering_consume_cases:
  "metering_consume dl body d = (ack, d') \<Longrightarrow>
    (if metering_valid body
     then vouchers d' = vouchers d \<and> (ack \<longrightarrow> uf_request (metering_fact body) \<in> vo_request ` set (vouchers d))
       \<or> vouchers d' = vouchers d @ [voucher_of dl (the (decode_metering_event body))]
         \<and> uf_request (metering_fact body) \<notin> vo_request ` set (vouchers d)
     else vouchers d' = vouchers d)"
  by (auto simp: metering_consume_def consume_def metering_valid_def handle_event_def ingest_voucher_def
      find_voucher_def metering_fact_def opt_or_def event_fact_def voucher_of_def image_iff dest!: find_SomeD
      split: option.splits sum.splits if_splits) metis+

lemma billing_consume_cases:
  "billing_consume env body dh = (ack, dh') \<Longrightarrow>
    (if billing_valid body
     then usage_lines (fst dh') = usage_lines (fst dh) \<and> (ack \<longrightarrow> uf_request (billing_fact body) \<in> ul_request ` set (usage_lines (fst dh)))
       \<or> (\<exists>c. usage_lines (fst dh') = usage_lines (fst dh) @ [line_of env (the (decode_billing_event body)) c])
         \<and> uf_request (billing_fact body) \<notin> ul_request ` set (usage_lines (fst dh))
     else usage_lines (fst dh') = usage_lines (fst dh))"
  by (auto simp: billing_consume_def billing_valid_def handle_metering_event_def ingest_usage_line_def
      billing_fact_def opt_or_def line_of_def Let_def image_iff dest!: find_SomeD
      split: option.splits sum.splits if_splits prod.splits) metis+


lemma metering_validE:
  assumes "metering_valid body"
  obtains ev where "decode_metering_event body = Some ev" "metering_fact body = event_fact ev" "validate_event ev"
  using assms by (auto simp: metering_valid_def metering_fact_def opt_or_def split: option.splits)

lemma billing_validE:
  assumes "billing_valid body"
  obtains ev where "decode_billing_event body = Some ev" "validate_billing_event ev"
  using assms by (auto simp: billing_valid_def split: option.splits)

lemma line_of_request: "decode_billing_event body = Some ev \<Longrightarrow> ul_request (line_of env ev c) = uf_request (billing_fact body)"
  by (simp add: line_of_def billing_fact_def opt_or_def Let_def)

lemma line_of_fact: "decode_billing_event body = Some ev \<Longrightarrow> line_fact (line_of env ev c) = billing_fact body"
  by (simp add: line_fact_def line_of_def billing_fact_def opt_or_def Let_def)

lemma metering_step:
  assumes "metering_valid body"
  shows "voucher_facts (snd (metering_consume dl body d)) = voucher_facts d
      \<or> voucher_facts (snd (metering_consume dl body d)) = voucher_facts d @ [metering_fact body]
        \<and> uf_request (metering_fact body) \<notin> uf_request ` set (voucher_facts d)"
    and "fst (metering_consume dl body d)
      \<Longrightarrow> uf_request (metering_fact body) \<in> uf_request ` set (voucher_facts (snd (metering_consume dl body d)))"
proof -
  obtain ev where ev: "decode_metering_event body = Some ev" "metering_fact body = event_fact ev"
    using assms by (rule metering_validE)
  obtain ack d' where m: "metering_consume dl body d = (ack, d')" by fastforce
  note cases = metering_consume_cases [OF m, unfolded if_P [OF assms]]
  show "voucher_facts (snd (metering_consume dl body d)) = voucher_facts d
      \<or> voucher_facts (snd (metering_consume dl body d)) = voucher_facts d @ [metering_fact body]
        \<and> uf_request (metering_fact body) \<notin> uf_request ` set (voucher_facts d)"
    using cases ev m by (auto simp: voucher_facts_def voucher_of_fact image_image)
  show "fst (metering_consume dl body d)
      \<Longrightarrow> uf_request (metering_fact body) \<in> uf_request ` set (voucher_facts (snd (metering_consume dl body d)))"
    using cases ev m by (auto simp: voucher_facts_def voucher_of_fact image_image)
qed

lemma billing_step:
  assumes "billing_valid body"
  shows "line_facts (snd (billing_consume env body d)) = line_facts d
      \<or> line_facts (snd (billing_consume env body d)) = line_facts d @ [billing_fact body]
        \<and> uf_request (billing_fact body) \<notin> uf_request ` set (line_facts d)"
    and "fst (billing_consume env body d)
      \<Longrightarrow> uf_request (billing_fact body) \<in> uf_request ` set (line_facts (snd (billing_consume env body d)))"
proof -
  obtain ev where ev: "decode_billing_event body = Some ev"
    using assms by (rule billing_validE)
  obtain ack d' where m: "billing_consume env body d = (ack, d')" by (rule prod.exhaust)
  note cases = billing_consume_cases [OF m, unfolded if_P [OF assms]]
  show "line_facts (snd (billing_consume env body d)) = line_facts d
      \<or> line_facts (snd (billing_consume env body d)) = line_facts d @ [billing_fact body]
        \<and> uf_request (billing_fact body) \<notin> uf_request ` set (line_facts d)"
    using cases ev m by (auto simp: line_facts_def line_of_fact [OF ev] line_of_request [OF ev] image_image)
  show "fst (billing_consume env body d)
      \<Longrightarrow> uf_request (billing_fact body) \<in> uf_request ` set (line_facts (snd (billing_consume env body d)))"
    using cases ev m by (auto simp: line_facts_def line_of_fact [OF ev] line_of_request [OF ev] image_image)
qed

interpretation metered: queue_consumer metering_consume voucher_facts metering_valid metering_fact uf_request
proof
  show "voucher_facts (snd (metering_consume dl body d)) = voucher_facts d" if "\<not> metering_valid body" for dl body d
  proof -
    obtain ack d' where m: "metering_consume dl body d = (ack, d')" by fastforce
    show ?thesis using metering_consume_cases [OF m, unfolded if_not_P [OF that]] m by (simp add: voucher_facts_def)
  qed
qed (fact metering_step)+

interpretation invoiced: queue_consumer billing_consume line_facts billing_valid billing_fact uf_request
proof
  show "line_facts (snd (billing_consume env body d)) = line_facts d" if "\<not> billing_valid body" for env body d
  proof -
    obtain ack d' where m: "billing_consume env body d = (ack, d')" by (rule prod.exhaust)
    show ?thesis using billing_consume_cases [OF m, unfolded if_not_P [OF that]] m by (simp add: line_facts_def)
  qed
qed (fact billing_step)+

text \<open>A published event is good for both ledgers under the rule of metering, the stricter one.\<close>

lemma event_valid:
  assumes "event_in_range ev"
  shows "metering_valid (event_text ev) = validate_event ev"
    and "validate_event ev \<Longrightarrow> billing_valid (event_text ev)"
    and "metering_fact (event_text ev) = event_fact ev" and "billing_fact (event_text ev) = event_fact ev"
  using assms by (auto simp: metering_valid_def billing_valid_def metering_fact_def billing_fact_def decode_for_metering
      decode_for_billing opt_or_def billed_view_def validate_event_def validate_billing_event_def event_fact_def
      ev_usage_def)


text \<open>C32. Usage metering and billing never disagree about a request.  Both read the same queue, each at least
  once, in its own order, with its own failures and redeliveries.  Once every published event is
  acknowledged to both, each ledger holds every event's facts exactly once, the same facts in both: no
  request is metered but not billed, billed twice, or billed with other token counts.\<close>
theorem ledgers_agree:
  assumes events: "\<And>ev. ev \<in> set evs \<Longrightarrow> event_in_range ev \<and> validate_event ev"
    and requests: "distinct (map ev_request evs)"
    and m: "deliveries metering_consume ms empty_metering = (mdone, md)" "snd ` set ms = event_text ` set evs" "snd ` set ms \<subseteq> mdone"
    and b: "deliveries billing_consume bs (empty_db, h) = (bdone, bd)" "snd ` set bs = event_text ` set evs" "snd ` set bs \<subseteq> bdone"
  shows "mset (voucher_facts md) = mset (map event_fact evs) \<and> mset (line_facts bd) = mset (map event_fact evs)"
proof -
  have inj: "inj_on ev_request (set evs)" "distinct evs"
    using requests by (simp_all add: distinct_map)
  have facts: "metering_valid (event_text ev)" "billing_valid (event_text ev)"
    "metering_fact (event_text ev) = event_fact ev" "billing_fact (event_text ev) = event_fact ev" if "ev \<in> set evs" for ev
    using events [OF that] event_valid [of ev] by auto
  have "set (voucher_facts md) = metering_fact ` {e \<in> snd ` set ms. metering_valid e} \<and> distinct (voucher_facts md)"
  proof (rule metered.ledger_converges [OF m(1)])
    show "inj_on (\<lambda>e. uf_request (metering_fact e)) {e \<in> snd ` set ms. metering_valid e}"
      using inj(1) facts m(2) by (auto simp: inj_on_def)
  qed (use m(3) in \<open>auto simp: voucher_facts_def empty_metering_def\<close>)
  moreover have "set (line_facts bd) = billing_fact ` {e \<in> snd ` set bs. billing_valid e} \<and> distinct (line_facts bd)"
  proof (rule invoiced.ledger_converges [OF b(1)])
    show "inj_on (\<lambda>e. uf_request (billing_fact e)) {e \<in> snd ` set bs. billing_valid e}"
      using inj(1) facts b(2) by (auto simp: inj_on_def)
  qed (use b(3) in \<open>auto simp: line_facts_def empty_db_def\<close>)
  moreover have "metering_fact ` {e \<in> snd ` set ms. metering_valid e} = set (map event_fact evs)"
    "billing_fact ` {e \<in> snd ` set bs. billing_valid e} = set (map event_fact evs)"
    using facts m(2) b(2) by (auto simp: image_iff) metis+
  moreover have "distinct (map event_fact evs)"
    using inj by (auto simp: distinct_map inj_on_def dest!: arg_cong [where f = uf_request])
  ultimately show ?thesis by (metis set_eq_iff_mset_eq_distinct)
qed


definition sample_event :: usage_event where
  "sample_event = zero_event\<lparr>ev_request := ''r1'', ev_org := ''org'', ev_key := ''key'', ev_model := ''m'',
     ev_prompt := 7, ev_completion := 5, ev_completed_at := 3700\<rparr>"

definition sample_delivery :: "string \<Rightarrow> bool \<Rightarrow> delivery" where
  "sample_delivery vid up = \<lparr>dl_voucher_id = vid, dl_log_id = vid, dl_now = 0, dl_up = up, dl_log_up = True\<rparr>"

definition sample_billing_env :: "string \<Rightarrow> bool \<Rightarrow> billing_env" where
  "sample_billing_env lid up = \<lparr>bn_line_id = lid, bn_cards = (\<lambda>s. None), bn_prices = Some [], bn_model_name = (\<lambda>m. m),
     bn_up = up, bn_service = new_for_fvt, bn_reservation = True, bn_redis = True, bn_redis_up = True, bn_now = 0\<rparr>"

lemma sample_ok: "event_in_range sample_event" "validate_event sample_event"
  by (simp_all add: sample_event_def zero_event_def event_in_range_def in_int64_def) code_simp

lemma sample_billed: "validate_billing_event (billed_view sample_event)"
  by code_simp

definition sample_metering :: "(delivery \<times> string) list" where
  "sample_metering = [(sample_delivery ''v1'' False, event_text sample_event), (sample_delivery ''v2'' True, event_text sample_event)]"

definition sample_billing :: "(billing_env \<times> string) list" where
  "sample_billing = [(sample_billing_env ''l1'' True, event_text sample_event), (sample_billing_env ''l2'' True, event_text sample_event)]"

lemma sample_metering_done: "fst (deliveries metering_consume sample_metering empty_metering) = {event_text sample_event}"
  by (simp add: sample_metering_def metering_consume_def decode_for_metering sample_ok consume_def handle_event_def
      ingest_voucher_def sample_delivery_def empty_metering_def split: prod.split)

lemma sample_billing_done: "fst (deliveries billing_consume sample_billing (empty_db, no_org_holds)) = {event_text sample_event}"
proof -
  have "trim_space [] = []" by code_simp
  then have "resolve_card (sample_billing_env x True) (billed_view sample_event) = Some default_card_type" for x
    by (simp add: resolve_card_def billed_view_def sample_event_def zero_event_def Let_def)
  then show ?thesis
    by (simp add: sample_billing_def billing_consume_def decode_for_billing sample_ok handle_metering_event_def sample_billed
      ingest_usage_line_def empty_db_def split: prod.split option.split sum.split)
     (simp add: sample_billing_env_def)
qed

theorem ledgers_agree_witness:
  "mset (voucher_facts (snd (deliveries metering_consume sample_metering empty_metering))) = {#event_fact sample_event#}
   \<and> mset (line_facts (snd (deliveries billing_consume sample_billing (empty_db, no_org_holds)))) = {#event_fact sample_event#}"
proof -
  obtain mdone md bdone bd where d: "deliveries metering_consume sample_metering empty_metering = (mdone, md)"
    "deliveries billing_consume sample_billing (empty_db, no_org_holds) = (bdone, bd)"
    by (metis surj_pair)
  have "mset (voucher_facts md) = mset (map event_fact [sample_event]) \<and> mset (line_facts bd) = mset (map event_fact [sample_event])"
    by (rule ledgers_agree [OF _ _ d(1) _ _ d(2)])
      (use sample_ok sample_metering_done sample_billing_done d in
        \<open>auto simp: sample_metering_def sample_billing_def\<close>)
  then show ?thesis by (simp add: d)
qed

end
