(* ===== verification/Charging.thy ===== *)
theory Charging
  imports Consumers
begin

text \<open>
  The two paths that charge recorded usage: the consumer of the settlements queue
  (\<open>src/services/billing/settlements_consumer.go\<close>) and the reconciliation runner
  (\<open>src/services/billing/reconciliation_runner.go\<close>).  Lemmas: a pass only removes uncharged lines, and what
  it leaves is in a failed group.
\<close>

section \<open>The settlements queue\<close>

text \<open>The message of a settled hour; \<open>rfc3339\<close> is \<open>time.Time.Format\<close> of package \<open>time\<close>.\<close>

definition settlement_tree :: "(int \<Rightarrow> string) \<Rightarrow> settlement_event \<Rightarrow> (string \<times> string \<times> jtree) list" where
  "settlement_tree rfc3339 e =
     [m_str ''usage_record_id'' (se_record_id e), m_str ''api_key_id'' (se_key e), m_str ''organization_id'' (se_org e),
      m_str ''owner_user_id'' (se_owner e), m_str ''project_id'' (se_project e),
      m_int ''period_start'' (se_period_start e), m_int ''period_end'' (se_period_end e),
      m_int ''prompt_tokens'' (se_prompt e), m_int ''completion_tokens'' (se_completion e),
      m_int ''cached_tokens'' (se_cached e), m_int ''reasoning_tokens'' (se_reasoning e),
      m_int ''request_count'' (se_requests e), m_str ''settled_at'' (rfc3339 (se_settled_at e))]"

definition settlement_text :: "(int \<Rightarrow> string) \<Rightarrow> settlement_event \<Rightarrow> string" where
  "settlement_text rfc3339 e = object_text (texts (settlement_tree rfc3339 e))"

record settlement_notice =
  sn_record_id :: string
  sn_key :: string
  sn_org :: string
  sn_period_start :: int
  sn_period_end :: int

definition settlement_notice_fields :: "(string \<times> settlement_notice field_setter) list" where
  "settlement_notice_fields =
     [(''usage_record_id'', str_setter (\<lambda>s e. e\<lparr>sn_record_id := s\<rparr>)),
      (''api_key_id'', str_setter (\<lambda>s e. e\<lparr>sn_key := s\<rparr>)),
      (''organization_id'', str_setter (\<lambda>s e. e\<lparr>sn_org := s\<rparr>)),
      (''period_start'', int_setter (\<lambda>n e. e\<lparr>sn_period_start := n\<rparr>)),
      (''period_end'', int_setter (\<lambda>n e. e\<lparr>sn_period_end := n\<rparr>))]"

definition decode_settlement :: "string \<Rightarrow> settlement_notice option" where
  "decode_settlement = go_unmarshal settlement_notice_fields
     \<lparr>sn_record_id = [], sn_key = [], sn_org = [], sn_period_start = 0, sn_period_end = 0\<rparr>"

text \<open>
  One delivery.  \<open>env\<close> is what the pass finds for the bucket, \<open>None\<close> when the tables cannot be read; the
  flag is the acknowledgement.
\<close>

definition settlement_consume :: "pass_env option \<Rightarrow> string \<Rightarrow> db \<Rightarrow> bool \<times> db" where
  "settlement_consume env body d =
     (case decode_settlement body of
        None \<Rightarrow> (True, d)
      | Some e \<Rightarrow>
          if sn_key e = [] \<or> sn_period_start e \<le> 0 then (True, d)
          else case env of
            None \<Rightarrow> (False, d)
          | Some pe \<Rightarrow> (True, snd (price_once pe (sn_key e) (sn_period_start e) d)))"

section \<open>Reconciliation\<close>

text \<open>
  One pass: the clock in nanoseconds, the grace period in seconds, whether each query succeeds, the order
  in which the workers take the buckets and what each bucket's pass finds.
\<close>

record reconcile_pass =
  rc_now :: int
  rc_grace :: int
  rc_release_up :: bool
  rc_up :: bool
  rc_order :: "(string \<times> string \<times> int) list \<Rightarrow> (string \<times> string \<times> int) list"
  rc_env :: "string \<times> string \<times> int \<Rightarrow> pass_env option"

definition stale_accrual_after :: int where
  "stale_accrual_after = 7200"

text \<open>Completion times are whole seconds: before a time in nanoseconds means below its second, rounded up.\<close>

definition seconds_up :: "int \<Rightarrow> int" where
  "seconds_up ns = - (- ns div 1000000000)"

definition release_stale :: "reconcile_pass \<Rightarrow> db \<Rightarrow> db" where
  "release_stale rc d =
     (if rc_release_up rc
      then snd (snd (release_stale_accrual (seconds_up (rc_now rc - nanos stale_accrual_after)) d)) else d)"

definition hour_closed :: "int \<Rightarrow> int \<Rightarrow> int \<Rightarrow> bool" where
  "hour_closed grace now ps = (ps + 3600 + grace \<le> now div 1000000000)"

definition eligible_buckets :: "reconcile_pass \<Rightarrow> db \<Rightarrow> (string \<times> string \<times> int) list" where
  "eligible_buckets rc d =
     filter (\<lambda>(key, org, ps). hour_closed (rc_grace rc) (rc_now rc) ps)
       (uncharged_hour_buckets (seconds_up (rc_now rc - nanos (rc_grace rc))) d)"

text \<open>The buckets that could not be read, the groups whose charge failed, and the tables.\<close>

fun price_buckets ::
  "reconcile_pass \<Rightarrow> (string \<times> string \<times> int) list \<Rightarrow> db \<Rightarrow> (string \<times> string \<times> int) list \<times> usage_group list \<times> db" where
  "price_buckets rc [] d = ([], [], d)"
| "price_buckets rc ((key, org, ps) # bs) d =
     (case rc_env rc (key, org, ps) of
        None \<Rightarrow> (case price_buckets rc bs d of (unread, bad, d') \<Rightarrow> ((key, org, ps) # unread, bad, d'))
      | Some env \<Rightarrow>
          (case price_once env key ps d of (bad1, d1) \<Rightarrow>
             (case price_buckets rc bs d1 of (unread, bad, d') \<Rightarrow> (unread, bad1 @ bad, d'))))"

definition reconcile_once ::
  "reconcile_pass \<Rightarrow> db \<Rightarrow> (string \<times> string \<times> int) list \<times> usage_group list \<times> db" where
  "reconcile_once rc d =
     (let d0 = release_stale rc d in
      if \<not> rc_up rc then ([], [], d0)
      else price_buckets rc (rc_order rc (eligible_buckets rc d0)) d0)"

section \<open>Charging converges\<close>

definition uncharged_lines :: "db \<Rightarrow> usage_line set" where
  "uncharged_lines d = {l \<in> set (usage_lines d). ul_charge l = None}"

lemma charge_group_uncharged:
  assumes "charge_group cents tid conflict g rec spec d = Inr d'"
  shows "uncharged_lines d' \<subseteq> uncharged_lines d"
proof
  fix l assume l: "l \<in> uncharged_lines d'"
  obtain cid where u: "usage_lines d' = update_where (charges_line g) (\<lambda>l. l\<lparr>ul_charge := Some cid, ul_accrual := 0\<rparr>) (usage_lines d)"
    using charge_group_lines [OF assms] by blast
  obtain l0 where l0: "l0 \<in> set (usage_lines d)"
    "l = (if charges_line g l0 then l0\<lparr>ul_charge := Some cid, ul_accrual := 0\<rparr> else l0)"
    using l unfolding u uncharged_lines_def update_where_set by blast
  then show "l \<in> uncharged_lines d" using l by (cases "charges_line g l0") (simp_all add: uncharged_lines_def)
qed

lemma price_groups_uncharged: "uncharged_lines (snd (price_groups env gs account d)) \<subseteq> uncharged_lines d"
proof (induction env gs account d rule: price_groups.induct)
  case (2 env g gs account d)
  let ?a = "case account of Some a \<Rightarrow> if acct_org a = ug_org g then Some a else find_by_org (ug_org g) d
          | None \<Rightarrow> find_by_org (ug_org g) d"
  show ?case
  proof (cases "charge_usage_group env g ?a d")
    case (Inl e)
    then show ?thesis using "2.IH"(1) [OF refl Inl] by (simp add: Let_def split_beta)
  next
    case (Inr d1)
    then obtain cents tid conflict rec spec where "charge_group cents tid conflict g rec spec d = Inr d1"
      by (auto simp: charge_usage_group_def split: option.splits)
    then have "uncharged_lines d1 \<subseteq> uncharged_lines d" by (rule charge_group_uncharged)
    then show ?thesis using "2.IH"(2) [OF refl Inr] Inr by (simp add: Let_def)
  qed
qed simp

lemma price_once_uncharged: "price_once env key ps d = (bad, d') \<Longrightarrow> uncharged_lines d' \<subseteq> uncharged_lines d"
  using price_groups_uncharged [of env "uncharged_groups key ps (ps + 3600) d" None d] by (simp add: price_once_def)

lemma price_once_left:
  assumes "price_once env key ps d = (bad, d')" "l \<in> uncharged_lines d'" "uncharged_in key ps (ps + 3600) l"
  shows "\<exists>g\<in>set bad. charges_line g l"
proof -
  have "covered key ps (ps + 3600) ([] @ uncharged_groups key ps (ps + 3600) d) d" using groups_cover by simp
  then have "covered key ps (ps + 3600) ([] @ bad) d'"
    using assms(1) unfolding price_once_def by (rule price_groups_covers [rotated])
  then show ?thesis using assms(2,3) by (simp add: covered_def uncharged_lines_def)
qed

definition line_bucket :: "usage_line \<Rightarrow> string \<times> string \<times> int" where
  "line_bucket l = (ul_key l, ul_org l, ul_completed_at l div 3600 * 3600)"

lemma line_in_bucket:
  "ul_charge l = None \<Longrightarrow> line_bucket l = (key, org, ps) \<Longrightarrow> uncharged_in key ps (ps + 3600) l"
proof -
  assume a: "ul_charge l = None" "line_bucket l = (key, org, ps)"
  have "ps \<le> ul_completed_at l \<and> ul_completed_at l < ps + 3600"
    using a(2) div_mult_mod_eq [of "ul_completed_at l" 3600] pos_mod_bound [of 3600 "ul_completed_at l"]
      pos_mod_sign [of 3600 "ul_completed_at l"] by (simp add: line_bucket_def) linarith
  then show ?thesis using a by (simp add: uncharged_in_def line_bucket_def)
qed

lemma price_buckets_left:
  "price_buckets rc bs d = (unread, bad, d') \<Longrightarrow> uncharged_lines d' \<subseteq> uncharged_lines d
    \<and> (\<forall>l\<in>uncharged_lines d'. line_bucket l \<in> set bs \<longrightarrow> line_bucket l \<in> set unread \<or> (\<exists>g\<in>set bad. charges_line g l))"
proof (induction rc bs d arbitrary: unread bad d' rule: price_buckets.induct)
  case (2 rc key org ps bs d)
  show ?case
  proof (cases "rc_env rc (key, org, ps)")
    case None
    then obtain unread1 where p: "price_buckets rc bs d = (unread1, bad, d')" "unread = (key, org, ps) # unread1"
      using "2.prems" by (auto split: prod.splits)
    show ?thesis using "2.IH"(1) [OF None p(1)] p(2) by auto
  next
    case (Some env)
    obtain bad1 d1 where o: "price_once env key ps d = (bad1, d1)" by (rule prod.exhaust)
    then obtain bad2 where p: "price_buckets rc bs d1 = (unread, bad2, d')" "bad = bad1 @ bad2"
      using "2.prems" Some by (auto split: prod.splits)
    note ih = "2.IH"(2) [OF Some, OF o [symmetric], OF p(1)]
    note u = price_once_uncharged [OF o]
    have "line_bucket l \<in> set unread \<or> (\<exists>g\<in>set bad. charges_line g l)"
      if l: "l \<in> uncharged_lines d'" "line_bucket l \<in> set ((key, org, ps) # bs)" for l
    proof (cases "line_bucket l = (key, org, ps)")
      case True
      have l1: "l \<in> uncharged_lines d1" using ih l(1) by blast
      have "uncharged_in key ps (ps + 3600) l"
        using l1 True by (intro line_in_bucket) (simp_all add: uncharged_lines_def)
      then show ?thesis using price_once_left [OF o l1] p(2) by auto
    next
      case False
      then show ?thesis using ih l p(2) by auto
    qed
    then show ?thesis using ih u by blast
  qed
qed simp

lemma eligible_bucket:
  assumes "l \<in> uncharged_lines d" "line_bucket l = (key, org, ps)" "hour_closed (rc_grace rc) (rc_now rc) ps"
  shows "line_bucket l \<in> set (eligible_buckets rc d)"
proof -
  have c: "ul_completed_at l < ps + 3600" "ul_charge l = None"
    using line_in_bucket [OF _ assms(2)] assms(1) by (simp_all add: uncharged_in_def uncharged_lines_def)
  have "nanos (ps + 3600 + rc_grace rc) \<le> rc_now rc"
    using assms(3) by (simp add: hour_closed_def nanos_def)
  then have "ps + 3600 \<le> seconds_up (rc_now rc - nanos (rc_grace rc))"
    by (simp add: seconds_up_def nanos_def)
  then have "ul_completed_at l < seconds_up (rc_now rc - nanos (rc_grace rc))" using c(1) by linarith
  then show ?thesis
    using assms c(2) by (force simp: eligible_buckets_def uncharged_hour_buckets_def uncharged_lines_def line_bucket_def)
qed

text \<open>C34. Charging converges without the settlement messages: after one reconciliation pass, every usage line
  of an hour that closed at least the grace period ago and is still uncharged belongs to a bucket the pass
  could not read or to a group whose charge failed, in whatever order the workers took the buckets; no
  line is passed over in silence.\<close>
theorem reconciliation_converges:
  assumes "rc_up rc" "set (rc_order rc (eligible_buckets rc (release_stale rc d))) = set (eligible_buckets rc (release_stale rc d))"
    "reconcile_once rc d = (unread, bad, d')"
    "l \<in> uncharged_lines d'" "hour_closed (rc_grace rc) (rc_now rc) (ul_completed_at l div 3600 * 3600)"
  shows "line_bucket l \<in> set unread \<or> (\<exists>g\<in>set bad. charges_line g l)"
proof -
  have p: "price_buckets rc (rc_order rc (eligible_buckets rc (release_stale rc d))) (release_stale rc d) = (unread, bad, d')"
    using assms(1,3) by (simp add: reconcile_once_def Let_def)
  note left = price_buckets_left [OF p]
  then have "l \<in> uncharged_lines (release_stale rc d)" using assms(4) by blast
  then have "line_bucket l \<in> set (eligible_buckets rc (release_stale rc d))"
    using assms(5) by (intro eligible_bucket) (simp_all add: line_bucket_def)
  then show ?thesis using left assms(2,4) by blast
qed


definition demo_reconcile :: "(string \<times> string \<times> int \<Rightarrow> pass_env option) \<Rightarrow> reconcile_pass" where
  "demo_reconcile env = \<lparr>rc_now = nanos 20000, rc_grace = 300, rc_release_up = True, rc_up = True, rc_order = rev, rc_env = env\<rparr>"

theorem reconciliation_converges_witness:
  "line_bucket (demo_line ''r'') \<in> set (fst (reconcile_once (demo_reconcile (\<lambda>b. None)) (empty_db\<lparr>usage_lines := [demo_line ''r'']\<rparr>)))"
proof -
  let ?d = "empty_db\<lparr>usage_lines := [demo_line ''r'']\<rparr>" and ?rc = "demo_reconcile (\<lambda>b. None)"
  let ?l = "(demo_line ''r'')\<lparr>ul_accrual := 0\<rparr>"
  obtain unread bad d' where r: "reconcile_once ?rc ?d = (unread, bad, d')" by (rule prod_cases3)
  have "fst (snd (reconcile_once ?rc ?d)) = []" "usage_lines (snd (snd (reconcile_once ?rc ?d))) = [?l]"
    by code_simp+
  then have d: "bad = []" "?l \<in> uncharged_lines d'"
    using r by (simp_all add: uncharged_lines_def demo_line_def)
  have "rc_up ?rc" "rc_order ?rc = rev" "rc_grace ?rc = 300" "rc_now ?rc = nanos 20000"
    by (simp_all add: demo_reconcile_def)
  with reconciliation_converges [OF _ _ r d(2)] d(1) have "line_bucket ?l \<in> set unread"
    by (simp add: hour_closed_def nanos_def demo_line_def)
  then show ?thesis using r by (simp add: line_bucket_def)
qed


section \<open>A settled hour is charged\<close>

lemma settlement_keys:
  "map plain_char ''usage_record_id'' = ''usage_record_id''" "map plain_char ''period_start'' = ''period_start''"
  "map plain_char ''period_end'' = ''period_end''" "map plain_char ''request_count'' = ''request_count''"
  "map plain_char ''settled_at'' = ''settled_at''"
  by (rule key_plain, simp add: key_char_def byte_def)+

lemma settlement_unknown:
  "find_field settlement_notice_fields k = None"
  if "k \<in> {''owner_user_id'', ''project_id'', ''prompt_tokens'', ''completion_tokens'', ''cached_tokens'', ''reasoning_tokens'',
    ''request_count'', ''settled_at''}"
  using that by (elim insertE emptyE) (simp_all, code_simp+)

lemma settlement_known:
  "find_field settlement_notice_fields ''usage_record_id'' = Some (str_setter (\<lambda>s e. e\<lparr>sn_record_id := s\<rparr>))"
  "find_field settlement_notice_fields ''api_key_id'' = Some (str_setter (\<lambda>s e. e\<lparr>sn_key := s\<rparr>))"
  "find_field settlement_notice_fields ''organization_id'' = Some (str_setter (\<lambda>s e. e\<lparr>sn_org := s\<rparr>))"
  "find_field settlement_notice_fields ''period_start'' = Some (int_setter (\<lambda>n e. e\<lparr>sn_period_start := n\<rparr>))"
  "find_field settlement_notice_fields ''period_end'' = Some (int_setter (\<lambda>n e. e\<lparr>sn_period_end := n\<rparr>))"
  by (simp_all add: find_field_def settlement_notice_fields_def)

lemma decode_settlement_text:
  assumes "in_int64 (se_period_start e)" "in_int64 (se_period_end e)"
  shows "decode_settlement (settlement_text rfc3339 e) = Some \<lparr>sn_record_id = se_record_id e, sn_key = se_key e,
    sn_org = se_org e, sn_period_start = se_period_start e, sn_period_end = se_period_end e\<rparr>"
proof -
  have "list_all (reads_member 0) (settlement_tree rfc3339 e)" "settlement_tree rfc3339 e \<noteq> []"
    by (simp_all add: settlement_tree_def)
  then have "decode_settlement (settlement_text rfc3339 e)
      = set_members settlement_notice_fields (tree_members (settlement_tree rfc3339 e))
          \<lparr>sn_record_id = [], sn_key = [], sn_org = [], sn_period_start = 0, sn_period_end = 0\<rparr>"
    unfolding decode_settlement_def settlement_text_def
    by (intro decode_object [where h = 0]) (simp_all add: max_nesting_def)
  then show ?thesis using assms
    by (simp add: settlement_tree_def tree_members_simps settlement_keys plain_keys literal_keys_read set_member_def
        settlement_unknown settlement_known parse_int64_go del: list.map(2))
qed

text \<open>What metering settles billing charges: the message published for a usage record reaches the charging
  pass of that record's key and hour, and once it is acknowledged every usage line of the hour is
  charged or belongs to a group whose charge failed.  A redelivery is the same pass again.\<close>
theorem settlement_charges_the_hour:
  assumes "ur_key r \<noteq> []" "0 < ur_period_start r" "in_int64 (ur_period_start r)" "in_int64 (ur_period_end r)"
    "settlement_consume env (settlement_text rfc3339 (settlement_event_of r)) d = (True, d')"
    "l \<in> set (usage_lines d')" "uncharged_in (ur_key r) (ur_period_start r) (ur_period_start r + 3600) l"
  shows "\<exists>pe g. env = Some pe \<and> g \<in> set (fst (price_once pe (ur_key r) (ur_period_start r) d)) \<and> charges_line g l"
proof -
  have "decode_settlement (settlement_text rfc3339 (settlement_event_of r)) = Some \<lparr>sn_record_id = ur_id r, sn_key = ur_key r,
    sn_org = ur_org r, sn_period_start = ur_period_start r, sn_period_end = ur_period_end r\<rparr>"
    using decode_settlement_text [of "settlement_event_of r" rfc3339] assms(3,4) by (simp add: settlement_event_of_def)
  then obtain pe where pe: "env = Some pe" "d' = snd (price_once pe (ur_key r) (ur_period_start r) d)"
    using assms(1,2,5) by (auto simp: settlement_consume_def split: option.splits)
  then have "price_once pe (ur_key r) (ur_period_start r) d = (fst (price_once pe (ur_key r) (ur_period_start r) d), d')" by simp
  from price_once_left [OF this _ assms(7)] show ?thesis
    using assms(6,7) pe(1) by (auto simp: uncharged_lines_def uncharged_in_def)
qed

definition demo_record :: usage_record where
  "demo_record = record_of ''u1'' \<lparr>hb_key = ''k'', hb_org = ''o'', hb_period_start = 3600, hb_owner = None, hb_project = None\<rparr> 8000 []"

theorem settlement_charges_the_hour_witness:
  "\<exists>g\<in>set (fst (price_once demo_env_pass ''k'' 3600 (empty_db\<lparr>usage_lines := [demo_line ''r'']\<rparr>))). charges_line g (demo_line ''r'')"
proof -
  let ?d = "empty_db\<lparr>usage_lines := [demo_line ''r'']\<rparr>"
  let ?m = "settlement_text (\<lambda>t. ''t'') (settlement_event_of demo_record)"
  have r: "ur_key demo_record = ''k''" "ur_period_start demo_record = 3600" "ur_period_end demo_record = 7200"
    by (simp_all add: demo_record_def record_of_def)
  have "decode_settlement ?m = Some \<lparr>sn_record_id = ur_id demo_record, sn_key = ''k'', sn_org = ur_org demo_record,
      sn_period_start = 3600, sn_period_end = 7200\<rparr>"
    using r by (subst decode_settlement_text) (simp_all add: settlement_event_of_def in_int64_def)
  then have c: "settlement_consume (Some demo_env_pass) ?m ?d = (True, snd (price_once demo_env_pass ''k'' 3600 ?d))"
    by (simp add: settlement_consume_def)
  have "usage_lines (snd (price_once demo_env_pass ''k'' 3600 ?d)) = [demo_line ''r'']" by code_simp
  then have l: "demo_line ''r'' \<in> set (usage_lines (snd (price_once demo_env_pass ''k'' 3600 ?d)))" by simp
  have u: "uncharged_in ''k'' 3600 (3600 + 3600) (demo_line ''r'')" by code_simp
  have "\<exists>pe g. Some demo_env_pass = Some pe \<and> g \<in> set (fst (price_once pe ''k'' 3600 ?d)) \<and> charges_line g (demo_line ''r'')"
    using settlement_charges_the_hour [OF _ _ _ _ c l] u by (simp add: r in_int64_def)
  then show ?thesis by blast
qed

end
