(* ===== verification/BatchInput.thy ===== *)
theory BatchInput
  imports GoJson
begin

text \<open>
  The input file of a batch job (\<open>src/services/batch/jsonl_validator.go\<close>): one request per line, decoded by
  \<open>encoding/json\<close>, and the exact contract of its validator.
\<close>

section \<open>The input file\<close>

datatype batch_error = InputTooLarge | InputInvalid | ModelMismatch | JobNotFound | StateInvalid | NotCompleted
  | JobQuotaExceeded | BatchInternal

record request_line =
  rl_custom :: string
  rl_method :: string
  rl_url :: string
  rl_body :: "jtree option"

text \<open>The body is kept raw: the member's value, absent until the member is met.\<close>

definition request_line_fields :: "(string \<times> request_line field_setter) list" where
  "request_line_fields =
     [(''custom_id'', str_setter (\<lambda>s r. r\<lparr>rl_custom := s\<rparr>)),
      (''method'', str_setter (\<lambda>s r. r\<lparr>rl_method := s\<rparr>)),
      (''url'', str_setter (\<lambda>s r. r\<lparr>rl_url := s\<rparr>)),
      (''body'', (\<lambda>v r. Some (r\<lparr>rl_body := Some v\<rparr>)))]"

definition decode_request_line :: "string \<Rightarrow> request_line option" where
  "decode_request_line = go_unmarshal request_line_fields
     \<lparr>rl_custom = [], rl_method = [], rl_url = [], rl_body = None\<rparr>"

definition body_model :: "jtree \<Rightarrow> string option" where
  "body_model v = struct_setter [(''model'', str_setter (\<lambda>s m. s))] v []"

definition max_custom_id_len :: nat where
  "max_custom_id_len = 256"

definition valid_batch_urls :: "string list" where
  "valid_batch_urls = [''/v1/chat/completions'', ''/v1/embeddings'']"

text \<open>The checks of one line: the ids seen and the model so far, the model after it.\<close>

definition check_line :: "string list \<Rightarrow> string \<Rightarrow> request_line \<Rightarrow> batch_error + string" where
  "check_line seen mdl r =
     (if trim_space (rl_custom r) = [] \<or> max_custom_id_len < length (rl_custom r) then Inl InputInvalid
      else if rl_custom r \<in> set seen then Inl InputInvalid
      else if rl_method r \<noteq> ''POST'' then Inl InputInvalid
      else if rl_url r \<notin> set valid_batch_urls then Inl InputInvalid
      else case rl_body r of
        None \<Rightarrow> Inl InputInvalid
      | Some b \<Rightarrow>
          (case body_model b of
             None \<Rightarrow> Inl InputInvalid
           | Some m \<Rightarrow>
               if trim_space m = [] then Inl InputInvalid
               else if mdl = [] then Inr m
               else if m \<noteq> mdl then Inl ModelMismatch
               else Inr mdl))"

fun validate_lines ::
  "string list \<Rightarrow> string \<Rightarrow> request_line list \<Rightarrow> string list \<Rightarrow> batch_error + (request_line list \<times> string)" where
  "validate_lines seen mdl reqs [] = Inr (reqs, mdl)"
| "validate_lines seen mdl reqs (raw # lines) =
     (let line = trim_space raw in
      if line = [] then validate_lines seen mdl reqs lines
      else case decode_request_line line of
        None \<Rightarrow> Inl InputInvalid
      | Some r \<Rightarrow>
          (case check_line seen mdl r of
             Inl e \<Rightarrow> Inl e
           | Inr m \<Rightarrow> validate_lines (rl_custom r # seen) m (reqs @ [r]) lines))"

definition validate_jsonl :: "int \<Rightarrow> int \<Rightarrow> string \<Rightarrow> batch_error + (request_line list \<times> string)" where
  "validate_jsonl max_bytes max_lines content =
     (if max_bytes < int (length content) then Inl InputTooLarge
      else let lines = split_at (CHR 0x0A) content in
        if max_lines < int (length lines) then Inl InputTooLarge
        else case validate_lines [] [] [] lines of
          Inl e \<Rightarrow> Inl e
        | Inr (reqs, mdl) \<Rightarrow> if reqs = [] then Inl InputInvalid else Inr (reqs, mdl))"

definition validate_completion_window :: "string \<Rightarrow> batch_error + string" where
  "validate_completion_window w =
     (if w = [] then Inr ''24h''
      else if w \<in> set [''1h'', ''6h'', ''24h'', ''3d'', ''7d'', ''14d''] then Inr w
      else Inl InputInvalid)"

text \<open>What a valid file says, without the loop.\<close>

definition good_line :: "string \<Rightarrow> request_line \<Rightarrow> bool" where
  "good_line mdl r =
     (trim_space (rl_custom r) \<noteq> [] \<and> length (rl_custom r) \<le> max_custom_id_len \<and> rl_method r = ''POST''
      \<and> rl_url r \<in> set valid_batch_urls
      \<and> (case rl_body r of None \<Rightarrow> False | Some b \<Rightarrow> body_model b = Some mdl))"

definition request_lines :: "string \<Rightarrow> string list" where
  "request_lines content = filter (\<lambda>l. l \<noteq> []) (map trim_space (split_at (CHR 0x0A) content))"

definition accepted_file :: "int \<Rightarrow> int \<Rightarrow> string \<Rightarrow> request_line list \<Rightarrow> string \<Rightarrow> bool" where
  "accepted_file max_bytes max_lines content reqs mdl =
     (int (length content) \<le> max_bytes \<and> int (length (split_at (CHR 0x0A) content)) \<le> max_lines
      \<and> map decode_request_line (request_lines content) = map Some reqs
      \<and> reqs \<noteq> [] \<and> trim_space mdl \<noteq> [] \<and> distinct (map rl_custom reqs) \<and> list_all (good_line mdl) reqs)"

lemma check_line_good:
  "mdl \<noteq> [] \<Longrightarrow> trim_space mdl \<noteq> [] \<Longrightarrow>
    check_line seen mdl r = Inr m \<longleftrightarrow> good_line mdl r \<and> rl_custom r \<notin> set seen \<and> m = mdl"
  by (auto simp: check_line_def good_line_def split: option.splits)

lemma check_first_line:
  "check_line [] [] r = Inr m \<longleftrightarrow> trim_space m \<noteq> [] \<and> good_line m r"
  by (auto simp: check_line_def good_line_def split: option.splits)

lemma trim_space_Nil [simp]: "trim_space [] = []"
  by (simp add: trim_space_def trim_right_def)

definition rest_ok :: "string list \<Rightarrow> string \<Rightarrow> string list \<Rightarrow> request_line list \<Rightarrow> bool" where
  "rest_ok seen mdl lines rs =
     (map decode_request_line (filter (\<lambda>l. l \<noteq> []) (map trim_space lines)) = map Some rs
      \<and> distinct (map rl_custom rs) \<and> list_all (\<lambda>r. rl_custom r \<notin> set seen) rs \<and> list_all (good_line mdl) rs)"

lemma rest_ok_Cons:
  assumes "trim_space raw \<noteq> []" "decode_request_line (trim_space raw) = Some r"
  shows "rest_ok seen mdl (raw # lines) rs \<longleftrightarrow> (\<exists>rs'. rs = r # rs' \<and> good_line mdl r \<and> rl_custom r \<notin> set seen
    \<and> rest_ok (rl_custom r # seen) mdl lines rs')"
proof (cases rs)
  case (Cons q qs)
  have "list_all (\<lambda>x. rl_custom x \<notin> set (rl_custom r # seen)) qs
    \<longleftrightarrow> rl_custom r \<notin> set (map rl_custom qs) \<and> list_all (\<lambda>x. rl_custom x \<notin> set seen) qs"
    by (induction qs) auto
  then show ?thesis using assms Cons by (cases "q = r") (auto simp: rest_ok_def)
qed (use assms in \<open>simp add: rest_ok_def\<close>)

lemma None_not_Some [simp]: "None # xs \<noteq> map Some ys"
  by (cases ys) auto

lemma validate_lines_rest:
  assumes "trim_space mdl \<noteq> []"
  shows "validate_lines seen mdl reqs lines = Inr (out, m) \<longleftrightarrow> (\<exists>rs. rest_ok seen mdl lines rs \<and> out = reqs @ rs \<and> m = mdl)"
proof (induction lines arbitrary: seen reqs)
  case (Cons raw lines)
  have ne: "mdl \<noteq> []" using assms by auto
  show ?case
  proof (cases "trim_space raw = []")
    case True
    then show ?thesis using Cons.IH by (simp add: Let_def rest_ok_def)
  next
    case False
    show ?thesis
    proof (cases "decode_request_line (trim_space raw)")
      case None
      then show ?thesis using False by (simp add: Let_def rest_ok_def)
    next
      case (Some r)
      have same: "check_line seen mdl r = Inr b \<Longrightarrow> b = mdl" for b using check_line_good [OF ne assms, of seen r b] by simp
      have "validate_lines seen mdl reqs (raw # lines) = Inr (out, m)
        \<longleftrightarrow> check_line seen mdl r = Inr mdl \<and> validate_lines (rl_custom r # seen) mdl (reqs @ [r]) lines = Inr (out, m)"
        using False Some same by (cases "check_line seen mdl r") (auto simp: Let_def)
      then show ?thesis
        unfolding Cons.IH check_line_good [OF ne assms] rest_ok_Cons [OF False Some] by auto
    qed
  qed
qed (auto simp: rest_ok_def)

lemma validate_lines_first:
  "validate_lines [] [] [] lines = Inr (out, m) \<and> out \<noteq> [] \<longleftrightarrow> rest_ok [] m lines out \<and> out \<noteq> [] \<and> trim_space m \<noteq> []"
proof (induction lines)
  case (Cons raw lines)
  show ?case
  proof (cases "trim_space raw = []")
    case True
    then show ?thesis using Cons.IH by (simp add: Let_def rest_ok_def)
  next
    case False
    show ?thesis
    proof (cases "decode_request_line (trim_space raw)")
      case None
      then show ?thesis using False by (simp add: Let_def rest_ok_def)
    next
      case (Some r)
      have v: "validate_lines [] [] [] (raw # lines) = Inr (out, m)
        \<longleftrightarrow> (\<exists>m'. check_line [] [] r = Inr m' \<and> validate_lines [rl_custom r] m' [r] lines = Inr (out, m))"
        using False Some by (cases "check_line [] [] r") (simp_all add: Let_def)
      show ?thesis unfolding v check_first_line rest_ok_Cons [OF False Some]
        by (metis (no_types, lifting) append_Cons append_Nil empty_iff empty_set list.distinct(1) validate_lines_rest)
    qed
  qed
qed (auto simp: rest_ok_def)

lemma rest_ok_Nil_seen: "rest_ok [] mdl lines rs \<longleftrightarrow>
    map decode_request_line (filter (\<lambda>l. l \<noteq> []) (map trim_space lines)) = map Some rs
    \<and> distinct (map rl_custom rs) \<and> list_all (good_line mdl) rs"
  by (simp add: rest_ok_def list_all_iff)

text \<open>C38. The validator accepts exactly the files of its contract: within both limits, every non-blank line a
  request object with a fresh non-blank id of at most 256 bytes, method POST, a known URL and a body
  whose model is the one model of the file, and at least one request; and it returns those requests in
  order with that model.\<close>
theorem validate_jsonl_exact:
  "validate_jsonl max_bytes max_lines content = Inr (reqs, mdl) \<longleftrightarrow> accepted_file max_bytes max_lines content reqs mdl"
  using validate_lines_first [of "split_at (CHR 0x0A) content" reqs mdl] unfolding rest_ok_Nil_seen
  by (auto simp: validate_jsonl_def accepted_file_def request_lines_def Let_def split: sum.splits if_splits)

end
