(* ===== verification/BatchJobs.thy ===== *)
theory BatchJobs
  imports BatchInput "HOL-Library.List_Lexorder" "HOL-Library.Char_ord"
begin

text \<open>
  Batch jobs (\<open>src/services/batch\<close>): the table and the file store, the operations of the service, the worker and
  the retention runner as processes that interleave one statement at a time.
\<close>

section \<open>Jobs and files\<close>

datatype batch_status = Validating | InProgress | Finalizing | BatchCompleted | BatchFailed | BatchExpired | BatchCancelled

record batch_job =
  bj_id :: string
  bj_org :: string
  bj_model :: string
  bj_status :: batch_status
  bj_window :: string
  bj_input_key :: string
  bj_result_key :: string
  bj_error_key :: string
  bj_total :: int
  bj_processed :: int
  bj_succeeded :: int
  bj_failed :: int
  bj_in_tokens :: int
  bj_out_tokens :: int
  bj_cost :: int
  bj_currency :: string
  bj_files_expired :: bool
  bj_error :: string
  bj_created :: int
  bj_completed_at :: "int option"
  bj_expire_at :: "int option"

text \<open>The table and the object store, a map from keys to contents.\<close>

record batch_db =
  bd_jobs :: "batch_job list"
  bd_files :: "string \<Rightarrow> string option"

definition empty_batch :: batch_db where
  "empty_batch = \<lparr>bd_jobs = [], bd_files = (\<lambda>k. None)\<rparr>"

definition job_dir :: "string \<Rightarrow> string \<Rightarrow> string" where
  "job_dir org jid = ''batch/'' @ org @ ''/'' @ jid"

definition input_key :: "string \<Rightarrow> string \<Rightarrow> string" where
  "input_key org jid = job_dir org jid @ ''/input.jsonl''"

definition result_key :: "string \<Rightarrow> string \<Rightarrow> string" where
  "result_key org jid = job_dir org jid @ ''/result.jsonl''"

definition error_key :: "string \<Rightarrow> string \<Rightarrow> string" where
  "error_key org jid = job_dir org jid @ ''/error.jsonl''"

definition put_file :: "string \<Rightarrow> string \<Rightarrow> batch_db \<Rightarrow> batch_db" where
  "put_file k content d = d\<lparr>bd_files := (bd_files d)(k \<mapsto> content)\<rparr>"

text \<open>Removing a file may fail, and nobody is told; \<open>gone\<close> says which removals succeed.\<close>

definition delete_files :: "(string \<Rightarrow> bool) \<Rightarrow> string \<Rightarrow> string \<Rightarrow> batch_db \<Rightarrow> batch_db" where
  "delete_files gone org jid d = d\<lparr>bd_files :=
     (\<lambda>k. if k \<in> {result_key org jid, error_key org jid} \<and> gone k then None else bd_files d k)\<rparr>"

definition update_job :: "(batch_job \<Rightarrow> bool) \<Rightarrow> (batch_job \<Rightarrow> batch_job) \<Rightarrow> batch_db \<Rightarrow> batch_db" where
  "update_job P f d = d\<lparr>bd_jobs := map (\<lambda>j. if P j then f j else j) (bd_jobs d)\<rparr>"

definition insert_batch_job :: "batch_job \<Rightarrow> batch_db \<Rightarrow> batch_db option" where
  "insert_batch_job job d =
     (if \<exists>j\<in>set (bd_jobs d). bj_id j = bj_id job then None else Some (d\<lparr>bd_jobs := bd_jobs d @ [job]\<rparr>))"

definition count_jobs_since :: "string \<Rightarrow> int \<Rightarrow> batch_db \<Rightarrow> int" where
  "count_jobs_since org since d = int (length (filter (\<lambda>j. bj_org j = org \<and> since \<le> bj_created j) (bd_jobs d)))"

text \<open>\<open>is_uuid\<close> is \<open>uuid.Parse\<close>; an organization of \<open>None\<close> is the administrators' lookup.\<close>

definition find_batch_job :: "(string \<Rightarrow> bool) \<Rightarrow> string option \<Rightarrow> string \<Rightarrow> batch_db \<Rightarrow> batch_job option" where
  "find_batch_job is_uuid org jid d =
     (if \<not> is_uuid jid then None
      else find (\<lambda>j. bj_id j = jid \<and> (case org of None \<Rightarrow> True | Some w \<Rightarrow> bj_org j = w)) (bd_jobs d))"

text \<open>\<open>UpdateBatchJob\<close> writes every mutable column from the row it is given.\<close>

definition update_batch_job :: "batch_job \<Rightarrow> batch_db \<Rightarrow> batch_db" where
  "update_batch_job job = update_job (\<lambda>j. bj_id j = bj_id job)
     (\<lambda>j. j\<lparr>bj_status := bj_status job, bj_input_key := bj_input_key job, bj_result_key := bj_result_key job,
        bj_error_key := bj_error_key job, bj_processed := bj_processed job, bj_succeeded := bj_succeeded job,
        bj_failed := bj_failed job, bj_in_tokens := bj_in_tokens job, bj_out_tokens := bj_out_tokens job,
        bj_cost := bj_cost job, bj_files_expired := bj_files_expired job, bj_error := bj_error job,
        bj_completed_at := bj_completed_at job, bj_expire_at := bj_expire_at job\<rparr>)"

definition older :: "batch_job \<Rightarrow> batch_job \<Rightarrow> bool" where
  "older a b = (bj_created a < bj_created b \<or> bj_created a = bj_created b \<and> bj_id a < bj_id b)"

definition oldest :: "(batch_job \<Rightarrow> bool) \<Rightarrow> batch_db \<Rightarrow> batch_job option" where
  "oldest P d = (case filter P (bd_jobs d) of
      [] \<Rightarrow> None
    | j # js \<Rightarrow> Some (foldl (\<lambda>a b. if older b a then b else a) j js))"

definition next_in_progress :: "batch_db \<Rightarrow> batch_job option" where
  "next_in_progress = oldest (\<lambda>j. bj_status j = InProgress)"

definition set_status :: "string \<Rightarrow> batch_status \<Rightarrow> int option \<Rightarrow> int option \<Rightarrow> batch_db \<Rightarrow> batch_db" where
  "set_status jid st completed expire = update_job (\<lambda>j. bj_id j = jid)
     (\<lambda>j. j\<lparr>bj_status := st,
        bj_completed_at := (case completed of None \<Rightarrow> bj_completed_at j | Some t \<Rightarrow> Some t),
        bj_expire_at := (case expire of None \<Rightarrow> bj_expire_at j | Some t \<Rightarrow> Some t)\<rparr>)"

definition set_error :: "string \<Rightarrow> string \<Rightarrow> batch_db \<Rightarrow> batch_db" where
  "set_error jid msg = update_job (\<lambda>j. bj_id j = jid) (\<lambda>j. j\<lparr>bj_error := msg\<rparr>)"

definition set_file_keys :: "string \<Rightarrow> string \<Rightarrow> string \<Rightarrow> batch_db \<Rightarrow> batch_db" where
  "set_file_keys jid rk ek = update_job (\<lambda>j. bj_id j = jid) (\<lambda>j. j\<lparr>bj_result_key := rk, bj_error_key := ek\<rparr>)"

definition claim_job :: "string \<Rightarrow> batch_db \<Rightarrow> bool \<times> batch_db" where
  "claim_job jid d =
     (let P = (\<lambda>j. bj_id j = jid \<and> bj_status j = Validating)
      in (\<exists>j\<in>set (bd_jobs d). P j, update_job P (\<lambda>j. j\<lparr>bj_status := InProgress\<rparr>) d))"

definition mark_files_expired :: "string \<Rightarrow> batch_db \<Rightarrow> batch_db" where
  "mark_files_expired jid = update_job (\<lambda>j. bj_id j = jid) (\<lambda>j. j\<lparr>bj_files_expired := True\<rparr>)"

definition find_expired_files :: "int \<Rightarrow> nat \<Rightarrow> batch_db \<Rightarrow> batch_job list" where
  "find_expired_files cutoff limit d =
     take limit (sort_key (\<lambda>j. opt_or (bj_expire_at j) 0)
       (filter (\<lambda>j. bj_status j = BatchCompleted \<and> \<not> bj_files_expired j
          \<and> (case bj_expire_at j of None \<Rightarrow> False | Some t \<Rightarrow> t < cutoff)) (bd_jobs d)))"

definition cancellable :: "batch_status \<Rightarrow> bool" where
  "cancellable st = (st = Validating \<or> st = InProgress)"

section \<open>The files a worker writes\<close>

text \<open>\<open>json.Marshal\<close> of raw JSON: white space goes and the characters unsafe in HTML are escaped.\<close>

fun compact_json :: "bool \<Rightarrow> string \<Rightarrow> string" where
  "compact_json inside [] = []"
| "compact_json inside (c # s) =
     (if c = CHR ''<'' \<or> c = CHR ''>'' \<or> c = CHR ''&'' then go_escape c @ compact_json inside s
      else if c = CHR 0xE2 \<and> (take 2 s = [CHR 0x80, CHR 0xA8] \<or> take 2 s = [CHR 0x80, CHR 0xA9])
      then CHR 0x5C # ''u202'' @ [hex_digit (byte (s ! 1) mod 16)] @ compact_json inside (drop 2 s)
      else if inside
      then (if c = CHR 0x5C then (case s of [] \<Rightarrow> [c] | e # r \<Rightarrow> c # e # compact_json True r)
            else c # compact_json (c \<noteq> CHR ''\"'') s)
      else if c = CHR '' '' \<or> c = CHR 0x09 \<or> c = CHR 0x0A \<or> c = CHR 0x0D then compact_json False s
      else c # compact_json (c = CHR ''\"'') s)"

text \<open>A response that is not JSON has no line: the error of \<open>json.Marshal\<close> is dropped.\<close>

definition format_result_line :: "string \<Rightarrow> string \<Rightarrow> string" where
  "format_result_line custom response =
     (case go_parse response of
        None \<Rightarrow> []
      | Some v \<Rightarrow> object_text [(''custom_id'', go_string custom), (''response'', compact_json False response)])"

definition format_error_line :: "string \<Rightarrow> string \<Rightarrow> string" where
  "format_error_line custom msg = object_text [(''custom_id'', go_string custom), (''error'', go_string msg)]"

record tally =
  ty_processed :: int
  ty_succeeded :: int
  ty_failed :: int
  ty_in :: int
  ty_out :: int
  ty_cost :: int
  ty_results :: string
  ty_errors :: string

definition no_tally :: tally where
  "no_tally = \<lparr>ty_processed = 0, ty_succeeded = 0, ty_failed = 0, ty_in = 0, ty_out = 0, ty_cost = 0,
     ty_results = [], ty_errors = []\<rparr>"

text \<open>
  One call: the client's error text, or the response with its token counts; \<open>cost\<close> is the meter's answer,
  \<open>None\<close> when it fails or is not wired.
\<close>

definition call_one ::
  "string + (string \<times> int \<times> int) \<Rightarrow> int option \<Rightarrow> request_line \<Rightarrow> tally \<Rightarrow> tally" where
  "call_one answer cost r t =
     (case answer of
        Inl msg \<Rightarrow> t\<lparr>ty_processed := ty_processed t + 1, ty_failed := ty_failed t + 1,
          ty_errors := ty_errors t @ format_error_line (rl_custom r) msg @ [CHR 0x0A]\<rparr>
      | Inr (response, i, out) \<Rightarrow> t\<lparr>ty_processed := ty_processed t + 1, ty_succeeded := ty_succeeded t + 1,
          ty_in := wrap64 (ty_in t + i), ty_out := wrap64 (ty_out t + out),
          ty_cost := (case cost of None \<Rightarrow> ty_cost t | Some c \<Rightarrow> wrap64 (ty_cost t + c)),
          ty_results := ty_results t @ format_result_line (rl_custom r) response @ [CHR 0x0A]\<rparr>)"

text \<open>One statement; a sum outside \<open>BIGINT\<close> fails it.\<close>

definition increment_counters :: "string \<Rightarrow> tally \<Rightarrow> batch_db \<Rightarrow> batch_db" where
  "increment_counters jid t d =
     (let f = (\<lambda>j. j\<lparr>bj_processed := bj_processed j + ty_processed t, bj_succeeded := bj_succeeded j + ty_succeeded t,
            bj_failed := bj_failed j + ty_failed t, bj_in_tokens := bj_in_tokens j + ty_in t,
            bj_out_tokens := bj_out_tokens j + ty_out t, bj_cost := bj_cost j + ty_cost t\<rparr>);
          fits = (\<lambda>j. in_int64 (bj_processed j) \<and> in_int64 (bj_succeeded j) \<and> in_int64 (bj_failed j)
            \<and> in_int64 (bj_in_tokens j) \<and> in_int64 (bj_out_tokens j) \<and> in_int64 (bj_cost j))
      in if list_all (\<lambda>j. bj_id j = jid \<longrightarrow> fits (f j)) (bd_jobs d) then update_job (\<lambda>j. bj_id j = jid) f d else d)"

section \<open>Processes\<close>

text \<open>
  Workers, requests and the retention runner share the table and the store, one statement or file
  operation at a time.  A process is the point its code has reached with the values it holds there.
\<close>

record submission =
  sb_org :: string
  sb_window :: string
  sb_content :: string
  sb_limit :: int
  sb_midnight :: int
  sb_max_bytes :: int
  sb_max_lines :: int

datatype proc =
    Idle
  | Replied "batch_error + batch_job"
  | Submitting submission
  | Inserting batch_job string
  | PuttingInput batch_job string
  | Recording batch_job
  | Cancelling "string option" string
  | MarkingCancelled batch_job
  | Promoting
  | Claiming batch_job
  | Picking
  | Loading batch_job
  | Failing string string
  | Reasoning string string
  | Calling batch_job "request_line list" tally
  | Finishing batch_job tally
  | PuttingResult batch_job tally
  | PuttingError batch_job tally bool
  | Refusing string
  | Keying batch_job
  | Completing batch_job
  | ListingExpired
  | Retaining "batch_job list"
  | MarkingExpired string "batch_job list"

text \<open>What one step meets: whether the operation succeeds, cancellation, the client's answers, clock and ids.\<close>

record batch_io =
  io_up :: bool
  io_cancelled :: bool
  io_answer :: "string + (string \<times> int \<times> int)"
  io_cost :: "int option"
  io_now :: int
  io_ttl :: int
  io_gone :: "string \<Rightarrow> bool"
  io_id :: string
  io_is_uuid :: "string \<Rightarrow> bool"

definition new_job :: "submission \<Rightarrow> batch_io \<Rightarrow> string \<Rightarrow> string \<Rightarrow> int \<Rightarrow> batch_job" where
  "new_job sb io mdl window lines =
     \<lparr>bj_id = io_id io, bj_org = sb_org sb, bj_model = mdl, bj_status = Validating, bj_window = window,
      bj_input_key = [], bj_result_key = [], bj_error_key = [], bj_total = lines, bj_processed = 0,
      bj_succeeded = 0, bj_failed = 0, bj_in_tokens = 0, bj_out_tokens = 0, bj_cost = 0, bj_currency = ''USD'',
      bj_files_expired = False, bj_error = [], bj_created = io_now io, bj_completed_at = None, bj_expire_at = None\<rparr>"

text \<open>\<open>CreateBatchJob\<close> up to the insert: daily quota (0 is no limit), completion window, input file.\<close>

definition submit :: "batch_io \<Rightarrow> submission \<Rightarrow> batch_db \<Rightarrow> batch_error + batch_job" where
  "submit io sb d =
     (if sb_limit sb \<noteq> 0 \<and> \<not> io_up io then Inl BatchInternal
      else if sb_limit sb \<noteq> 0 \<and> sb_limit sb \<le> count_jobs_since (sb_org sb) (sb_midnight sb) d
      then Inl JobQuotaExceeded
      else case validate_completion_window (sb_window sb) of
        Inl e \<Rightarrow> Inl e
      | Inr w \<Rightarrow>
          (case validate_jsonl (sb_max_bytes sb) (sb_max_lines sb) (sb_content sb) of
             Inl e \<Rightarrow> Inl e
           | Inr (reqs, mdl) \<Rightarrow> Inr (new_job sb io mdl w (int (length reqs)))))"

definition retention_limit :: nat where
  "retention_limit = 1000"

fun proc_step :: "batch_io \<Rightarrow> proc \<Rightarrow> batch_db \<Rightarrow> proc \<times> batch_db" where
  "proc_step io Idle d = (Idle, d)"
| "proc_step io (Replied r) d = (Replied r, d)"
| "proc_step io (Submitting sb) d =
     (case submit io sb d of Inl e \<Rightarrow> (Replied (Inl e), d) | Inr job \<Rightarrow> (Inserting job (sb_content sb), d))"
| "proc_step io (Inserting job content) d =
     (case (if io_up io then insert_batch_job job d else None) of
        None \<Rightarrow> (Replied (Inl BatchInternal), d)
      | Some d' \<Rightarrow> (PuttingInput job content, d'))"
| "proc_step io (PuttingInput job content) d =
     (let k = input_key (bj_org job) (bj_id job)
      in if \<not> io_up io then (Replied (Inl BatchInternal), d)
         else (Recording (job\<lparr>bj_input_key := k\<rparr>), put_file k content d))"
| "proc_step io (Recording job) d = (Replied (Inr job), if io_up io then update_batch_job job d else d)"
| "proc_step io (Cancelling org jid) d =
     (if \<not> io_up io then (Replied (Inl BatchInternal), d)
      else case find_batch_job (io_is_uuid io) org jid d of
        None \<Rightarrow> (Replied (Inl JobNotFound), d)
      | Some job \<Rightarrow>
          if \<not> cancellable (bj_status job) then (Replied (Inl StateInvalid), d) else (MarkingCancelled job, d))"
| "proc_step io (MarkingCancelled job) d =
     (if \<not> io_up io then (Replied (Inl BatchInternal), d)
      else (Replied (Inr (job\<lparr>bj_status := BatchCancelled, bj_completed_at := Some (io_now io)\<rparr>)),
            set_status (bj_id job) BatchCancelled (Some (io_now io)) None d))"
| "proc_step io Promoting d =
     (if \<not> io_up io then (Picking, d)
      else case oldest (\<lambda>j. bj_status j = Validating) d of
        None \<Rightarrow> (Picking, d) | Some job \<Rightarrow> (Claiming job, d))"
| "proc_step io (Claiming job) d =
     (if \<not> io_up io then (Picking, d)
      else case claim_job (bj_id job) d of (won, d') \<Rightarrow>
        (if won then Loading (job\<lparr>bj_status := InProgress\<rparr>) else Picking, d'))"
| "proc_step io Picking d =
     (if \<not> io_up io then (Idle, d)
      else case next_in_progress d of None \<Rightarrow> (Idle, d) | Some job \<Rightarrow> (Loading job, d))"
| "proc_step io (Loading job) d =
     (case (if io_up io then bd_files d (bj_input_key job) else None) of
        None \<Rightarrow> (Failing (bj_id job) ''input file unreadable'', d)
      | Some content \<Rightarrow>
          (case validate_jsonl (2 ^ 62) (2 ^ 30) content of
             Inl e \<Rightarrow> (Failing (bj_id job) ''input file invalid'', d)
           | Inr (reqs, mdl) \<Rightarrow> (Calling job reqs no_tally, d)))"
| "proc_step io (Failing jid msg) d =
     (Reasoning jid msg, if io_up io then set_status jid BatchFailed None None d else d)"
| "proc_step io (Reasoning jid msg) d = (Idle, if io_up io then set_error jid msg d else d)"
| "proc_step io (Calling job [] t) d =
     (Finishing job t, if io_up io then increment_counters (bj_id job) t d else d)"
| "proc_step io (Calling job (r # rs) t) d =
     (if io_cancelled io then (Idle, d) else (Calling job rs (call_one (io_answer io) (io_cost io) r t), d))"
| "proc_step io (Finishing job t) d =
     (PuttingResult job t, if io_up io then set_status (bj_id job) Finalizing None None d else d)"
| "proc_step io (PuttingResult job t) d =
     (PuttingError job t (io_up io),
      if io_up io then put_file (result_key (bj_org job) (bj_id job)) (ty_results t) d else d)"
| "proc_step io (PuttingError job t stored) d =
     (if stored \<and> io_up io then Keying job else Refusing (bj_id job),
      if io_up io then put_file (error_key (bj_org job) (bj_id job)) (ty_errors t) d else d)"
| "proc_step io (Refusing jid) d = (Idle, if io_up io then set_status jid BatchFailed None None d else d)"
| "proc_step io (Keying job) d =
     (Completing job, if io_up io then set_file_keys (bj_id job) (result_key (bj_org job) (bj_id job))
        (error_key (bj_org job) (bj_id job)) d else d)"
| "proc_step io (Completing job) d =
     (Idle, if io_up io then set_status (bj_id job) BatchCompleted (Some (io_now io)) (Some (io_now io + io_ttl io)) d else d)"
| "proc_step io ListingExpired d =
     (if io_up io then (Retaining (find_expired_files (io_now io - io_ttl io) retention_limit d), d) else (Idle, d))"
| "proc_step io (Retaining []) d = (Idle, d)"
| "proc_step io (Retaining (j # js)) d =
     (if io_up io then (MarkingExpired (bj_id j) js, delete_files (io_gone io) (bj_org j) (bj_id j) d) else (Retaining js, d))"
| "proc_step io (MarkingExpired jid js) d = (Retaining js, if io_up io then mark_files_expired jid d else d)"

definition finished :: "proc \<Rightarrow> bool" where
  "finished p = (case p of Idle \<Rightarrow> True | Replied r \<Rightarrow> True | _ \<Rightarrow> False)"

text \<open>The points at which a goroutine of the server starts.\<close>

definition entry :: "proc \<Rightarrow> bool" where
  "entry p = (case p of Submitting sb \<Rightarrow> True | Cancelling org jid \<Rightarrow> True | Promoting \<Rightarrow> True | ListingExpired \<Rightarrow> True | _ \<Rightarrow> False)"

text \<open>\<open>DownloadBatchResult\<close> and \<open>DownloadBatchError\<close>; \<open>None\<close> in the second error position is a store error.\<close>

definition download ::
  "(batch_job \<Rightarrow> string) \<Rightarrow> (string \<Rightarrow> bool) \<Rightarrow> string \<Rightarrow> string \<Rightarrow> batch_db \<Rightarrow> batch_error + string" where
  "download key is_uuid org jid d =
     (case find_batch_job is_uuid (Some org) jid d of
        None \<Rightarrow> Inl JobNotFound
      | Some job \<Rightarrow>
          if bj_status job \<noteq> BatchCompleted \<or> key job = [] then Inl NotCompleted
          else case bd_files d (key job) of None \<Rightarrow> Inl BatchInternal | Some content \<Rightarrow> Inr content)"

end
