(* ===== verification/BatchLifecycle.thy ===== *)
theory BatchLifecycle
  imports BatchJobs
begin

text \<open>
  What holds of batch jobs: every process ends; the table stays well formed and a completed job has its
  files under every interleaving, failure and crash; an undisturbed worker finishes its job; and the
  interleavings that break the documented lifecycle.
\<close>

section \<open>Every process ends\<close>

primrec proc_at :: "(nat \<Rightarrow> batch_io) \<Rightarrow> (nat \<Rightarrow> batch_db) \<Rightarrow> proc \<Rightarrow> nat \<Rightarrow> proc" where
  "proc_at ios dbs p 0 = p"
| "proc_at ios dbs p (Suc n) = fst (proc_step (ios n) (proc_at ios dbs p n) (dbs n))"

fun proc_rank :: "proc \<Rightarrow> nat \<times> nat" where
  "proc_rank Idle = (0, 0)"
| "proc_rank (Replied r) = (0, 0)"
| "proc_rank (Submitting sb) = (4, 0)"
| "proc_rank (Inserting job c) = (3, 0)"
| "proc_rank (PuttingInput job c) = (2, 0)"
| "proc_rank (Recording job) = (1, 0)"
| "proc_rank (Cancelling org jid) = (2, 0)"
| "proc_rank (MarkingCancelled job) = (1, 0)"
| "proc_rank Promoting = (10, 0)"
| "proc_rank (Claiming job) = (9, 0)"
| "proc_rank Picking = (8, 0)"
| "proc_rank (Loading job) = (7, 0)"
| "proc_rank (Failing jid m) = (2, 0)"
| "proc_rank (Reasoning jid m) = (1, 0)"
| "proc_rank (Calling job rs t) = (6, length rs)"
| "proc_rank (Finishing job t) = (5, 0)"
| "proc_rank (PuttingResult job t) = (4, 0)"
| "proc_rank (PuttingError job t ok) = (3, 0)"
| "proc_rank (Refusing jid) = (1, 0)"
| "proc_rank (Keying job) = (2, 0)"
| "proc_rank (Completing job) = (1, 0)"
| "proc_rank ListingExpired = (2, 0)"
| "proc_rank (Retaining js) = (1, 2 * length js)"
| "proc_rank (MarkingExpired jid js) = (1, 2 * length js + 1)"

lemma proc_rank_decreases:
  "\<not> finished p \<Longrightarrow> (proc_rank (fst (proc_step io p d)), proc_rank p) \<in> less_than <*lex*> less_than"
  by (cases "(io, p, d)" rule: proc_step.cases)
    (auto simp: finished_def Let_def split: sum.split option.split prod.split)

lemma finished_simps [simp]: "finished Idle" "finished (Replied r)"
  by (simp_all add: finished_def)

text \<open>C35. No worker pass, request or retention pass runs for ever: whatever the answers of the inference
  endpoint, the failures of the database and the file store, and the changes other processes make to both
  between its steps, every process reaches its end.\<close>
theorem process_ends: "\<exists>n. finished (proc_at ios dbs p n)"
proof (rule ccontr)
  assume "\<not> ?thesis"
  then have "(proc_rank (proc_at ios dbs p (Suc n)), proc_rank (proc_at ios dbs p n)) \<in> less_than <*lex*> less_than" for n
    using proc_rank_decreases by simp
  moreover have "wf (less_than <*lex*> less_than)" by auto
  ultimately show False
    unfolding wf_iff_no_infinite_down_chain by (elim notE) (rule exI [of _ "\<lambda>n. proc_rank (proc_at ios dbs p n)"], blast)
qed

section \<open>Interleavings\<close>

type_synonym batch_system = "batch_db \<times> (nat \<Rightarrow> proc)"

text \<open>
  Any number of processes, a step of any of them at a time.  \<open>K\<close> says which kinds run; a process may also die
  at any point (a restart of the server).
\<close>

inductive sys_step :: "(proc \<Rightarrow> bool) \<Rightarrow> batch_system \<Rightarrow> batch_system \<Rightarrow> bool" for K :: "proc \<Rightarrow> bool" where
  move: "proc_step io (ps n) d = (p', d') \<Longrightarrow> sys_step K (d, ps) (d', ps(n := p'))"
| start: "finished (ps n) \<Longrightarrow> entry p \<Longrightarrow> K p \<Longrightarrow> sys_step K (d, ps) (d, ps(n := p))"
| crash: "sys_step K (d, ps) (d, ps(n := Idle))"

inductive reachable :: "(proc \<Rightarrow> bool) \<Rightarrow> batch_system \<Rightarrow> bool" for K :: "proc \<Rightarrow> bool" where
  initial: "reachable K (empty_batch, \<lambda>n. Idle)"
| more: "reachable K s \<Longrightarrow> sys_step K s s' \<Longrightarrow> reachable K s'"

inductive_cases sys_stepE: "sys_step K (d, ps) s'"
inductive_simps sys_step_iff: "sys_step K (d, ps) (d', ps')"

definition known :: "batch_db \<Rightarrow> string \<Rightarrow> string \<Rightarrow> bool" where
  "known d jid org = ((jid, org) \<in> set (map (\<lambda>j. (bj_id j, bj_org j)) (bd_jobs d)))"

definition job_sound :: "batch_job \<Rightarrow> bool" where
  "job_sound j = (bj_processed j = bj_succeeded j + bj_failed j \<and> 0 \<le> bj_succeeded j \<and> 0 \<le> bj_failed j
     \<and> bj_status j \<noteq> BatchExpired
     \<and> (bj_status j = BatchCompleted \<longrightarrow> bj_completed_at j \<noteq> None \<and> bj_expire_at j \<noteq> None)
     \<and> bj_input_key j \<in> {[], input_key (bj_org j) (bj_id j)}
     \<and> bj_result_key j \<in> {[], result_key (bj_org j) (bj_id j)} \<and> bj_error_key j \<in> {[], error_key (bj_org j) (bj_id j)})"

definition fresh_job :: "batch_job \<Rightarrow> bool" where
  "fresh_job j = (job_sound j \<and> bj_status j = Validating \<and> bj_result_key j = [] \<and> bj_error_key j = [])"

definition tally_sound :: "tally \<Rightarrow> bool" where
  "tally_sound t = (ty_processed t = ty_succeeded t + ty_failed t \<and> 0 \<le> ty_succeeded t \<and> 0 \<le> ty_failed t)"

text \<open>What a process holds is true of the table: its job exists and belongs to the tenant it remembers.\<close>

fun proc_sound :: "batch_db \<Rightarrow> proc \<Rightarrow> bool" where
  "proc_sound d (Inserting job c) = fresh_job job"
| "proc_sound d (PuttingInput job c) = (fresh_job job \<and> known d (bj_id job) (bj_org job))"
| "proc_sound d (Recording job) = (fresh_job job \<and> known d (bj_id job) (bj_org job))"
| "proc_sound d (MarkingCancelled job) = known d (bj_id job) (bj_org job)"
| "proc_sound d (Claiming job) = known d (bj_id job) (bj_org job)"
| "proc_sound d (Loading job) = known d (bj_id job) (bj_org job)"
| "proc_sound d (Calling job rs t) = (known d (bj_id job) (bj_org job) \<and> tally_sound t)"
| "proc_sound d (Finishing job t) = known d (bj_id job) (bj_org job)"
| "proc_sound d (PuttingResult job t) = known d (bj_id job) (bj_org job)"
| "proc_sound d (PuttingError job t ok) = known d (bj_id job) (bj_org job)"
| "proc_sound d (Keying job) = known d (bj_id job) (bj_org job)"
| "proc_sound d (Completing job) = known d (bj_id job) (bj_org job)"
| "proc_sound d p = True"

definition table_sound :: "batch_db \<Rightarrow> bool" where
  "table_sound d = (distinct (map bj_id (bd_jobs d)) \<and> list_all job_sound (bd_jobs d))"

lemma update_job_files [simp]: "bd_files (update_job P f d) = bd_files d"
  by (simp add: update_job_def)

lemma update_job_map:
  "(\<And>j. g (f j) = g j) \<Longrightarrow> map g (bd_jobs (update_job P f d)) = map g (bd_jobs d)"
  by (simp add: update_job_def)

lemma update_job_set: "j \<in> set (bd_jobs (update_job P f d)) \<Longrightarrow> \<exists>i\<in>set (bd_jobs d). j = (if P i then f i else i)"
  by (auto simp: update_job_def)

lemma update_job_sound:
  assumes "table_sound d" "\<And>j. bj_id (f j) = bj_id j"
    "\<And>j. j \<in> set (bd_jobs d) \<Longrightarrow> job_sound j \<Longrightarrow> P j \<Longrightarrow> job_sound (f j)"
  shows "table_sound (update_job P f d)"
  using assms update_job_map [of bj_id f P d] update_job_set [of _ P f d]
  by (fastforce simp: table_sound_def list_all_iff)

lemma update_job_known:
  "(\<And>j. bj_id (f j) = bj_id j) \<Longrightarrow> (\<And>j. bj_org (f j) = bj_org j) \<Longrightarrow> known (update_job P f d) = known d"
  unfolding known_def by (subst update_job_map) simp_all

lemma known_org: "table_sound d \<Longrightarrow> known d (bj_id j) org \<Longrightarrow> j \<in> set (bd_jobs d) \<Longrightarrow> bj_org j = org"
  unfolding known_def table_sound_def by (auto simp: distinct_map inj_on_def)

lemmas job_sound_simps = job_sound_def set_status_def set_error_def set_file_keys_def mark_files_expired_def
  update_batch_job_def fresh_job_def

lemma table_ops_known [simp]:
  "known (put_file k content d) = known d" "known (delete_files gone org i d) = known d"
  "known (set_status jid st c e d) = known d" "known (set_error jid m d) = known d"
  "known (set_file_keys jid rk ek d) = known d" "known (mark_files_expired jid d) = known d"
  "known (update_batch_job job d) = known d" "known (increment_counters jid t d) = known d"
  "known (snd (claim_job jid d)) = known d"
  by (simp_all add: job_sound_simps increment_counters_def claim_job_def Let_def update_job_known)
    (simp_all add: fun_eq_iff known_def put_file_def delete_files_def)

lemma claim_known: "claim_job jid d = (won, d') \<Longrightarrow> known d' = known d"
  using table_ops_known(9) [of jid d] by simp

lemma set_status_sound:
  assumes "table_sound d" "st \<noteq> BatchExpired" "st = BatchCompleted \<Longrightarrow> c \<noteq> None \<and> e \<noteq> None"
  shows "table_sound (set_status jid st c e d)"
  unfolding set_status_def using assms by (intro update_job_sound) (auto simp: job_sound_def split: option.splits)

lemma set_error_sound: "table_sound d \<Longrightarrow> table_sound (set_error jid m d)"
  unfolding set_error_def by (intro update_job_sound) (simp_all add: job_sound_def)

lemma mark_expired_sound: "table_sound d \<Longrightarrow> table_sound (mark_files_expired jid d)"
  unfolding mark_files_expired_def by (intro update_job_sound) (simp_all add: job_sound_def)

lemma claim_sound: "table_sound d \<Longrightarrow> table_sound (snd (claim_job jid d))"
  unfolding claim_job_def Let_def snd_conv by (intro update_job_sound) (simp_all add: job_sound_def)

lemma files_sound [simp]: "table_sound (put_file k c d) = table_sound d" "table_sound (delete_files gone org i d) = table_sound d"
  by (simp_all add: table_sound_def put_file_def delete_files_def)

lemma set_file_keys_sound:
  assumes "table_sound d" "known d jid org"
  shows "table_sound (set_file_keys jid (result_key org jid) (error_key org jid) d)"
  unfolding set_file_keys_def using assms known_org [OF assms(1), of _ org]
  by (intro update_job_sound) (auto simp: job_sound_def)

lemma update_batch_job_sound:
  assumes "table_sound d" "known d (bj_id job) (bj_org job)" "fresh_job job"
  shows "table_sound (update_batch_job job d)"
  unfolding update_batch_job_def using assms known_org [OF assms(1), of _ "bj_org job"]
  by (intro update_job_sound) (auto simp: job_sound_def fresh_job_def)

lemma increment_sound: "table_sound d \<Longrightarrow> tally_sound t \<Longrightarrow> table_sound (increment_counters jid t d)"
  unfolding increment_counters_def Let_def
  by (auto intro!: update_job_sound simp: job_sound_def tally_sound_def)

lemma insert_sound:
  "insert_batch_job job d = Some d' \<Longrightarrow> table_sound d \<Longrightarrow> fresh_job job \<Longrightarrow> table_sound d'"
  by (auto simp: insert_batch_job_def table_sound_def fresh_job_def image_iff split: if_splits) metis

lemma insert_known:
  "insert_batch_job job d = Some d' \<Longrightarrow> known d' (bj_id job) (bj_org job) \<and> (known d i w \<longrightarrow> known d' i w)"
  by (auto simp: insert_batch_job_def known_def split: if_splits)

lemma oldest_mem: "oldest P d = Some j \<Longrightarrow> j \<in> set (bd_jobs d) \<and> P j"
proof -
  have fold: "foldl (\<lambda>a b. if older b a then b else a) x xs \<in> set (x # xs)" for x xs
    by (induction xs arbitrary: x) auto
  assume "oldest P d = Some j"
  then obtain x xs where x: "filter P (bd_jobs d) = x # xs" "j = foldl (\<lambda>a b. if older b a then b else a) x xs"
    by (auto simp: oldest_def split: list.splits)
  then have "j \<in> set (filter P (bd_jobs d))" using fold [of x xs] by metis
  then show ?thesis by simp
qed

lemma member_known: "j \<in> set (bd_jobs d) \<Longrightarrow> known d (bj_id j) (bj_org j)"
  by (auto simp: known_def)

lemma call_one_sound: "tally_sound t \<Longrightarrow> tally_sound (call_one a c r t)"
  by (cases a) (auto simp: tally_sound_def call_one_def)

lemma step_known: "proc_step io p d = (p', d') \<Longrightarrow> known d i w \<Longrightarrow> known d' i w"
  using insert_known
  by (cases "(io, p, d)" rule: proc_step.cases)
    (auto simp: Let_def claim_known split: sum.splits option.splits prod.splits if_splits)


lemma submit_fresh: "submit io sb d = Inr job \<Longrightarrow> fresh_job job"
  by (auto simp: submit_def new_job_def fresh_job_def job_sound_def split: if_splits sum.splits prod.splits)

lemma input_key_sound: "fresh_job job \<Longrightarrow> fresh_job (job\<lparr>bj_input_key := input_key (bj_org job) (bj_id job)\<rparr>)"
  by (simp add: fresh_job_def job_sound_def)

lemma find_batch_jobD: "find_batch_job u org jid d = Some j \<Longrightarrow> j \<in> set (bd_jobs d)"
  by (auto simp: find_batch_job_def split: if_splits dest: find_SomeD)

lemma no_tally_sound: "tally_sound no_tally"
  by (simp add: tally_sound_def no_tally_def)

lemmas table_op_sound = set_status_sound set_error_sound mark_expired_sound set_file_keys_sound update_batch_job_sound
  increment_sound

lemma claim_step_sound: "claim_job jid d = (won, d') \<Longrightarrow> table_sound d \<Longrightarrow> table_sound d'"
  using claim_sound [of d jid] by simp

lemma step_sound:
  assumes "proc_step io p d = (p', d')" "table_sound d" "proc_sound d p"
  shows "table_sound d' \<and> proc_sound d' p'"
  using assms
proof (cases "(io, p, d)" rule: proc_step.cases)
  case (4 io job content d)
  then show ?thesis using assms by (auto split: option.splits if_splits dest: insert_sound insert_known)
qed (auto simp: Let_def claim_known next_in_progress_def member_known no_tally_sound call_one_sound input_key_sound
    intro!: table_op_sound split: sum.splits option.splits prod.splits if_splits
    dest: submit_fresh claim_step_sound oldest_mem find_batch_jobD member_known)

lemma proc_sound_mono: "(\<And>i w. known d i w \<Longrightarrow> known d' i w) \<Longrightarrow> proc_sound d p \<Longrightarrow> proc_sound d' p"
  by (cases p) auto

lemma entry_sound: "entry p \<Longrightarrow> proc_sound d p"
  by (cases p) (auto simp: entry_def)

lemma reachable_sound: "reachable K s \<Longrightarrow> table_sound (fst s) \<and> (\<forall>n. proc_sound (fst s) (snd s n))"
proof (induction rule: reachable.induct)
  case initial
  then show ?case by (simp add: table_sound_def empty_batch_def)
next
  case (more s s')
  obtain d ps where s: "s = (d, ps)" by (cases s)
  from more.hyps(2) [unfolded s] show ?case
  proof (cases rule: sys_step.cases)
    case (move io n p' d')
    have step: "proc_step io (ps n) d = (p', d')" using move by simp
    have "table_sound d' \<and> proc_sound d' p'" using step_sound [OF step] more.IH s by simp
    moreover have "proc_sound d' (ps m)" for m using proc_sound_mono [OF step_known [OF step]] more.IH s by simp
    ultimately show ?thesis using move by simp
  qed (use more.IH s in \<open>auto simp: entry_sound\<close>)
qed

text \<open>C39. The table of jobs stays well formed in every reachable state: whatever the interleaving of requests,
  any number of workers and the retention runner, whatever fails and wherever the server dies, ids are
  unique, every job's processed count is the sum of its succeeded and failed counts, a completed job has
  its completion and expiry times, every file key is the job's own, and every process holds only jobs of the
  table, under the organization they belong to.\<close>
theorem batch_table_well_formed:
  assumes "reachable K (d, ps)"
  shows "table_sound d \<and> (\<forall>n. proc_sound d (ps n))"
  using reachable_sound [OF assms] by simp

section \<open>Results can be downloaded\<close>

definition has_files :: "batch_db \<Rightarrow> string \<Rightarrow> string \<Rightarrow> bool" where
  "has_files d jid org = (bd_files d (result_key org jid) \<noteq> None \<and> bd_files d (error_key org jid) \<noteq> None)"

definition results_stored :: "batch_db \<Rightarrow> bool" where
  "results_stored d = (\<forall>j\<in>set (bd_jobs d). bj_status j = BatchCompleted \<longrightarrow> has_files d (bj_id j) (bj_org j))"

fun proc_stored :: "batch_db \<Rightarrow> proc \<Rightarrow> bool" where
  "proc_stored d (Inserting job c) = fresh_job job"
| "proc_stored d (Recording job) = fresh_job job"
| "proc_stored d (PuttingInput job c) = fresh_job job"
| "proc_stored d (PuttingError job t ok) = (ok \<longrightarrow> bd_files d (result_key (bj_org job) (bj_id job)) \<noteq> None)"
| "proc_stored d (Keying job) = has_files d (bj_id job) (bj_org job)"
| "proc_stored d (Completing job) = has_files d (bj_id job) (bj_org job)"
| "proc_stored d ListingExpired = False"
| "proc_stored d (Retaining js) = False"
| "proc_stored d (MarkingExpired jid js) = False"
| "proc_stored d p = True"

lemma update_stored:
  assumes "results_stored d" "\<And>j. bj_id (f j) = bj_id j" "\<And>j. bj_org (f j) = bj_org j"
    "\<And>j. j \<in> set (bd_jobs d) \<Longrightarrow> P j \<Longrightarrow> bj_status (f j) = BatchCompleted \<Longrightarrow>
       bj_status j = BatchCompleted \<or> has_files d (bj_id j) (bj_org j)"
  shows "results_stored (update_job P f d)"
  unfolding results_stored_def
proof (intro ballI impI)
  fix j assume j: "j \<in> set (bd_jobs (update_job P f d))" "bj_status j = BatchCompleted"
  then obtain i where i: "i \<in> set (bd_jobs d)" "j = (if P i then f i else i)" using update_job_set by blast
  have "has_files d (bj_id i) (bj_org i)"
    using assms(1,4) i j(2) by (cases "P i") (auto simp: results_stored_def)
  then show "has_files (update_job P f d) (bj_id j) (bj_org j)" using i assms(2,3) by (simp add: has_files_def)
qed

lemma set_status_stored:
  "results_stored d \<Longrightarrow> st \<noteq> BatchCompleted \<Longrightarrow> results_stored (set_status jid st c e d)"
  unfolding set_status_def by (intro update_stored) auto

lemma set_completed_stored:
  "results_stored d \<Longrightarrow> table_sound d \<Longrightarrow> known d (bj_id job) (bj_org job) \<Longrightarrow> has_files d (bj_id job) (bj_org job)
   \<Longrightarrow> results_stored (set_status (bj_id job) BatchCompleted c e d)"
  unfolding set_status_def using known_org [of d _ "bj_org job"] by (intro update_stored) auto

lemma other_stored:
  "results_stored d \<Longrightarrow> results_stored (set_error jid m d)"
  "results_stored d \<Longrightarrow> results_stored (set_file_keys jid rk ek d)"
  "results_stored d \<Longrightarrow> results_stored (increment_counters jid t d)"
  "results_stored d \<Longrightarrow> fresh_job job \<Longrightarrow> results_stored (update_batch_job job d)"
  by (auto simp: set_error_def set_file_keys_def increment_counters_def Let_def update_batch_job_def fresh_job_def
      intro!: update_stored)

lemma claim_stored: "claim_job jid d = (won, d') \<Longrightarrow> results_stored d \<Longrightarrow> results_stored d'"
  by (auto simp: claim_job_def Let_def intro!: update_stored)

lemma put_stored: "results_stored d \<Longrightarrow> results_stored (put_file k c d)"
  by (simp add: results_stored_def has_files_def put_file_def)

lemma insert_stored:
  "insert_batch_job job d = Some d' \<Longrightarrow> fresh_job job \<Longrightarrow> results_stored d \<Longrightarrow> results_stored d'"
  by (auto simp: insert_batch_job_def results_stored_def has_files_def fresh_job_def split: if_splits)

lemma table_ops_files [simp]:
  "bd_files (set_status jid st ca e d) = bd_files d" "bd_files (set_error jid m d) = bd_files d"
  "bd_files (set_file_keys jid rk ek d) = bd_files d" "bd_files (update_batch_job job d) = bd_files d"
  "bd_files (increment_counters jid t d) = bd_files d"
  by (simp_all add: job_sound_simps increment_counters_def Let_def)

lemma claim_files: "claim_job jid d = (won, d') \<Longrightarrow> bd_files d' = bd_files d"
  by (auto simp: claim_job_def Let_def)

lemma insert_files: "insert_batch_job job d = Some d' \<Longrightarrow> bd_files d' = bd_files d"
  by (auto simp: insert_batch_job_def split: if_splits)

lemma keys_has_files [simp]: "has_files (set_file_keys jid rk ek d) = has_files d"
  by (simp add: fun_eq_iff has_files_def)

lemma put_file_at: "bd_files (put_file k content d) k' = (if k' = k then Some content else bd_files d k')"
  by (simp add: put_file_def)

lemma put_error_stored:
  "bd_files d (result_key org jid) = Some y \<Longrightarrow> has_files (put_file (error_key org jid) content d) jid org"
  by (simp add: has_files_def put_file_at)

lemma step_files:
  "proc_step io p d = (p', d') \<Longrightarrow> proc_stored d p \<Longrightarrow> bd_files d k \<noteq> None \<Longrightarrow> bd_files d' k \<noteq> None"
  by (cases "(io, p, d)" rule: proc_step.cases)
    (auto simp: Let_def put_file_at claim_files insert_files
      split: sum.splits option.splits prod.splits if_splits)

lemma step_stored:
  assumes "proc_step io p d = (p', d')" "table_sound d" "proc_sound d p" "proc_stored d p" "results_stored d"
  shows "results_stored d' \<and> proc_stored d' p'"
  using assms
proof (cases "(io, p, d)" rule: proc_step.cases)
  case (4 io job content d)
  then show ?thesis using assms by (auto split: option.splits if_splits intro: insert_stored)
qed (auto simp: Let_def next_in_progress_def input_key_sound put_stored put_file_at put_error_stored set_status_stored
    intro!: set_completed_stored other_stored split: sum.splits option.splits prod.splits if_splits
    dest: submit_fresh claim_stored)

lemma proc_stored_mono:
  "(\<And>k. bd_files d k \<noteq> None \<Longrightarrow> bd_files d' k \<noteq> None) \<Longrightarrow> proc_stored d p \<Longrightarrow> proc_stored d' p"
  by (cases p) (auto simp: has_files_def)

lemma entry_stored: "entry p \<Longrightarrow> p \<noteq> ListingExpired \<Longrightarrow> proc_stored d p"
  by (cases p) (auto simp: entry_def)

lemma reachable_stored:
  "reachable K s \<Longrightarrow> \<not> K ListingExpired \<Longrightarrow> results_stored (fst s) \<and> (\<forall>n. proc_stored (fst s) (snd s n))"
proof (induction rule: reachable.induct)
  case initial
  then show ?case by (simp add: results_stored_def empty_batch_def)
next
  case (more s s')
  obtain d ps where s: "s = (d, ps)" by (cases s)
  note sound = reachable_sound [OF more.hyps(1)]
  from more.hyps(2) [unfolded s] show ?case
  proof (cases rule: sys_step.cases)
    case (move io n p' d')
    have step: "proc_step io (ps n) d = (p', d')" using move by simp
    have ih: "results_stored d" "\<And>m. proc_stored d (ps m)" using more.IH more.prems s by simp_all
    have "results_stored d' \<and> proc_stored d' p'"
      using step_stored [OF step] sound ih s by simp
    moreover have "proc_stored d' (ps m)" for m
      using proc_stored_mono [OF step_files [OF step ih(2)] ih(2)] by blast
    ultimately show ?thesis using move by simp
  next
    case (start n p)
    then show ?thesis using more.IH more.prems s entry_stored [of p d] by auto
  qed (use more.IH more.prems s in auto)
qed

text \<open>C36. A completed job has its results: in every state reached with no retention pass, both files of a completed
  job are in the store, and of the two keys the ones recorded can be downloaded by its organization, however
  requests and workers interleave, fail or die.\<close>
theorem completed_job_downloads:
  assumes "\<not> K ListingExpired" "reachable K (d, ps)"
    "find_batch_job is_uuid (Some org) jid d = Some j" "bj_status j = BatchCompleted"
  shows "has_files d (bj_id j) (bj_org j)
    \<and> (bj_result_key j \<noteq> [] \<longrightarrow> (\<exists>content. download bj_result_key is_uuid org jid d = Inr content))
    \<and> (bj_error_key j \<noteq> [] \<longrightarrow> (\<exists>content. download bj_error_key is_uuid org jid d = Inr content))"
proof -
  have j: "j \<in> set (bd_jobs d)" using assms(3) by (rule find_batch_jobD)
  have "job_sound j" using reachable_sound [OF assms(2)] j by (simp add: table_sound_def list_all_iff)
  then have keys: "bj_result_key j \<in> {[], result_key (bj_org j) (bj_id j)}" "bj_error_key j \<in> {[], error_key (bj_org j) (bj_id j)}"
    by (simp_all add: job_sound_def)
  have "has_files d (bj_id j) (bj_org j)"
    using reachable_stored [OF assms(2,1)] j assms(4) by (simp add: results_stored_def)
  then show ?thesis using keys assms(3,4) by (auto simp: download_def has_files_def)
qed

text \<open>Schedules: which process moves and what it meets.\<close>

fun run_schedule :: "(nat \<times> batch_io) list \<Rightarrow> batch_system \<Rightarrow> batch_system" where
  "run_schedule [] s = s"
| "run_schedule ((n, io) # sch) (d, ps) =
     (case proc_step io (ps n) d of (p', d') \<Rightarrow> run_schedule sch (d', ps(n := p')))"

lemma run_schedule_reachable: "reachable K s \<Longrightarrow> reachable K (run_schedule sch s)"
proof (induction sch s rule: run_schedule.induct)
  case (2 n io sch d ps)
  obtain p' d' where step: "proc_step io (ps n) d = (p', d')" by (rule prod.exhaust)
  show ?case using "2.IH" [OF step [symmetric]] reachable.more [OF "2.prems" sys_step.move [of io ps n, OF step]] step by simp
qed simp

lemma start_reachable:
  "reachable K (d, ps) \<Longrightarrow> finished (ps n) \<Longrightarrow> entry p \<Longrightarrow> K p \<Longrightarrow> reachable K (d, ps(n := p))"
  by (rule reachable.more) (auto intro: sys_step.start)

definition demo_line_text :: string where
  "demo_line_text = object_text [(''custom_id'', go_string ''a''), (''method'', go_string ''POST''),
     (''url'', go_string ''/v1/embeddings''), (''body'', object_text [(''model'', go_string ''m'')])]"

definition demo_submission :: submission where
  "demo_submission = \<lparr>sb_org = ''o'', sb_window = [], sb_content = demo_line_text, sb_limit = 0, sb_midnight = 0,
     sb_max_bytes = 524288000, sb_max_lines = 50000\<rparr>"

definition demo_io :: "int \<Rightarrow> batch_io" where
  "demo_io t = \<lparr>io_up = True, io_cancelled = False, io_answer = Inr (''{}'', 3, 4), io_cost = Some 2, io_now = t, io_ttl = 100, io_gone = (\<lambda>k. True),
     io_id = ''j1'', io_is_uuid = (\<lambda>s. True)\<rparr>"

definition demo_start :: "batch_system" where
  "demo_start = (empty_batch, (\<lambda>n. Idle)(0 := Submitting demo_submission, 1 := Promoting, 2 := Promoting,
     3 := Cancelling None ''j1''))"

lemma demo_start_reachable: "reachable (\<lambda>p. p \<noteq> ListingExpired) demo_start"
  unfolding demo_start_def
  by (intro start_reachable reachable.initial) (simp_all add: entry_def)


definition demo_schedule :: "nat list \<Rightarrow> (nat \<times> batch_io) list" where
  "demo_schedule ns = map (\<lambda>n. (n, demo_io 5)) ns"

definition demo_run :: "nat list \<Rightarrow> batch_system" where
  "demo_run ns = run_schedule (demo_schedule ns) demo_start"

lemma demo_run_reachable: "reachable (\<lambda>p. p \<noteq> ListingExpired) (demo_run ns)"
  unfolding demo_run_def by (rule run_schedule_reachable) (rule demo_start_reachable)

theorem batch_table_well_formed_witness:
  "table_sound (fst (demo_run [0,0,0,0,1,1,1,1])) \<and> (\<forall>n. proc_sound (fst (demo_run [0,0,0,0,1,1,1,1])) (snd (demo_run [0,0,0,0,1,1,1,1]) n))
   \<and> length (bd_jobs (fst (demo_run [0,0,0,0,1,1,1,1]))) = 1"
proof -
  have "length (bd_jobs (fst (demo_run [0,0,0,0,1,1,1,1]))) = 1" by code_simp
  then show ?thesis using batch_table_well_formed [of _ "fst (demo_run [0,0,0,0,1,1,1,1])" "snd (demo_run [0,0,0,0,1,1,1,1])",
      unfolded prod.collapse, OF demo_run_reachable] by blast
qed

theorem completed_job_downloads_witness:
  "\<exists>content. download bj_result_key (\<lambda>s. True) ''o'' ''j1'' (fst (demo_run [0,0,0,0,1,1,1,1,1,1,1,1,1,1])) = Inr content"
proof -
  let ?s = "demo_run [0,0,0,0,1,1,1,1,1,1,1,1,1,1]"
  have r: "reachable (\<lambda>p. p \<noteq> ListingExpired) (fst ?s, snd ?s)" using demo_run_reachable by simp
  have f: "map_option (\<lambda>j. (bj_status j, bj_result_key j)) (find_batch_job (\<lambda>s. True) (Some ''o'') ''j1'' (fst ?s))
    = Some (BatchCompleted, ''batch/o/j1/result.jsonl'')" by code_simp
  then obtain j where j: "find_batch_job (\<lambda>s. True) (Some ''o'') ''j1'' (fst ?s) = Some j" "bj_status j = BatchCompleted"
    "bj_result_key j \<noteq> []" by (auto simp: map_option_eq_Some)
  show ?thesis using completed_job_downloads [OF _ r j(1,2)] j(3) by simp
qed

text \<open>
  What interleaving breaks.  A cancelled job is completed by the worker that already runs it; a worker of a
  second server picks the job the first one processes, and its requests are sent, counted and metered
  twice.
\<close>

lemma cancelled_job_completes:
  "let (d, ps) = demo_run [0,0,0,0,1,1,1,1,3,3,1,1,1,1,1,1]
   in (case ps 3 of Replied (Inr j) \<Rightarrow> bj_status j = BatchCancelled | _ \<Rightarrow> False)
      \<and> map bj_status (bd_jobs d) = [BatchCompleted]"
  by code_simp

lemma job_processed_twice:
  "let (d, ps) = demo_run [0,0,0,0,1,1,1,2,2,2,1,2,1,2]
   in map (\<lambda>j. (bj_total j, bj_processed j, bj_cost j)) (bd_jobs d) = [(1, 2, 4)]"
  by code_simp

text \<open>A server that stops while a job is finalizing leaves it so: no worker takes it and it cannot be cancelled.\<close>

lemma finalizing_job_is_stuck:
  assumes "\<forall>j\<in>set (bd_jobs d). bj_status j = Finalizing"
  shows "oldest (\<lambda>j. bj_status j = Validating) d = None" "next_in_progress d = None"
    "\<exists>e. proc_step io (Cancelling org jid) d = (Replied (Inl e), d)"
proof -
  have "filter (\<lambda>j. bj_status j = Validating) (bd_jobs d) = []" "filter (\<lambda>j. bj_status j = InProgress) (bd_jobs d) = []"
    using assms by (auto simp: filter_empty_conv)
  then show "oldest (\<lambda>j. bj_status j = Validating) d = None" "next_in_progress d = None"
    by (simp_all add: oldest_def next_in_progress_def)
  show "\<exists>e. proc_step io (Cancelling org jid) d = (Replied (Inl e), d)"
    using assms by (auto simp: cancellable_def dest: find_batch_jobD split: option.split)
qed

text \<open>The retention cutoff subtracts the time to live from a time that already includes it: files live twice as long.\<close>

lemma files_outlive_their_ttl:
  "j \<in> set (find_expired_files (now - ttl) n d) \<Longrightarrow> bj_expire_at j = Some (done_at + ttl) \<Longrightarrow> done_at + 2 * ttl < now"
  by (auto simp: find_expired_files_def dest!: in_set_takeD)


section \<open>An undisturbed job\<close>

fun run_alone :: "batch_io list \<Rightarrow> proc \<Rightarrow> batch_db \<Rightarrow> proc \<times> batch_db" where
  "run_alone [] p d = (p, d)"
| "run_alone (io # ios) p d = (case proc_step io p d of (p', d') \<Rightarrow> run_alone ios p' d')"

fun calls_tally :: "batch_io list \<Rightarrow> request_line list \<Rightarrow> tally \<Rightarrow> tally" where
  "calls_tally (io # ios) (r # rs) t = calls_tally ios rs (call_one (io_answer io) (io_cost io) r t)"
| "calls_tally ios rs t = t"

definition answered :: "batch_io \<Rightarrow> bool" where
  "answered io = (case io_answer io of Inl msg \<Rightarrow> False | Inr a \<Rightarrow> True)"

definition result_part :: "batch_io \<times> request_line \<Rightarrow> string" where
  "result_part p = (case io_answer (fst p) of Inl msg \<Rightarrow> []
     | Inr (response, i, out) \<Rightarrow> format_result_line (rl_custom (snd p)) response @ [CHR 0x0A])"

definition error_part :: "batch_io \<times> request_line \<Rightarrow> string" where
  "error_part p = (case io_answer (fst p) of Inl msg \<Rightarrow> format_error_line (rl_custom (snd p)) msg @ [CHR 0x0A] | Inr a \<Rightarrow> [])"

lemma calls_tally_spec:
  "length ios = length rs \<Longrightarrow>
    ty_processed (calls_tally ios rs t) = ty_processed t + int (length rs)
    \<and> ty_succeeded (calls_tally ios rs t) = ty_succeeded t + int (length (filter answered ios))
    \<and> ty_failed (calls_tally ios rs t) = ty_failed t + int (length (filter (\<lambda>io. \<not> answered io) ios))
    \<and> ty_results (calls_tally ios rs t) = ty_results t @ concat (map result_part (zip ios rs))
    \<and> ty_errors (calls_tally ios rs t) = ty_errors t @ concat (map error_part (zip ios rs))"
proof (induction ios rs t rule: calls_tally.induct)
  case (1 io ios r rs t)
  then show ?case
    by (cases "io_answer io") (auto simp: call_one_def answered_def result_part_def error_part_def split: prod.split)
qed auto

lemma calls_tally_range:
  "in_int64 (ty_in t) \<and> in_int64 (ty_out t) \<and> in_int64 (ty_cost t) \<Longrightarrow>
   in_int64 (ty_in (calls_tally ios rs t)) \<and> in_int64 (ty_out (calls_tally ios rs t)) \<and> in_int64 (ty_cost (calls_tally ios rs t))"
proof (induction ios rs t rule: calls_tally.induct)
  case (1 io ios r rs t)
  then show ?case
    by (cases "io_answer io") (auto simp: call_one_def in_int64_wrap64 split: prod.split option.split)
qed auto

lemma run_calls:
  "length ios = length rs \<Longrightarrow> list_all (\<lambda>io. \<not> io_cancelled io) ios \<Longrightarrow>
   run_alone (ios @ rest) (Calling job rs t) d = run_alone rest (Calling job [] (calls_tally ios rs t)) d"
  by (induction ios rs t rule: calls_tally.induct) auto

text \<open>The row of one job through the operations.\<close>

definition row :: "string \<Rightarrow> batch_db \<Rightarrow> batch_job option" where
  "row jid d = find (\<lambda>j. bj_id j = jid) (bd_jobs d)"

lemma find_map_if:
  "(\<And>j. k (f j) = k j) \<Longrightarrow> find (\<lambda>j. k j = x) (map (\<lambda>j. if k j = y then f j else j) js)
    = map_option (\<lambda>j. if k j = y then f j else j) (find (\<lambda>j. k j = x) js)"
  by (induction js) auto

lemma row_update:
  "(\<And>j. bj_id (f j) = bj_id j) \<Longrightarrow> row jid (update_job (\<lambda>j. bj_id j = jid) f d) = map_option f (row jid d)"
  unfolding row_def update_job_def
  by (simp add: find_map_if) (cases "find (\<lambda>j. bj_id j = jid) (bd_jobs d)"; auto dest: find_SomeD)

lemma row_ops:
  "row jid (set_status jid st c e d) = map_option (\<lambda>j. j\<lparr>bj_status := st,
      bj_completed_at := (case c of None \<Rightarrow> bj_completed_at j | Some t \<Rightarrow> Some t),
      bj_expire_at := (case e of None \<Rightarrow> bj_expire_at j | Some t \<Rightarrow> Some t)\<rparr>) (row jid d)"
  "row jid (set_file_keys jid rk ek d) = map_option (\<lambda>j. j\<lparr>bj_result_key := rk, bj_error_key := ek\<rparr>) (row jid d)"
  "row jid (put_file k content d) = row jid d"
  by (simp_all add: set_status_def set_file_keys_def row_update) (simp add: row_def put_file_def)

definition counted :: "tally \<Rightarrow> batch_job \<Rightarrow> batch_job" where
  "counted t j = j\<lparr>bj_processed := bj_processed j + ty_processed t, bj_succeeded := bj_succeeded j + ty_succeeded t,
     bj_failed := bj_failed j + ty_failed t, bj_in_tokens := bj_in_tokens j + ty_in t,
     bj_out_tokens := bj_out_tokens j + ty_out t, bj_cost := bj_cost j + ty_cost t\<rparr>"

definition counts_fit :: "batch_job \<Rightarrow> bool" where
  "counts_fit j = (in_int64 (bj_processed j) \<and> in_int64 (bj_succeeded j) \<and> in_int64 (bj_failed j)
     \<and> in_int64 (bj_in_tokens j) \<and> in_int64 (bj_out_tokens j) \<and> in_int64 (bj_cost j))"

lemma row_increment:
  assumes "table_sound d" "row jid d = Some j" "counts_fit (counted t j)"
  shows "row jid (increment_counters jid t d) = Some (counted t j)"
proof -
  have j: "j \<in> set (bd_jobs d)" "bj_id j = jid" using assms(2) by (auto simp: row_def dest: find_SomeD)
  have "i = j" if "i \<in> set (bd_jobs d)" "bj_id i = jid" for i
    using assms(1) j that by (auto simp: table_sound_def distinct_map inj_on_def)
  then have "list_all (\<lambda>i. bj_id i = jid \<longrightarrow> counts_fit (counted t i)) (bd_jobs d)"
    using assms(3) by (auto simp: list_all_iff)
  then have "increment_counters jid t d = update_job (\<lambda>j. bj_id j = jid) (counted t) d"
    unfolding increment_counters_def Let_def counts_fit_def counted_def by simp
  then show ?thesis using assms(2) by (simp add: row_update counted_def)
qed

definition unprocessed :: "batch_job \<Rightarrow> bool" where
  "unprocessed j = (bj_processed j = 0 \<and> bj_succeeded j = 0 \<and> bj_failed j = 0 \<and> bj_in_tokens j = 0
     \<and> bj_out_tokens j = 0 \<and> bj_cost j = 0)"

lemma accepted_length: "accepted_file mb (2 ^ 30) content reqs mdl \<Longrightarrow> length reqs \<le> 2 ^ 30"
proof -
  assume a: "accepted_file mb (2 ^ 30) content reqs mdl"
  then have "length reqs = length (request_lines content)"
    unfolding accepted_file_def by (metis length_map)
  also have "\<dots> \<le> length (split_at (CHR 0x0A) content)" unfolding request_lines_def by (metis length_filter_le length_map)
  finally show ?thesis using a by (simp add: accepted_file_def)
qed

lemma unprocessed_fits:
  assumes "unprocessed j" "length ios = length rs" "length rs \<le> 2 ^ 30"
  shows "counts_fit (counted (calls_tally ios rs no_tally) j)"
proof -
  have "length (filter answered ios) \<le> 2 ^ 30" "length (filter (\<lambda>io. \<not> answered io) ios) \<le> 2 ^ 30"
    using assms(2,3) length_filter_le [of answered ios] length_filter_le [of "\<lambda>io. \<not> answered io" ios] by linarith+
  then show ?thesis
    using assms calls_tally_spec [OF assms(2), of no_tally] calls_tally_range [of no_tally ios rs]
    by (simp add: counts_fit_def counted_def unprocessed_def no_tally_def in_int64_def)
qed

text \<open>What the tally adds up beside the counts; the sums wrap at 64 bits.\<close>

definition tokens_in :: "batch_io \<Rightarrow> int" where
  "tokens_in io = (case io_answer io of Inl msg \<Rightarrow> 0 | Inr (response, i, out) \<Rightarrow> i)"

definition tokens_out :: "batch_io \<Rightarrow> int" where
  "tokens_out io = (case io_answer io of Inl msg \<Rightarrow> 0 | Inr (response, i, out) \<Rightarrow> out)"

definition cost_of :: "batch_io \<Rightarrow> int" where
  "cost_of io = (if answered io then opt_or (io_cost io) 0 else 0)"

lemma wrap64_wrap: "wrap64 (wrap64 a + b) = wrap64 (a + b)"
proof -
  have "((a + 2 ^ 63) mod 2 ^ 64 + b) mod 2 ^ 64 = (a + b + 2 ^ 63) mod 2 ^ 64"
    unfolding mod_add_left_eq by (simp add: algebra_simps)
  then show ?thesis by (simp add: wrap64_def)
qed

lemma calls_tally_sums:
  "length ios = length rs \<Longrightarrow> in_int64 (ty_in t) \<and> in_int64 (ty_out t) \<and> in_int64 (ty_cost t) \<Longrightarrow>
    ty_in (calls_tally ios rs t) = wrap64 (ty_in t + sum_list (map tokens_in ios))
    \<and> ty_out (calls_tally ios rs t) = wrap64 (ty_out t + sum_list (map tokens_out ios))
    \<and> ty_cost (calls_tally ios rs t) = wrap64 (ty_cost t + sum_list (map cost_of ios))"
proof (induction ios rs t rule: calls_tally.induct)
  case (1 io ios r rs t)
  then show ?case
    by (cases "io_answer io"; cases "io_cost io")
      (auto simp: call_one_def answered_def tokens_in_def tokens_out_def cost_of_def opt_or_def in_int64_wrap64
        wrap64_wrap add.assoc split: prod.split)
qed auto

lemma claimed_job_finishes:
  assumes "accepted_file (2 ^ 62) (2 ^ 30) content reqs mdl" "bd_files d (bj_input_key job) = Some content"
    "table_sound d" "row (bj_id job) d = Some j0" "unprocessed j0"
    "length calls = length reqs" "list_all (\<lambda>io. \<not> io_cancelled io) calls"
    "io_up load" "list_all io_up [count, mark, res, err, keys, fin]"
    "run_alone (load # calls @ [count, mark, res, err, keys, fin]) (Loading job) d = (p, d')"
  shows "p = Idle \<and> (\<exists>j. row (bj_id job) d' = Some j \<and> bj_status j = BatchCompleted
    \<and> bj_processed j = int (length reqs) \<and> bj_succeeded j = int (length (filter answered calls))
    \<and> bj_failed j = int (length (filter (\<lambda>io. \<not> answered io) calls))
    \<and> bj_in_tokens j = wrap64 (sum_list (map tokens_in calls)) \<and> bj_out_tokens j = wrap64 (sum_list (map tokens_out calls))
    \<and> bj_cost j = wrap64 (sum_list (map cost_of calls))
    \<and> bj_completed_at j = Some (io_now fin) \<and> bj_expire_at j = Some (io_now fin + io_ttl fin)
    \<and> bd_files d' (bj_result_key j) = Some (concat (map result_part (zip calls reqs)))
    \<and> bd_files d' (bj_error_key j) = Some (concat (map error_part (zip calls reqs))))"
proof -
  let ?t = "calls_tally calls reqs no_tally" and ?i = "bj_id job" and ?rk = "result_key (bj_org job) (bj_id job)"
    and ?ek = "error_key (bj_org job) (bj_id job)"
  have v: "validate_jsonl (2 ^ 62) (2 ^ 30) content = Inr (reqs, mdl)"
    using assms(1) unfolding validate_jsonl_exact .
  let ?d1 = "increment_counters ?i ?t d"
  let ?d2 = "set_status ?i Finalizing None None ?d1"
  let ?d3 = "put_file ?ek (ty_errors ?t) (put_file ?rk (ty_results ?t) ?d2)"
  let ?d4 = "set_status ?i BatchCompleted (Some (io_now fin)) (Some (io_now fin + io_ttl fin)) (set_file_keys ?i ?rk ?ek ?d3)"
  have "(p, d') = run_alone [count, mark, res, err, keys, fin] (Calling job [] ?t) d"
    using assms(2,8,10) v run_calls [OF assms(6,7)] by simp
  then have d': "p = Idle" "d' = ?d4" using assms(9) by simp_all
  have "row ?i ?d1 = Some (counted ?t j0)"
    by (rule row_increment [OF assms(3,4) unprocessed_fits [OF assms(5,6) accepted_length [OF assms(1)]]])
  then have r: "row ?i d' = Some ((counted ?t j0)\<lparr>bj_status := BatchCompleted, bj_completed_at := Some (io_now fin),
      bj_expire_at := Some (io_now fin + io_ttl fin), bj_result_key := ?rk, bj_error_key := ?ek\<rparr>)"
    unfolding d' by (simp add: row_ops)
  have "?rk \<noteq> ?ek" by (simp add: result_key_def error_key_def)
  then have f: "bd_files d' ?rk = Some (ty_results ?t)" "bd_files d' ?ek = Some (ty_errors ?t)"
    unfolding d' by (simp_all add: put_file_at)
  show ?thesis using d'(1) r f assms(5) calls_tally_spec [OF assms(6), of no_tally]
      calls_tally_sums [OF assms(6), of no_tally]
    by (simp add: counted_def unprocessed_def no_tally_def in_int64_def)
qed

lemma row_of: "table_sound d \<Longrightarrow> j \<in> set (bd_jobs d) \<Longrightarrow> row (bj_id j) d = Some j"
proof -
  assume d: "table_sound d" and j: "j \<in> set (bd_jobs d)"
  then obtain i where i: "row (bj_id j) d = Some i" by (cases "row (bj_id j) d") (auto simp: row_def find_None_iff)
  then have "i \<in> set (bd_jobs d)" "bj_id i = bj_id j" by (auto simp: row_def dest: find_SomeD)
  then show ?thesis using d j i by (auto simp: table_sound_def distinct_map inj_on_def)
qed

lemma claim_won:
  assumes "table_sound d" "row jid d = Some j" "bj_status j = Validating"
  shows "fst (claim_job jid d)" "row jid (snd (claim_job jid d)) = Some (j\<lparr>bj_status := InProgress\<rparr>)"
proof -
  have j: "j \<in> set (bd_jobs d)" "bj_id j = jid" using assms(2) by (auto simp: row_def dest: find_SomeD)
  then show "fst (claim_job jid d)" using assms(3) by (auto simp: claim_job_def Let_def)
  have "i = j" if "i \<in> set (bd_jobs d)" "bj_id i = jid" for i
    using assms(1) j that by (auto simp: table_sound_def distinct_map inj_on_def)
  then have "map (\<lambda>i. if bj_id i = jid \<and> bj_status i = Validating then i\<lparr>bj_status := InProgress\<rparr> else i) (bd_jobs d)
      = map (\<lambda>i. if bj_id i = jid then i\<lparr>bj_status := InProgress\<rparr> else i) (bd_jobs d)"
    using assms(3) by (intro map_cong refl) metis
  then have "snd (claim_job jid d) = update_job (\<lambda>j. bj_id j = jid) (\<lambda>j. j\<lparr>bj_status := InProgress\<rparr>) d"
    by (simp add: claim_job_def Let_def update_job_def)
  then show "row jid (snd (claim_job jid d)) = Some (j\<lparr>bj_status := InProgress\<rparr>)"
    using assms(2) by (simp add: row_update)
qed

text \<open>C37. An undisturbed pass of the worker processes the oldest validating job to its end: it claims the job, sends
  every request of its accepted input file once, in order, and leaves the job completed, with the counters of
  requests, answers and failures, the sums of the answers' tokens and costs, its expiry time, and the two files
  holding one line per answered and per failed request.\<close>
theorem batch_worker_completes:
  assumes "oldest (\<lambda>j. bj_status j = Validating) d = Some job" "unprocessed job" "table_sound d"
    "bd_files d (bj_input_key job) = Some content" "accepted_file (2 ^ 62) (2 ^ 30) content reqs mdl"
    "length calls = length reqs" "list_all (\<lambda>io. \<not> io_cancelled io) calls"
    "list_all io_up [promote, claim, load, count, mark, res, err, keys, fin]"
    "run_alone (promote # claim # load # calls @ [count, mark, res, err, keys, fin]) Promoting d = (p, d')"
  shows "p = Idle \<and> (\<exists>j. row (bj_id job) d' = Some j \<and> bj_status j = BatchCompleted
    \<and> bj_processed j = int (length reqs) \<and> bj_succeeded j = int (length (filter answered calls))
    \<and> bj_failed j = int (length (filter (\<lambda>io. \<not> answered io) calls))
    \<and> bj_in_tokens j = wrap64 (sum_list (map tokens_in calls)) \<and> bj_out_tokens j = wrap64 (sum_list (map tokens_out calls))
    \<and> bj_cost j = wrap64 (sum_list (map cost_of calls))
    \<and> bj_completed_at j = Some (io_now fin) \<and> bj_expire_at j = Some (io_now fin + io_ttl fin)
    \<and> bd_files d' (bj_result_key j) = Some (concat (map result_part (zip calls reqs)))
    \<and> bd_files d' (bj_error_key j) = Some (concat (map error_part (zip calls reqs))))"
proof -
  let ?job = "job\<lparr>bj_status := InProgress\<rparr>" and ?d = "snd (claim_job (bj_id job) d)"
  have j: "job \<in> set (bd_jobs d)" "bj_status job = Validating" using oldest_mem [OF assms(1)] by auto
  note c = claim_won [OF assms(3) row_of [OF assms(3) j(1)] j(2)]
  have f: "bd_files ?d = bd_files d" using claim_files by (metis prod.collapse)
  obtain d1 where d1: "claim_job (bj_id job) d = (True, d1)" using c(1) by (cases "claim_job (bj_id job) d") auto
  then have "run_alone (load # calls @ [count, mark, res, err, keys, fin]) (Loading ?job) ?d = (p, d')"
    using assms(1,8,9) by (simp del: run_alone.simps(2) add: run_alone.simps(2) [of promote] run_alone.simps(2) [of claim])
  from claimed_job_finishes [OF assms(5) _ claim_sound [OF assms(3)] _ _ assms(6,7) _ _ this] c(2) f assms(2,4,8)
  show ?thesis by (simp add: unprocessed_def)
qed

lemma validate_sumE:
  assumes "(case validate_jsonl a b c of Inl e \<Rightarrow> False | Inr (reqs, mdl) \<Rightarrow> P reqs)"
  obtains reqs mdl where "accepted_file a b c reqs mdl" "P reqs"
  using assms unfolding validate_jsonl_exact [symmetric] by (auto split: sum.splits prod.splits)

theorem batch_worker_completes_witness:
  "let d = fst (demo_run [0,0,0,0]); (p, d') = run_alone (replicate 10 (demo_io 9)) Promoting d
   in p = Idle \<and> map_option (\<lambda>j. (bj_status j, bj_succeeded j, bj_in_tokens j, bj_cost j)) (row ''j1'' d') = Some (BatchCompleted, 1, 3, 2)"
proof -
  let ?d = "fst (demo_run [0,0,0,0])"
  obtain p d' where r: "run_alone (replicate 10 (demo_io 9)) Promoting ?d = (p, d')" by (rule prod.exhaust)
  have v: "case validate_jsonl (2 ^ 62) (2 ^ 30) demo_line_text of Inl e \<Rightarrow> False | Inr (reqs, mdl) \<Rightarrow> length reqs = 1"
    by code_simp
  have "(case oldest (\<lambda>j. bj_status j = Validating) ?d of None \<Rightarrow> False | Some j \<Rightarrow> unprocessed j \<and> bj_id j = ''j1''
      \<and> bd_files ?d (bj_input_key j) = Some demo_line_text)" by code_simp
  then obtain j where j: "oldest (\<lambda>j. bj_status j = Validating) ?d = Some j" "unprocessed j" "bj_id j = ''j1''"
    "bd_files ?d (bj_input_key j) = Some demo_line_text"
    by (cases "oldest (\<lambda>j. bj_status j = Validating) ?d") auto
  have t: "table_sound ?d" using reachable_sound [OF demo_run_reachable] by blast
  obtain reqs mdl where a: "accepted_file (2 ^ 62) (2 ^ 30) demo_line_text reqs mdl" "length reqs = 1"
    using v by (rule validate_sumE)
  have io: "io_up (demo_io 9)" "\<not> io_cancelled (demo_io 9)" "answered (demo_io 9)" "tokens_in (demo_io 9) = 3" "cost_of (demo_io 9) = 2"
    by (simp_all add: demo_io_def answered_def tokens_in_def cost_of_def opt_or_def)
  have w: "wrap64 3 = 3" "wrap64 2 = 2" by (simp_all add: wrap64_def)
  have r': "run_alone (demo_io 9 # demo_io 9 # demo_io 9 # [demo_io 9]
      @ [demo_io 9, demo_io 9, demo_io 9, demo_io 9, demo_io 9, demo_io 9]) Promoting ?d = (p, d')"
    using r by (simp add: numeral_eq_Suc)
  have "p = Idle \<and> (\<exists>i. row (bj_id j) d' = Some i \<and> bj_status i = BatchCompleted \<and> bj_succeeded i = 1 \<and> bj_in_tokens i = 3 \<and> bj_cost i = 2)"
    using batch_worker_completes [OF j(1,2) t j(4) a(1) _ _ _ r'] a(2) io w by auto
  then show ?thesis using r j(3) by auto
qed

end
