(* ===== verification/Payments.thy ===== *)
theory Payments
  imports Ledger
begin

text \<open>
  Payment channels and intents (\<open>services/billing/payment_service.go\<close> and \<open>payment_repository.go\<close>),
  on top of the ledger's recharge.  Marking an intent paid and crediting the account are two
  transactions.
\<close>

record payment_channel =
  pc_id :: string
  pc_type :: string
  pc_display_name :: string
  pc_enabled :: bool

record payment_intent =
  pi_id :: string
  pi_account :: string
  pi_amount_cents :: int
  pi_channel :: string
  pi_status :: string
  pi_key :: string
  pi_reference :: string

record pay_db =
  channels :: "payment_channel list"
  intents :: "payment_intent list"
  books :: db

datatype payment_error = PaymentChannelInvalid | IntentInvalid | PayAccountNotFound
  | PayLedger billing_error | PayInternal string

definition find_channel :: "string \<Rightarrow> pay_db \<Rightarrow> payment_channel option" where
  "find_channel cid s = find (\<lambda>c. pc_id c = cid) (channels s)"

definition find_intent :: "string \<Rightarrow> pay_db \<Rightarrow> payment_intent option" where
  "find_intent iid s = find (\<lambda>i. pi_id i = iid) (intents s)"

definition create_payment_channel ::
  "string \<Rightarrow> string \<Rightarrow> string \<Rightarrow> pay_db \<Rightarrow> payment_error + (payment_channel \<times> pay_db)" where
  "create_payment_channel cid ty name s =
     (let ch = \<lparr>pc_id = trim_space cid, pc_type = trim_space ty, pc_display_name = trim_space name,
            pc_enabled = True\<rparr>
      in if pc_id ch = [] \<or> pc_type ch = [] \<or> pc_display_name ch = [] then Inl PaymentChannelInvalid
         else if find_channel (pc_id ch) s \<noteq> None then Inl PaymentChannelInvalid
         else Inr (ch, s\<lparr>channels := channels s @ [ch]\<rparr>))"

definition set_channel_enabled ::
  "string \<Rightarrow> bool \<Rightarrow> pay_db \<Rightarrow> payment_error + (payment_channel \<times> pay_db)" where
  "set_channel_enabled cid enabled s =
     (case find_channel cid s of
        None \<Rightarrow> Inl PaymentChannelInvalid
      | Some ch \<Rightarrow> Inr (ch\<lparr>pc_enabled := enabled\<rparr>,
          s\<lparr>channels := update_where (\<lambda>c. pc_id c = cid) (\<lambda>c. c\<lparr>pc_enabled := enabled\<rparr>) (channels s)\<rparr>))"

text \<open>The id and the idempotency key of an intent are unique.\<close>

definition create_payment_intent ::
  "string \<Rightarrow> string \<Rightarrow> int \<Rightarrow> string \<Rightarrow> string \<Rightarrow> string \<Rightarrow> pay_db
   \<Rightarrow> payment_error + (payment_intent \<times> pay_db)" where
  "create_payment_intent iid account_id amount channel0 key0 reference s =
     (let channel = trim_space channel0; key = trim_space key0 in
      if amount \<le> 0 then Inl IntentInvalid
      else if channel = [] then Inl IntentInvalid
      else if key = [] then Inl IntentInvalid
      else case find_by_id account_id (books s) of
        None \<Rightarrow> Inl PayAccountNotFound
      | Some a \<Rightarrow>
          if acct_mode a \<noteq> ''prepaid'' then Inl IntentInvalid
          else
            (let intent = \<lparr>pi_id = iid, pi_account = acct_id a, pi_amount_cents = amount,
                   pi_channel = channel, pi_status = ''pending'', pi_key = key,
                   pi_reference = trim_space reference\<rparr>
             in if \<exists>i\<in>set (intents s). pi_id i = iid \<or> pi_key i = key
                then Inl (PayInternal ''unique violation'')
                else Inr (intent, s\<lparr>intents := intents s @ [intent]\<rparr>)))"

definition mark_intent_paid :: "payment_intent \<Rightarrow> pay_db \<Rightarrow> payment_error + (payment_intent \<times> pay_db)" where
  "mark_intent_paid intent s =
     (if pi_status intent = ''paid'' then Inr (intent, s)
      else case find (\<lambda>i. pi_id i = pi_id intent \<and> pi_status i = ''pending'') (intents s) of
        None \<Rightarrow> Inl IntentInvalid
      | Some current \<Rightarrow> Inr (intent\<lparr>pi_status := ''paid''\<rparr>,
          s\<lparr>intents := update_where (\<lambda>i. pi_id i = pi_id intent) (\<lambda>i. i\<lparr>pi_status := ''paid''\<rparr>) (intents s)\<rparr>))"

definition pay_payment_intent ::
  "string \<Rightarrow> string \<Rightarrow> (nat \<Rightarrow> db \<Rightarrow> db) \<Rightarrow> pay_db \<Rightarrow> (payment_error + payment_intent) \<times> pay_db" where
  "pay_payment_intent tid iid others s =
     (case find_intent iid s of
        None \<Rightarrow> (Inl IntentInvalid, s)
      | Some intent \<Rightarrow>
          if pi_status intent = ''paid'' then (Inr intent, s)
          else case find_by_id (pi_account intent) (books s) of
            None \<Rightarrow> (Inl PayAccountNotFound, s)
          | Some a \<Rightarrow>
              (case mark_intent_paid intent s of
                 Inl e \<Rightarrow> (Inl e, s)
               | Inr (paid, s1) \<Rightarrow>
                   (case recharge tid a (pi_amount_cents intent) (''payment:'' @ pi_id intent)
                           \<lparr>mm_note = ''payment intent '' @ pi_id intent, mm_source = ''payment'', mm_actor = []\<rparr>
                           ''recharge'' others (books s1) of
                      (Inl e, d) \<Rightarrow> (Inl (PayLedger e), s1\<lparr>books := d\<rparr>)
                    | (Inr r, d) \<Rightarrow> (Inr paid, s1\<lparr>books := d\<rparr>))))"

section \<open>Paying\<close>

lemma find_update_intent:
  "find (\<lambda>i. pi_id i = iid) (update_where (\<lambda>i. pi_id i = iid) (\<lambda>i. i\<lparr>pi_status := st\<rparr>) is)
   = map_option (\<lambda>i. i\<lparr>pi_status := st\<rparr>) (find (\<lambda>i. pi_id i = iid) is)"
  by (induction "is") (auto simp: update_where_def)

lemma find_intentD: "find_intent iid s = Some i \<Longrightarrow> i \<in> set (intents s) \<and> pi_id i = iid"
  unfolding find_intent_def by (drule find_SomeD) simp

text \<open>Whatever follows the mark, the intent reads back as paid.\<close>

lemma marked_reads_paid:
  assumes "find_intent iid s = Some i" "mark_intent_paid i s = Inr (p, s1)" "pi_status i \<noteq> ''paid''"
  shows "find_intent iid (s1\<lparr>books := d\<rparr>) = Some (i\<lparr>pi_status := ''paid''\<rparr>)" "books s1 = books s"
    "p = i\<lparr>pi_status := ''paid''\<rparr>"
  using assms find_intentD [OF assms(1)]
  by (auto simp: mark_intent_paid_def find_intent_def find_update_intent split: option.splits)

text \<open>C14. A payment credits once: paying a pending intent marks it paid and appends one recharge of
  its amount to its account; paying it again, whatever else happens to the key, returns the paid intent
  and changes nothing.\<close>
theorem payment_credits_once:
  assumes "find_intent iid s = Some i" "pi_status i = ''pending''"
    "pay_payment_intent tid iid (\<lambda>n d. d) s = (Inr p, s')"
    "find_transaction_by_key (''payment:'' @ iid) (books s) = None"
  shows "\<exists>t. transactions (books s') = transactions (books s) @ [t] \<and> tx_type t = ''recharge''
     \<and> tx_amount_cents t = pi_amount_cents i \<and> tx_account t = pi_account i
     \<and> p = i\<lparr>pi_status := ''paid''\<rparr> \<and> pay_payment_intent tid' iid others s' = (Inr p, s')"
proof -
  have np: "pi_status i \<noteq> ''paid''" using assms(2) by simp
  note id = find_intentD [OF assms(1)]
  obtain a s1 d r where a: "find_by_id (pi_account i) (books s) = Some a"
    and m: "mark_intent_paid i s = Inr (p, s1)" and s': "s' = s1\<lparr>books := d\<rparr>"
    and r: "recharge tid a (pi_amount_cents i) (''payment:'' @ pi_id i)
              \<lparr>mm_note = ''payment intent '' @ pi_id i, mm_source = ''payment'', mm_actor = []\<rparr>
              ''recharge'' (\<lambda>n d. d) (books s1) = (Inr r, d)"
    using assms(1,3) np
    by (auto simp: pay_payment_intent_def split: option.splits sum.splits prod.splits)
  note paid = marked_reads_paid(1) [OF assms(1) m np, of d] marked_reads_paid(2,3) [OF assms(1) m np]
  have loop: "recharge_loop n aid row (\<lambda>n d. d) d0 = (Inr (a, t), d1) \<Longrightarrow>
      transactions d1 = transactions d0 @ [t] \<and> (\<exists>b. t = row\<lparr>tx_balance_after := b\<rparr>)"
    for n aid row a t d1 and d0 :: db
    by (induction n arbitrary: d0)
      (auto simp: Let_def update_account_row_def split: option.splits sum.splits if_splits
        dest!: insert_transactionD)
  have "\<exists>t. transactions d = transactions (books s) @ [t] \<and> tx_type t = ''recharge''
     \<and> tx_amount_cents t = pi_amount_cents i \<and> tx_account t = pi_account i"
    using r assms(4) id find_by_idD [OF a] paid(2)
    by (auto simp: recharge_def split: sum.splits prod.splits dest!: loop)
  moreover have "pay_payment_intent tid' iid others s' = (Inr p, s')"
    using paid s' by (simp add: pay_payment_intent_def)
  ultimately show ?thesis using paid s' by auto
qed

text \<open>A payment can be lost: when the credit fails after the intent was marked paid (its retries
  are used up by concurrent writers), the intent stays paid and every later callback succeeds without
  crediting the account.\<close>
theorem failed_credit_is_never_retried:
  assumes "find_intent iid s = Some i" "pi_status i = ''pending''"
    "pay_payment_intent tid iid others s = (Inl (PayLedger e), s')"
  shows "find_intent iid s' = Some (i\<lparr>pi_status := ''paid''\<rparr>)
    \<and> pay_payment_intent tid' iid others' s' = (Inr (i\<lparr>pi_status := ''paid''\<rparr>), s')"
proof -
  have np: "pi_status i \<noteq> ''paid''" using assms(2) by simp
  obtain p s1 d where m: "mark_intent_paid i s = Inr (p, s1)" "s' = s1\<lparr>books := d\<rparr>"
    using assms(1,3) np
    by (auto simp: pay_payment_intent_def mark_intent_paid_def split: option.splits sum.splits prod.splits)
  from marked_reads_paid(1) [OF assms(1) m(1) np, of d] m(2) show ?thesis
    by (simp add: pay_payment_intent_def)
qed

definition demo_pay :: pay_db where
  "demo_pay = \<lparr>channels = [], intents = [\<lparr>pi_id = ''i'', pi_account = ''a'', pi_amount_cents = 100,
     pi_channel = ''mock'', pi_status = ''pending'', pi_key = ''k'', pi_reference = []\<rparr>], books = demo_open\<rparr>"

text \<open>Another writer that changes the account's quota before every attempt.\<close>

definition busy_writer :: "nat \<Rightarrow> db \<Rightarrow> db" where
  "busy_writer n d = (case find_by_id ''a'' d of None \<Rightarrow> d
     | Some a \<Rightarrow> run_ledger (\<lambda>_. 0) (UpdateAccount a ''prepaid'' 1 ''block'' 0) d)"

lemma demo_pay_facts:
  "find_intent ''i'' demo_pay = Some (hd (intents demo_pay))" "pi_status (hd (intents demo_pay)) = ''pending''"
  "find_transaction_by_key (''payment:'' @ ''i'') (books demo_pay) = None"
  "(case fst (pay_payment_intent ''t'' ''i'' (\<lambda>n d. d) demo_pay) of Inl e \<Rightarrow> False | Inr p \<Rightarrow> True)"
  "(case fst (pay_payment_intent ''t'' ''i'' busy_writer demo_pay) of Inl (PayLedger e) \<Rightarrow> True | _ \<Rightarrow> False)"
  by code_simp+

theorem payment_credits_once_witness:
  "\<exists>p s' t. pay_payment_intent ''t'' ''i'' (\<lambda>n d. d) demo_pay = (Inr p, s')
     \<and> transactions (books s') = transactions (books demo_pay) @ [t] \<and> tx_amount_cents t = 100
     \<and> pay_payment_intent ''t2'' ''i'' (\<lambda>n d. d) s' = (Inr p, s')"
proof -
  obtain p s' where r: "pay_payment_intent ''t'' ''i'' (\<lambda>n d. d) demo_pay = (Inr p, s')"
    using demo_pay_facts(4) by (cases "pay_payment_intent ''t'' ''i'' (\<lambda>n d. d) demo_pay") (auto split: sum.splits)
  from payment_credits_once [OF demo_pay_facts(1,2) r demo_pay_facts(3), of "''t2''" "\<lambda>n d. d"] r
  show ?thesis by (auto simp: demo_pay_def)
qed

theorem failed_credit_is_never_retried_witness:
  "\<exists>e s' p. pay_payment_intent ''t'' ''i'' busy_writer demo_pay = (Inl (PayLedger e), s')
     \<and> pay_payment_intent ''t2'' ''i'' (\<lambda>n d. d) s' = (Inr p, s')"
proof -
  obtain e s' where r: "pay_payment_intent ''t'' ''i'' busy_writer demo_pay = (Inl (PayLedger e), s')"
    using demo_pay_facts(5)
    by (cases "pay_payment_intent ''t'' ''i'' busy_writer demo_pay")
      (auto split: sum.splits payment_error.splits)
  from failed_credit_is_never_retried [OF demo_pay_facts(1,2) r] r show ?thesis by blast
qed

end
