(* ===== verification/Routing.thy ===== *)
theory Routing
  imports Prelude "HOL-Library.Multiset"
begin

text \<open>
  The resolver of routing groups (\<open>services/routing/resolver.go\<close>, with the p50 query of
  \<open>decision_repository.go\<close>): eligibility, intent rules, the four strategies and the attempt list.
  The other modules the resolver asks are its \<open>seams\<close>: the model catalog and its grants, the key
  scope, the latency source (\<open>None\<close> where the seam is not wired or the call fails), the regular
  expression compiler and the random draw \<open>rand.Intn\<close>.  Case folding is that of ASCII text.  Weights
  are at most 100 and candidates at most 20 (\<open>RoutingRegistry\<close>), so the sum of weights is an
  unbounded integer here.
\<close>

section \<open>Data\<close>

record candidate =
  cand_id :: string
  cand_group :: string
  cand_model :: string
  cand_name :: string
  cand_weight :: int
  cand_cost :: int
  cand_latency :: int
  cand_pinned :: bool
  cand_pos :: nat

record rule =
  rule_id :: string
  rule_group :: string
  rule_name :: string
  rule_match :: string
  rule_pattern :: string
  rule_target :: string
  rule_target_name :: string
  rule_enabled :: bool
  rule_pos :: nat

datatype routing_error = GroupNotFound | NameConflict | NameInvalid | NameReserved | StrategyInvalid
  | CandidateInvalid | CandidateExists | RuleInvalid | RuleExists | NoEligibleCandidate
  | GroupDisabled | GroupInUse | Unauthorized | SeamFailed

record catalog_model =
  cm_name :: string
  cm_external :: bool
  cm_published :: bool

record model_catalog =
  get_catalog_model :: "string \<Rightarrow> catalog_model option"
  is_model_authorized :: "string \<Rightarrow> string \<Rightarrow> bool option"
  catalog_name_exists :: "string \<Rightarrow> bool option"

record seams =
  sm_catalog :: "model_catalog option"
  sm_key_scope :: "(string \<Rightarrow> string list option) option"
  sm_latency :: "(string list \<Rightarrow> (string \<rightharpoonup> int) option) option"
  sm_compile :: "string \<Rightarrow> (string \<Rightarrow> bool) option"
  sm_intn :: "int \<Rightarrow> int"

record resolution =
  attempts :: "candidate list"
  skipped :: "(string \<times> string \<times> string) list"
  matched_rule :: "(string \<times> string) option"
  res_strategy :: string

definition max_attempts :: nat where
  "max_attempts = 3"

section \<open>Eligibility and rules\<close>

text \<open>\<open>None\<close> for an eligible candidate, or the skip reason and its detail.\<close>

definition in_key_scope :: "string list \<Rightarrow> bool \<Rightarrow> string \<Rightarrow> bool" where
  "in_key_scope keys scoped m = (scoped \<longrightarrow> m \<in> set keys)"

definition eligibility ::
  "seams \<Rightarrow> candidate \<Rightarrow> string \<Rightarrow> string list \<Rightarrow> bool \<Rightarrow> (string \<times> string) option" where
  "eligibility sm c org keys scoped =
     (let scope = (if in_key_scope keys scoped (cand_model c) then None
                   else Some (''skipped_unauthorized'', ''not in key scope''))
      in case sm_catalog sm of
           None \<Rightarrow> scope
         | Some cat \<Rightarrow>
             (case get_catalog_model cat (cand_model c) of
                None \<Rightarrow> Some (''skipped_unavailable'', ''model unavailable'')
              | Some m \<Rightarrow>
                  if cm_external m \<and> \<not> cm_published m
                  then Some (''skipped_unavailable'', ''model unavailable'')
                  else if org \<noteq> [] \<and> is_model_authorized cat (cand_model c) org = Some False
                  then Some (''skipped_unauthorized'', ''org not granted'')
                  else scope))"

definition rule_matches :: "seams \<Rightarrow> rule \<Rightarrow> string \<Rightarrow> bool" where
  "rule_matches sm r prompt =
     (if rule_match r = ''regex'' then
        (case sm_compile sm (rule_pattern r) of None \<Rightarrow> False | Some match \<Rightarrow> match prompt)
      else contains (to_lower prompt) (to_lower (rule_pattern r)))"

section \<open>Strategies\<close>

definition eff_weight :: "candidate \<Rightarrow> int" where
  "eff_weight c = (if cand_weight c < 1 then 1 else cand_weight c)"

text \<open>The walk of the draw: the first candidate whose weight exhausts the pick.\<close>

fun draw_walk :: "int \<Rightarrow> candidate list \<Rightarrow> candidate option" where
  "draw_walk p [] = None"
| "draw_walk p (c # cs) = (if p - eff_weight c < 0 then Some c else draw_walk (p - eff_weight c) cs)"

definition weighted_draw :: "(int \<Rightarrow> int) \<Rightarrow> candidate list \<Rightarrow> candidate" where
  "weighted_draw intn cs =
     (case draw_walk (intn (sum_list (map eff_weight cs))) cs of Some c \<Rightarrow> c | None \<Rightarrow> last cs)"

text \<open>
  The in-place insertion sorts: the inner loop swaps row \<open>j\<close> down while it is less than its left
  neighbour; \<open>sink\<close> is that loop over the reversed prefix.
\<close>

fun sink :: "('a \<Rightarrow> 'a \<Rightarrow> bool) \<Rightarrow> 'a \<Rightarrow> 'a list \<Rightarrow> 'a list" where
  "sink lt x [] = [x]"
| "sink lt x (y # ys) = (if lt x y then y # sink lt x ys else x # y # ys)"

definition swap_sort :: "('a \<Rightarrow> 'a \<Rightarrow> bool) \<Rightarrow> 'a list \<Rightarrow> 'a list" where
  "swap_sort lt xs = rev (fold (sink lt) xs [])"

definition stable_sort_by_weight_desc :: "candidate list \<Rightarrow> candidate list" where
  "stable_sort_by_weight_desc = swap_sort (\<lambda>a b. cand_weight b < cand_weight a)"

definition stable_sort_by_tier :: "(candidate \<Rightarrow> int) \<Rightarrow> candidate list \<Rightarrow> candidate list" where
  "stable_sort_by_tier tier = swap_sort (\<lambda>a b. tier a < tier b)"

definition tier_or_missing :: "int \<Rightarrow> int" where
  "tier_or_missing t = (if 1 \<le> t \<and> t \<le> 5 then t else 6)"

definition latency_order ::
  "(string list \<Rightarrow> (string \<rightharpoonup> int) option) option \<Rightarrow> candidate list \<Rightarrow> candidate list option" where
  "latency_order source cs =
     (case source of
        None \<Rightarrow> Some (stable_sort_by_tier (\<lambda>c. tier_or_missing (cand_latency c)) cs)
      | Some observed \<Rightarrow>
          (case observed (map cand_model cs) of
             None \<Rightarrow> None
           | Some p50 \<Rightarrow>
               Some (swap_sort (\<lambda>a b. opt_or (p50 (cand_model a)) 0 < opt_or (p50 (cand_model b)) 0)
                       (filter (\<lambda>c. p50 (cand_model c) \<noteq> None) cs)
                     @ stable_sort_by_tier (\<lambda>c. tier_or_missing (cand_latency c))
                         (filter (\<lambda>c. p50 (cand_model c) = None) cs))))"

definition strategy_order :: "seams \<Rightarrow> string \<Rightarrow> candidate list \<Rightarrow> candidate list option" where
  "strategy_order sm strategy cs =
     (if strategy = ''manual'' then
        Some (case find cand_pinned cs of Some c \<Rightarrow> [c] | None \<Rightarrow> take 1 cs)
      else if strategy = ''weighted'' then
        (let drawn = weighted_draw (sm_intn sm) cs
         in Some (drawn # stable_sort_by_weight_desc (filter (\<lambda>c. cand_model c \<noteq> cand_model drawn) cs)))
      else if strategy = ''cost_priority'' then
        Some (stable_sort_by_tier (\<lambda>c. tier_or_missing (cand_cost c)) cs)
      else if strategy = ''latency_priority'' then latency_order (sm_latency sm) cs
      else Some cs)"

section \<open>Resolution\<close>

text \<open>The attempt loop: the rule's target first, then the ordered rest, at most three.\<close>

fun fill_attempts :: "candidate option \<Rightarrow> candidate list \<Rightarrow> candidate list \<Rightarrow> candidate list" where
  "fill_attempts target acc [] = acc"
| "fill_attempts target acc (c # cs) =
     (if max_attempts \<le> length acc then acc
      else if (case target of None \<Rightarrow> False | Some t \<Rightarrow> cand_model c = cand_model t)
      then fill_attempts target acc cs
      else fill_attempts target (acc @ [c]) cs)"

definition assemble :: "string \<Rightarrow> candidate option \<Rightarrow> candidate list \<Rightarrow> candidate list" where
  "assemble strategy target ordered =
     (let all = fill_attempts target (case target of None \<Rightarrow> [] | Some t \<Rightarrow> [t]) ordered
      in if strategy = ''manual'' then take 1 all else all)"

text \<open>The key's scope list and whether it restricts; \<open>None\<close> is the seam's error.\<close>

definition key_scope_of :: "seams \<Rightarrow> string \<Rightarrow> (string list \<times> bool) option" where
  "key_scope_of sm key =
     (case sm_key_scope sm of
        None \<Rightarrow> Some ([], False)
      | Some models \<Rightarrow>
          if key = [] then Some ([], False)
          else map_option (\<lambda>ms. (ms, ms \<noteq> [])) (models key))"

definition resolve ::
  "seams \<Rightarrow> string \<Rightarrow> candidate list \<Rightarrow> rule list \<Rightarrow> string \<Rightarrow> string \<Rightarrow> string \<Rightarrow> bool
   \<Rightarrow> routing_error + resolution" where
  "resolve sm strategy candidates rules prompt org key dry_run =
     (case key_scope_of sm key of
        None \<Rightarrow> Inl SeamFailed
      | Some (keys, scoped) \<Rightarrow>
          (let ok = (\<lambda>c. eligibility sm c org keys scoped = None);
               eligible = filter ok candidates;
               skips = map (\<lambda>c. (cand_model c, cand_name c, fst (the (eligibility sm c org keys scoped))))
                         (filter (\<lambda>c. \<not> ok c) candidates)
           in if eligible = [] then
                (if dry_run then Inr \<lparr>attempts = [], skipped = skips, matched_rule = None, res_strategy = strategy\<rparr>
                 else Inl NoEligibleCandidate)
              else
                (let matched = find (\<lambda>r. rule_matches sm r prompt) (filter rule_enabled rules);
                     target = (case matched of None \<Rightarrow> None
                       | Some r \<Rightarrow> find (\<lambda>c. cand_model c = rule_target r) eligible)
                 in case strategy_order sm strategy eligible of
                      None \<Rightarrow> Inl SeamFailed
                    | Some ordered \<Rightarrow>
                        Inr \<lparr>attempts = assemble strategy target ordered, skipped = skips,
                          matched_rule = map_option (\<lambda>r. (rule_id r, rule_name r)) matched,
                          res_strategy = strategy\<rparr>)))"

section \<open>Observed latency\<close>

definition nearest_rank_p50 :: "int list \<Rightarrow> int" where
  "nearest_rank_p50 xs =
     (if xs = [] then 0
      else (let sorted = sort xs; rank = (length sorted + 1) div 2
            in sorted ! ((if rank < 1 then 1 else rank) - 1)))"

record request_log =
  log_model :: string
  log_status :: string
  log_latency :: int
  log_created :: int

definition observed_p50 :: "request_log list \<Rightarrow> int \<Rightarrow> string list \<Rightarrow> string \<rightharpoonup> int" where
  "observed_p50 logs since ids m =
     (let ls = map log_latency (filter (\<lambda>l. log_model l = m \<and> log_model l \<in> set ids
                 \<and> log_status l = ''success'' \<and> since < log_created l) logs)
      in if ls = [] then None else Some (nearest_rank_p50 ls))"

section \<open>The sorts are stable sorts\<close>

lemma mset_sink [simp]: "mset (sink lt x ys) = add_mset x (mset ys)"
  by (induction ys) auto

lemma set_sink [simp]: "set (sink lt x ys) = insert x (set ys)"
  by (induction ys) auto

lemma sorted_sink:
  "sorted_wrt (\<lambda>a b. f b \<le> f a) ys \<Longrightarrow> sorted_wrt (\<lambda>a b. f b \<le> f a) (sink (\<lambda>a b. f a < (f b :: 'k :: linorder)) x ys)"
  by (induction ys) auto

lemma filter_sink:
  "filter (\<lambda>y. k = f y) (sink (\<lambda>a b. f a < (f b :: 'k :: linorder)) x ys)
     = (if k = f x then x # filter (\<lambda>y. k = f y) ys else filter (\<lambda>y. k = f y) ys)"
  by (induction ys) auto

lemma mset_fold_sink: "mset (fold (sink lt) xs acc) = mset xs + mset acc"
  by (induction xs arbitrary: acc) auto

lemma sorted_fold_sink:
  "sorted_wrt (\<lambda>a b. f b \<le> f a) acc
   \<Longrightarrow> sorted_wrt (\<lambda>a b. f b \<le> f a) (fold (sink (\<lambda>a b. f a < (f b :: 'k :: linorder))) xs acc)"
  by (induction xs arbitrary: acc) (auto simp: sorted_sink)

lemma filter_fold_sink:
  "filter (\<lambda>y. k = f y) (fold (sink (\<lambda>a b. f a < (f b :: 'k :: linorder))) xs acc)
     = rev (filter (\<lambda>y. k = f y) xs) @ filter (\<lambda>y. k = f y) acc"
  by (induction xs arbitrary: acc) (auto simp: filter_sink)

lemma mset_swap_sort [simp]: "mset (swap_sort lt xs) = mset xs"
  by (simp add: swap_sort_def mset_fold_sink)

lemma set_swap_sort [simp]: "set (swap_sort lt xs) = set xs"
  by (metis mset_swap_sort set_mset_mset)

lemma length_swap_sort [simp]: "length (swap_sort lt xs) = length xs"
  by (metis mset_swap_sort size_mset)

lemma swap_sort_key: "swap_sort (\<lambda>a b. f a < (f b :: 'k :: linorder)) xs = sort_key f xs"
proof (rule sym, rule properties_for_sort_key)
  show "mset (swap_sort (\<lambda>a b. f a < f b) xs) = mset xs" by simp
  show "filter (\<lambda>y. f x = f y) (swap_sort (\<lambda>a b. f a < f b) xs) = filter (\<lambda>y. f x = f y) xs"
    if "x \<in> set (swap_sort (\<lambda>a b. f a < f b) xs)" for x
    using filter_fold_sink [of "f x" f xs "[]"] by (simp add: swap_sort_def rev_filter [symmetric])
  have "sorted_wrt (\<lambda>a b. f a \<le> f b) (swap_sort (\<lambda>a b. f a < f b) xs)"
    using sorted_fold_sink [of f "[]" xs] by (simp add: swap_sort_def sorted_wrt_rev)
  then show "sorted (map f (swap_sort (\<lambda>a b. f a < f b) xs))"
    by (simp add: sorted_map)
qed

lemmas tier_sort_key = stable_sort_by_tier_def swap_sort_key

lemma weight_sort_key: "stable_sort_by_weight_desc cs = sort_key (\<lambda>c. - cand_weight c) cs"
  using swap_sort_key [of "\<lambda>c. - cand_weight c" cs] by (simp add: stable_sort_by_weight_desc_def)

section \<open>The draw\<close>

lemma eff_weight_pos [simp]: "0 < eff_weight c"
  by (simp add: eff_weight_def)

lemma sum_weights_nonneg [simp]: "0 \<le> sum_list (map eff_weight cs)"
  by (induction cs) (auto simp: eff_weight_def)

lemma draw_walk_member: "draw_walk p cs = Some c \<Longrightarrow> c \<in> set cs"
  by (induction cs arbitrary: p) (auto split: if_splits)

lemma draw_walk_total: "0 \<le> p \<Longrightarrow> p < sum_list (map eff_weight cs) \<Longrightarrow> \<exists>c. draw_walk p cs = Some c"
  by (induction cs arbitrary: p) auto

lemma weighted_draw_member: "cs \<noteq> [] \<Longrightarrow> weighted_draw intn cs \<in> set cs"
  by (auto simp: weighted_draw_def split: option.split dest: draw_walk_member)

lemma shift_image: "{p. p - w \<in> R} = (\<lambda>p. p + w) ` R" for w :: int
  by (auto intro!: image_eqI [where x = "x - w" for x])

lemma draws_of:
  assumes "distinct cs" "c \<in> set cs"
  shows "card {p. 0 \<le> p \<and> p < sum_list (map eff_weight cs) \<and> draw_walk p cs = Some c} = nat (eff_weight c)"
  using assms
proof (induction cs)
  case (Cons d cs)
  let ?w = "eff_weight d" and ?W = "sum_list (map eff_weight cs)"
  show ?case
  proof (cases "c = d")
    case True
    then have none: "draw_walk p cs \<noteq> Some c" for p using Cons.prems draw_walk_member by fastforce
    have "{p. 0 \<le> p \<and> p < sum_list (map eff_weight (d # cs)) \<and> draw_walk p (d # cs) = Some c} = {0..<?w}"
      using True none sum_weights_nonneg [of cs] by (auto split: if_splits intro: order.strict_trans2)
    then show ?thesis using True by simp
  next
    case False
    then have "{p. 0 \<le> p \<and> p < sum_list (map eff_weight (d # cs)) \<and> draw_walk p (d # cs) = Some c}
       = (\<lambda>p. p + ?w) ` {p. 0 \<le> p \<and> p < ?W \<and> draw_walk p cs = Some c}" (is "?L = _ ` ?R")
    proof -
      have "p \<in> ?L \<longleftrightarrow> p - ?w \<in> ?R" for p
        using False eff_weight_pos [of d] by (cases "p < ?w") (auto simp del: eff_weight_pos)
      then have "?L = {p. p - ?w \<in> ?R}" by blast
      then show ?thesis by (simp only: shift_image)
    qed
    moreover have "inj_on (\<lambda>p. p + ?w) ?R" by (simp add: inj_on_def)
    ultimately show ?thesis using Cons False by (simp add: card_image)
  qed
qed simp

section \<open>The strategy interface\<close>

text \<open>
  What assembling relies on: a strategy orders some of the candidates it is given, none twice, and at
  least one when there is one.
\<close>

definition model_distinct :: "candidate list \<Rightarrow> bool" where
  "model_distinct cs = distinct (map cand_model cs)"

locale candidate_order =
  fixes order_of :: "candidate list \<Rightarrow> candidate list option"
  assumes order_members: "order_of cs = Some ys \<Longrightarrow> cs \<noteq> [] \<Longrightarrow> set ys \<subseteq> set cs"
    and order_nonempty: "order_of cs = Some ys \<Longrightarrow> cs \<noteq> [] \<Longrightarrow> ys \<noteq> []"
    and order_distinct: "order_of cs = Some ys \<Longrightarrow> cs \<noteq> [] \<Longrightarrow> model_distinct cs \<Longrightarrow> model_distinct ys"

definition drop_target :: "candidate option \<Rightarrow> candidate list \<Rightarrow> candidate list" where
  "drop_target target cs =
     (case target of None \<Rightarrow> cs | Some t \<Rightarrow> filter (\<lambda>c. cand_model c \<noteq> cand_model t) cs)"

lemma fill_attempts_take:
  "fill_attempts target acc cs = acc @ take (max_attempts - length acc) (drop_target target cs)"
proof (induction cs arbitrary: acc)
  case (Cons c cs)
  then show ?case
    by (cases target) (auto simp: drop_target_def Suc_diff_le diff_Suc take_Cons' split: nat.split)
qed (auto simp: drop_target_def split: option.split)

lemma assemble_take:
  "assemble strategy target ordered =
     take (if strategy = ''manual'' then 1 else max_attempts)
       ((case target of None \<Rightarrow> [] | Some t \<Rightarrow> [t]) @ drop_target target ordered)"
  by (auto simp: assemble_def fill_attempts_take max_attempts_def take_Cons' split: option.split)

context candidate_order
begin

lemma assembled:
  assumes ordered: "order_of cs = Some ys" and ne: "cs \<noteq> []" and dist: "model_distinct cs"
    and target: "\<forall>t. target = Some t \<longrightarrow> t \<in> set cs"
  shows "assemble strategy target ys \<noteq> []" "set (assemble strategy target ys) \<subseteq> set cs"
    "model_distinct (assemble strategy target ys)" "length (assemble strategy target ys) \<le> max_attempts"
proof -
  let ?all = "(case target of None \<Rightarrow> [] | Some t \<Rightarrow> [t]) @ drop_target target ys"
  have ys: "ys \<noteq> []" "set ys \<subseteq> set cs" "model_distinct ys"
    using order_nonempty order_members order_distinct ordered ne dist by blast+
  have all: "?all \<noteq> []" "set ?all \<subseteq> set cs" "model_distinct ?all"
    using ys target by (auto simp: drop_target_def model_distinct_def distinct_map inj_on_def split: option.split)
  show "assemble strategy target ys \<noteq> []" using all(1) by (simp add: assemble_take max_attempts_def)
  show "set (assemble strategy target ys) \<subseteq> set cs"
    unfolding assemble_take using all(2) set_take_subset by fast
  show "model_distinct (assemble strategy target ys)"
    using all(3) unfolding assemble_take model_distinct_def take_map [symmetric] by (rule distinct_take)
  show "length (assemble strategy target ys) \<le> max_attempts"
    unfolding assemble_take length_take max_attempts_def by (auto intro: min.coboundedI2)
qed

end

lemma swap_sort_Nil [simp]: "swap_sort lt [] = []"
  by (simp add: swap_sort_def)

lemma distinct_models_sort [simp]:
  "distinct (map cand_model (swap_sort lt cs)) = distinct (map cand_model cs)"
  by (metis mset_map mset_swap_sort mset_eq_imp_distinct_iff)

lemma model_distinct_sort [simp]: "model_distinct (swap_sort lt cs) = model_distinct cs"
  by (simp add: model_distinct_def)

lemma model_distinct_filter: "model_distinct cs \<Longrightarrow> model_distinct (filter P cs)"
  by (simp add: model_distinct_def distinct_map_filter)

lemma model_distinct_split:
  "model_distinct cs \<Longrightarrow> model_distinct (filter P cs @ filter (\<lambda>c. \<not> P c) cs)"
  by (auto simp: model_distinct_def distinct_map_filter distinct_map inj_on_def)

lemma set_tier_sort [simp]: "set (stable_sort_by_tier f cs) = set cs"
  by (simp add: stable_sort_by_tier_def)

lemma model_distinct_tier [simp]: "model_distinct (stable_sort_by_tier f cs) = model_distinct cs"
  by (simp add: stable_sort_by_tier_def)

lemma tier_sort_empty [simp]: "stable_sort_by_tier f cs = [] \<longleftrightarrow> cs = []"
  by (metis length_0_conv length_swap_sort stable_sort_by_tier_def)

lemma model_distinct_append:
  "model_distinct (xs @ ys) \<longleftrightarrow> model_distinct xs \<and> model_distinct ys
     \<and> cand_model ` set xs \<inter> cand_model ` set ys = {}"
  by (simp add: model_distinct_def)

lemma latency_order_mset:
  assumes "latency_order src cs = Some ys"
  shows "mset ys = mset cs"
proof -
  have "mset (filter (\<lambda>c. p50 (cand_model c) \<noteq> None) cs) + mset (filter (\<lambda>c. p50 (cand_model c) = None) cs) = mset cs"
    for p50 :: "string \<Rightarrow> int option"
    using multiset_partition [of "mset cs" "\<lambda>c. p50 (cand_model c) \<noteq> None"] by simp
  with assms show ?thesis
    by (auto simp: latency_order_def stable_sort_by_tier_def split: option.splits)
qed

lemma mset_model_distinct: "mset ys = mset cs \<Longrightarrow> model_distinct ys = model_distinct cs"
  unfolding model_distinct_def by (metis mset_map mset_eq_imp_distinct_iff)

lemma mset_nonempty: "mset ys = mset cs \<Longrightarrow> cs \<noteq> [] \<Longrightarrow> ys \<noteq> []"
  by auto

lemma strategy_order_cases:
  assumes "strategy_order sm strategy cs = Some ys"
  obtains (one) c where "strategy = ''manual''" "ys = [c]" "c \<in> set cs"
    | (none) "strategy = ''manual''" "cs = []"
    | (draw) "strategy = ''weighted''"
        "ys = weighted_draw (sm_intn sm) cs # stable_sort_by_weight_desc
           (filter (\<lambda>c. cand_model c \<noteq> cand_model (weighted_draw (sm_intn sm) cs)) cs)"
    | (perm) "mset ys = mset cs" "strategy \<noteq> ''manual''" "strategy \<noteq> ''weighted''"
  using assms
  by (cases cs)
     (auto simp: strategy_order_def Let_def stable_sort_by_tier_def simp del: find.simps
        dest: find_SomeD latency_order_mset split: if_splits option.splits)

interpretation strategy: candidate_order "strategy_order sm strategy" for sm strategy
proof unfold_locales
  fix cs ys assume ord: "strategy_order sm strategy cs = Some ys" and ne: "cs \<noteq> []"
  show "set ys \<subseteq> set cs" using ord
    by (cases rule: strategy_order_cases)
       (auto simp: stable_sort_by_weight_desc_def weighted_draw_member ne dest: mset_eq_setD)
  show "ys \<noteq> []" using ord by (cases rule: strategy_order_cases) (auto simp: ne)
  show "model_distinct ys" if "model_distinct cs" using ord
  proof (cases rule: strategy_order_cases)
    case draw
    then show ?thesis using that
      by (auto simp: stable_sort_by_weight_desc_def model_distinct_def distinct_map_filter)
  next
    case perm
    then show ?thesis using that mset_model_distinct by blast
  qed (auto simp: ne model_distinct_def)
qed

section \<open>What a resolution gives\<close>

definition is_eligible :: "seams \<Rightarrow> string \<Rightarrow> string \<Rightarrow> candidate \<Rightarrow> bool" where
  "is_eligible sm org key c =
     (case key_scope_of sm key of
        None \<Rightarrow> False
      | Some (keys, scoped) \<Rightarrow> eligibility sm c org keys scoped = None)"

text \<open>
  What it takes for a model to be attempted, stated without the resolver: where there is a catalog, the model is in
  it, published if it is external, and not refused to the organization; where keys have scopes, the key's scope is
  known and unrestricted or names the model.
\<close>

definition may_attempt :: "seams \<Rightarrow> string \<Rightarrow> string \<Rightarrow> string \<Rightarrow> bool" where
  "may_attempt sm org key m =
     ((\<forall>cat. sm_catalog sm = Some cat \<longrightarrow>
         (\<exists>x. get_catalog_model cat m = Some x \<and> (cm_external x \<longrightarrow> cm_published x))
         \<and> (org \<noteq> [] \<longrightarrow> is_model_authorized cat m org \<noteq> Some False))
      \<and> (\<forall>models. sm_key_scope sm = Some models \<and> key \<noteq> [] \<longrightarrow>
         (\<exists>ms. models key = Some ms \<and> (ms = [] \<or> m \<in> set ms))))"

lemma eligible_may_attempt: "is_eligible sm org key c = may_attempt sm org key (cand_model c)"
  by (cases "sm_catalog sm"; cases "sm_key_scope sm")
    (auto simp: is_eligible_def may_attempt_def key_scope_of_def eligibility_def in_key_scope_def Let_def
      split: option.splits if_splits)

definition rule_target_of :: "seams \<Rightarrow> rule list \<Rightarrow> string \<Rightarrow> candidate list \<Rightarrow> candidate option" where
  "rule_target_of sm rules prompt eligible =
     (case find (\<lambda>r. rule_matches sm r prompt) (filter rule_enabled rules) of
        None \<Rightarrow> None
      | Some r \<Rightarrow> find (\<lambda>c. cand_model c = rule_target r) eligible)"

lemma rule_target_member: "rule_target_of sm rules prompt eligible = Some t \<Longrightarrow> t \<in> set eligible"
  by (auto simp: rule_target_of_def dest: find_SomeD split: option.splits)

lemma resolve_eligible:
  assumes "key_scope_of sm key = Some (keys, scoped)"
  shows "is_eligible sm org key c = (eligibility sm c org keys scoped = None)"
  using assms by (simp add: is_eligible_def)

lemma resolve_unfold:
  "resolve sm strategy cands rules prompt org key False =
     (if key_scope_of sm key = None then Inl SeamFailed
      else if filter (is_eligible sm org key) cands = [] then Inl NoEligibleCandidate
      else (case strategy_order sm strategy (filter (is_eligible sm org key) cands) of
              None \<Rightarrow> Inl SeamFailed
            | Some ordered \<Rightarrow>
                Inr \<lparr>attempts = assemble strategy
                       (rule_target_of sm rules prompt (filter (is_eligible sm org key) cands)) ordered,
                  skipped = map (\<lambda>c. (cand_model c, cand_name c,
                      fst (the (eligibility sm c org (fst (the (key_scope_of sm key)))
                                  (snd (the (key_scope_of sm key)))))))
                    (filter (\<lambda>c. \<not> is_eligible sm org key c) cands),
                  matched_rule = map_option (\<lambda>r. (rule_id r, rule_name r))
                    (find (\<lambda>r. rule_matches sm r prompt) (filter rule_enabled rules)),
                  res_strategy = strategy\<rparr>))"
proof (cases "key_scope_of sm key")
  case (Some ks)
  then have "is_eligible sm org key = (\<lambda>c. eligibility sm c org (fst ks) (snd ks) = None)"
    using resolve_eligible [of sm key "fst ks" "snd ks"] by (simp add: fun_eq_iff)
  with Some show ?thesis
    by (cases ks) (simp add: resolve_def Let_def rule_target_of_def cong: option.case_cong)
qed (simp add: resolve_def)

lemma resolve_Inr:
  assumes "resolve sm strategy cands rules prompt org key False = Inr res"
  obtains ordered where
    "filter (is_eligible sm org key) cands \<noteq> []"
    "strategy_order sm strategy (filter (is_eligible sm org key) cands) = Some ordered"
    "attempts res = assemble strategy
       (rule_target_of sm rules prompt (filter (is_eligible sm org key) cands)) ordered"
    "map fst (skipped res) = map cand_model (filter (\<lambda>c. \<not> is_eligible sm org key c) cands)"
  using assms
  by (auto simp: resolve_unfold comp_def simp del: filter_empty_conv not_None_eq split: if_splits option.splits)

lemma strategy_resolved:
  assumes "resolve sm strategy cands rules prompt org key False = Inr res" "model_distinct cands"
  shows "attempts res \<noteq> [] \<and> length (attempts res) \<le> 3 \<and> model_distinct (attempts res)
     \<and> (\<forall>c\<in>set (attempts res). c \<in> set cands \<and> is_eligible sm org key c)
     \<and> map fst (skipped res) = map cand_model (filter (\<lambda>c. \<not> is_eligible sm org key c) cands)"
proof -
  let ?el = "filter (is_eligible sm org key) cands"
  obtain ordered where ne: "?el \<noteq> []" and ord: "strategy_order sm strategy ?el = Some ordered"
    and att: "attempts res = assemble strategy (rule_target_of sm rules prompt ?el) ordered"
    and skips: "map fst (skipped res) = map cand_model (filter (\<lambda>c. \<not> is_eligible sm org key c) cands)"
    by (rule resolve_Inr [OF assms(1)])
  note a = strategy.assembled [OF ord ne model_distinct_filter [OF assms(2)], of "rule_target_of sm rules prompt ?el" strategy]
  from a rule_target_member show ?thesis unfolding att skips max_attempts_def by fastforce
qed

definition demo_candidate :: "string \<Rightarrow> int \<Rightarrow> int \<Rightarrow> bool \<Rightarrow> candidate" where
  "demo_candidate m w cost pin =
     \<lparr>cand_id = m, cand_group = ''g'', cand_model = m, cand_name = m, cand_weight = w,
      cand_cost = cost, cand_latency = 0, cand_pinned = pin, cand_pos = 0\<rparr>"

definition demo_candidates :: "candidate list" where
  "demo_candidates =
     [demo_candidate ''a'' 10 0 False, demo_candidate ''b'' 70 3 False, demo_candidate ''c'' 20 1 False,
      demo_candidate ''d'' 5 1 False, demo_candidate ''x'' 5 1 False]"

definition demo_rule :: rule where
  "demo_rule = \<lparr>rule_id = ''r'', rule_group = ''g'', rule_name = ''code'', rule_match = ''keyword'',
     rule_pattern = ''Code'', rule_target = ''b'', rule_target_name = ''b'', rule_enabled = True, rule_pos = 0\<rparr>"

text \<open>\<open>x\<close> is an unpublished external model; the organization is granted everything.\<close>

definition demo_seams :: seams where
  "demo_seams =
     \<lparr>sm_catalog = Some \<lparr>get_catalog_model = (\<lambda>m. Some \<lparr>cm_name = m, cm_external = m = ''x'', cm_published = False\<rparr>),
        is_model_authorized = (\<lambda>m org. Some True),
        catalog_name_exists = (\<lambda>m. Some False)\<rparr>,
      sm_key_scope = None, sm_latency = None, sm_compile = (\<lambda>p. None), sm_intn = (\<lambda>n. n div 2)\<rparr>"

lemma model_distinct_demo: "model_distinct demo_candidates"
  by (simp add: model_distinct_def demo_candidates_def demo_candidate_def)

definition demo_resolution :: resolution where
  "demo_resolution = \<lparr>attempts = [demo_candidate ''b'' 70 3 False, demo_candidate ''c'' 20 1 False,
       demo_candidate ''d'' 5 1 False], skipped = [(''x'', ''x'', ''skipped_unavailable'')],
     matched_rule = Some (''r'', ''code''), res_strategy = ''cost_priority''\<rparr>"

lemma demo_resolves:
  "resolve demo_seams ''cost_priority'' demo_candidates [demo_rule] ''my code'' ''org'' ''key'' False
     = Inr demo_resolution"
  by code_simp

text \<open>The attempts follow the strategy: under \<open>cost_priority\<close> they are the first three of the
  eligible candidates sorted by declared cost tier, ties in declared order, with the target of the
  first matching rule moved to the front when it is eligible.\<close>

theorem cost_attempts_sorted:
  assumes "resolve sm ''cost_priority'' cands rules prompt org key False = Inr res"
  shows "attempts res =
     (let eligible = sort_key (\<lambda>c. tier_or_missing (cand_cost c)) (filter (is_eligible sm org key) cands)
      in case rule_target_of sm rules prompt (filter (is_eligible sm org key) cands) of
           None \<Rightarrow> take 3 eligible
         | Some t \<Rightarrow> t # take 2 (filter (\<lambda>c. cand_model c \<noteq> cand_model t) eligible))"
proof -
  let ?el = "filter (is_eligible sm org key) cands"
  obtain ordered where ord: "strategy_order sm ''cost_priority'' ?el = Some ordered"
    and att: "attempts res = assemble ''cost_priority'' (rule_target_of sm rules prompt ?el) ordered"
    by (rule resolve_Inr [OF assms])
  from ord have "ordered = sort_key (\<lambda>c. tier_or_missing (cand_cost c)) ?el"
    by (simp add: strategy_order_def tier_sort_key)
  then show ?thesis
    by (simp add: att assemble_take drop_target_def max_attempts_def Let_def split: option.split)
qed

theorem cost_attempts_sorted_witness:
  "attempts demo_resolution = [demo_candidate ''b'' 70 3 False, demo_candidate ''c'' 20 1 False,
     demo_candidate ''d'' 5 1 False]"
proof -
  have "sort_key (\<lambda>c. tier_or_missing (cand_cost c)) (filter (is_eligible demo_seams ''org'' ''key'') demo_candidates)
     = [demo_candidate ''c'' 20 1 False, demo_candidate ''d'' 5 1 False, demo_candidate ''b'' 70 3 False,
        demo_candidate ''a'' 10 0 False]"
    by code_simp
  moreover have "rule_target_of demo_seams [demo_rule] ''my code''
      (filter (is_eligible demo_seams ''org'' ''key'') demo_candidates) = Some (demo_candidate ''b'' 70 3 False)"
    by code_simp
  ultimately show ?thesis using cost_attempts_sorted [OF demo_resolves]
    by (simp add: demo_candidate_def Let_def)
qed

text \<open>The weighted draw is proportional: of the numbers \<open>rand.Intn\<close> can return, exactly as many
  draw a candidate as its weight (at least 1), whatever the order of the candidates.\<close>

theorem weighted_draw_proportional:
  assumes "distinct cs" "c \<in> set cs"
  shows "card {p \<in> {0..<sum_list (map eff_weight cs)}. weighted_draw (\<lambda>n. p) cs = c} = nat (eff_weight c)"
proof -
  have "{p \<in> {0..<sum_list (map eff_weight cs)}. weighted_draw (\<lambda>n. p) cs = c}
     = {p. 0 \<le> p \<and> p < sum_list (map eff_weight cs) \<and> draw_walk p cs = Some c}"
    using draw_walk_total by (fastforce simp: weighted_draw_def split: option.splits)
  then show ?thesis using draws_of [OF assms] by simp
qed

theorem weighted_draw_proportional_witness:
  "card {p \<in> {0..<110}. weighted_draw (\<lambda>n. p) demo_candidates = demo_candidate ''b'' 70 3 False} = 70"
  using weighted_draw_proportional [of demo_candidates "demo_candidate ''b'' 70 3 False"]
  by (simp add: demo_candidates_def demo_candidate_def eff_weight_def)

text \<open>Resolution fails closed and only then: with working seams a request is refused exactly when
  no candidate is eligible; a wired latency source that fails is the only other refusal.\<close>

theorem resolve_fails_closed:
  assumes "key_scope_of sm key \<noteq> None" "\<forall>src ids. sm_latency sm = Some src \<longrightarrow> src ids \<noteq> None"
  shows "if \<exists>c\<in>set cands. is_eligible sm org key c
     then \<exists>res. resolve sm strategy cands rules prompt org key False = Inr res
     else resolve sm strategy cands rules prompt org key False = Inl NoEligibleCandidate"
proof -
  have "latency_order (sm_latency sm) cs \<noteq> None" for cs
  proof (cases "sm_latency sm")
    case (Some src)
    with assms(2) have "src (map cand_model cs) \<noteq> None" by blast
    with Some show ?thesis by (auto simp: latency_order_def)
  qed (simp add: latency_order_def)
  then have "strategy_order sm strategy (filter (is_eligible sm org key) cands) \<noteq> None"
    by (simp add: strategy_order_def Let_def)
  then show ?thesis
    using assms(1) by (auto simp: resolve_unfold filter_empty_conv)
qed

theorem resolve_fails_closed_witness:
  "resolve demo_seams ''weighted'' [demo_candidate ''x'' 5 1 False] [] ''hi'' ''org'' ''key'' False
     = Inl NoEligibleCandidate"
proof -
  have "\<not> is_eligible demo_seams ''org'' ''key'' (demo_candidate ''x'' 5 1 False)" by code_simp
  moreover have "key_scope_of demo_seams ''key'' \<noteq> None"
    "\<forall>src ids. sm_latency demo_seams = Some src \<longrightarrow> src ids \<noteq> None"
    by (simp_all add: demo_seams_def key_scope_of_def)
  ultimately show ?thesis
    using resolve_fails_closed [of demo_seams "''key''" "[demo_candidate ''x'' 5 1 False]" "''org''" "''weighted''" "[]" "''hi''"]
    by simp
qed

text \<open>
  A manual group does not keep to its pin: when the pinned candidate is filtered out and another one
  is eligible, the request is served by a model nobody pinned instead of being refused.
\<close>

lemma manual_pin_substituted:
  "resolve demo_seams ''manual'' [demo_candidate ''x'' 5 1 True, demo_candidate ''a'' 10 0 False] []
      ''hi'' ''org'' ''key'' False
     = Inr \<lparr>attempts = [demo_candidate ''a'' 10 0 False],
         skipped = [(''x'', ''x'', ''skipped_unavailable'')], matched_rule = None, res_strategy = ''manual''\<rparr>"
  by code_simp

text \<open>Without a latency source the latency strategy is the declared tier order; the service wires none.\<close>

lemma latency_without_source:
  "sm_latency sm = None \<Longrightarrow> strategy_order sm ''latency_priority'' cs
     = Some (sort_key (\<lambda>c. tier_or_missing (cand_latency c)) cs)"
  by (simp add: strategy_order_def latency_order_def tier_sort_key)

section \<open>The median\<close>

lemma p50_rank:
  assumes "xs \<noteq> []"
  shows "(length xs + 1) div 2 - 1 < length xs" "nearest_rank_p50 xs = sort xs ! ((length xs + 1) div 2 - 1)"
proof -
  have "0 < length xs" using assms by simp
  then show "(length xs + 1) div 2 - 1 < length xs" by linarith
  show "nearest_rank_p50 xs = sort xs ! ((length xs + 1) div 2 - 1)"
    using assms by (simp add: nearest_rank_p50_def Let_def)
qed

lemma p50_in: "xs \<noteq> [] \<Longrightarrow> nearest_rank_p50 xs \<in> set xs"
  using p50_rank [of xs] nth_mem [of "(length xs + 1) div 2 - 1" "sort xs"] by simp

text \<open>The observed latency is a median: it is one of the samples, at least half of them are not
  above it and at least half are not below it.\<close>

theorem p50_is_median:
  assumes "xs \<noteq> []"
  shows "nearest_rank_p50 xs \<in> set xs
     \<and> length xs \<le> 2 * length (filter (\<lambda>x. x \<le> nearest_rank_p50 xs) xs)
     \<and> length xs \<le> 2 * length (filter (\<lambda>x. nearest_rank_p50 xs \<le> x) xs)"
proof -
  let ?s = "sort xs" and ?i = "(length xs + 1) div 2 - 1"
  have pos: "0 < length xs" using assms by simp
  then have i: "?i < length ?s" "nearest_rank_p50 xs = ?s ! ?i"
    using p50_rank [OF assms] by simp_all
  have len: "length (filter P xs) = length (filter P ?s)" for P
    by (metis mset_filter mset_sort size_mset)
  have "length (filter (\<lambda>x. x \<le> ?s ! ?i) (take (Suc ?i) ?s)) = Suc ?i"
    using i(1) by (subst filter_True) (auto simp: in_set_conv_nth sorted_nth_mono)
  then have low: "Suc ?i \<le> length (filter (\<lambda>x. x \<le> ?s ! ?i) ?s)"
    by (metis append_take_drop_id filter_append le_add1 length_append)
  have "length (filter (\<lambda>x. ?s ! ?i \<le> x) (drop ?i ?s)) = length xs - ?i"
    by (subst filter_True) (auto simp: in_set_conv_nth intro!: sorted_nth_mono)
  then have high: "length xs - ?i \<le> length (filter (\<lambda>x. ?s ! ?i \<le> x) ?s)"
    by (metis append_take_drop_id filter_append le_add2 length_append)
  from low high pos show ?thesis using p50_in [OF assms] unfolding len i(2) by linarith
qed

theorem p50_is_median_witness:
  "nearest_rank_p50 [30, 10, 20, 40] \<in> {30, 10, 20, 40} \<and> nearest_rank_p50 [30, 10, 20, 40] = 20"
proof
  show "nearest_rank_p50 [30, 10, 20, 40] \<in> {30, 10, 20, 40}"
    using p50_is_median [of "[30, 10, 20, 40]"] by simp
  show "nearest_rank_p50 [30, 10, 20, 40] = 20" by code_simp
qed

end
