(* ===== verification/RoutingRegistry.thy ===== *)
theory RoutingRegistry
  imports Routing "HOL-Library.List_Lexorder" "HOL-Library.Char_ord"
begin

text \<open>
  The registry of routing groups (\<open>services/routing/service.go\<close>, \<open>routing_repository.go\<close>): groups,
  their ordered candidates and intent rules, the grants and the decision log, as the tables hold
  them; the handlers that change them, with their validation in the order of the code; and the
  internal \<open>ResolveRoutingGroup\<close>.  Ids the code generates are arguments.  Reads that only page and
  project rows are left out.
\<close>

section \<open>Tables\<close>

record group_row =
  grp_id :: string
  grp_name :: string
  grp_description :: string
  grp_strategy :: string
  grp_enabled :: bool
  grp_created_by :: string
  grp_updated_by :: string

record grant_row =
  gg_group :: string
  gg_org :: string
  gg_by :: string

record decision_row =
  dec_request :: string
  dec_group :: string
  dec_group_name :: string
  dec_strategy :: string
  dec_rule :: "(string \<times> string) option"
  dec_selected :: "string \<times> string"
  dec_candidates :: "(string \<times> string \<times> string) list"
  dec_key :: string
  dec_org :: string

record registry =
  groups :: "group_row list"
  candidates :: "candidate list"
  rules :: "rule list"
  grants :: "grant_row list"
  decisions :: "decision_row list"

definition empty_registry :: registry where
  "empty_registry = \<lparr>groups = [], candidates = [], rules = [], grants = [], decisions = []\<rparr>"

text \<open>The session: the role guard and the resolvers that may not be wired.\<close>

record caller =
  cl_guard :: "(string \<Rightarrow> string \<Rightarrow> bool) option"
  cl_user :: "string option option"
  cl_org :: "string option option"

definition require_admin_role :: "caller \<Rightarrow> bool" where
  "require_admin_role c =
     (case cl_guard c of
        None \<Rightarrow> False
      | Some guard \<Rightarrow>
          (case cl_user c of
             Some (Some user) \<Rightarrow> user \<noteq> []
               \<and> guard (case cl_org c of Some (Some org) \<Rightarrow> org | _ \<Rightarrow> []) user
           | _ \<Rightarrow> False))"

definition actor :: "caller \<Rightarrow> string" where
  "actor c = (case cl_user c of Some (Some user) \<Rightarrow> if user = [] then ''system'' else user | _ \<Rightarrow> ''system'')"

section \<open>Repository\<close>

definition get_group :: "string \<Rightarrow> registry \<Rightarrow> group_row option" where
  "get_group gid s = find (\<lambda>g. grp_id g = gid) (groups s)"

definition find_group_by_name :: "string \<Rightarrow> registry \<Rightarrow> group_row option" where
  "find_group_by_name nm s = find (\<lambda>g. grp_name g = nm) (groups s)"

definition insert_group :: "group_row \<Rightarrow> registry \<Rightarrow> routing_error + registry" where
  "insert_group g s =
     (if \<exists>h\<in>set (groups s). grp_id h = grp_id g \<or> grp_name h = grp_name g then Inl NameConflict
      else Inr (s\<lparr>groups := groups s @ [g]\<rparr>))"

definition update_group_row :: "group_row \<Rightarrow> registry \<Rightarrow> routing_error + registry" where
  "update_group_row g s =
     (if \<exists>h\<in>set (groups s). grp_id h \<noteq> grp_id g \<and> grp_name h = grp_name g
           \<and> (\<exists>h'\<in>set (groups s). grp_id h' = grp_id g)
      then Inl NameConflict
      else Inr (s\<lparr>groups := map (\<lambda>h. if grp_id h = grp_id g
             then h\<lparr>grp_name := grp_name g, grp_description := grp_description g,
                    grp_strategy := grp_strategy g, grp_enabled := grp_enabled g,
                    grp_updated_by := grp_updated_by g\<rparr> else h) (groups s)\<rparr>))"

definition remove_group :: "string \<Rightarrow> registry \<Rightarrow> registry" where
  "remove_group gid s =
     s\<lparr>candidates := filter (\<lambda>c. cand_group c \<noteq> gid) (candidates s),
       rules := filter (\<lambda>r. rule_group r \<noteq> gid) (rules s),
       groups := filter (\<lambda>g. grp_id g \<noteq> gid) (groups s)\<rparr>"

definition list_candidates :: "string \<Rightarrow> registry \<Rightarrow> candidate list" where
  "list_candidates gid s = sort_key cand_pos (filter (\<lambda>c. cand_group c = gid) (candidates s))"

definition list_rules :: "string \<Rightarrow> registry \<Rightarrow> rule list" where
  "list_rules gid s = sort_key rule_pos (filter (\<lambda>r. rule_group r = gid) (rules s))"

text \<open>Delete and insert in one transaction: the new rows get their position and group.\<close>

definition place_candidates :: "string \<Rightarrow> (nat \<Rightarrow> string) \<Rightarrow> candidate list \<Rightarrow> candidate list" where
  "place_candidates gid ids rows =
     map (\<lambda>(i, c). c\<lparr>cand_id := ids i, cand_group := gid, cand_pos := i\<rparr>) (enumerate 0 rows)"

definition store_candidates :: "string \<Rightarrow> (nat \<Rightarrow> string) \<Rightarrow> candidate list \<Rightarrow> registry \<Rightarrow> registry" where
  "store_candidates gid ids rows s =
     s\<lparr>candidates := filter (\<lambda>c. cand_group c \<noteq> gid) (candidates s) @ place_candidates gid ids rows\<rparr>"

definition place_rules :: "string \<Rightarrow> (nat \<Rightarrow> string) \<Rightarrow> rule list \<Rightarrow> rule list" where
  "place_rules gid ids rows =
     map (\<lambda>(i, r). r\<lparr>rule_id := ids i, rule_group := gid, rule_pos := i\<rparr>) (enumerate 0 rows)"

definition store_rules :: "string \<Rightarrow> (nat \<Rightarrow> string) \<Rightarrow> rule list \<Rightarrow> registry \<Rightarrow> registry" where
  "store_rules gid ids rows s =
     s\<lparr>rules := filter (\<lambda>r. rule_group r \<noteq> gid) (rules s) @ place_rules gid ids rows\<rparr>"

definition count_grants :: "string \<Rightarrow> registry \<Rightarrow> nat" where
  "count_grants gid s = length (filter (\<lambda>g. gg_group g = gid) (grants s))"

definition has_grant :: "string \<Rightarrow> string \<Rightarrow> registry \<Rightarrow> bool" where
  "has_grant gid org s = (\<exists>g\<in>set (grants s). gg_group g = gid \<and> gg_org g = org)"

definition is_group_authorized :: "string \<Rightarrow> string \<Rightarrow> registry \<Rightarrow> bool" where
  "is_group_authorized gid org s = (if count_grants gid s = 0 then True else has_grant gid org s)"

definition list_granted_groups :: "string \<Rightarrow> registry \<Rightarrow> group_row list" where
  "list_granted_groups org s =
     sort_key grp_name (filter (\<lambda>g. \<not> (\<exists>h\<in>set (grants s). gg_group h = grp_id g)
        \<or> (\<exists>h\<in>set (grants s). gg_group h = grp_id g \<and> gg_org h = org)) (groups s))"

section \<open>Validation\<close>

definition name_char :: "char \<Rightarrow> bool" where
  "name_char c = (97 \<le> byte c \<and> byte c \<le> 122 \<or> is_digit c \<or> c = CHR ''-'')"

text \<open>The pattern \<open>[a-z][a-z0-9-]{2,63}\<close> over the whole text.\<close>

definition valid_group_name :: "string \<Rightarrow> bool" where
  "valid_group_name s =
     (case s of
        [] \<Rightarrow> False
      | c # cs \<Rightarrow> 97 \<le> byte c \<and> byte c \<le> 122 \<and> list_all name_char cs
          \<and> 2 \<le> length cs \<and> length cs \<le> 63)"

definition valid_strategy :: "string \<Rightarrow> bool" where
  "valid_strategy st = (st \<in> {''manual'', ''weighted'', ''cost_priority'', ''latency_priority''})"

definition validate_name_uniqueness ::
  "model_catalog option \<Rightarrow> string \<Rightarrow> string \<Rightarrow> registry \<Rightarrow> routing_error option" where
  "validate_name_uniqueness cat nm self s =
     (if (case find_group_by_name nm s of None \<Rightarrow> False | Some g \<Rightarrow> grp_id g \<noteq> self) then Some NameConflict
      else (case cat of
              None \<Rightarrow> None
            | Some c \<Rightarrow>
                (case catalog_name_exists c nm of
                   None \<Rightarrow> Some SeamFailed
                 | Some reserved \<Rightarrow> if reserved then Some NameReserved else None)))"

record candidate_input =
  ci_model :: string
  ci_weight :: int
  ci_cost :: int
  ci_latency :: int
  ci_pinned :: bool

definition valid_tier :: "int \<Rightarrow> bool" where
  "valid_tier t = (t = 0 \<or> 1 \<le> t \<and> t \<le> 5)"

text \<open>The validation loop: the models seen, the pins counted, the rows so far.\<close>

fun check_candidates ::
  "model_catalog option \<Rightarrow> string \<Rightarrow> string list \<Rightarrow> nat \<Rightarrow> candidate list \<Rightarrow> candidate_input list
   \<Rightarrow> routing_error + candidate list" where
  "check_candidates cat strategy seen pins rows [] = Inr rows"
| "check_candidates cat strategy seen pins rows (i # is) =
     (let m = trim_space (ci_model i);
          nm = (case cat of None \<Rightarrow> Some [] | Some c \<Rightarrow> map_option cm_name (get_catalog_model c m));
          w = (if ci_weight i = 0 then 10 else ci_weight i);
          pins' = (if ci_pinned i then Suc pins else pins)
      in if m = [] then Inl CandidateInvalid
         else if m \<in> set seen then Inl CandidateExists
         else if nm = None then Inl CandidateInvalid
         else if w < 1 \<or> 100 < w then Inl CandidateInvalid
         else if \<not> valid_tier (ci_cost i) then Inl CandidateInvalid
         else if \<not> valid_tier (ci_latency i) then Inl CandidateInvalid
         else if ci_pinned i \<and> strategy \<noteq> ''manual'' then Inl CandidateInvalid
         else if ci_pinned i \<and> 1 < pins' then Inl CandidateInvalid
         else check_candidates cat strategy (m # seen) pins'
           (rows @ [\<lparr>cand_id = [], cand_group = [], cand_model = m, cand_name = the nm, cand_weight = w,
              cand_cost = ci_cost i, cand_latency = ci_latency i, cand_pinned = ci_pinned i, cand_pos = 0\<rparr>]) is)"

record rule_input =
  ri_name :: string
  ri_match :: string
  ri_pattern :: string
  ri_target :: string
  ri_enabled :: bool

fun check_rules ::
  "(string \<Rightarrow> (string \<Rightarrow> bool) option) \<Rightarrow> candidate list \<Rightarrow> string list \<Rightarrow> rule list \<Rightarrow> rule_input list
   \<Rightarrow> routing_error + rule list" where
  "check_rules compile cs seen rows [] = Inr rows"
| "check_rules compile cs seen rows (i # is) =
     (let nm = trim_space (ri_name i); mt = trim_space (ri_match i); pat = trim_space (ri_pattern i);
          target = trim_space (ri_target i)
      in if nm = [] \<or> 64 < length nm then Inl RuleInvalid
         else if nm \<in> set seen then Inl RuleExists
         else if mt \<noteq> ''keyword'' \<and> mt \<noteq> ''regex'' then Inl RuleInvalid
         else if pat = [] \<or> 256 < length pat then Inl RuleInvalid
         else if mt = ''regex'' \<and> compile pat = None then Inl RuleInvalid
         else (case find (\<lambda>c. cand_model c = target) (rev cs) of
                 None \<Rightarrow> Inl RuleInvalid
               | Some c \<Rightarrow> check_rules compile cs (nm # seen)
                   (rows @ [\<lparr>rule_id = [], rule_group = [], rule_name = nm, rule_match = mt,
                      rule_pattern = pat, rule_target = target, rule_target_name = cand_name c,
                      rule_enabled = ri_enabled i, rule_pos = 0\<rparr>]) is))"

section \<open>Handlers\<close>

definition create_routing_group ::
  "caller \<Rightarrow> model_catalog option \<Rightarrow> string \<Rightarrow> string \<Rightarrow> string \<Rightarrow> string \<Rightarrow> registry
   \<Rightarrow> routing_error + registry" where
  "create_routing_group c cat gid name0 description0 strategy0 s =
     (let nm = trim_space name0; description = trim_space description0;
          strategy = (if trim_space strategy0 = [] then ''weighted'' else trim_space strategy0)
      in if \<not> require_admin_role c then Inl Unauthorized
         else if \<not> valid_group_name nm then Inl NameInvalid
         else if 256 < length description then Inl NameInvalid
         else if \<not> valid_strategy strategy then Inl StrategyInvalid
         else (case validate_name_uniqueness cat nm [] s of
                 Some e \<Rightarrow> Inl e
               | None \<Rightarrow> insert_group \<lparr>grp_id = gid, grp_name = nm, grp_description = description,
                   grp_strategy = strategy, grp_enabled = False, grp_created_by = actor c,
                   grp_updated_by = actor c\<rparr> s))"

definition may_enable :: "string \<Rightarrow> candidate list \<Rightarrow> bool" where
  "may_enable strategy cs =
     (cs \<noteq> [] \<and> (strategy = ''manual'' \<longrightarrow> length (filter cand_pinned cs) = 1))"

definition update_routing_group ::
  "caller \<Rightarrow> model_catalog option \<Rightarrow> string \<Rightarrow> string \<Rightarrow> string \<Rightarrow> string \<Rightarrow> bool \<Rightarrow> registry
   \<Rightarrow> routing_error + registry" where
  "update_routing_group c cat gid name0 description0 strategy0 enabled s =
     (if \<not> require_admin_role c then Inl Unauthorized
      else case get_group gid s of
        None \<Rightarrow> Inl GroupNotFound
      | Some row \<Rightarrow>
          (let nm = trim_space name0; description = trim_space description0;
               strategy = (if trim_space strategy0 = [] then grp_strategy row else trim_space strategy0)
           in if \<not> valid_group_name nm then Inl NameInvalid
              else if 256 < length description then Inl NameInvalid
              else if \<not> valid_strategy strategy then Inl StrategyInvalid
              else (case (if nm \<noteq> grp_name row then validate_name_uniqueness cat nm gid s else None) of
                      Some e \<Rightarrow> Inl e
                    | None \<Rightarrow>
                        if enabled \<and> \<not> grp_enabled row \<and> \<not> may_enable strategy (list_candidates gid s)
                        then Inl StrategyInvalid
                        else update_group_row (row\<lparr>grp_name := nm, grp_description := description,
                               grp_strategy := strategy, grp_enabled := enabled,
                               grp_updated_by := actor c\<rparr>) s)))"

definition delete_routing_group :: "caller \<Rightarrow> string \<Rightarrow> registry \<Rightarrow> routing_error + registry" where
  "delete_routing_group c gid s =
     (if \<not> require_admin_role c then Inl Unauthorized
      else case get_group gid s of
        None \<Rightarrow> Inl GroupNotFound
      | Some row \<Rightarrow> if 0 < count_grants gid s then Inl GroupInUse else Inr (remove_group gid s))"

definition replace_candidates ::
  "caller \<Rightarrow> model_catalog option \<Rightarrow> string \<Rightarrow> (nat \<Rightarrow> string) \<Rightarrow> candidate_input list \<Rightarrow> registry
   \<Rightarrow> routing_error + registry" where
  "replace_candidates c cat gid ids inputs s =
     (if \<not> require_admin_role c then Inl Unauthorized
      else case get_group gid s of
        None \<Rightarrow> Inl GroupNotFound
      | Some row \<Rightarrow>
          if length inputs < 1 \<or> 20 < length inputs then Inl CandidateInvalid
          else (case check_candidates cat (grp_strategy row) [] 0 [] inputs of
                  Inl e \<Rightarrow> Inl e
                | Inr rows \<Rightarrow> Inr (store_candidates gid ids rows s)))"

definition replace_rules ::
  "caller \<Rightarrow> (string \<Rightarrow> (string \<Rightarrow> bool) option) \<Rightarrow> string \<Rightarrow> (nat \<Rightarrow> string) \<Rightarrow> rule_input list \<Rightarrow> registry
   \<Rightarrow> routing_error + registry" where
  "replace_rules c compile gid ids inputs s =
     (if \<not> require_admin_role c then Inl Unauthorized
      else case get_group gid s of
        None \<Rightarrow> Inl GroupNotFound
      | Some row \<Rightarrow>
          if 50 < length inputs then Inl RuleInvalid
          else (case check_rules compile (list_candidates gid s) [] [] inputs of
                  Inl e \<Rightarrow> Inl e
                | Inr rows \<Rightarrow> Inr (store_rules gid ids rows s)))"

text \<open>Grants are written for existing groups, once per organization.\<close>

definition grant_group_access :: "string \<Rightarrow> string \<Rightarrow> string \<Rightarrow> registry \<Rightarrow> routing_error + registry" where
  "grant_group_access gid org by_user s =
     (case get_group gid s of
        None \<Rightarrow> Inl GroupNotFound
      | Some row \<Rightarrow>
          if has_grant gid org s then Inr s
          else Inr (s\<lparr>grants := grants s @ [\<lparr>gg_group = gid, gg_org = org, gg_by = by_user\<rparr>]\<rparr>))"

definition revoke_group_access :: "string \<Rightarrow> string \<Rightarrow> registry \<Rightarrow> routing_error + registry" where
  "revoke_group_access gid org s =
     (case get_group gid s of
        None \<Rightarrow> Inl GroupNotFound
      | Some row \<Rightarrow> Inr (s\<lparr>grants := filter (\<lambda>g. \<not> (gg_group g = gid \<and> gg_org g = org)) (grants s)\<rparr>))"

section \<open>Resolving and recording\<close>

definition resolve_routing_group ::
  "seams \<Rightarrow> string \<Rightarrow> string \<Rightarrow> string \<Rightarrow> string \<Rightarrow> registry \<Rightarrow> routing_error + resolution" where
  "resolve_routing_group sm name0 prompt org key s =
     (let nm = trim_space name0 in
      if nm = [] then Inl GroupNotFound
      else case find_group_by_name nm s of
        None \<Rightarrow> Inl GroupNotFound
      | Some row \<Rightarrow>
          if \<not> grp_enabled row then Inl GroupDisabled
          else resolve sm (grp_strategy row) (list_candidates (grp_id row) s) (list_rules (grp_id row) s)
                 prompt org key False)"

text \<open>The decision row of a resolved request; the caller's key and organization are not stored.\<close>

definition attempt_outcome :: "(string \<rightharpoonup> string) \<Rightarrow> string \<Rightarrow> string" where
  "attempt_outcome outcomes m =
     (case outcomes m of None \<Rightarrow> ''not_attempted'' | Some out \<Rightarrow> if out = [] then ''not_attempted'' else out)"

definition record_decision ::
  "resolution \<Rightarrow> string \<Rightarrow> string \<Rightarrow> string \<times> string \<Rightarrow> (string \<rightharpoonup> string) \<Rightarrow> registry \<Rightarrow> registry" where
  "record_decision res request_id group_name selected outcomes s =
     s\<lparr>decisions := decisions s @
       [\<lparr>dec_request = request_id,
         dec_group = (case find_group_by_name group_name s of None \<Rightarrow> [] | Some g \<Rightarrow> grp_id g),
         dec_group_name = group_name, dec_strategy = res_strategy res, dec_rule = matched_rule res,
         dec_selected = selected,
         dec_candidates =
           map (\<lambda>c. (cand_model c, cand_name c, attempt_outcome outcomes (cand_model c))) (attempts res)
           @ skipped res,
         dec_key = [], dec_org = []\<rparr>]\<rparr>"

section \<open>The registry's invariant\<close>

definition weights_ok :: "candidate \<Rightarrow> bool" where
  "weights_ok c = (1 \<le> cand_weight c \<and> cand_weight c \<le> 100 \<and> valid_tier (cand_cost c)
     \<and> valid_tier (cand_latency c))"

definition pins :: "candidate list \<Rightarrow> nat" where
  "pins cs = length (filter cand_pinned cs)"

definition members_ok :: "candidate list \<Rightarrow> bool" where
  "members_ok cs = (model_distinct cs \<and> length cs \<le> 20 \<and> list_all weights_ok cs \<and> pins cs \<le> 1
     \<and> map cand_pos cs = [0..<length cs])"

definition members_of :: "string \<Rightarrow> registry \<Rightarrow> candidate list" where
  "members_of gid s = filter (\<lambda>c. cand_group c = gid) (candidates s)"

definition group_ids :: "registry \<Rightarrow> string set" where
  "group_ids s = grp_id ` set (groups s)"

definition refers_ok :: "registry \<Rightarrow> bool" where
  "refers_ok s = (cand_group ` set (candidates s) \<union> rule_group ` set (rules s) \<union> gg_group ` set (grants s)
     \<subseteq> group_ids s)"

definition registry_ok :: "registry \<Rightarrow> bool" where
  "registry_ok s =
     (distinct (map grp_id (groups s)) \<and> distinct (map grp_name (groups s))
      \<and> (\<forall>g\<in>set (groups s). valid_group_name (grp_name g) \<and> valid_strategy (grp_strategy g)
           \<and> (grp_enabled g \<longrightarrow> members_of (grp_id g) s \<noteq> []))
      \<and> refers_ok s
      \<and> distinct (map (\<lambda>g. (gg_group g, gg_org g)) (grants s))
      \<and> (\<forall>gid. members_ok (members_of gid s)))"

lemma registry_okD:
  assumes "registry_ok s"
  shows "distinct (map grp_id (groups s))" "distinct (map grp_name (groups s))"
    "g \<in> set (groups s) \<Longrightarrow> valid_group_name (grp_name g) \<and> valid_strategy (grp_strategy g)"
    "g \<in> set (groups s) \<Longrightarrow> grp_enabled g \<Longrightarrow> members_of (grp_id g) s \<noteq> []"
    "refers_ok s" "distinct (map (\<lambda>g. (gg_group g, gg_org g)) (grants s))" "members_ok (members_of gid s)"
  using assms by (auto simp: registry_ok_def)

lemma sorted_positions: "map f xs = [0..<length xs] \<Longrightarrow> sort_key f xs = xs"
  by (rule sort_key_id_if_sorted) simp

lemma list_candidates_members: "registry_ok s \<Longrightarrow> list_candidates gid s = members_of gid s"
  using sorted_positions registry_okD(7) by (fastforce simp: list_candidates_def members_of_def members_ok_def)

lemma check_candidates_step:
  assumes "check_candidates cat st seen n rows (i # is) = Inr out"
  shows "\<exists>c. cand_model c \<notin> set seen \<and> weights_ok c \<and> (cand_pinned c \<longrightarrow> n = 0)
     \<and> check_candidates cat st (cand_model c # seen) (if cand_pinned c then Suc n else n) (rows @ [c]) is = Inr out"
proof -
  let ?m = "trim_space (ci_model i)" and ?w = "if ci_weight i = 0 then 10 else ci_weight i"
  let ?nm = "case cat of None \<Rightarrow> Some [] | Some c \<Rightarrow> map_option cm_name (get_catalog_model c ?m)"
  let ?c = "\<lparr>cand_id = [], cand_group = [], cand_model = ?m, cand_name = the ?nm, cand_weight = ?w,
     cand_cost = ci_cost i, cand_latency = ci_latency i, cand_pinned = ci_pinned i, cand_pos = 0\<rparr>"
  from assms have "?m \<notin> set seen" "1 \<le> ?w" "?w \<le> 100" "valid_tier (ci_cost i)" "valid_tier (ci_latency i)"
    "ci_pinned i \<longrightarrow> n = 0"
    "check_candidates cat st (?m # seen) (if ci_pinned i then Suc n else n) (rows @ [?c]) is = Inr out"
    by (simp_all add: Let_def split: if_split_asm)
  then show ?thesis by (intro exI [of _ ?c]) (simp add: weights_ok_def)
qed

lemma pins_snoc [simp]: "pins (rows @ [c]) = (if cand_pinned c then Suc (pins rows) else pins rows)"
  by (simp add: pins_def)

lemma check_candidates_ok:
  "check_candidates cat st seen n rows is = Inr out \<Longrightarrow> cand_model ` set rows = set seen
   \<Longrightarrow> model_distinct rows \<Longrightarrow> pins rows = n \<Longrightarrow> n \<le> 1 \<Longrightarrow> list_all weights_ok rows
   \<Longrightarrow> model_distinct out \<and> pins out \<le> 1 \<and> list_all weights_ok out \<and> length out = length rows + length is"
proof (induction "is" arbitrary: seen n rows)
  case (Cons i "is")
  obtain c where c: "cand_model c \<notin> set seen" "weights_ok c" "cand_pinned c \<longrightarrow> n = 0"
    "check_candidates cat st (cand_model c # seen) (if cand_pinned c then Suc n else n) (rows @ [c]) is = Inr out"
    using check_candidates_step [OF Cons.prems(1)] by blast
  have "model_distinct (rows @ [c])" using Cons.prems(2,3) c(1) by (auto simp: model_distinct_def)
  then show ?case using Cons.IH [OF c(4)] Cons.prems c by auto
qed auto

definition placing :: "string \<Rightarrow> (nat \<Rightarrow> string) \<Rightarrow> nat \<times> candidate \<Rightarrow> candidate" where
  "placing gid ids = (\<lambda>(i, c). c\<lparr>cand_id := ids i, cand_group := gid, cand_pos := i\<rparr>)"

lemma place_candidates_placing: "place_candidates gid ids rows = map (placing gid ids) (enumerate 0 rows)"
  by (simp add: place_candidates_def placing_def)

lemma placing_simps [simp]:
  "cand_model (placing gid ids (i, c)) = cand_model c" "cand_pinned (placing gid ids (i, c)) = cand_pinned c"
  "weights_ok (placing gid ids (i, c)) = weights_ok c" "cand_pos (placing gid ids (i, c)) = i"
  "cand_group (placing gid ids (i, c)) = gid"
  by (simp_all add: placing_def weights_ok_def)

lemma placed_from:
  "map cand_model (map (placing gid ids) (enumerate n rows)) = map cand_model rows"
  "pins (map (placing gid ids) (enumerate n rows)) = pins rows"
  "list_all weights_ok (map (placing gid ids) (enumerate n rows)) = list_all weights_ok rows"
  "filter (\<lambda>c. cand_group c = h) (map (placing gid ids) (enumerate n rows))
     = (if h = gid then map (placing gid ids) (enumerate n rows) else [])"
  by (induction rows arbitrary: n) (auto simp: pins_def)

lemma placed_positions: "map cand_pos (map (placing gid ids) (enumerate n rows)) = [n..<n + length rows]"
proof -
  have "map cand_pos (map (placing gid ids) xs) = map fst xs" for xs
    by (induction xs) auto
  then show ?thesis by (metis map_fst_enumerate)
qed

lemmas placed = placed_from [where n = 0, folded place_candidates_placing]
  placed_positions [where n = 0, folded place_candidates_placing]

lemma length_placed [simp]: "length (place_candidates gid ids rows) = length rows"
  by (simp add: place_candidates_def)

lemma placed_members_ok:
  assumes "check_candidates cat st [] 0 [] is = Inr rows" "length is \<le> 20"
  shows "members_ok (place_candidates gid ids rows)"
  using check_candidates_ok [OF assms(1)] assms(2) placed [where gid = gid and ids = ids and rows = rows]
  by (simp add: members_ok_def model_distinct_def pins_def)

lemma members_store:
  "members_of h (store_candidates gid ids rows s)
     = (if h = gid then place_candidates gid ids rows else members_of h s)"
proof -
  have "filter (\<lambda>c. cand_group c \<noteq> gid \<and> cand_group c = h) cs
      = (if h = gid then [] else filter (\<lambda>c. cand_group c = h) cs)" for cs
    by (induction cs) auto
  then show ?thesis using placed(4) [where gid = gid and ids = ids and rows = rows and h = h] by (auto simp: members_of_def store_candidates_def)
qed

lemma place_candidates_empty [simp]: "place_candidates gid ids rows = [] \<longleftrightarrow> rows = []"
  by (simp add: place_candidates_placing enumerate_eq_zip)

lemma place_candidates_group: "c \<in> set (place_candidates gid ids rows) \<Longrightarrow> cand_group c = gid"
  by (auto simp: place_candidates_placing)

lemma place_rules_group: "r \<in> set (place_rules gid ids rows) \<Longrightarrow> rule_group r = gid"
  by (auto simp: place_rules_def)

section \<open>Every handler keeps the invariant\<close>

lemma members_of_update [simp]:
  "members_of gid (s\<lparr>groups := x\<rparr>) = members_of gid s" "members_of gid (s\<lparr>rules := r\<rparr>) = members_of gid s"
  "members_of gid (s\<lparr>grants := y\<rparr>) = members_of gid s" "members_of gid (s\<lparr>decisions := d\<rparr>) = members_of gid s"
  by (simp_all add: members_of_def)

lemma get_group_some: "get_group gid s = Some g \<Longrightarrow> g \<in> set (groups s) \<and> grp_id g = gid"
  by (auto simp: get_group_def dest: find_SomeD)

lemma named_some: "find_group_by_name nm s = Some g \<Longrightarrow> g \<in> set (groups s) \<and> grp_name g = nm"
  by (auto simp: find_group_by_name_def dest: find_SomeD)

lemma store_candidates_ok:
  assumes "registry_ok s" "gid \<in> group_ids s" "rows \<noteq> []" "members_ok (place_candidates gid ids rows)"
  shows "registry_ok (store_candidates gid ids rows s)"
  using assms unfolding registry_ok_def members_store refers_ok_def group_ids_def
  by (auto simp: store_candidates_def dest: place_candidates_group)

lemma store_rules_ok:
  assumes "registry_ok s" "gid \<in> group_ids s"
  shows "registry_ok (store_rules gid ids rows s)"
  using assms unfolding registry_ok_def refers_ok_def group_ids_def store_rules_def
  by (auto dest: place_rules_group)

lemma insert_group_ok:
  assumes "registry_ok s" "insert_group g s = Inr s'" "valid_group_name (grp_name g)"
    "valid_strategy (grp_strategy g)" "\<not> grp_enabled g"
  shows "registry_ok s'"
proof -
  have s': "s' = s\<lparr>groups := groups s @ [g]\<rparr>" and new: "grp_id g \<notin> group_ids s" "grp_name g \<notin> grp_name ` set (groups s)"
    using assms(2) by (auto simp: insert_group_def group_ids_def split: if_splits)
  have "group_ids s' = insert (grp_id g) (group_ids s)" by (auto simp: s' group_ids_def)
  then have "refers_ok s'" using registry_okD(5) [OF assms(1)] by (auto simp: s' refers_ok_def)
  then show ?thesis using assms(1,3-5) new by (auto simp: registry_ok_def s' group_ids_def)
qed

definition renamed :: "group_row \<Rightarrow> group_row \<Rightarrow> group_row" where
  "renamed g h = (if grp_id h = grp_id g
     then h\<lparr>grp_name := grp_name g, grp_description := grp_description g, grp_strategy := grp_strategy g,
            grp_enabled := grp_enabled g, grp_updated_by := grp_updated_by g\<rparr> else h)"

lemma renamed_simps [simp]: "grp_id (renamed g h) = grp_id h"
  by (simp add: renamed_def)

lemma renamed_comp [simp]: "grp_id \<circ> renamed g = grp_id"
  by (simp add: fun_eq_iff)

lemma distinct_renamed:
  assumes "distinct (map grp_id gs)" "distinct (map grp_name gs)"
    "\<forall>h\<in>set gs. grp_id h \<noteq> grp_id g \<longrightarrow> grp_name h \<noteq> grp_name g"
  shows "distinct (map (grp_name \<circ> renamed g) gs)"
  using assms by (auto simp: distinct_map inj_on_def renamed_def)

lemma update_group_row_ok:
  assumes ok: "registry_ok s" and upd: "update_group_row g s = Inr s'" and mem: "grp_id g \<in> group_ids s"
    and "valid_group_name (grp_name g)" "valid_strategy (grp_strategy g)"
    and "grp_enabled g \<longrightarrow> members_of (grp_id g) s \<noteq> []"
  shows "registry_ok s'"
proof -
  have s': "s' = s\<lparr>groups := map (renamed g) (groups s)\<rparr>"
    using upd by (auto simp: update_group_row_def renamed_def split: if_splits)
  have "\<forall>h\<in>set (groups s). grp_id h \<noteq> grp_id g \<longrightarrow> grp_name h \<noteq> grp_name g"
  proof (intro ballI impI notI)
    fix h assume "h \<in> set (groups s)" "grp_id h \<noteq> grp_id g" "grp_name h = grp_name g"
    with mem have "update_group_row g s = Inl NameConflict"
      unfolding update_group_row_def group_ids_def by (subst if_P) (fastforce, rule refl)
    with upd show False by simp
  qed
  then have "distinct (map (grp_name \<circ> renamed g) (groups s))"
    using distinct_renamed registry_okD(1,2) [OF ok] by blast
  moreover have "group_ids s' = group_ids s" by (simp add: s' group_ids_def image_image)
  moreover have "refers_ok s'" using registry_okD(5) [OF ok] \<open>group_ids s' = group_ids s\<close>
    by (simp add: s' refers_ok_def)
  moreover have "valid_group_name (grp_name (renamed g h)) \<and> valid_strategy (grp_strategy (renamed g h))
      \<and> (grp_enabled (renamed g h) \<longrightarrow> members_of (grp_id h) s \<noteq> [])" if "h \<in> set (groups s)" for h
    using that ok assms(4-) by (auto simp: registry_ok_def renamed_def)
  ultimately show ?thesis
    using ok unfolding registry_ok_def by (simp add: s')
qed

lemma remove_group_ok:
  assumes ok: "registry_ok s" and none: "count_grants gid s = 0"
  shows "registry_ok (remove_group gid s)"
proof -
  have m: "members_of h (remove_group gid s) = (if h = gid then [] else members_of h s)" for h
    by (auto simp: members_of_def remove_group_def filter_empty_conv intro: filter_cong)
  have "\<forall>g\<in>set (grants s). gg_group g \<noteq> gid" using none by (simp add: count_grants_def filter_empty_conv)
  moreover have "group_ids (remove_group gid s) = group_ids s - {gid}"
    by (auto simp: group_ids_def remove_group_def)
  ultimately have "refers_ok (remove_group gid s)"
    using registry_okD(5) [OF ok] by (auto simp: refers_ok_def remove_group_def image_subset_iff)
  then show ?thesis
    using ok unfolding registry_ok_def m
    by (auto simp: remove_group_def distinct_map_filter members_ok_def model_distinct_def pins_def)
qed

datatype registry_op =
    Create caller "model_catalog option" string string string string
  | Update caller "model_catalog option" string string string string bool
  | Delete caller string
  | SetCandidates caller "model_catalog option" string "nat \<Rightarrow> string" "candidate_input list"
  | SetRules caller "string \<Rightarrow> (string \<Rightarrow> bool) option" string "nat \<Rightarrow> string" "rule_input list"
  | Grant string string string
  | Revoke string string
  | Record resolution string string "string \<times> string" "string \<rightharpoonup> string"

fun try_op :: "registry_op \<Rightarrow> registry \<Rightarrow> routing_error + registry" where
  "try_op (Create c cat gid nm d st) s = create_routing_group c cat gid nm d st s"
| "try_op (Update c cat gid nm d st en) s = update_routing_group c cat gid nm d st en s"
| "try_op (Delete c gid) s = delete_routing_group c gid s"
| "try_op (SetCandidates c cat gid ids is) s = replace_candidates c cat gid ids is s"
| "try_op (SetRules c rx gid ids is) s = replace_rules c rx gid ids is s"
| "try_op (Grant gid org by_user) s = grant_group_access gid org by_user s"
| "try_op (Revoke gid org) s = revoke_group_access gid org s"
| "try_op (Record res rid nm sel out) s = Inr (record_decision res rid nm sel out s)"

text \<open>A refused request leaves the registry as it was.\<close>

definition run_registry :: "registry_op \<Rightarrow> registry \<Rightarrow> registry" where
  "run_registry p s = (case try_op p s of Inl e \<Rightarrow> s | Inr s' \<Rightarrow> s')"

lemma create_group_ok: "registry_ok s \<Longrightarrow> create_routing_group c cat gid nm d st s = Inr s' \<Longrightarrow> registry_ok s'"
  by (auto simp: create_routing_group_def Let_def intro: insert_group_ok split: if_split_asm option.split_asm)

lemma may_enable_members: "registry_ok s \<Longrightarrow> may_enable st (list_candidates gid s) \<Longrightarrow> members_of gid s \<noteq> []"
  by (simp add: may_enable_def list_candidates_members)

lemma update_ok:
  assumes "registry_ok s" "update_routing_group c cat gid nm d st en s = Inr s'"
  shows "registry_ok s'"
proof -
  obtain row where row: "get_group gid s = Some row"
    using assms(2) by (auto simp: update_routing_group_def split: if_splits option.splits)
  obtain g where g: "update_group_row g s = Inr s'" "grp_id g = gid" "valid_group_name (grp_name g)"
    "valid_strategy (grp_strategy g)" "grp_enabled g \<longrightarrow> grp_enabled row \<or> may_enable (grp_strategy g) (list_candidates gid s)"
    using assms(2) get_group_some [OF row]
    by (auto simp: update_routing_group_def row Let_def split: if_split_asm option.split_asm)
  have "grp_enabled g \<longrightarrow> members_of (grp_id g) s \<noteq> []"
    using g(2,5) may_enable_members assms(1) registry_okD(4) get_group_some [OF row] by metis
  moreover have "grp_id g \<in> group_ids s" using g(2) get_group_some [OF row] by (metis group_ids_def image_eqI)
  ultimately show ?thesis using update_group_row_ok [OF assms(1) g(1)] g(3,4) by blast
qed

lemma replace_candidates_ok:
  assumes "registry_ok s" "replace_candidates c cat gid ids is s = Inr s'"
  shows "registry_ok s'"
proof -
  obtain row rows where row: "get_group gid s = Some row" and len: "\<not> length is < 1" "\<not> 20 < length is"
    and chk: "check_candidates cat (grp_strategy row) [] 0 [] is = Inr rows"
    and s': "s' = store_candidates gid ids rows s"
    using assms(2) by (auto simp: replace_candidates_def split: if_split_asm option.split_asm sum.split_asm)
  have le: "length is \<le> 20" using len(2) by simp
  have "rows \<noteq> []" using check_candidates_ok [OF chk] len by (auto simp: model_distinct_def pins_def)
  then show ?thesis unfolding s'
    using store_candidates_ok assms(1) get_group_some [OF row] placed_members_ok [OF chk le]
    by (auto simp: group_ids_def)
qed

lemma delete_ok: "registry_ok s \<Longrightarrow> delete_routing_group c gid s = Inr s' \<Longrightarrow> registry_ok s'"
  by (auto simp: delete_routing_group_def intro: remove_group_ok split: if_split_asm option.split_asm)

lemma group_ids_get: "get_group gid s = Some row \<Longrightarrow> gid \<in> group_ids s"
  using get_group_some by (fastforce simp: group_ids_def)

lemma replace_rules_ok: "registry_ok s \<Longrightarrow> replace_rules c rx gid ids is s = Inr s' \<Longrightarrow> registry_ok s'"
  by (auto simp: replace_rules_def intro: store_rules_ok group_ids_get
      split: if_split_asm option.split_asm sum.split_asm)

lemma grants_ok:
  assumes "registry_ok s" "gg_group ` set gs \<subseteq> group_ids s" "distinct (map (\<lambda>g. (gg_group g, gg_org g)) gs)"
  shows "registry_ok (s\<lparr>grants := gs\<rparr>)"
  using assms by (simp add: registry_ok_def refers_ok_def group_ids_def)

lemma grant_ok: "registry_ok s \<Longrightarrow> grant_group_access gid org u s = Inr s' \<Longrightarrow> registry_ok s'"
  using registry_okD(5,6) [of s] group_ids_get [of gid s]
  by (auto simp: grant_group_access_def has_grant_def refers_ok_def image_subset_iff intro!: grants_ok
      split: if_split_asm option.split_asm)

lemma revoke_ok: "registry_ok s \<Longrightarrow> revoke_group_access gid org s = Inr s' \<Longrightarrow> registry_ok s'"
  using registry_okD(5,6) [of s]
  by (auto simp: revoke_group_access_def refers_ok_def distinct_map_filter intro!: grants_ok
      split: option.split_asm)

lemma record_ok: "registry_ok s \<Longrightarrow> registry_ok (record_decision res rid nm sel out s)"
  by (simp add: registry_ok_def record_decision_def refers_ok_def group_ids_def)

lemmas handlers_ok = create_group_ok update_ok delete_ok replace_candidates_ok replace_rules_ok grant_ok revoke_ok

lemma run_registry_ok: "registry_ok s \<Longrightarrow> registry_ok (run_registry p s)"
  by (cases p) (auto simp: run_registry_def record_ok intro: handlers_ok split: sum.split)

lemma registry_ok_empty: "registry_ok empty_registry"
  by (simp add: registry_ok_def empty_registry_def refers_ok_def members_of_def members_ok_def
      model_distinct_def pins_def)

lemma history_ok: "registry_ok s \<Longrightarrow> registry_ok (fold run_registry ps s)"
  by (induction ps arbitrary: s) (auto intro: run_registry_ok)

definition admin :: caller where
  "admin = \<lparr>cl_guard = Some (\<lambda>org user. True), cl_user = Some (Some ''u''), cl_org = None\<rparr>"

definition demo_inputs :: "candidate_input list" where
  "demo_inputs = [\<lparr>ci_model = ''a'', ci_weight = 0, ci_cost = 2, ci_latency = 0, ci_pinned = False\<rparr>,
     \<lparr>ci_model = ''b'', ci_weight = 30, ci_cost = 1, ci_latency = 0, ci_pinned = False\<rparr>]"

definition demo_setup :: "registry_op list" where
  "demo_setup = [Create admin (sm_catalog demo_seams) ''g1'' ''auto-chat'' [] ''cost_priority'',
     SetCandidates admin (sm_catalog demo_seams) ''g1'' (\<lambda>i. []) demo_inputs,
     Update admin (sm_catalog demo_seams) ''g1'' ''auto-chat'' [] [] True, Grant ''g1'' ''o1'' ''u'']"

definition demo_registry :: registry where
  "demo_registry = fold run_registry demo_setup empty_registry"

text \<open>C21. The registry stays well-formed under any sequence of requests: group names are unique, valid
  and never lost to another group; each group's candidates are distinct models in declared order with
  weights, tiers and at most one pin in range; candidates, rules and grants belong to existing groups;
  and an enabled group always has a candidate.\<close>

theorem registry_well_formed:
  assumes "s = fold run_registry ps empty_registry"
  shows "distinct (map grp_name (groups s))
     \<and> refers_ok s
     \<and> (\<forall>g\<in>set (groups s). valid_group_name (grp_name g) \<and> valid_strategy (grp_strategy g)
          \<and> members_ok (list_candidates (grp_id g) s)
          \<and> (grp_enabled g \<longrightarrow> list_candidates (grp_id g) s \<noteq> []))"
proof -
  have ok: "registry_ok s" unfolding assms by (rule history_ok [OF registry_ok_empty])
  then show ?thesis by (simp add: list_candidates_members [OF ok] registry_ok_def)
qed

theorem registry_well_formed_witness:
  "distinct (map grp_name (groups demo_registry)) \<and> map grp_enabled (groups demo_registry) = [True]
   \<and> list_candidates ''g1'' demo_registry \<noteq> []"
proof -
  have "groups demo_registry = [\<lparr>grp_id = ''g1'', grp_name = ''auto-chat'', grp_description = [],
      grp_strategy = ''cost_priority'', grp_enabled = True, grp_created_by = ''u'', grp_updated_by = ''u''\<rparr>]"
    by code_simp
  then show ?thesis using registry_well_formed [OF demo_registry_def [unfolded demo_setup_def]] by simp
qed

lemma resolved_group:
  assumes "s = fold run_registry ps empty_registry"
    and "resolve_routing_group sm nm prompt org key s = Inr res"
  shows "\<exists>g\<in>set (groups s). grp_name g = trim_space nm \<and> grp_enabled g \<and> attempts res \<noteq> []
     \<and> length (attempts res) \<le> 3 \<and> model_distinct (attempts res)
     \<and> (\<forall>c\<in>set (attempts res). c \<in> set (list_candidates (grp_id g) s) \<and> is_eligible sm org key c)
     \<and> map fst (skipped res)
         = map cand_model (filter (\<lambda>c. \<not> is_eligible sm org key c) (list_candidates (grp_id g) s))"
proof -
  have ok: "registry_ok s" unfolding assms by (rule history_ok [OF registry_ok_empty])
  obtain g where g: "find_group_by_name (trim_space nm) s = Some g" "grp_enabled g"
    and res: "resolve sm (grp_strategy g) (list_candidates (grp_id g) s) (list_rules (grp_id g) s) prompt org key False = Inr res"
    using assms(2) by (auto simp: resolve_routing_group_def Let_def split: if_split_asm option.split_asm)
  have "model_distinct (list_candidates (grp_id g) s)"
    using registry_okD(7) [OF ok] by (auto simp: members_ok_def list_candidates_members [OF ok] members_of_def)
  then show ?thesis using named_some [OF g(1)] g(2) strategy_resolved [OF res] by blast
qed

lemma resolved_models_distinct:
  "s = fold run_registry ps empty_registry \<Longrightarrow> resolve_routing_group sm nm prompt org key s = Inr res
   \<Longrightarrow> model_distinct (attempts res)"
  using resolved_group by blast

text \<open>C20. Resolving a virtual name of any reachable registry gives one to three attempts, each a different candidate
  of that enabled group that may be attempted: in the catalog and published if external, not refused to the
  organization, and in the key's scope.  The candidates that may not be are exactly the skipped ones.\<close>

theorem registry_resolution:
  assumes "s = fold run_registry ps empty_registry"
    and "resolve_routing_group sm nm prompt org key s = Inr res"
  shows "\<exists>g\<in>set (groups s). grp_name g = trim_space nm \<and> grp_enabled g \<and> attempts res \<noteq> []
     \<and> length (attempts res) \<le> 3 \<and> model_distinct (attempts res)
     \<and> (\<forall>c\<in>set (attempts res). c \<in> set (list_candidates (grp_id g) s) \<and> may_attempt sm org key (cand_model c))
     \<and> map fst (skipped res)
         = filter (\<lambda>m. \<not> may_attempt sm org key m) (map cand_model (list_candidates (grp_id g) s))"
  using resolved_group [OF assms] by (simp add: eligible_may_attempt filter_map comp_def)

definition demo_attempts :: resolution where
  "demo_attempts = \<lparr>attempts =
       [\<lparr>cand_id = [], cand_group = ''g1'', cand_model = ''b'', cand_name = ''b'', cand_weight = 30,
          cand_cost = 1, cand_latency = 0, cand_pinned = False, cand_pos = 1\<rparr>,
        \<lparr>cand_id = [], cand_group = ''g1'', cand_model = ''a'', cand_name = ''a'', cand_weight = 10,
          cand_cost = 2, cand_latency = 0, cand_pinned = False, cand_pos = 0\<rparr>],
     skipped = [], matched_rule = None, res_strategy = ''cost_priority''\<rparr>"

lemma demo_registry_resolves:
  "resolve_routing_group demo_seams '' auto-chat '' ''hi'' ''o2'' [] demo_registry = Inr demo_attempts"
  by code_simp

text \<open>The same registry under a catalog that grants the organization one of the two models.\<close>

definition granting_seams :: seams where
  "granting_seams = demo_seams\<lparr>sm_catalog :=
     map_option (\<lambda>cat. cat\<lparr>is_model_authorized := (\<lambda>m org. Some (m = ''b''))\<rparr>) (sm_catalog demo_seams)\<rparr>"

definition granted_attempts :: resolution where
  "granted_attempts = demo_attempts\<lparr>attempts := take 1 (attempts demo_attempts),
     skipped := [(''a'', ''a'', ''skipped_unauthorized'')]\<rparr>"

lemma granting_resolves:
  "resolve_routing_group granting_seams '' auto-chat '' ''hi'' ''o2'' [] demo_registry = Inr granted_attempts"
  by code_simp

theorem registry_resolution_witness:
  "map cand_model (attempts granted_attempts) = [''b''] \<and> map fst (skipped granted_attempts) = [''a'']
   \<and> may_attempt granting_seams ''o2'' [] ''b'' \<and> \<not> may_attempt granting_seams ''o2'' [] ''a''
   \<and> (\<exists>g\<in>set (groups demo_registry). grp_name g = ''auto-chat'' \<and> grp_enabled g)"
proof -
  have t: "trim_space '' auto-chat '' = ''auto-chat''" by code_simp
  have m: "map cand_model (attempts granted_attempts) = [''b'']" "map fst (skipped granted_attempts) = [''a'']"
    by code_simp+
  have a: "\<exists>c\<in>set (attempts granted_attempts). cand_model c = ''b''"
    by code_simp
  have k: "''a'' \<in> set (map fst (skipped granted_attempts))" unfolding m(2) by simp
  note r = registry_resolution [OF demo_registry_def [unfolded demo_setup_def] granting_resolves, unfolded t]
  then have "\<not> may_attempt granting_seams ''o2'' [] ''a''" using k by (metis (no_types, lifting) mem_Collect_eq set_filter)
  moreover have "may_attempt granting_seams ''o2'' [] ''b''" using r a by metis
  ultimately show ?thesis using r m by blast
qed

section \<open>Grants\<close>

text \<open>The groups listed for an organization are exactly those the grant rule authorizes for it:
  every group with no grant, and a restricted group only for the organizations it is granted to.\<close>

theorem granted_groups_are_authorized:
  "g \<in> set (list_granted_groups org s) \<longleftrightarrow> g \<in> set (groups s) \<and> is_group_authorized (grp_id g) org s"
  by (auto simp: list_granted_groups_def is_group_authorized_def count_grants_def has_grant_def filter_empty_conv)

text \<open>
  Nothing on the request path asks that rule: in the demonstration registry the group is granted to
  \<open>o1\<close> only, and \<open>o2\<close> resolves it all the same.
\<close>

lemma ungranted_organization_resolves:
  "\<not> is_group_authorized ''g1'' ''o2'' demo_registry"
  "resolve_routing_group demo_seams '' auto-chat '' ''hi'' ''o2'' [] demo_registry = Inr demo_attempts"
  by code_simp (rule demo_registry_resolves)

text \<open>
  The pin rule is checked when a group is enabled, not when an enabled group becomes manual: a
  reachable registry has an enabled manual group without a pinned candidate.
\<close>

lemma manual_without_pin_reachable:
  "map (\<lambda>g. (grp_strategy g, grp_enabled g, pins (list_candidates (grp_id g) s))) (groups s)
     = [(''manual'', True, 0)]"
  if "s = run_registry (Update admin (sm_catalog demo_seams) ''g1'' ''auto-chat'' [] ''manual'' True) demo_registry"
  unfolding that by code_simp

end
