(* ===== verification/ModelRouter.thy ===== *)
theory ModelRouter
  imports RoutingRegistry
begin

text \<open>
  Serving a routed request.  First the playground's walk over a virtual model's attempts
  (\<open>playVirtualModel\<close> of \<open>services/infer/playground_model.go\<close>): \<open>serve\<close> is the attempt on one model
  (\<open>None\<close> is any error of \<open>playCandidate\<close>), and the decision is recorded in the registry.  Then the
  data plane's model router (\<open>pkg/modelrouter/router.go\<close>): its state is the provider-backed model set
  and whether it was ever loaded; \<open>decode\<close> is the JSON decoder of the request body (\<open>None\<close> for an
  error, the \<open>model\<close> member otherwise), and a refresh is given the control plane's answer.
\<close>

section \<open>The playground's failover walk\<close>

fun walk_attempts ::
  "(string \<Rightarrow> 'r option) \<Rightarrow> candidate list \<Rightarrow> (string \<rightharpoonup> string)
   \<Rightarrow> (string \<rightharpoonup> string) \<times> ('r \<times> string \<times> string) option" where
  "walk_attempts serve [] outcomes = (outcomes, None)"
| "walk_attempts serve (c # cs) outcomes =
     (case serve (cand_model c) of
        None \<Rightarrow> walk_attempts serve cs (outcomes(cand_model c \<mapsto> ''failed_retryable''))
      | Some r \<Rightarrow> (outcomes(cand_model c \<mapsto> ''served''), Some (r, cand_model c, cand_name c)))"

datatype play_error = RoutingFailed routing_error | ServiceNotFound

definition play_virtual_model ::
  "seams \<Rightarrow> (string \<Rightarrow> 'r option) \<Rightarrow> string \<Rightarrow> string \<Rightarrow> string \<Rightarrow> string \<Rightarrow> string \<Rightarrow> registry
   \<Rightarrow> (play_error + 'r \<times> string) \<times> registry" where
  "play_virtual_model sm serve rid nm prompt org key s =
     (case resolve_routing_group sm nm prompt org key s of
        Inl e \<Rightarrow> (Inl (RoutingFailed e), s)
      | Inr res \<Rightarrow>
          if attempts res = [] then (Inl ServiceNotFound, s)
          else (case walk_attempts serve (attempts res) Map.empty of
                  (outcomes, None) \<Rightarrow>
                    (Inl ServiceNotFound, record_decision res rid nm ([], []) outcomes s)
                | (outcomes, Some (r, m, served)) \<Rightarrow>
                    (Inr (r, served), record_decision res rid nm (m, served) outcomes s)))"

section \<open>The model router\<close>

record router =
  external :: "string list"
  loaded :: bool

definition new_router :: router where
  "new_router = \<lparr>external = [], loaded = False\<rparr>"

definition is_external :: "string \<Rightarrow> router \<Rightarrow> bool" where
  "is_external m r = (if \<not> loaded r then False else m \<in> set (external r))"

text \<open>The control plane's answer: \<open>None\<close> when unreachable, else the status and the decoded list.\<close>

type_synonym list_answer = "(int \<times> string list option) option"

definition model_set :: "string list \<Rightarrow> string list" where
  "model_set names = remdups (filter (\<lambda>n. n \<noteq> []) (map trim_space names))"

definition refresh :: "list_answer \<Rightarrow> router \<Rightarrow> bool \<times> router" where
  "refresh answer r =
     (case answer of
        None \<Rightarrow> (False, r)
      | Some (code, payload) \<Rightarrow>
          if code \<noteq> 200 then (False, r)
          else (case payload of
                  None \<Rightarrow> (False, r)
                | Some names \<Rightarrow> (True, r\<lparr>external := model_set names, loaded := True\<rparr>)))"

datatype routed = ToProvider string string | ToGateway string | Refused int string string

definition max_body_bytes :: nat where
  "max_body_bytes = 1048576"

text \<open>\<open>body\<close> is \<open>None\<close> when reading it fails; the reader stops at the limit without an error.\<close>

definition chat_handler :: "(string \<Rightarrow> string option) \<Rightarrow> string \<Rightarrow> string option \<Rightarrow> router \<Rightarrow> routed" where
  "chat_handler decode verb body r =
     (if verb \<noteq> ''POST'' then Refused 405 ''method_not_allowed'' ''method not allowed''
      else case body of
        None \<Rightarrow> Refused 400 ''invalid_body'' ''could not read request body''
      | Some full \<Rightarrow>
          (let b = take max_body_bytes full in
           case decode b of
             None \<Rightarrow> Refused 400 ''invalid_body'' ''request body is not a JSON object''
           | Some m \<Rightarrow>
               if m = [] then Refused 400 ''model_required'' ''model is required''
               else if is_external m r then ToProvider m b else ToGateway b))"

section \<open>The walk\<close>

definition failed :: "candidate list \<Rightarrow> string \<rightharpoonup> string" where
  "failed cs m = (if m \<in> cand_model ` set cs then Some ''failed_retryable'' else None)"

lemma failed_snoc: "(failed cs)(cand_model c \<mapsto> ''failed_retryable'') = failed (cs @ [c])"
  by (auto simp: failed_def)

lemma walk_failing:
  "\<forall>c\<in>set pre. serve (cand_model c) = None
   \<Longrightarrow> walk_attempts serve (pre @ cs) (failed done) = walk_attempts serve cs (failed (done @ pre))"
  by (induction pre arbitrary: "done") (auto simp: failed_snoc)

lemma failed_Nil [simp]: "failed [] = (\<lambda>m. None)"
  by (simp add: failed_def fun_eq_iff)

lemma walk_first:
  "\<forall>c\<in>set pre. serve (cand_model c) = None \<Longrightarrow> serve (cand_model d) = Some r
   \<Longrightarrow> walk_attempts serve (pre @ d # post) Map.empty
       = ((failed pre)(cand_model d \<mapsto> ''served''), Some (r, cand_model d, cand_name d))"
  using walk_failing [of pre serve "d # post" "[]"] by simp

lemma walk_all_fail:
  "\<forall>c\<in>set cs. serve (cand_model c) = None \<Longrightarrow> walk_attempts serve cs Map.empty = (failed cs, None)"
  using walk_failing [of cs serve "[]" "[]"] by simp

definition trail :: "string \<Rightarrow> candidate \<Rightarrow> string \<times> string \<times> string" where
  "trail outcome c = (cand_model c, cand_name c, outcome)"

lemma trail_of_walk:
  assumes "model_distinct (pre @ d # post)"
  shows "map (\<lambda>c. (cand_model c, cand_name c,
       attempt_outcome ((failed pre)(cand_model d \<mapsto> ''served'')) (cand_model c))) (pre @ d # post)
     = map (trail ''failed_retryable'') pre @ trail ''served'' d # map (trail ''not_attempted'') post"
  using assms
  by (auto simp: trail_def attempt_outcome_def failed_def model_distinct_def) (metis image_eqI)+

text \<open>A virtual model is served by its first attempt that works, and the decision log says so: the
  failed attempts before it, the served one, the untried rest and the skipped candidates, in order.\<close>

theorem playground_serves_first_working:
  assumes "s = fold run_registry ps empty_registry"
    and "resolve_routing_group sm nm prompt org key s = Inr res" "attempts res = pre @ d # post"
    and "\<forall>c\<in>set pre. serve (cand_model c) = None" "serve (cand_model d) = Some r"
  shows "\<exists>row. play_virtual_model sm serve rid nm prompt org key s
        = (Inr (r, cand_name d), s\<lparr>decisions := decisions s @ [row]\<rparr>)
     \<and> dec_selected row = (cand_model d, cand_name d)
     \<and> dec_candidates row = map (trail ''failed_retryable'') pre @ trail ''served'' d
           # map (trail ''not_attempted'') post @ skipped res"
proof -
  have "model_distinct (pre @ d # post)"
    using resolved_models_distinct [OF assms(1,2)] by (simp add: assms(3))
  note trail = trail_of_walk [OF this]
  have "play_virtual_model sm serve rid nm prompt org key s = (Inr (r, cand_name d),
      record_decision res rid nm (cand_model d, cand_name d) ((failed pre)(cand_model d \<mapsto> ''served'')) s)"
    using assms(2-5) by (simp add: play_virtual_model_def walk_first)
  then show ?thesis unfolding record_decision_def
    by (intro exI conjI, assumption)
       (simp_all only: decision_row.simps assms(3) trail append.assoc append_Cons)
qed

lemma demo_served:
  "attempts demo_attempts = [hd (attempts demo_attempts)] @ last (attempts demo_attempts) # []"
  by (simp add: demo_attempts_def)

theorem playground_serves_first_working_witness:
  "\<exists>row. play_virtual_model demo_seams (\<lambda>m. if m = ''a'' then Some ''hello'' else None) ''rq''
        '' auto-chat '' ''hi'' ''o2'' [] demo_registry
      = (Inr (''hello'', ''a''), demo_registry\<lparr>decisions := decisions demo_registry @ [row]\<rparr>)
     \<and> dec_candidates row = [(''b'', ''b'', ''failed_retryable''), (''a'', ''a'', ''served'')]"
  using playground_serves_first_working
    [OF demo_registry_def [unfolded demo_setup_def] demo_registry_resolves demo_served,
     of "\<lambda>m. if m = ''a'' then Some ''hello'' else None" "''hello''" "''rq''"]
  by (auto simp: demo_attempts_def trail_def)

section \<open>The router\<close>

text \<open>The specification: the models of the last good answer, if there was one.\<close>

definition good_answer :: "list_answer \<Rightarrow> string list option" where
  "good_answer a = (case a of Some (code, Some names) \<Rightarrow> if code = 200 then Some names else None | _ \<Rightarrow> None)"

fun last_good :: "list_answer list \<Rightarrow> string list option" where
  "last_good [] = None"
| "last_good (a # as) = (case last_good as of None \<Rightarrow> good_answer a | Some names \<Rightarrow> Some names)"

definition router_of :: "string list option \<Rightarrow> router" where
  "router_of known = (case known of None \<Rightarrow> new_router | Some names \<Rightarrow> \<lparr>external = model_set names, loaded = True\<rparr>)"

lemma refresh_good: "snd (refresh a r) = (case good_answer a of None \<Rightarrow> r | Some names \<Rightarrow> r\<lparr>external := model_set names, loaded := True\<rparr>)"
  by (auto simp: refresh_def good_answer_def split: option.splits prod.splits)

lemma router_history_from:
  "fold (\<lambda>a r. snd (refresh a r)) as r
     = (case last_good as of None \<Rightarrow> r | Some names \<Rightarrow> r\<lparr>external := model_set names, loaded := True\<rparr>)"
  by (induction "as" arbitrary: r) (auto simp: refresh_good split: option.splits)

text \<open>C27. The router only ever believes the control plane's last good answer: after any sequence of
  refreshes, failed ones included, a model goes to the provider proxy exactly when that answer named
  it; before the first good answer every model goes to the serving gateway, with the body as sent.\<close>

theorem router_follows_last_good_answer:
  assumes "length b \<le> max_body_bytes" "decode b = Some m" "m \<noteq> []"
  shows "chat_handler decode ''POST'' (Some b) (fold (\<lambda>a r. snd (refresh a r)) as new_router)
     = (case last_good as of
          None \<Rightarrow> ToGateway b
        | Some names \<Rightarrow> if \<exists>n\<in>set names. trim_space n = m then ToProvider m b else ToGateway b)"
  using assms
  by (auto simp: chat_handler_def router_history_from new_router_def is_external_def model_set_def
      split: option.splits)

theorem router_follows_last_good_answer_witness:
  "chat_handler Some ''POST'' (Some ''gpt'') (fold (\<lambda>a r. snd (refresh a r))
     [Some (200, Some ['' gpt '']), None, Some (503, None)] new_router) = ToProvider ''gpt'' ''gpt''"
proof -
  have "trim_space '' gpt '' = ''gpt''" by code_simp
  then show ?thesis
    using router_follows_last_good_answer [of "''gpt''" Some "''gpt''"
        "[Some (200, Some ['' gpt '']), None, Some (503, None)]"]
    by (simp add: max_body_bytes_def good_answer_def)
qed

text \<open>
  A body longer than the limit is cut, not refused as too large: when the decoder rejects the cut text,
  as a JSON decoder does for an unfinished object, the caller is told that the body is not JSON.
\<close>

lemma long_body_is_malformed:
  "decode (take max_body_bytes b) = None
   \<Longrightarrow> chat_handler decode ''POST'' (Some b) r = Refused 400 ''invalid_body'' ''request body is not a JSON object''"
  by (simp add: chat_handler_def)

end
