(* ===== verification/Tenancy.thy ===== *)
theory Tenancy
  imports GoJson
begin

text \<open>
  Tenancy (\<open>src/services/tenancy\<close>): organizations, projects, their rosters, invitations, join requests and
  quotas.  A request is one handler of \<open>service.go\<close>, \<open>membership_service.go\<close>,
  \<open>project_membership_service.go\<close>, \<open>join_request_service.go\<close> or one of the quota services; it answers an error
  or none and leaves the tables.  Requests run one after the other.  Columns of type \<open>uuid\<close> hold any text, reads
  succeed, and each write of a request succeeds or fails on its own.
\<close>

section \<open>Roles\<close>

datatype role = RoleNone | RoleViewer | RoleMember | RoleAdmin | RoleOwner | RolePlatformAdmin

fun role_rank :: "role \<Rightarrow> nat" where
  "role_rank RoleNone = 0"
| "role_rank RoleViewer = 0"
| "role_rank RoleMember = 1"
| "role_rank RoleAdmin = 2"
| "role_rank RoleOwner = 3"
| "role_rank RolePlatformAdmin = 3"

text \<open>Roles are compared by rank, a preorder: an owner and a platform administrator rank alike.\<close>

instantiation role :: preorder
begin

definition less_eq_role :: "role \<Rightarrow> role \<Rightarrow> bool" where
  "less_eq_role r s = (role_rank r \<le> role_rank s)"

definition less_role :: "role \<Rightarrow> role \<Rightarrow> bool" where
  "less_role r s = (role_rank r < role_rank s)"

instance by standard (auto simp: less_eq_role_def less_role_def)

end

definition assignable_role :: "string \<Rightarrow> role option" where
  "assignable_role s =
     (if s = ''admin'' then Some RoleAdmin else if s = ''member'' then Some RoleMember
      else if s = ''viewer'' then Some RoleViewer else None)"

section \<open>Tables\<close>

datatype lifecycle = StateActive | StateDisabled

record quota_limits =
  ql_concurrent :: int
  ql_batch :: int
  ql_output :: int
  ql_spend :: int

definition no_limits :: quota_limits where
  "no_limits = \<lparr>ql_concurrent = 0, ql_batch = 0, ql_output = 0, ql_spend = 0\<rparr>"

text \<open>The spend column of an organization's quota is never written: the account has it.\<close>

record organization =
  og_id :: string
  og_name :: string
  og_description :: string
  og_state :: lifecycle
  og_quota :: quota_limits
  og_quota_by :: string
  og_quota_at :: "int option"

record project =
  pj_id :: string
  pj_org :: string
  pj_name :: string
  pj_description :: string
  pj_state :: lifecycle
  pj_quota :: quota_limits
  pj_quota_by :: string
  pj_quota_at :: "int option"

record org_member =
  om_org :: string
  om_user :: string
  om_role :: role
  om_joined :: int

record project_member =
  pm_project :: string
  pm_user :: string
  pm_role :: role
  pm_joined :: int
  pm_quota :: quota_limits
  pm_quota_by :: string
  pm_quota_at :: "int option"

datatype invitation_status = InvitationPending | InvitationAccepted | InvitationRejected | InvitationRevoked

record invitation =
  iv_id :: string
  iv_org :: string
  iv_email :: string
  iv_role :: role
  iv_hash :: string
  iv_status :: invitation_status
  iv_expires :: int
  iv_created_by :: string

datatype join_target = JoinOrganization string | JoinProject string

datatype join_status = JoinPending | JoinApproved | JoinRejected

record join_request =
  jr_id :: string
  jr_user :: string
  jr_target :: join_target
  jr_status :: join_status
  jr_message :: string
  jr_decided_by :: string
  jr_decided_at :: int

record user_quota =
  uq_org :: string
  uq_user :: string
  uq_limits :: quota_limits
  uq_by :: string
  uq_at :: "int option"

record tenancy_db =
  organizations :: "organization list"
  projects :: "project list"
  org_members :: "org_member list"
  project_members :: "project_member list"
  invitations :: "invitation list"
  join_requests :: "join_request list"
  user_quotas :: "user_quota list"

definition empty_tenancy :: tenancy_db where
  "empty_tenancy = \<lparr>organizations = [], projects = [], org_members = [], project_members = [], invitations = [],
     join_requests = [], user_quotas = []\<rparr>"

definition platform_org :: string where
  "platform_org = ''platform''"

section \<open>Repositories\<close>

definition find_organization :: "string \<Rightarrow> tenancy_db \<Rightarrow> organization option" where
  "find_organization oid d = find (\<lambda>og. og_id og = oid) (organizations d)"

definition find_project :: "string \<Rightarrow> tenancy_db \<Rightarrow> project option" where
  "find_project pid d = find (\<lambda>p. pj_id p = pid) (projects d)"

definition find_member :: "string \<Rightarrow> string \<Rightarrow> tenancy_db \<Rightarrow> org_member option" where
  "find_member oid u d = find (\<lambda>m. om_org m = oid \<and> om_user m = u) (org_members d)"

definition find_project_member :: "string \<Rightarrow> string \<Rightarrow> tenancy_db \<Rightarrow> project_member option" where
  "find_project_member pid u d = find (\<lambda>m. pm_project m = pid \<and> pm_user m = u) (project_members d)"

definition find_user_quota :: "string \<Rightarrow> string \<Rightarrow> tenancy_db \<Rightarrow> user_quota option" where
  "find_user_quota oid u d = find (\<lambda>q. uq_org q = oid \<and> uq_user q = u) (user_quotas d)"

section \<open>Requests\<close>

datatype tenancy_error =
    CodeForbidden | CodeSessionInvalid | CodeTenancyInvalid | CodeOrganizationExists | CodeOrganizationNotFound
  | CodeOrganizationProtected | CodeOrganizationInUse | CodeOrganizationDisabled | CodeProjectExists
  | CodeProjectNotFound | CodeMemberExists | CodeMemberNotFound | CodeOwnerProtected | CodeRoleInvalid
  | CodeUserNotFound | CodeInvitationExists | CodeInvitationNotFound | CodeInvitationExpired
  | CodeQuotaInvalid | CodeQuotaNotFound | CodeInternal

text \<open>
  What one request meets: the session's user, e-mail, platform role and organization (an error when there
  is none), the user directory, clock, generated ids and token, which of its writes succeed, and how many
  live keys and services an organization has in the other services.
\<close>

record tenancy_call =
  tc_user :: "tenancy_error + string"
  tc_email :: "tenancy_error + string"
  tc_platform :: "tenancy_error + bool"
  tc_active_org :: "tenancy_error + string"
  tc_resolve :: "string \<Rightarrow> tenancy_error + string"
  tc_is_uuid :: "string \<Rightarrow> bool"
  tc_now :: int
  tc_id :: string
  tc_token :: string
  tc_ttl :: int
  tc_up :: "nat \<Rightarrow> bool"
  tc_in_use :: "string \<Rightarrow> int \<times> int"

type_synonym outcome = "tenancy_error option \<times> tenancy_db"

definition refuse_if :: "bool \<Rightarrow> tenancy_error \<Rightarrow> tenancy_error option" where
  "refuse_if b e = (if b then Some e else None)"

definition guarded :: "tenancy_error option \<Rightarrow> tenancy_db \<Rightarrow> outcome \<Rightarrow> outcome" where
  "guarded guard d k = (case guard of Some e \<Rightarrow> (Some e, d) | None \<Rightarrow> k)"

text \<open>The \<open>i\<close>-th write of a request: an error of the database ends it.\<close>

definition writes :: "tenancy_call \<Rightarrow> nat \<Rightarrow> tenancy_db \<Rightarrow> outcome \<Rightarrow> outcome" where
  "writes c i d k = guarded (refuse_if (\<not> tc_up c i) CodeInternal) d k"

section \<open>Who may do what\<close>

definition caller_is_platform_admin :: "tenancy_call \<Rightarrow> bool" where
  "caller_is_platform_admin c = (tc_platform c = Inr True)"

definition resolve_member_role :: "string \<Rightarrow> string \<Rightarrow> tenancy_db \<Rightarrow> role" where
  "resolve_member_role oid u d = (case find_member oid u d of None \<Rightarrow> RoleNone | Some m \<Rightarrow> om_role m)"

definition resolve_role :: "tenancy_call \<Rightarrow> string \<Rightarrow> string \<Rightarrow> tenancy_db \<Rightarrow> role" where
  "resolve_role c oid u d = (case find_member oid u d of
      Some m \<Rightarrow> om_role m
    | None \<Rightarrow> if tc_platform c = Inr True then RolePlatformAdmin else RoleNone)"

definition require_role :: "tenancy_call \<Rightarrow> string \<Rightarrow> string \<Rightarrow> role \<Rightarrow> tenancy_db \<Rightarrow> tenancy_error option" where
  "require_role c oid u least d = refuse_if (resolve_role c oid u d < least) CodeForbidden"

definition require_member_role :: "string \<Rightarrow> string \<Rightarrow> role \<Rightarrow> tenancy_db \<Rightarrow> tenancy_error option" where
  "require_member_role oid u least d = refuse_if (resolve_member_role oid u d < least) CodeForbidden"

definition require_admin_or_owner :: "tenancy_call \<Rightarrow> string \<Rightarrow> tenancy_db \<Rightarrow> tenancy_error option" where
  "require_admin_or_owner c oid d =
     (case tc_user c of Inl e \<Rightarrow> Some e | Inr u \<Rightarrow> require_role c oid u RoleAdmin d)"

definition require_org_admin_or_platform :: "tenancy_call \<Rightarrow> string \<Rightarrow> tenancy_db \<Rightarrow> tenancy_error option" where
  "require_org_admin_or_platform c oid d =
     (if caller_is_platform_admin c then None else require_admin_or_owner c oid d)"

definition require_org_admin_write :: "tenancy_call \<Rightarrow> string \<Rightarrow> tenancy_db \<Rightarrow> tenancy_error option" where
  "require_org_admin_write c oid d =
     (case tc_user c of Inl e \<Rightarrow> Some e | Inr u \<Rightarrow> require_member_role oid u RoleAdmin d)"

definition require_roster_admin :: "tenancy_call \<Rightarrow> string \<Rightarrow> tenancy_db \<Rightarrow> tenancy_error option" where
  "require_roster_admin c oid d =
     (case tc_platform c of
        Inl e \<Rightarrow> Some e
      | Inr True \<Rightarrow> None
      | Inr False \<Rightarrow> require_admin_or_owner c oid d)"

definition require_project_admin :: "tenancy_call \<Rightarrow> string \<Rightarrow> tenancy_db \<Rightarrow> tenancy_error option" where
  "require_project_admin c pid d =
     (case find_project pid d of
        None \<Rightarrow> Some CodeProjectNotFound
      | Some p \<Rightarrow>
          (case tc_user c of
             Inl e \<Rightarrow> Some e
           | Inr u \<Rightarrow>
               if require_member_role (pj_org p) u RoleAdmin d = None then None
               else case find_project_member pid u d of
                 Some m \<Rightarrow> refuse_if (pm_role m \<noteq> RoleAdmin) CodeForbidden
               | None \<Rightarrow> Some CodeForbidden))"

definition require_target_admin :: "tenancy_call \<Rightarrow> join_target \<Rightarrow> tenancy_db \<Rightarrow> tenancy_error option" where
  "require_target_admin c t d =
     (case t of JoinOrganization oid \<Rightarrow> require_admin_or_owner c oid d | JoinProject pid \<Rightarrow> require_project_admin c pid d)"

section \<open>Organizations and projects\<close>

text \<open>\<open>^[a-z0-9][a-z0-9-]{2,63}$\<close>\<close>

definition id_char :: "char \<Rightarrow> bool" where
  "id_char ch = (97 \<le> byte ch \<and> byte ch \<le> 122 \<or> is_digit ch)"

definition valid_tenancy_id :: "string \<Rightarrow> bool" where
  "valid_tenancy_id s =
     (3 \<le> length s \<and> length s \<le> 64 \<and> id_char (hd s) \<and> list_all (\<lambda>ch. id_char ch \<or> ch = CHR ''-'') s)"

definition valid_texts :: "string \<Rightarrow> string \<Rightarrow> bool" where
  "valid_texts name desc = (1 \<le> length (trim_space name) \<and> length (trim_space name) \<le> 128 \<and> length desc \<le> 1024)"

definition requested_id :: "tenancy_call \<Rightarrow> string \<Rightarrow> string" where
  "requested_id c s = (if trim_space s = [] then tc_id c else trim_space s)"

definition new_organization :: "string \<Rightarrow> string \<Rightarrow> string \<Rightarrow> organization" where
  "new_organization oid name desc = \<lparr>og_id = oid, og_name = name, og_description = desc, og_state = StateActive,
     og_quota = no_limits, og_quota_by = [], og_quota_at = None\<rparr>"

definition create_organization :: "tenancy_call \<Rightarrow> string \<Rightarrow> string \<Rightarrow> string \<Rightarrow> tenancy_db \<Rightarrow> outcome" where
  "create_organization c s name desc d =
     (let oid = requested_id c s in
      guarded (refuse_if (\<not> caller_is_platform_admin c) CodeForbidden) d (
      guarded (refuse_if (\<not> valid_tenancy_id oid \<or> \<not> valid_texts name desc) CodeTenancyInvalid) d (
      guarded (refuse_if (find_organization oid d \<noteq> None) CodeOrganizationExists) d (
      writes c 0 d
        (None, d\<lparr>organizations := organizations d @ [new_organization oid (trim_space name) desc]\<rparr>)))))"

definition update_org_row :: "string \<Rightarrow> (organization \<Rightarrow> organization) \<Rightarrow> tenancy_db \<Rightarrow> tenancy_db" where
  "update_org_row oid f d = d\<lparr>organizations := update_where (\<lambda>og. og_id og = oid) f (organizations d)\<rparr>"

definition update_organization :: "tenancy_call \<Rightarrow> string \<Rightarrow> string \<Rightarrow> string \<Rightarrow> tenancy_db \<Rightarrow> outcome" where
  "update_organization c oid name desc d =
     guarded (refuse_if (\<not> valid_texts name desc) CodeTenancyInvalid) d (
     guarded (require_org_admin_or_platform c oid d) d (
     writes c 0 d (
     guarded (refuse_if (find_organization oid d = None) CodeOrganizationNotFound) d
       (None, update_org_row oid (\<lambda>og. og\<lparr>og_name := trim_space name, og_description := desc\<rparr>) d))))"

text \<open>\<open>DisableOrganization\<close> and \<open>EnableOrganization\<close>.\<close>

definition set_organization_state :: "tenancy_call \<Rightarrow> string \<Rightarrow> lifecycle \<Rightarrow> tenancy_db \<Rightarrow> outcome" where
  "set_organization_state c oid st d =
     writes c 0 d (
     guarded (refuse_if (find_organization oid d = None) CodeOrganizationNotFound) d
       (None, update_org_row oid (\<lambda>og. og\<lparr>og_state := st\<rparr>) d))"

definition project_ids :: "string \<Rightarrow> tenancy_db \<Rightarrow> string set" where
  "project_ids oid d = pj_id ` set (filter (\<lambda>p. pj_org p = oid) (projects d))"

text \<open>The rows both deletes remove; the requests to join its projects go only with the plain one.\<close>

definition delete_organization_rows :: "string \<Rightarrow> tenancy_db \<Rightarrow> tenancy_db" where
  "delete_organization_rows oid d =
     d\<lparr>organizations := filter (\<lambda>og. og_id og \<noteq> oid) (organizations d),
       projects := filter (\<lambda>p. pj_org p \<noteq> oid) (projects d),
       project_members := filter (\<lambda>m. pm_project m \<notin> project_ids oid d) (project_members d),
       org_members := filter (\<lambda>m. om_org m \<noteq> oid) (org_members d),
       invitations := filter (\<lambda>v. iv_org v \<noteq> oid) (invitations d),
       join_requests := filter (\<lambda>j. jr_target j \<noteq> JoinOrganization oid) (join_requests d)\<rparr>"

definition delete_project_requests :: "string set \<Rightarrow> tenancy_db \<Rightarrow> tenancy_db" where
  "delete_project_requests pids d =
     d\<lparr>join_requests := filter (\<lambda>j. case jr_target j of JoinProject pid \<Rightarrow> pid \<notin> pids | JoinOrganization oid \<Rightarrow> True)
       (join_requests d)\<rparr>"

definition delete_organization :: "tenancy_call \<Rightarrow> string \<Rightarrow> bool \<Rightarrow> tenancy_db \<Rightarrow> outcome" where
  "delete_organization c s force d =
     (let oid = trim_space s in
      guarded (refuse_if (\<not> caller_is_platform_admin c) CodeForbidden) d (
      guarded (refuse_if (oid = []) CodeTenancyInvalid) d (
      guarded (refuse_if (oid = platform_org) CodeOrganizationProtected) d (
      guarded (refuse_if (find_organization oid d = None) CodeOrganizationNotFound) d (
      guarded (refuse_if (\<not> force \<and> (0 < fst (tc_in_use c oid) \<or> 0 < snd (tc_in_use c oid))) CodeOrganizationInUse) d (
      writes c 0 d
        (None, delete_organization_rows oid (if force then d else delete_project_requests (project_ids oid d) d))))))))"

definition create_project :: "tenancy_call \<Rightarrow> string \<Rightarrow> string \<Rightarrow> string \<Rightarrow> string \<Rightarrow> tenancy_db \<Rightarrow> outcome" where
  "create_project c s org name desc d =
     (let pid = requested_id c s; oid = trim_space org in
      guarded (refuse_if (\<not> valid_tenancy_id pid \<or> oid = []) CodeTenancyInvalid) d (
      guarded (require_org_admin_write c oid d) d (
      guarded (refuse_if (\<not> valid_texts name desc) CodeTenancyInvalid) d (
      guarded (case find_organization oid d of
               None \<Rightarrow> Some CodeOrganizationNotFound
             | Some og \<Rightarrow> refuse_if (og_state og \<noteq> StateActive) CodeOrganizationDisabled) d (
      guarded (refuse_if (find_project pid d \<noteq> None) CodeProjectExists) d (
      writes c 0 d
        (None, d\<lparr>projects := projects d @ [\<lparr>pj_id = pid, pj_org = oid, pj_name = trim_space name,
           pj_description = desc, pj_state = StateActive, pj_quota = no_limits, pj_quota_by = [], pj_quota_at = None\<rparr>]\<rparr>)))))))"

definition update_project_row :: "string \<Rightarrow> (project \<Rightarrow> project) \<Rightarrow> tenancy_db \<Rightarrow> tenancy_db" where
  "update_project_row pid f d = d\<lparr>projects := update_where (\<lambda>p. pj_id p = pid) f (projects d)\<rparr>"

text \<open>The check that a write to the project of this id starts with.\<close>

definition with_project ::
  "string \<Rightarrow> tenancy_db \<Rightarrow> (project \<Rightarrow> outcome) \<Rightarrow> outcome" where
  "with_project pid d k = (case find_project pid d of None \<Rightarrow> (Some CodeProjectNotFound, d) | Some p \<Rightarrow> k p)"

definition update_project :: "tenancy_call \<Rightarrow> string \<Rightarrow> string \<Rightarrow> string \<Rightarrow> tenancy_db \<Rightarrow> outcome" where
  "update_project c pid name desc d =
     guarded (refuse_if (\<not> valid_texts name desc) CodeTenancyInvalid) d (
     with_project pid d (\<lambda>p.
     guarded (require_org_admin_write c (pj_org p) d) d (
     writes c 0 d (None, update_project_row pid (\<lambda>q. q\<lparr>pj_name := trim_space name, pj_description := desc\<rparr>) d))))"

definition disable_project :: "tenancy_call \<Rightarrow> string \<Rightarrow> tenancy_db \<Rightarrow> outcome" where
  "disable_project c pid d =
     with_project pid d (\<lambda>p.
     guarded (require_org_admin_write c (pj_org p) d) d (
     writes c 0 d (None, update_project_row pid (\<lambda>q. q\<lparr>pj_state := StateDisabled\<rparr>) d)))"

definition enable_project :: "tenancy_call \<Rightarrow> string \<Rightarrow> tenancy_db \<Rightarrow> outcome" where
  "enable_project c pid d =
     with_project pid d (\<lambda>p.
     guarded (require_org_admin_write c (pj_org p) d) d (
     guarded (case find_organization (pj_org p) d of
              None \<Rightarrow> Some CodeOrganizationNotFound
            | Some og \<Rightarrow> refuse_if (og_state og \<noteq> StateActive) CodeOrganizationDisabled) d (
     writes c 0 d (None, update_project_row pid (\<lambda>q. q\<lparr>pj_state := StateActive\<rparr>) d))))"

definition delete_project :: "tenancy_call \<Rightarrow> string \<Rightarrow> tenancy_db \<Rightarrow> outcome" where
  "delete_project c s d =
     (let pid = trim_space s in
      guarded (refuse_if (pid = []) CodeProjectNotFound) d (
      with_project pid d (\<lambda>p.
      guarded (require_org_admin_or_platform c (pj_org p) d) d (
      writes c 0 d
        (None, (delete_project_requests {pid} d)\<lparr>project_members := filter (\<lambda>m. pm_project m \<noteq> pid) (project_members d),
           projects := filter (\<lambda>q. pj_id q \<noteq> pid) (projects d)\<rparr>)))))"

section \<open>Rosters\<close>

definition then_do :: "outcome \<Rightarrow> (tenancy_db \<Rightarrow> outcome) \<Rightarrow> outcome" where
  "then_do r k = guarded (fst r) (snd r) (k (snd r))"

text \<open>A lookup in a \<open>uuid\<close> column fails for a text that is no uuid.\<close>

definition uuid_lookup :: "tenancy_call \<Rightarrow> string \<Rightarrow> tenancy_error option" where
  "uuid_lookup c s = refuse_if (\<not> tc_is_uuid c s) CodeInternal"

definition real_org_memberships :: "org_member list \<Rightarrow> org_member list" where
  "real_org_memberships ms = filter (\<lambda>m. om_org m \<noteq> platform_org) ms"

definition list_member_orgs :: "string \<Rightarrow> tenancy_db \<Rightarrow> org_member list" where
  "list_member_orgs u d = filter (\<lambda>m. om_user m = u) (org_members d)"

definition list_member_projects :: "string \<Rightarrow> tenancy_db \<Rightarrow> project_member list" where
  "list_member_projects u d = filter (\<lambda>m. pm_user m = u) (project_members d)"

definition owned_org_ids :: "string \<Rightarrow> string \<Rightarrow> tenancy_db \<Rightarrow> string list" where
  "owned_org_ids u oid d = map om_org (filter (\<lambda>m. om_role m = RoleOwner \<and> om_org m \<noteq> oid)
     (real_org_memberships (list_member_orgs u d)))"

definition clear_other_orgs :: "string \<Rightarrow> string \<Rightarrow> tenancy_db \<Rightarrow> tenancy_db" where
  "clear_other_orgs oid u d =
     d\<lparr>org_members := filter (\<lambda>m. \<not> (om_user m = u \<and> om_org m \<noteq> oid \<and> om_org m \<noteq> platform_org)) (org_members d),
       project_members := filter (\<lambda>m. \<not> (pm_user m = u
         \<and> (\<exists>p\<in>set (projects d). pj_id p = pm_project m \<and> pj_org p \<noteq> oid))) (project_members d)\<rparr>"

definition move_user_to_org :: "tenancy_call \<Rightarrow> string \<Rightarrow> string \<Rightarrow> tenancy_db \<Rightarrow> outcome" where
  "move_user_to_org c oid u d =
     (if oid = [] \<or> u = [] then (None, d)
      else guarded (refuse_if (owned_org_ids u oid d \<noteq> []) CodeOwnerProtected) d
        (writes c 0 d (None, clear_other_orgs oid u d)))"

definition add_member :: "tenancy_call \<Rightarrow> nat \<Rightarrow> org_member \<Rightarrow> tenancy_db \<Rightarrow> outcome" where
  "add_member c i m d =
     writes c i d (
     guarded (refuse_if (find_member (om_org m) (om_user m) d \<noteq> None) CodeMemberExists) d
       (None, d\<lparr>org_members := org_members d @ [m]\<rparr>))"

definition joined_at :: "tenancy_call \<Rightarrow> int" where
  "joined_at c = tc_now c div 1000000000"

definition org_row :: "string \<Rightarrow> string \<Rightarrow> role \<Rightarrow> tenancy_call \<Rightarrow> org_member" where
  "org_row oid u r c = \<lparr>om_org = oid, om_user = u, om_role = r, om_joined = joined_at c\<rparr>"

definition project_row :: "string \<Rightarrow> string \<Rightarrow> role \<Rightarrow> tenancy_call \<Rightarrow> project_member" where
  "project_row pid u r c = \<lparr>pm_project = pid, pm_user = u, pm_role = r, pm_joined = joined_at c,
     pm_quota = no_limits, pm_quota_by = [], pm_quota_at = None\<rparr>"

text \<open>The user and the role a roster request names.\<close>

definition named_member :: "tenancy_call \<Rightarrow> string \<Rightarrow> string \<Rightarrow> tenancy_error + string \<times> role" where
  "named_member c who what =
     (if trim_space who = [] then Inl CodeUserNotFound
      else case assignable_role (trim_space what) of
        None \<Rightarrow> Inl CodeRoleInvalid
      | Some r \<Rightarrow> (case tc_resolve c (trim_space who) of Inl e \<Rightarrow> Inl e | Inr u \<Rightarrow> Inr (u, r)))"

definition add_org_member :: "tenancy_call \<Rightarrow> string \<Rightarrow> string \<Rightarrow> string \<Rightarrow> tenancy_db \<Rightarrow> outcome" where
  "add_org_member c oid who what d =
     guarded (require_roster_admin c oid d) d (
     case named_member c who what of
       Inl e \<Rightarrow> (Some e, d)
     | Inr (u, r) \<Rightarrow>
         guarded (refuse_if (find_member oid u d \<noteq> None) CodeMemberExists) d (
         then_do (move_user_to_org c oid u d) (add_member c 1 (org_row oid u r c))))"

definition set_member_role :: "string \<Rightarrow> string \<Rightarrow> role \<Rightarrow> tenancy_db \<Rightarrow> tenancy_db" where
  "set_member_role oid u r d =
     d\<lparr>org_members := update_where (\<lambda>m. om_org m = oid \<and> om_user m = u) (\<lambda>m. m\<lparr>om_role := r\<rparr>) (org_members d)\<rparr>"

definition remove_member :: "string \<Rightarrow> string \<Rightarrow> tenancy_db \<Rightarrow> tenancy_db" where
  "remove_member oid u d = d\<lparr>org_members := filter (\<lambda>m. \<not> (om_org m = oid \<and> om_user m = u)) (org_members d)\<rparr>"

definition member_editable :: "tenancy_call \<Rightarrow> string \<Rightarrow> string \<Rightarrow> tenancy_db \<Rightarrow> tenancy_error option" where
  "member_editable c oid u d =
     (if \<not> tc_is_uuid c u then Some CodeInternal
      else case find_member oid u d of
        None \<Rightarrow> Some CodeMemberNotFound
      | Some m \<Rightarrow> refuse_if (om_role m = RoleOwner) CodeOwnerProtected)"

definition set_org_member_role :: "tenancy_call \<Rightarrow> string \<Rightarrow> string \<Rightarrow> string \<Rightarrow> tenancy_db \<Rightarrow> outcome" where
  "set_org_member_role c oid u what d =
     guarded (require_roster_admin c oid d) d (
     case assignable_role (trim_space what) of
       None \<Rightarrow> (Some CodeRoleInvalid, d)
     | Some r \<Rightarrow> guarded (member_editable c oid u d) d (writes c 0 d (None, set_member_role oid u r d)))"

definition remove_org_member :: "tenancy_call \<Rightarrow> string \<Rightarrow> string \<Rightarrow> tenancy_db \<Rightarrow> outcome" where
  "remove_org_member c oid u d =
     guarded (require_roster_admin c oid d) d (
     guarded (member_editable c oid u d) d (writes c 0 d (None, remove_member oid u d)))"

definition move_user_to_project :: "tenancy_call \<Rightarrow> string \<Rightarrow> string \<Rightarrow> tenancy_db \<Rightarrow> outcome" where
  "move_user_to_project c pid u d =
     (if pid = [] \<or> u = [] then (None, d)
      else writes c 0 d (None, d\<lparr>project_members := filter (\<lambda>m. \<not> (pm_user m = u \<and> pm_project m \<noteq> pid)) (project_members d)\<rparr>))"

definition insert_project_member :: "tenancy_call \<Rightarrow> nat \<Rightarrow> project_member \<Rightarrow> tenancy_db \<Rightarrow> outcome" where
  "insert_project_member c i m d =
     writes c i d (
     guarded (refuse_if (find_project_member (pm_project m) (pm_user m) d \<noteq> None) CodeMemberExists) d
       (None, d\<lparr>project_members := project_members d @ [m]\<rparr>))"

definition add_project_member :: "tenancy_call \<Rightarrow> string \<Rightarrow> string \<Rightarrow> string \<Rightarrow> tenancy_db \<Rightarrow> outcome" where
  "add_project_member c pid who what d =
     guarded (require_project_admin c pid d) d (
     case named_member c who what of
       Inl e \<Rightarrow> (Some e, d)
     | Inr (u, r) \<Rightarrow>
         then_do (move_user_to_project c pid u d) (insert_project_member c 1 (project_row pid u r c)))"

definition update_project_member :: "string \<Rightarrow> string \<Rightarrow> (project_member \<Rightarrow> project_member) \<Rightarrow> tenancy_db \<Rightarrow> tenancy_db" where
  "update_project_member pid u f d =
     d\<lparr>project_members := update_where (\<lambda>m. pm_project m = pid \<and> pm_user m = u) f (project_members d)\<rparr>"

definition project_member_known :: "tenancy_call \<Rightarrow> string \<Rightarrow> string \<Rightarrow> tenancy_error \<Rightarrow> tenancy_db \<Rightarrow> tenancy_error option" where
  "project_member_known c pid u missing d =
     (if \<not> tc_is_uuid c u then Some CodeInternal else refuse_if (find_project_member pid u d = None) missing)"

definition set_project_member_role :: "tenancy_call \<Rightarrow> string \<Rightarrow> string \<Rightarrow> string \<Rightarrow> tenancy_db \<Rightarrow> outcome" where
  "set_project_member_role c pid u what d =
     guarded (require_project_admin c pid d) d (
     case assignable_role (trim_space what) of
       None \<Rightarrow> (Some CodeRoleInvalid, d)
     | Some r \<Rightarrow>
         guarded (project_member_known c pid u CodeMemberNotFound d) d (
         writes c 0 d (None, update_project_member pid u (\<lambda>m. m\<lparr>pm_role := r\<rparr>) d)))"

definition remove_project_member :: "tenancy_call \<Rightarrow> string \<Rightarrow> string \<Rightarrow> tenancy_db \<Rightarrow> outcome" where
  "remove_project_member c pid u d =
     guarded (require_project_admin c pid d) d (
     guarded (project_member_known c pid u CodeMemberNotFound d) d (
     writes c 0 d
       (None, d\<lparr>project_members := filter (\<lambda>m. \<not> (pm_project m = pid \<and> pm_user m = u)) (project_members d)\<rparr>)))"

section \<open>Invitations\<close>

text \<open>\<open>^[^@\s]+@[^@\s]+\.[^@\s]+$\<close>: one at sign, no white space, and a dot inside what follows the sign.\<close>

definition email_shape :: "string \<Rightarrow> bool" where
  "email_shape s =
     (list_all (\<lambda>ch. \<not> is_space ch \<or> ch = CHR 0x0B) s
      \<and> (case split_at CHR ''@'' s of
           [l, r] \<Rightarrow> l \<noteq> [] \<and> CHR ''.'' \<in> set (butlast (tl r))
         | _ \<Rightarrow> False))"

definition find_invitation :: "string \<Rightarrow> tenancy_db \<Rightarrow> invitation option" where
  "find_invitation vid d = find (\<lambda>v. iv_id v = vid) (invitations d)"

definition find_invitation_by_hash :: "string \<Rightarrow> tenancy_db \<Rightarrow> invitation option" where
  "find_invitation_by_hash h d = find (\<lambda>v. iv_hash v = h) (invitations d)"

definition update_invitation :: "string \<Rightarrow> (invitation \<Rightarrow> invitation) \<Rightarrow> tenancy_db \<Rightarrow> tenancy_db" where
  "update_invitation vid f d = d\<lparr>invitations := update_where (\<lambda>v. iv_id v = vid) f (invitations d)\<rparr>"

definition set_invitation_status :: "string \<Rightarrow> invitation_status \<Rightarrow> tenancy_db \<Rightarrow> tenancy_db" where
  "set_invitation_status vid st = update_invitation vid (\<lambda>v. v\<lparr>iv_status := st\<rparr>)"

definition pending_invitation_exists :: "string \<Rightarrow> string \<Rightarrow> tenancy_db \<Rightarrow> bool" where
  "pending_invitation_exists oid email d =
     (\<exists>v\<in>set (invitations d). iv_org v = oid \<and> iv_email v = email \<and> iv_status v = InvitationPending)"

text \<open>Times are nanoseconds; a lifetime in seconds is multiplied as a 64-bit integer.\<close>

definition create_invitation ::
  "(string \<Rightarrow> string) \<Rightarrow> tenancy_call \<Rightarrow> string \<Rightarrow> string \<Rightarrow> string \<Rightarrow> int \<Rightarrow> tenancy_db \<Rightarrow> outcome" where
  "create_invitation digest c oid email what expires_in d =
     guarded (require_roster_admin c oid d) d (
     case assignable_role (trim_space what) of
       None \<Rightarrow> (Some CodeRoleInvalid, d)
     | Some r \<Rightarrow>
         guarded (refuse_if (\<not> email_shape (trim_space email) \<or> expires_in < 0) CodeRoleInvalid) d (
         guarded (refuse_if (pending_invitation_exists oid (trim_space email) d) CodeInvitationExists) d (
         guarded (uuid_lookup c oid) d (
         writes c 0 d (
         let v = \<lparr>iv_id = tc_id c, iv_org = oid, iv_email = trim_space email, iv_role = r,
                iv_hash = digest (tc_token c), iv_status = InvitationPending,
                iv_expires = (tc_now c + (if 0 < expires_in then wrap64 (expires_in * 1000000000) else tc_ttl c)) div 1000000000,
                iv_created_by = oid\<rparr>
         in guarded (refuse_if (find_invitation (iv_id v) d \<noteq> None \<or> find_invitation_by_hash (iv_hash v) d \<noteq> None)
                CodeInvitationExists) d
              (None, d\<lparr>invitations := invitations d @ [v]\<rparr>))))))"

definition pending_invitation :: "invitation option \<Rightarrow> tenancy_error + invitation" where
  "pending_invitation v = (case v of
      None \<Rightarrow> Inl CodeInvitationNotFound
    | Some w \<Rightarrow> if iv_status w = InvitationPending then Inr w else Inl CodeInvitationNotFound)"

definition revoke_invitation :: "tenancy_call \<Rightarrow> string \<Rightarrow> tenancy_db \<Rightarrow> outcome" where
  "revoke_invitation c vid d =
     guarded (uuid_lookup c vid) d (
     case pending_invitation (find_invitation vid d) of
       Inl e \<Rightarrow> (Some e, d)
     | Inr v \<Rightarrow>
         guarded (require_roster_admin c (iv_org v) d) d (
         writes c 0 d (None, set_invitation_status (iv_id v) InvitationRevoked d)))"

definition resend_invitation :: "(string \<Rightarrow> string) \<Rightarrow> tenancy_call \<Rightarrow> string \<Rightarrow> tenancy_db \<Rightarrow> outcome" where
  "resend_invitation digest c vid d =
     guarded (uuid_lookup c vid) d (
     case pending_invitation (find_invitation vid d) of
       Inl e \<Rightarrow> (Some e, d)
     | Inr v \<Rightarrow>
         guarded (require_roster_admin c (iv_org v) d) d (
         writes c 0 d (
         let h = digest (tc_token c) in
         guarded (refuse_if (\<exists>w\<in>set (invitations d). iv_hash w = h \<and> iv_id w \<noteq> iv_id v) CodeInternal) d
           (None, update_invitation (iv_id v)
              (\<lambda>w. w\<lparr>iv_hash := h, iv_expires := (tc_now c + tc_ttl c) div 1000000000\<rparr>) d))))"

definition usable_invitation ::
  "(string \<Rightarrow> string) \<Rightarrow> tenancy_call \<Rightarrow> string \<Rightarrow> tenancy_db \<Rightarrow> tenancy_error + invitation" where
  "usable_invitation digest c raw d =
     (case pending_invitation (find_invitation_by_hash (digest raw) d) of
        Inl e \<Rightarrow> Inl e
      | Inr v \<Rightarrow> if iv_expires v < tc_now c div 1000000000 then Inl CodeInvitationExpired else Inr v)"

definition accept_invitation :: "(string \<Rightarrow> string) \<Rightarrow> tenancy_call \<Rightarrow> string \<Rightarrow> tenancy_db \<Rightarrow> outcome" where
  "accept_invitation digest c raw d =
     (case tc_user c of
        Inl e \<Rightarrow> (Some e, d)
      | Inr u \<Rightarrow>
     (case usable_invitation digest c raw d of
        Inl e \<Rightarrow> (Some e, d)
      | Inr v \<Rightarrow>
     (case tc_email c of
        Inl e \<Rightarrow> (Some e, d)
      | Inr email \<Rightarrow>
          guarded (refuse_if (\<not> same_fold email (iv_email v)) CodeForbidden) d (
          case add_member c 0 (org_row (iv_org v) u (iv_role v) c) d of (r, d1) \<Rightarrow>
            guarded (refuse_if (r \<noteq> None \<and> r \<noteq> Some CodeMemberExists) CodeInternal) d1 (
            writes c 1 d1 (None, set_invitation_status (iv_id v) InvitationAccepted d1))))))"

definition reject_invitation :: "(string \<Rightarrow> string) \<Rightarrow> tenancy_call \<Rightarrow> string \<Rightarrow> tenancy_db \<Rightarrow> outcome" where
  "reject_invitation digest c raw d =
     (case tc_user c of
        Inl e \<Rightarrow> (Some e, d)
      | Inr u \<Rightarrow>
     (case usable_invitation digest c raw d of
        Inl e \<Rightarrow> (Some e, d)
      | Inr v \<Rightarrow> writes c 0 d (None, set_invitation_status (iv_id v) InvitationRejected d)))"

section \<open>Join requests\<close>

definition join_target_of :: "string \<Rightarrow> string \<Rightarrow> join_target option" where
  "join_target_of kind target =
     (if kind = ''organization'' then Some (JoinOrganization target)
      else if kind = ''project'' then Some (JoinProject target) else None)"

definition require_org_membership_of_project :: "string \<Rightarrow> string \<Rightarrow> tenancy_db \<Rightarrow> tenancy_error option" where
  "require_org_membership_of_project pid u d =
     (case find_project pid d of
        None \<Rightarrow> Some CodeProjectNotFound
      | Some p \<Rightarrow> refuse_if (find_member (pj_org p) u d = None) CodeForbidden)"

text \<open>The one-organization and the one-project rule, at the request and again at its approval.\<close>

definition still_free :: "string \<Rightarrow> join_target \<Rightarrow> tenancy_db \<Rightarrow> tenancy_error option" where
  "still_free u t d = refuse_if (case t of
      JoinOrganization oid \<Rightarrow> real_org_memberships (list_member_orgs u d) \<noteq> []
    | JoinProject pid \<Rightarrow> list_member_projects u d \<noteq> []) CodeMemberExists"

definition joinable :: "string \<Rightarrow> join_target \<Rightarrow> tenancy_db \<Rightarrow> tenancy_error option" where
  "joinable u t d = (case t of
      JoinOrganization oid \<Rightarrow> refuse_if (find_organization oid d = None \<or> oid = platform_org) CodeOrganizationNotFound
    | JoinProject pid \<Rightarrow> require_org_membership_of_project pid u d)"

definition create_join_request :: "tenancy_call \<Rightarrow> string \<Rightarrow> string \<Rightarrow> string \<Rightarrow> tenancy_db \<Rightarrow> outcome" where
  "create_join_request c kind target msg d =
     (case tc_user c of
        Inl e \<Rightarrow> (Some e, d)
      | Inr u \<Rightarrow>
          guarded (refuse_if (trim_space target = [] \<or> 512 < length msg) CodeTenancyInvalid) d (
          case join_target_of (trim_space kind) (trim_space target) of
            None \<Rightarrow> (Some CodeTenancyInvalid, d)
          | Some t \<Rightarrow>
              guarded (still_free u t d) d (
              guarded (joinable u t d) d (
              guarded (refuse_if (\<exists>j\<in>set (join_requests d). jr_user j = u \<and> jr_target j = t \<and> jr_status j = JoinPending)
                CodeMemberExists) d (
              writes c 0 d (
              guarded (refuse_if (\<exists>j\<in>set (join_requests d). jr_id j = tc_id c) CodeInternal) d
                (None, d\<lparr>join_requests := join_requests d @ [\<lparr>jr_id = tc_id c, jr_user = u, jr_target = t,
                   jr_status = JoinPending, jr_message = trim_space msg, jr_decided_by = [], jr_decided_at = 0\<rparr>]\<rparr>)))))))"

definition pending_join_request :: "tenancy_call \<Rightarrow> string \<Rightarrow> tenancy_db \<Rightarrow> tenancy_error + join_request" where
  "pending_join_request c rid d =
     (if \<not> tc_is_uuid c rid then Inl CodeInternal
      else case find (\<lambda>j. jr_id j = rid) (join_requests d) of
        None \<Rightarrow> Inl CodeInvitationNotFound
      | Some j \<Rightarrow>
          if jr_status j \<noteq> JoinPending then Inl CodeInvitationNotFound
          else (case require_target_admin c (jr_target j) d of None \<Rightarrow> Inr j | Some e \<Rightarrow> Inl e))"

definition set_join_request_status :: "tenancy_call \<Rightarrow> string \<Rightarrow> join_status \<Rightarrow> string \<Rightarrow> tenancy_db \<Rightarrow> tenancy_db" where
  "set_join_request_status c rid st admin d =
     d\<lparr>join_requests := update_where (\<lambda>j. jr_id j = rid)
        (\<lambda>j. j\<lparr>jr_status := st, jr_decided_by := admin, jr_decided_at := joined_at c\<rparr>) (join_requests d)\<rparr>"

definition decide_join_request ::
  "tenancy_call \<Rightarrow> string \<Rightarrow> join_status \<Rightarrow> (join_request \<Rightarrow> outcome) \<Rightarrow> tenancy_db \<Rightarrow> outcome" where
  "decide_join_request c rid st admit d =
     (case pending_join_request c rid d of
        Inl e \<Rightarrow> (Some e, d)
      | Inr j \<Rightarrow>
          (case tc_user c of
             Inl e \<Rightarrow> (Some e, d)
           | Inr admin \<Rightarrow>
               then_do (admit j) (\<lambda>d1. writes c 1 d1 (None, set_join_request_status c (jr_id j) st admin d1))))"

definition admit_member :: "tenancy_call \<Rightarrow> tenancy_db \<Rightarrow> join_request \<Rightarrow> outcome" where
  "admit_member c d j =
     guarded (still_free (jr_user j) (jr_target j) d) d (
     case jr_target j of
       JoinOrganization oid \<Rightarrow> add_member c 0 (org_row oid (jr_user j) RoleMember c) d
     | JoinProject pid \<Rightarrow> insert_project_member c 0 (project_row pid (jr_user j) RoleMember c) d)"

definition approve_join_request :: "tenancy_call \<Rightarrow> string \<Rightarrow> tenancy_db \<Rightarrow> outcome" where
  "approve_join_request c rid d = decide_join_request c rid JoinApproved (admit_member c d) d"

definition reject_join_request :: "tenancy_call \<Rightarrow> string \<Rightarrow> tenancy_db \<Rightarrow> outcome" where
  "reject_join_request c rid d = decide_join_request c rid JoinRejected (\<lambda>j. (None, d)) d"

section \<open>Quotas\<close>

text \<open>The four optional dimensions of a quota edit.\<close>

record quota_patch =
  qp_concurrent :: "int option"
  qp_batch :: "int option"
  qp_output :: "int option"
  qp_spend :: "int option"

definition count_ok :: "int \<Rightarrow> bool" where
  "count_ok v = (0 \<le> v \<and> v \<le> 10000)"

definition output_ok :: "int \<Rightarrow> bool" where
  "output_ok v = (v = 0 \<or> 64 \<le> v \<and> v \<le> 32768)"

definition present_ok :: "(int \<Rightarrow> bool) \<Rightarrow> int option \<Rightarrow> bool" where
  "present_ok P v = (case v of None \<Rightarrow> True | Some n \<Rightarrow> P n)"

definition validate_quota :: "quota_patch \<Rightarrow> tenancy_error option" where
  "validate_quota p = refuse_if (\<not> (present_ok count_ok (qp_concurrent p) \<and> present_ok count_ok (qp_batch p)
     \<and> present_ok output_ok (qp_output p) \<and> present_ok (\<lambda>v. 0 \<le> v) (qp_spend p))) CodeQuotaInvalid"

definition apply_patch :: "quota_patch \<Rightarrow> quota_limits \<Rightarrow> quota_limits" where
  "apply_patch p q = \<lparr>ql_concurrent = opt_or (qp_concurrent p) (ql_concurrent q),
     ql_batch = opt_or (qp_batch p) (ql_batch q), ql_output = opt_or (qp_output p) (ql_output q),
     ql_spend = opt_or (qp_spend p) (ql_spend q)\<rparr>"

definition quota_max :: int where
  "quota_max = 1000000"

definition optional_quota :: "int option \<Rightarrow> int option" where
  "optional_quota v = map_option (\<lambda>n. if n < 0 then 0 else if quota_max < n then quota_max else n) v"

definition update_project_quota :: "tenancy_call \<Rightarrow> string \<Rightarrow> quota_patch \<Rightarrow> tenancy_db \<Rightarrow> outcome" where
  "update_project_quota c pid p d =
     guarded (require_project_admin c pid d) d (
     with_project pid d (\<lambda>row.
     guarded (refuse_if (\<not> present_ok (\<lambda>v. 0 \<le> v) (qp_spend p)) CodeQuotaInvalid) d (
     case tc_user c of
       Inl e \<Rightarrow> (Some e, d)
     | Inr u \<Rightarrow>
         writes c 0 d (None, update_project_row pid (\<lambda>q. q\<lparr>pj_quota := apply_patch
           \<lparr>qp_concurrent = optional_quota (qp_concurrent p), qp_batch = optional_quota (qp_batch p),
            qp_output = optional_quota (qp_output p), qp_spend = qp_spend p\<rparr> (pj_quota row),
           pj_quota_by := u, pj_quota_at := Some (tc_now c)\<rparr>) d))))"

definition update_project_member_quota :: "tenancy_call \<Rightarrow> string \<Rightarrow> string \<Rightarrow> quota_patch \<Rightarrow> tenancy_db \<Rightarrow> outcome" where
  "update_project_member_quota c pid u p d =
     guarded (require_project_admin c pid d) d (
     guarded (refuse_if (u = []) CodeUserNotFound) d (
     guarded (project_member_known c pid u CodeUserNotFound d) d (
     case tc_user c of
       Inl e \<Rightarrow> (Some e, d)
     | Inr by \<Rightarrow>
         writes c 0 d (None, update_project_member pid u (\<lambda>m. m\<lparr>pm_quota := apply_patch
           \<lparr>qp_concurrent = optional_quota (qp_concurrent p), qp_batch = optional_quota (qp_batch p),
            qp_output = optional_quota (qp_output p), qp_spend = optional_quota (qp_spend p)\<rparr> (pm_quota m),
           pm_quota_by := by, pm_quota_at := Some (tc_now c)\<rparr>) d))))"

definition quota_actor :: "tenancy_call \<Rightarrow> string" where
  "quota_actor c = (case tc_user c of Inl e \<Rightarrow> ''system'' | Inr u \<Rightarrow> u)"

text \<open>The gate of the platform's quota requests reads the session's organization, not the request's.\<close>

definition require_quota_admin :: "tenancy_call \<Rightarrow> tenancy_db \<Rightarrow> tenancy_error option" where
  "require_quota_admin c d =
     (case tc_active_org c of
        Inl e \<Rightarrow> refuse_if (e \<noteq> CodeSessionInvalid) e
      | Inr oid \<Rightarrow>
          if oid = [] then None
          else (case tc_user c of
             Inl e \<Rightarrow> refuse_if (e \<noteq> CodeSessionInvalid) e
           | Inr u \<Rightarrow> require_role c oid u RoleAdmin d))"

definition update_organization_quota :: "tenancy_call \<Rightarrow> string \<Rightarrow> quota_patch \<Rightarrow> tenancy_db \<Rightarrow> outcome" where
  "update_organization_quota c oid p d =
     guarded (require_quota_admin c d) d (
     case find_organization oid d of
       None \<Rightarrow> (Some CodeQuotaNotFound, d)
     | Some og \<Rightarrow>
         let q = p\<lparr>qp_spend := None\<rparr> in
         guarded (validate_quota q) d (
         if apply_patch q (og_quota og) = og_quota og then (None, d)
         else writes c 0 d (None, update_org_row oid (\<lambda>r. r\<lparr>og_quota := apply_patch q (og_quota r),
           og_quota_by := quota_actor c, og_quota_at := Some (tc_now c)\<rparr>) d)))"

text \<open>\<open>context_org\<close> is what the request's session or header gives when it names no organization.\<close>

definition update_user_quota ::
  "tenancy_error + string \<Rightarrow> tenancy_call \<Rightarrow> string \<Rightarrow> string \<Rightarrow> quota_patch \<Rightarrow> tenancy_db \<Rightarrow> outcome" where
  "update_user_quota context_org c requested who p d =
     (case (if trim_space requested = [] then context_org else Inr (trim_space requested)) of
        Inl e \<Rightarrow> (Some e, d)
      | Inr oid \<Rightarrow>
          let u = trim_space who; row = (case find_user_quota oid u d of
                Some q \<Rightarrow> q | None \<Rightarrow> \<lparr>uq_org = oid, uq_user = u, uq_limits = no_limits, uq_by = [], uq_at = None\<rparr>);
              stored = row\<lparr>uq_limits := apply_patch p (uq_limits row), uq_by := quota_actor c, uq_at := Some (tc_now c)\<rparr> in
          guarded (refuse_if (oid = [] \<or> find_organization oid d = None) CodeQuotaNotFound) d (
          guarded (require_org_admin_or_platform c oid d) d (
          guarded (refuse_if (\<not> tc_is_uuid c u \<or> find_member oid u d = None) CodeUserNotFound) d (
          guarded (validate_quota p) d (
          writes c 0 d
            (None, d\<lparr>user_quotas := filter (\<lambda>q. \<not> (uq_org q = oid \<and> uq_user q = u)) (user_quotas d) @ [stored]\<rparr>))))))"

definition min_non_zero :: "int \<Rightarrow> int \<Rightarrow> int" where
  "min_non_zero a b = (if a = 0 then b else if b = 0 then a else if a < b then a else b)"

definition combine_two :: "quota_limits \<Rightarrow> quota_limits \<Rightarrow> quota_limits" where
  "combine_two a b = \<lparr>ql_concurrent = min_non_zero (ql_concurrent a) (ql_concurrent b),
     ql_batch = min_non_zero (ql_batch a) (ql_batch b), ql_output = min_non_zero (ql_output a) (ql_output b),
     ql_spend = min_non_zero (ql_spend a) (ql_spend b)\<rparr>"

definition combine_limits :: "quota_limits list \<Rightarrow> quota_limits" where
  "combine_limits ls = foldl combine_two no_limits ls"

definition org_quota :: "string \<Rightarrow> tenancy_db \<Rightarrow> quota_limits" where
  "org_quota oid d = (case find_organization oid d of None \<Rightarrow> no_limits | Some og \<Rightarrow> (og_quota og)\<lparr>ql_spend := 0\<rparr>)"

definition project_quota_limits :: "string \<Rightarrow> tenancy_db \<Rightarrow> quota_limits" where
  "project_quota_limits pid d =
     (if pid = [] then no_limits else case find_project pid d of None \<Rightarrow> no_limits | Some p \<Rightarrow> pj_quota p)"

definition user_quota_limits :: "string \<Rightarrow> string \<Rightarrow> tenancy_db \<Rightarrow> quota_limits" where
  "user_quota_limits oid u d = (case find_user_quota oid u d of None \<Rightarrow> no_limits | Some q \<Rightarrow> uq_limits q)"

definition project_member_quota_limits :: "string \<Rightarrow> string \<Rightarrow> tenancy_db \<Rightarrow> quota_limits" where
  "project_member_quota_limits pid u d =
     (if pid = [] \<or> u = [] then no_limits
      else case find_project_member pid u d of None \<Rightarrow> no_limits | Some m \<Rightarrow> pm_quota m)"

definition effective_quota :: "string \<Rightarrow> string \<Rightarrow> string \<Rightarrow> tenancy_db \<Rightarrow> quota_limits" where
  "effective_quota oid pid u d = combine_limits
     [org_quota oid d, project_quota_limits pid d,
      if u \<noteq> [] \<and> oid \<noteq> [] then user_quota_limits oid u d else no_limits,
      project_member_quota_limits pid u d]"

section \<open>Lookups of the other services\<close>

definition project_in_org :: "string \<Rightarrow> string \<Rightarrow> tenancy_db \<Rightarrow> string \<times> bool" where
  "project_in_org pid oid d =
     (if pid = [] \<or> oid = [] then ([], False)
      else case find_project pid d of
        None \<Rightarrow> ([], False)
      | Some p \<Rightarrow> if pj_org p \<noteq> oid then ([], False) else (pj_name p, True))"

definition user_in_project :: "string \<Rightarrow> string \<Rightarrow> tenancy_db \<Rightarrow> bool" where
  "user_in_project pid u d = (pid \<noteq> [] \<and> u \<noteq> [] \<and> find_project_member pid u d \<noteq> None)"

definition user_in_org :: "string \<Rightarrow> string \<Rightarrow> tenancy_db \<Rightarrow> bool" where
  "user_in_org oid u d = (oid \<noteq> [] \<and> u \<noteq> [] \<and> find_member oid u d \<noteq> None)"

definition require_exists :: "string \<Rightarrow> tenancy_db \<Rightarrow> tenancy_error option" where
  "require_exists oid d = refuse_if (oid \<noteq> [] \<and> find_organization oid d = None) CodeOrganizationNotFound"

definition require_active :: "string \<Rightarrow> tenancy_db \<Rightarrow> tenancy_error option" where
  "require_active oid d = (case find_organization oid d of
      None \<Rightarrow> Some CodeOrganizationNotFound
    | Some og \<Rightarrow> refuse_if (og_state og \<noteq> StateActive) CodeOrganizationDisabled)"

text \<open>\<open>UserAffiliation\<close>: the oldest tenant the user belongs to, and the oldest project.\<close>

definition user_affiliation :: "string \<Rightarrow> tenancy_db \<Rightarrow> organization option \<times> project option" where
  "user_affiliation u d =
     (case filter (\<lambda>m. find_organization (om_org m) d \<noteq> None) (real_org_memberships (list_member_orgs u d)) of
        [] \<Rightarrow> None | m # ms \<Rightarrow> find_organization (om_org m) d,
      case filter (\<lambda>m. find_project (pm_project m) d \<noteq> None) (list_member_projects u d) of
        [] \<Rightarrow> None | m # ms \<Rightarrow> find_project (pm_project m) d)"

definition seed_default_organization :: "string \<Rightarrow> string \<Rightarrow> tenancy_db \<Rightarrow> tenancy_db" where
  "seed_default_organization oid name d =
     (if organizations d \<noteq> [] then d else d\<lparr>organizations := [new_organization oid name []]\<rparr>)"

section \<open>Histories\<close>

datatype tenancy_op =
    SeedDefault string string
  | CreateOrganization string string string
  | UpdateOrganization string string string
  | SetOrganizationState string lifecycle
  | DeleteOrganization string bool
  | CreateProject string string string string
  | UpdateProject string string string
  | DisableProject string
  | EnableProject string
  | DeleteProject string
  | AddOrgMember string string string
  | SetOrgMemberRole string string string
  | RemoveOrgMember string string
  | CreateInvitation string string string int
  | RevokeInvitation string
  | ResendInvitation string
  | AcceptInvitation string
  | RejectInvitation string
  | AddProjectMember string string string
  | SetProjectMemberRole string string string
  | RemoveProjectMember string string
  | CreateJoinRequest string string string
  | ApproveJoinRequest string
  | RejectJoinRequest string
  | UpdateProjectQuota string quota_patch
  | UpdateProjectMemberQuota string string quota_patch
  | UpdateUserQuota "tenancy_error + string" string string quota_patch
  | UpdateOrganizationQuota string quota_patch

fun run_tenancy :: "(string \<Rightarrow> string) \<Rightarrow> tenancy_call \<Rightarrow> tenancy_op \<Rightarrow> tenancy_db \<Rightarrow> outcome" where
  "run_tenancy h c (SeedDefault oid name) d = (None, seed_default_organization oid name d)"
| "run_tenancy h c (CreateOrganization s name desc) d = create_organization c s name desc d"
| "run_tenancy h c (UpdateOrganization oid name desc) d = update_organization c oid name desc d"
| "run_tenancy h c (SetOrganizationState oid st) d = set_organization_state c oid st d"
| "run_tenancy h c (DeleteOrganization s force) d = delete_organization c s force d"
| "run_tenancy h c (CreateProject s org name desc) d = create_project c s org name desc d"
| "run_tenancy h c (UpdateProject pid name desc) d = update_project c pid name desc d"
| "run_tenancy h c (DisableProject pid) d = disable_project c pid d"
| "run_tenancy h c (EnableProject pid) d = enable_project c pid d"
| "run_tenancy h c (DeleteProject s) d = delete_project c s d"
| "run_tenancy h c (AddOrgMember oid who what) d = add_org_member c oid who what d"
| "run_tenancy h c (SetOrgMemberRole oid u what) d = set_org_member_role c oid u what d"
| "run_tenancy h c (RemoveOrgMember oid u) d = remove_org_member c oid u d"
| "run_tenancy h c (CreateInvitation oid email what ttl) d = create_invitation h c oid email what ttl d"
| "run_tenancy h c (RevokeInvitation vid) d = revoke_invitation c vid d"
| "run_tenancy h c (ResendInvitation vid) d = resend_invitation h c vid d"
| "run_tenancy h c (AcceptInvitation raw) d = accept_invitation h c raw d"
| "run_tenancy h c (RejectInvitation raw) d = reject_invitation h c raw d"
| "run_tenancy h c (AddProjectMember pid who what) d = add_project_member c pid who what d"
| "run_tenancy h c (SetProjectMemberRole pid u what) d = set_project_member_role c pid u what d"
| "run_tenancy h c (RemoveProjectMember pid u) d = remove_project_member c pid u d"
| "run_tenancy h c (CreateJoinRequest kind target msg) d = create_join_request c kind target msg d"
| "run_tenancy h c (ApproveJoinRequest rid) d = approve_join_request c rid d"
| "run_tenancy h c (RejectJoinRequest rid) d = reject_join_request c rid d"
| "run_tenancy h c (UpdateProjectQuota pid p) d = update_project_quota c pid p d"
| "run_tenancy h c (UpdateProjectMemberQuota pid u p) d = update_project_member_quota c pid u p d"
| "run_tenancy h c (UpdateUserQuota org requested who p) d = update_user_quota org c requested who p d"
| "run_tenancy h c (UpdateOrganizationQuota oid p) d = update_organization_quota c oid p d"

definition run_requests :: "(string \<Rightarrow> string) \<Rightarrow> (tenancy_call \<times> tenancy_op) list \<Rightarrow> tenancy_db \<Rightarrow> tenancy_db" where
  "run_requests h rs d = foldl (\<lambda>s (c, r). snd (run_tenancy h c r s)) d rs"

end
