(* ===== verification/TenancySteps.thy ===== *)
theory TenancySteps
  imports Tenancy
begin

text \<open>
  What a request to the tenancy service can do to its tables, as one inductive relation with the authority each
  change rests on; every handler is shown to make only such steps.
\<close>

section \<open>What a request can do\<close>

lemma guarded_cases:
  "snd (guarded g d k) = d \<or> g = None \<and> guarded g d k = k"
  by (auto simp: guarded_def split: option.splits)

lemma guarded_keeps [intro]: "P d \<Longrightarrow> (g = None \<Longrightarrow> P (snd k)) \<Longrightarrow> P (snd (guarded g d k))"
  by (auto simp: guarded_def split: option.splits)

lemma writes_keeps [intro]: "P d \<Longrightarrow> (tc_up c i \<Longrightarrow> P (snd k)) \<Longrightarrow> P (snd (writes c i d k))"
  by (auto simp: writes_def refuse_if_def guarded_def)

lemma with_project_keeps [intro]:
  "P d \<Longrightarrow> (\<And>p. find_project pid d = Some p \<Longrightarrow> P (snd (k p))) \<Longrightarrow> P (snd (with_project pid d k))"
  by (auto simp: with_project_def split: option.splits)

lemma refuse_if_None [simp]: "refuse_if b e = None \<longleftrightarrow> \<not> b"
  by (simp add: refuse_if_def)

text \<open>The caller may manage the roster of an organization.\<close>

definition manages_roster :: "tenancy_call \<Rightarrow> string \<Rightarrow> tenancy_db \<Rightarrow> bool" where
  "manages_roster c oid d = (caller_is_platform_admin c
     \<or> (\<exists>u. tc_user c = Inr u \<and> RoleAdmin \<le> resolve_member_role oid u d))"

lemma not_below_admin: "\<not> r < RoleAdmin \<longleftrightarrow> RoleAdmin \<le> r" for r :: role
  by (auto simp: less_eq_role_def less_role_def)

lemma admin_or_owner_manages: "require_admin_or_owner c oid d = None \<Longrightarrow> manages_roster c oid d"
  by (auto simp: require_admin_or_owner_def require_role_def resolve_role_def resolve_member_role_def manages_roster_def
      caller_is_platform_admin_def not_below_admin split: sum.splits option.splits if_splits)

lemma roster_admin_manages: "require_roster_admin c oid d = None \<Longrightarrow> manages_roster c oid d"
  by (auto simp: require_roster_admin_def admin_or_owner_manages manages_roster_def caller_is_platform_admin_def
      split: sum.splits bool.splits dest: admin_or_owner_manages)

text \<open>
  The ranges of stored limits, by whose limits they are; zero is no limit.  Organizations and accounts have the
  documented ranges, projects and their members only the clamp.
\<close>

definition limits_ok :: "quota_limits \<Rightarrow> bool" where
  "limits_ok q = (0 \<le> ql_concurrent q \<and> ql_concurrent q \<le> 10000 \<and> 0 \<le> ql_batch q \<and> ql_batch q \<le> 10000
     \<and> (ql_output q = 0 \<or> 64 \<le> ql_output q \<and> ql_output q \<le> 32768) \<and> 0 \<le> ql_spend q)"

definition project_limits_ok :: "quota_limits \<Rightarrow> bool" where
  "project_limits_ok q = (0 \<le> ql_concurrent q \<and> ql_concurrent q \<le> 1000000 \<and> 0 \<le> ql_batch q \<and> ql_batch q \<le> 1000000
     \<and> 0 \<le> ql_output q \<and> ql_output q \<le> 1000000 \<and> 0 \<le> ql_spend q)"

definition member_limits_ok :: "quota_limits \<Rightarrow> bool" where
  "member_limits_ok q = (project_limits_ok q \<and> ql_spend q \<le> 1000000)"

definition plain_role :: "role \<Rightarrow> bool" where
  "plain_role r = (r = RoleAdmin \<or> r = RoleMember \<or> r = RoleViewer)"

lemma assignable_plain: "assignable_role s = Some r \<Longrightarrow> plain_role r"
  by (auto simp: assignable_role_def plain_role_def split: if_splits)

definition in_time :: "tenancy_call \<Rightarrow> invitation \<Rightarrow> bool" where
  "in_time c v = (tc_now c div 1000000000 \<le> iv_expires v)"

inductive tenancy_step :: "bool \<Rightarrow> (string \<Rightarrow> string) \<Rightarrow> tenancy_call \<Rightarrow> tenancy_db \<Rightarrow> tenancy_db \<Rightarrow> bool"
  for acc :: bool and h :: "string \<Rightarrow> string" and c :: tenancy_call and d :: tenancy_db where
  unchanged: "tenancy_step acc h c d d"
| org_seeded: "organizations d = [] \<Longrightarrow>
    tenancy_step acc h c d (d\<lparr>organizations := [new_organization oid name desc]\<rparr>)"
| org_created: "find_organization oid d = None \<Longrightarrow>
    tenancy_step acc h c d (d\<lparr>organizations := organizations d @ [new_organization oid name desc]\<rparr>)"
| org_edited: "(\<And>og. og_id (f og) = og_id og) \<Longrightarrow> (\<And>og. limits_ok (og_quota og) \<Longrightarrow> limits_ok (og_quota (f og))) \<Longrightarrow>
    tenancy_step acc h c d (update_org_row oid f d)"
| org_deleted: "caller_is_platform_admin c \<Longrightarrow>
    tenancy_step acc h c d ((delete_organization_rows oid d)\<lparr>join_requests := filter Q (join_requests d)\<rparr>)"
| project_created: "find_organization (pj_org p) d \<noteq> None \<Longrightarrow> find_project (pj_id p) d = None \<Longrightarrow> pj_quota p = no_limits \<Longrightarrow>
    valid_tenancy_id (pj_id p) \<Longrightarrow> tenancy_step acc h c d (d\<lparr>projects := projects d @ [p]\<rparr>)"
| project_edited: "(\<And>p. pj_id (f p) = pj_id p \<and> pj_org (f p) = pj_org p) \<Longrightarrow>
    (\<And>p. \<forall>q\<in>set (projects d). project_limits_ok (pj_quota q) \<Longrightarrow> project_limits_ok (pj_quota p) \<Longrightarrow> project_limits_ok (pj_quota (f p))) \<Longrightarrow>
    tenancy_step acc h c d (update_project_row pid f d)"
| project_deleted:
    "tenancy_step acc h c d ((delete_project_requests {pid} d)\<lparr>project_members := filter (\<lambda>m. pm_project m \<noteq> pid) (project_members d),
       projects := filter (\<lambda>q. pj_id q \<noteq> pid) (projects d)\<rparr>)"
| members_moved: "manages_roster c oid d \<Longrightarrow> oid \<noteq> [] \<Longrightarrow> u \<noteq> [] \<Longrightarrow> owned_org_ids u oid d = [] \<Longrightarrow>
    find_member oid u d = None \<Longrightarrow> tenancy_step acc h c d (clear_other_orgs oid u d)"
| member_added: "manages_roster c oid d \<Longrightarrow> tc_resolve c who = Inr u \<Longrightarrow> find_member oid u d = None \<Longrightarrow> plain_role r \<Longrightarrow>
    d1 = (if oid = [] \<or> u = [] then d else clear_other_orgs oid u d) \<Longrightarrow> (oid = [] \<or> u = [] \<or> owned_org_ids u oid d = []) \<Longrightarrow>
    tenancy_step acc h c d (d1\<lparr>org_members := org_members d1 @ [org_row oid u r c]\<rparr>)"
| role_set: "manages_roster c oid d \<Longrightarrow> member_editable c oid u d = None \<Longrightarrow> plain_role r \<Longrightarrow>
    tenancy_step acc h c d (set_member_role oid u r d)"
| member_removed: "manages_roster c oid d \<Longrightarrow> member_editable c oid u d = None \<Longrightarrow>
    tenancy_step acc h c d (remove_member oid u d)"
| invited: "manages_roster c (iv_org v) d \<Longrightarrow> iv_id v = tc_id c \<Longrightarrow> iv_hash v = h (tc_token c) \<Longrightarrow>
    find_invitation (iv_id v) d = None \<Longrightarrow> find_invitation_by_hash (iv_hash v) d = None \<Longrightarrow> plain_role (iv_role v) \<Longrightarrow>
    tenancy_step acc h c d (d\<lparr>invitations := invitations d @ [v]\<rparr>)"
| invitation_closed: "v \<in> set (invitations d) \<Longrightarrow> iv_id v = vid \<Longrightarrow> iv_status v = InvitationPending \<Longrightarrow> st \<noteq> InvitationPending \<Longrightarrow>
    tenancy_step acc h c d (set_invitation_status vid st d)"
| invitation_resent: "v \<in> set (invitations d) \<Longrightarrow> iv_id v = vid \<Longrightarrow> iv_status v = InvitationPending \<Longrightarrow> k = h (tc_token c) \<Longrightarrow>
    \<forall>w\<in>set (invitations d). iv_hash w = k \<longrightarrow> iv_id w = vid \<Longrightarrow>
    tenancy_step acc h c d (update_invitation vid (\<lambda>w. w\<lparr>iv_hash := k, iv_expires := t\<rparr>) d)"
| invitee_joined: "acc \<Longrightarrow> v \<in> set (invitations d) \<Longrightarrow> find_invitation_by_hash (iv_hash v) d = Some v \<Longrightarrow> iv_status v = InvitationPending \<Longrightarrow>
    in_time c v \<Longrightarrow> tc_user c = Inr u \<Longrightarrow> tc_email c = Inr email \<Longrightarrow> same_fold email (iv_email v) \<Longrightarrow>
    d1 = (if find_member (iv_org v) u d = None
          then d\<lparr>org_members := org_members d @ [org_row (iv_org v) u (iv_role v) c]\<rparr> else d) \<Longrightarrow>
    d2 = d1 \<or> d2 = set_invitation_status (iv_id v) InvitationAccepted d1 \<Longrightarrow> tenancy_step acc h c d d2"
| join_requested: "jr_status j = JoinPending \<Longrightarrow> \<forall>k\<in>set (join_requests d). jr_id k \<noteq> jr_id j \<Longrightarrow>
    tenancy_step acc h c d (d\<lparr>join_requests := join_requests d @ [j]\<rparr>)"
| join_rejected: "tenancy_step acc h c d (set_join_request_status c rid st admin d)"
| member_admitted: "manages_roster c oid d \<Longrightarrow> still_free u (JoinOrganization oid) d = None \<Longrightarrow> find_member oid u d = None \<Longrightarrow>
    d1 = d\<lparr>org_members := org_members d @ [org_row oid u RoleMember c]\<rparr> \<Longrightarrow>
    d2 = d1 \<or> d2 = set_join_request_status c rid JoinApproved admin d1 \<Longrightarrow> tenancy_step acc h c d d2"
| project_member_admitted: "find_project pid d \<noteq> None \<Longrightarrow> still_free u (JoinProject pid) d = None \<Longrightarrow>
    d1 = d\<lparr>project_members := project_members d @ [project_row pid u RoleMember c]\<rparr> \<Longrightarrow>
    d2 = d1 \<or> d2 = set_join_request_status c rid JoinApproved admin d1 \<Longrightarrow> tenancy_step acc h c d d2"
| project_member_moved:
    "tenancy_step acc h c d (d\<lparr>project_members := filter (\<lambda>m. pm_user m = u \<longrightarrow> pm_project m = pid) (project_members d)\<rparr>)"
| project_member_added: "find_project pid d \<noteq> None \<Longrightarrow> find_project_member pid u d = None \<Longrightarrow> plain_role r \<Longrightarrow> tc_resolve c who = Inr u \<Longrightarrow>
    d1 = (if pid = [] \<or> u = [] then d
      else d\<lparr>project_members := filter (\<lambda>m. pm_user m = u \<longrightarrow> pm_project m = pid) (project_members d)\<rparr>) \<Longrightarrow>
    tenancy_step acc h c d (d1\<lparr>project_members := project_members d1 @ [project_row pid u r c]\<rparr>)"
| project_member_edited: "(\<And>m. pm_project (f m) = pm_project m \<and> pm_user (f m) = pm_user m) \<Longrightarrow>
    (\<And>m. plain_role (pm_role m) \<Longrightarrow> plain_role (pm_role (f m))) \<Longrightarrow>
    (\<And>m. member_limits_ok (pm_quota m) \<Longrightarrow> member_limits_ok (pm_quota (f m))) \<Longrightarrow>
    tenancy_step acc h c d (update_project_member pid u f d)"
| project_member_removed:
    "tenancy_step acc h c d (d\<lparr>project_members := filter (\<lambda>m. pm_project m = pid \<longrightarrow> pm_user m \<noteq> u) (project_members d)\<rparr>)"
| user_quota_stored: "uq_org q = oid \<Longrightarrow> uq_user q = u \<Longrightarrow>
    (\<forall>r\<in>set (user_quotas d). limits_ok (uq_limits r)) \<longrightarrow> limits_ok (uq_limits q) \<Longrightarrow>
    tenancy_step acc h c d (d\<lparr>user_quotas := filter (\<lambda>r. uq_org r = oid \<longrightarrow> uq_user r \<noteq> u) (user_quotas d) @ [q]\<rparr>)"

lemma row_fields [simp]:
  "om_org (org_row oid u r c) = oid" "om_user (org_row oid u r c) = u" "om_role (org_row oid u r c) = r"
  "pm_project (project_row pid u r c) = pid" "pm_user (project_row pid u r c) = u" "pm_role (project_row pid u r c) = r"
  "pm_quota (project_row pid u r c) = no_limits"
  by (simp_all add: org_row_def project_row_def)

lemmas request_keeps =
  guarded_keeps [where P = "tenancy_step acc h c d" for acc h c d] writes_keeps [where P = "tenancy_step acc h c d" for acc h c d]
  with_project_keeps [where P = "tenancy_step acc h c d" for acc h c d] unchanged

lemma created_ok: "limits_ok no_limits" "project_limits_ok no_limits" "member_limits_ok no_limits"
  by (simp_all add: limits_ok_def project_limits_ok_def member_limits_ok_def no_limits_def)

lemma patch_ok:
  assumes "limits_ok q" "validate_quota p = None"
  shows "limits_ok (apply_patch p q)"
  using assms by (auto simp: validate_quota_def present_ok_def limits_ok_def apply_patch_def opt_or_def count_ok_def
      output_ok_def split: option.splits)

lemma step_organizations:
  "tenancy_step acc h c d (snd (create_organization c s name desc d))"
  "tenancy_step acc h c d (snd (update_organization c oid name desc d))"
  "tenancy_step acc h c d (snd (set_organization_state c oid st d))"
  by (auto simp: create_organization_def update_organization_def set_organization_state_def Let_def
      intro!: request_keeps org_created org_edited)

lemma step_delete_organization: "tenancy_step acc h c d (snd (delete_organization c s force d))"
proof -
  have "\<exists>Q. delete_organization_rows oid (if force then d else delete_project_requests pids d)
      = (delete_organization_rows oid d)\<lparr>join_requests := filter Q (join_requests d)\<rparr>" for oid pids
    by (cases force) (auto simp: delete_organization_rows_def delete_project_requests_def project_ids_def filter_filter)
  then have "caller_is_platform_admin c \<Longrightarrow> tenancy_step acc h c d
      (delete_organization_rows oid (if force then d else delete_project_requests pids d))" for oid pids
    by (metis org_deleted)
  then show ?thesis unfolding delete_organization_def Let_def
    by (intro request_keeps) (simp_all only: refuse_if_None not_not snd_conv)
qed

lemma step_projects:
  "tenancy_step acc h c d (snd (create_project c s org name desc d))"
  "tenancy_step acc h c d (snd (update_project c pid name desc d))"
  "tenancy_step acc h c d (snd (disable_project c pid d))"
  "tenancy_step acc h c d (snd (enable_project c pid d))"
  "tenancy_step acc h c d (snd (delete_project c s d))"
  by (auto simp: create_project_def update_project_def disable_project_def enable_project_def delete_project_def Let_def
      intro!: request_keeps project_created project_edited project_deleted split: option.splits)

lemma then_do_keeps:
  "P (snd r) \<Longrightarrow> (fst r = None \<Longrightarrow> P (snd (k (snd r)))) \<Longrightarrow> P (snd (then_do r k))"
  by (auto simp: then_do_def intro: guarded_keeps)

lemma named_plain: "named_member c who what = Inr (u, r) \<Longrightarrow> plain_role r \<and> (\<exists>s. tc_resolve c s = Inr u)"
  by (auto simp: named_member_def split: if_splits option.splits sum.splits dest: assignable_plain)

lemma move_user_cases:
  assumes "move_user_to_org c oid u d = (r, d1)"
  shows "r \<noteq> None \<and> d1 = d
    \<or> r = None \<and> d1 = (if oid = [] \<or> u = [] then d else clear_other_orgs oid u d)
      \<and> (oid = [] \<or> u = [] \<or> owned_org_ids u oid d = [])"
  using assms by (auto simp: move_user_to_org_def writes_def guarded_def refuse_if_def split: if_splits)

lemma find_filter_keep: "(\<And>m. P m \<Longrightarrow> Q m) \<Longrightarrow> find P (filter Q xs) = find P xs"
  by (induction xs) auto

lemma clear_keeps_find: "find_member oid u (clear_other_orgs oid u d) = find_member oid u d"
  by (simp add: find_member_def clear_other_orgs_def) (rule find_filter_keep, auto)

lemma step_add_org_member: "tenancy_step acc h c d (snd (add_org_member c oid who what d))"
proof -
  have "tenancy_step acc h c d (snd (then_do (move_user_to_org c oid u d) (add_member c 1 (org_row oid u r c))))"
    if n: "named_member c who what = Inr (u, r)" "require_roster_admin c oid d = None" "find_member oid u d = None" for u r
  proof -
    have m: "manages_roster c oid d" using n(2) by (rule roster_admin_manages)
    obtain e d1 where e: "move_user_to_org c oid u d = (e, d1)" by fastforce
    from move_user_cases [OF e] consider (stay) "e \<noteq> None" "d1 = d"
      | (moved) "e = None" "d1 = (if oid = [] \<or> u = [] then d else clear_other_orgs oid u d)"
        "oid = [] \<or> u = [] \<or> owned_org_ids u oid d = []" by blast
    then show ?thesis
    proof cases
      case stay
      then show ?thesis by (cases e) (simp_all add: then_do_def e guarded_def unchanged)
    next
      case moved
      have "tenancy_step acc h c d d1"
        using moved m n(3) by (auto intro: unchanged members_moved)
      moreover have "tenancy_step acc h c d (d1\<lparr>org_members := org_members d1 @ [org_row oid u r c]\<rparr>)"
        using named_plain [OF n(1)] m n(3) moved(2,3) by (blast intro: member_added)
      ultimately show ?thesis using moved(1)
        by (auto simp: then_do_def e add_member_def intro!: request_keeps)
    qed
  qed
  then show ?thesis by (auto simp: add_org_member_def intro!: request_keeps split: sum.splits)
qed

lemma member_editableD:
  "member_editable c oid u d = None \<Longrightarrow> \<exists>m. find_member oid u d = Some m \<and> om_role m \<noteq> RoleOwner"
  by (auto simp: member_editable_def split: if_splits option.splits)

lemma step_members:
  "tenancy_step acc h c d (snd (set_org_member_role c oid u what d))"
  "tenancy_step acc h c d (snd (remove_org_member c oid u d))"
  by (auto simp: set_org_member_role_def remove_org_member_def intro!: request_keeps split: option.splits
      dest: roster_admin_manages assignable_plain intro!: role_set member_removed)

lemma find_invitationD:
  "find_invitation vid d = Some v \<Longrightarrow> v \<in> set (invitations d) \<and> iv_id v = vid"
  "find_invitation_by_hash k d = Some v \<Longrightarrow> v \<in> set (invitations d) \<and> iv_hash v = k"
  by (auto simp: find_invitation_def find_invitation_by_hash_def dest: find_SomeD)

lemma pendingD: "pending_invitation x = Inr v \<Longrightarrow> x = Some v \<and> iv_status v = InvitationPending"
  by (auto simp: pending_invitation_def split: option.splits if_splits)

lemma step_invitations:
  "tenancy_step acc h c d (snd (create_invitation h c oid email what ttl d))"
  "tenancy_step acc h c d (snd (revoke_invitation c vid d))"
  "tenancy_step acc h c d (snd (resend_invitation h c vid d))"
proof -
  show "tenancy_step acc h c d (snd (create_invitation h c oid email what ttl d))"
    by (auto simp: create_invitation_def Let_def intro!: request_keeps invited split: option.splits)
      (auto dest: roster_admin_manages assignable_plain)
  show "tenancy_step acc h c d (snd (revoke_invitation c vid d))"
    by (auto simp: revoke_invitation_def intro!: request_keeps split: sum.splits dest!: pendingD)
      (rule invitation_closed; auto dest: find_invitationD)
  show "tenancy_step acc h c d (snd (resend_invitation h c vid d))"
    by (auto simp: resend_invitation_def Let_def intro!: request_keeps split: sum.splits dest!: pendingD)
      (rule invitation_resent; auto dest: find_invitationD)
qed

lemma usableD:
  assumes "usable_invitation h c raw d = Inr v"
  shows "find_invitation_by_hash (h raw) d = Some v" "v \<in> set (invitations d)" "iv_hash v = h raw"
    "iv_status v = InvitationPending" "in_time c v"
  using assms by (auto simp: usable_invitation_def in_time_def split: sum.splits if_splits dest!: pendingD dest: find_invitationD)

lemma add_member_cases:
  assumes "add_member c i m d = (r, d1)"
  shows "r = None \<and> find_member (om_org m) (om_user m) d = None \<and> d1 = d\<lparr>org_members := org_members d @ [m]\<rparr>
    \<or> r = Some CodeMemberExists \<and> find_member (om_org m) (om_user m) d \<noteq> None \<and> d1 = d \<or> r = Some CodeInternal \<and> d1 = d"
  using assms by (auto simp: add_member_def writes_def guarded_def refuse_if_def split: if_splits)

lemma step_accept: "tenancy_step True h c d (snd (accept_invitation h c raw d))"
proof -
  have "tenancy_step True h c d (snd (guarded (refuse_if (r \<noteq> None \<and> r \<noteq> Some CodeMemberExists) CodeInternal) d1
      (writes c 1 d1 (None, set_invitation_status (iv_id v) InvitationAccepted d1))))"
    if u: "tc_user c = Inr u" "usable_invitation h c raw d = Inr v" "tc_email c = Inr email" "same_fold email (iv_email v)"
      and a: "add_member c 0 (org_row (iv_org v) u (iv_role v) c) d = (r, d1)" for u v email r d1
  proof -
    let ?d1 = "if find_member (iv_org v) u d = None
      then d\<lparr>org_members := org_members d @ [org_row (iv_org v) u (iv_role v) c]\<rparr> else d"
    note v = usableD [OF u(2)]
    have j: "tenancy_step True h c d d2" if "d2 = ?d1 \<or> d2 = set_invitation_status (iv_id v) InvitationAccepted ?d1" for d2
      using v u that by (intro invitee_joined [where v = v and u = u and email = email]) auto
    show ?thesis using add_member_cases [OF a] j [of ?d1] j [of "set_invitation_status (iv_id v) InvitationAccepted ?d1"]
      by (auto intro!: request_keeps split: if_splits)
  qed
  then have joined: "tenancy_step True h c d (snd (case add_member c 0 (org_row (iv_org v) u (iv_role v) c) d of (r, d1) \<Rightarrow>
      guarded (refuse_if (r \<noteq> None \<and> r \<noteq> Some CodeMemberExists) CodeInternal) d1
        (writes c 1 d1 (None, set_invitation_status (iv_id v) InvitationAccepted d1))))"
    if "tc_user c = Inr u" "usable_invitation h c raw d = Inr v" "tc_email c = Inr email" "same_fold email (iv_email v)"
    for u v email using that by (auto split: prod.split)
  show ?thesis unfolding accept_invitation_def
    by (split sum.split, intro conjI allI impI, (simp add: unchanged; fail))+
      (rule guarded_keeps [where P = "tenancy_step True h c d"], rule unchanged, simp only: refuse_if_None not_not joined)
qed

lemma step_reject: "tenancy_step acc h c d (snd (reject_invitation h c raw d))"
  by (auto simp: reject_invitation_def intro!: request_keeps split: sum.splits)
    (rule invitation_closed; auto dest: usableD)

lemma project_adminD: "require_project_admin c pid d = None \<Longrightarrow> find_project pid d \<noteq> None"
  by (auto simp: require_project_admin_def split: option.splits)

lemma step_add_project_member: "tenancy_step acc h c d (snd (add_project_member c pid who what d))"
proof -
  have "tenancy_step acc h c d (snd (then_do (move_user_to_project c pid u d) (insert_project_member c 1 (project_row pid u r c))))"
    if n: "named_member c who what = Inr (u, r)" "find_project pid d \<noteq> None" for u r
  proof -
    let ?d1 = "if pid = [] \<or> u = [] then d
      else d\<lparr>project_members := filter (\<lambda>m. pm_user m = u \<longrightarrow> pm_project m = pid) (project_members d)\<rparr>"
    obtain e d1 where e: "move_user_to_project c pid u d = (e, d1)" by fastforce
    then have "e \<noteq> None \<and> d1 = d \<or> e = None \<and> d1 = ?d1"
      by (auto simp: move_user_to_project_def writes_def guarded_def refuse_if_def split: if_splits)
    then consider "e \<noteq> None" "d1 = d" | (moved) "e = None" "d1 = ?d1" by blast
    then show ?thesis
    proof cases
      case moved
      have "find_project_member pid u ?d1 = find_project_member pid u d"
        by (auto simp: find_project_member_def intro!: find_filter_keep)
      then have "find_project_member pid u d1 = None \<Longrightarrow> find_project_member pid u d = None" using moved by simp
      then have "find_project_member pid u d1 = None \<Longrightarrow>
          tenancy_step acc h c d (d1\<lparr>project_members := project_members d1 @ [project_row pid u r c]\<rparr>)"
        using named_plain [OF n(1)] n(2) moved(2) by (blast intro: project_member_added)
      moreover have "tenancy_step acc h c d d1" using moved(2) by (auto intro: unchanged project_member_moved)
      ultimately show ?thesis using moved(1)
        by (auto simp: then_do_def e insert_project_member_def intro!: request_keeps)
    qed (cases e; simp add: then_do_def e guarded_def unchanged)
  qed
  then show ?thesis by (auto simp: add_project_member_def intro!: request_keeps split: sum.splits dest: project_adminD)
qed

lemma step_project_members:
  "tenancy_step acc h c d (snd (set_project_member_role c pid u what d))"
  "tenancy_step acc h c d (snd (remove_project_member c pid u d))"
  by (auto simp: set_project_member_role_def remove_project_member_def intro!: request_keeps project_member_edited
      project_member_removed split: option.splits)
    (auto dest: assignable_plain)

lemma step_create_join: "tenancy_step acc h c d (snd (create_join_request c kind target msg d))"
  by (auto simp: create_join_request_def intro!: request_keeps join_requested split: sum.splits option.splits)

lemma pending_joinD:
  assumes "pending_join_request c rid d = Inr j"
  shows "j \<in> set (join_requests d)" "jr_id j = rid" "jr_status j = JoinPending" "require_target_admin c (jr_target j) d = None"
  using assms by (auto simp: pending_join_request_def split: if_splits option.splits dest: find_SomeD)

lemma insert_project_member_cases:
  assumes "insert_project_member c i m d = (r, d1)"
  shows "r = None \<and> find_project_member (pm_project m) (pm_user m) d = None \<and> d1 = d\<lparr>project_members := project_members d @ [m]\<rparr>
    \<or> r \<noteq> None \<and> d1 = d"
  using assms by (auto simp: insert_project_member_def writes_def guarded_def refuse_if_def split: if_splits)

lemma step_approve: "tenancy_step acc h c d (snd (approve_join_request c rid d))"
proof -
  have "tenancy_step acc h c d (snd (then_do (admit_member c d j)
      (\<lambda>d1. writes c 1 d1 (None, set_join_request_status c (jr_id j) JoinApproved admin d1))))"
    if j: "pending_join_request c rid d = Inr j" for j admin
  proof (cases "still_free (jr_user j) (jr_target j) d")
    case (Some e)
    then show ?thesis by (simp add: admit_member_def then_do_def guarded_def unchanged)
  next
    case None
    note a = pending_joinD(4) [OF j]
    show ?thesis
    proof (cases "jr_target j")
      case (JoinOrganization oid)
      let ?d1 = "d\<lparr>org_members := org_members d @ [org_row oid (jr_user j) RoleMember c]\<rparr>"
      have m: "manages_roster c oid d" using a JoinOrganization by (simp add: require_target_admin_def admin_or_owner_manages)
      have s: "tenancy_step acc h c d d2"
        if "d2 = ?d1 \<or> d2 = set_join_request_status c (jr_id j) JoinApproved admin ?d1" "find_member oid (jr_user j) d = None" for d2
        using None JoinOrganization that by (intro member_admitted [OF m _ _ refl]) auto
      obtain r d1 where r: "add_member c 0 (org_row oid (jr_user j) RoleMember c) d = (r, d1)" by fastforce
      show ?thesis using add_member_cases [OF r] s None JoinOrganization
        by (auto simp: admit_member_def then_do_def guarded_def r unchanged writes_def refuse_if_def)
    next
      case (JoinProject pid)
      let ?d1 = "d\<lparr>project_members := project_members d @ [project_row pid (jr_user j) RoleMember c]\<rparr>"
      have m: "find_project pid d \<noteq> None" using a JoinProject by (simp add: require_target_admin_def project_adminD)
      have s: "tenancy_step acc h c d d2"
        if "d2 = ?d1 \<or> d2 = set_join_request_status c (jr_id j) JoinApproved admin ?d1" for d2
        using None JoinProject that by (intro project_member_admitted [OF m _ refl]) auto
      obtain r d1 where r: "insert_project_member c 0 (project_row pid (jr_user j) RoleMember c) d = (r, d1)" by fastforce
      show ?thesis using insert_project_member_cases [OF r] s None JoinProject
        by (auto simp: admit_member_def then_do_def guarded_def r unchanged writes_def refuse_if_def)
    qed
  qed
  then show ?thesis by (auto simp: approve_join_request_def decide_join_request_def unchanged split: sum.split)
qed

lemma step_reject_join: "tenancy_step acc h c d (snd (reject_join_request c rid d))"
  by (auto simp: reject_join_request_def decide_join_request_def then_do_def intro!: request_keeps join_rejected split: sum.split)

lemma clamped: "opt_or (optional_quota v) n = n \<or> 0 \<le> opt_or (optional_quota v) n \<and> opt_or (optional_quota v) n \<le> 1000000"
  by (cases v) (auto simp: optional_quota_def opt_or_def quota_max_def)

lemma step_update_project_quota: "tenancy_step acc h c d (snd (update_project_quota c pid p d))"
proof -
  have "project_limits_ok q \<Longrightarrow> present_ok (\<lambda>v. 0 \<le> v) (qp_spend p) \<Longrightarrow> project_limits_ok (apply_patch
      \<lparr>qp_concurrent = optional_quota (qp_concurrent p), qp_batch = optional_quota (qp_batch p),
       qp_output = optional_quota (qp_output p), qp_spend = qp_spend p\<rparr> q)" for q
    using clamped [of "qp_concurrent p" "ql_concurrent q"] clamped [of "qp_batch p" "ql_batch q"]
      clamped [of "qp_output p" "ql_output q"]
    by (cases "qp_spend p") (auto simp: project_limits_ok_def apply_patch_def present_ok_def opt_or_def [of "Some _"] opt_or_def [of None])
  moreover have "find_project pid d = Some q \<Longrightarrow> q \<in> set (projects d)" for q
    by (auto simp: find_project_def dest: find_SomeD)
  ultimately show ?thesis
    by (auto simp: update_project_quota_def intro!: request_keeps project_edited split: sum.splits)
qed

lemma step_update_member_quota: "tenancy_step acc h c d (snd (update_project_member_quota c pid u p d))"
proof -
  have "member_limits_ok q \<Longrightarrow> member_limits_ok (apply_patch
      \<lparr>qp_concurrent = optional_quota (qp_concurrent p), qp_batch = optional_quota (qp_batch p),
       qp_output = optional_quota (qp_output p), qp_spend = optional_quota (qp_spend p)\<rparr> q)" for q
    using clamped [of "qp_concurrent p" "ql_concurrent q"] clamped [of "qp_batch p" "ql_batch q"]
      clamped [of "qp_output p" "ql_output q"] clamped [of "qp_spend p" "ql_spend q"]
    by (auto simp: member_limits_ok_def project_limits_ok_def apply_patch_def)
  then show ?thesis
    by (auto simp: update_project_member_quota_def intro!: request_keeps project_member_edited split: sum.splits)
qed

lemma step_update_user_quota: "tenancy_step acc h c d (snd (update_user_quota org c requested who p d))"
proof -
  let ?row = "\<lambda>oid u. case find_user_quota oid u d of
    Some q \<Rightarrow> q | None \<Rightarrow> \<lparr>uq_org = oid, uq_user = u, uq_limits = no_limits, uq_by = [], uq_at = None\<rparr>"
  have row: "uq_org (?row oid u) = oid" "uq_user (?row oid u) = u"
    "\<forall>r\<in>set (user_quotas d). limits_ok (uq_limits r) \<Longrightarrow> limits_ok (uq_limits (?row oid u))" for oid u
    by (auto simp: created_ok find_user_quota_def split: option.split dest: find_SomeD)
  have "validate_quota p = None \<Longrightarrow> tenancy_step acc h c d (d\<lparr>user_quotas :=
      filter (\<lambda>q. uq_org q = oid \<longrightarrow> uq_user q \<noteq> u) (user_quotas d)
      @ [(?row oid u)\<lparr>uq_limits := apply_patch p (uq_limits (?row oid u)), uq_by := b, uq_at := t\<rparr>]\<rparr>)" for oid u b t
    using row [of oid u] by (intro user_quota_stored) (auto intro: patch_ok)
  then show ?thesis
    by (auto simp: update_user_quota_def Let_def intro!: request_keeps split: sum.splits)
qed

lemma step_update_org_quota: "tenancy_step acc h c d (snd (update_organization_quota c oid p d))"
  by (auto simp: update_organization_quota_def Let_def intro!: request_keeps org_edited patch_ok split: option.splits)

text \<open>Every request is one such step.\<close>

definition joins_by_invitation :: "tenancy_op \<Rightarrow> bool" where
  "joins_by_invitation r = (case r of AcceptInvitation raw \<Rightarrow> True | _ \<Rightarrow> False)"

lemma request_is_step: "tenancy_step (joins_by_invitation r) h c d (snd (run_tenancy h c r d))"
proof (cases r)
  case (SeedDefault oid name)
  then show ?thesis by (auto simp: seed_default_organization_def intro: unchanged org_seeded)
qed (simp_all add: joins_by_invitation_def step_organizations step_delete_organization step_projects
    step_add_org_member step_members step_invitations step_accept step_reject step_add_project_member
    step_project_members step_create_join step_approve step_reject_join step_update_project_quota
    step_update_member_quota step_update_user_quota step_update_org_quota)

end
