(* ===== verification/TenancyLaws.thy ===== *)
theory TenancyLaws
  imports TenancySteps
begin

text \<open>
  What holds of the tenancy tables over any history of requests: they stay well formed, an account has one
  tenant, rosters change only by those who may change them, an invitation admits once and the strictest limit
  is in force; and the evaluations of histories in which the documented rules fail.
\<close>

section \<open>The tables stay well formed\<close>

definition tenancy_ok :: "tenancy_db \<Rightarrow> bool" where
  "tenancy_ok d =
     (distinct (map og_id (organizations d)) \<and> (\<forall>og\<in>set (organizations d). limits_ok (og_quota og))
      \<and> distinct (map pj_id (projects d))
      \<and> (\<forall>p\<in>set (projects d). pj_id p \<noteq> [] \<and> pj_org p \<in> og_id ` set (organizations d) \<and> project_limits_ok (pj_quota p))
      \<and> distinct (map (\<lambda>m. (om_org m, om_user m)) (org_members d))
      \<and> distinct (map pm_user (project_members d))
      \<and> (\<forall>m\<in>set (project_members d). pm_project m \<in> pj_id ` set (projects d) \<and> plain_role (pm_role m)
            \<and> member_limits_ok (pm_quota m))
      \<and> distinct (map iv_id (invitations d)) \<and> distinct (map iv_hash (invitations d))
      \<and> (\<forall>v\<in>set (invitations d). plain_role (iv_role v)) \<and> (\<forall>m\<in>set (org_members d). plain_role (om_role m))
      \<and> distinct (map jr_id (join_requests d))
      \<and> distinct (map (\<lambda>q. (uq_org q, uq_user q)) (user_quotas d))
      \<and> (\<forall>q\<in>set (user_quotas d). limits_ok (uq_limits q)))"

lemma distinct_filter: "distinct (map f xs) \<Longrightarrow> distinct (map f (filter P xs))"
  by (simp add: distinct_map_filter)

lemma update_where_mem: "x \<in> set (update_where P f rows) \<longleftrightarrow> (\<exists>r\<in>set rows. x = (if P r then f r else r))"
  by (auto simp: update_where_set)

lemma update_where_image: "(\<And>r. g (f r) = g r) \<Longrightarrow> g ` set (update_where P f rows) = g ` set rows"
  by (metis list.set_map update_where_map)

lemma rehash_distinct:
  assumes "distinct (map iv_id vs)" "distinct (map iv_hash vs)" "\<forall>w\<in>set vs. iv_hash w = k \<longrightarrow> iv_id w = vid"
  shows "distinct (map iv_hash (update_where (\<lambda>v. iv_id v = vid) (\<lambda>w. w\<lparr>iv_hash := k, iv_expires := t\<rparr>) vs))"
proof -
  have m: "map iv_hash (update_where (\<lambda>v. iv_id v = vid) (\<lambda>w. w\<lparr>iv_hash := k, iv_expires := t\<rparr>) vs)
      = map (\<lambda>v. if iv_id v = vid then k else iv_hash v) vs"
    by (simp add: update_where_def)
  have "inj_on (\<lambda>v. if iv_id v = vid then k else iv_hash v) (set vs)"
    using assms by (auto simp: distinct_map inj_on_def split: if_splits)
  then show ?thesis using assms(1) unfolding m by (simp add: distinct_map)
qed

lemma find_organization_None: "find_organization oid d = None \<longleftrightarrow> oid \<notin> og_id ` set (organizations d)"
  by (auto simp: find_organization_def find_None_iff)

lemma find_project_None: "find_project pid d = None \<longleftrightarrow> pid \<notin> pj_id ` set (projects d)"
  by (auto simp: find_project_def find_None_iff)

lemma find_member_None: "find_member oid u d = None \<longleftrightarrow> (\<forall>m\<in>set (org_members d). om_org m = oid \<longrightarrow> om_user m \<noteq> u)"
  by (auto simp: find_member_def find_None_iff)

lemma find_project_member_None:
  "find_project_member pid u d = None \<longleftrightarrow> (\<forall>m\<in>set (project_members d). pm_project m = pid \<longrightarrow> pm_user m \<noteq> u)"
  by (auto simp: find_project_member_def find_None_iff)

lemmas finds = find_organization_None find_project_None find_member_None find_project_member_None

lemma in_rest_image: "x \<notin> f ` {y \<in> A. P y} \<Longrightarrow> x \<in> f ` A \<Longrightarrow> x \<in> f ` {y \<in> A. \<not> P y}"
  by auto

lemma status_keeps_ok: "tenancy_ok d \<Longrightarrow> tenancy_ok (set_invitation_status vid st d)"
  by (auto simp: tenancy_ok_def set_invitation_status_def update_invitation_def update_where_map update_where_mem)

lemma add_row_ok:
  "tenancy_ok d \<Longrightarrow> plain_role (om_role m) \<Longrightarrow> find_member (om_org m) (om_user m) d = None \<Longrightarrow>
    tenancy_ok (d\<lparr>org_members := org_members d @ [m]\<rparr>)"
  by (auto simp: tenancy_ok_def finds)

lemma clear_ok: "tenancy_ok d \<Longrightarrow> tenancy_ok (clear_other_orgs oid u d)"
  by (auto simp: tenancy_ok_def clear_other_orgs_def distinct_filter)

lemma join_status_ok: "tenancy_ok d \<Longrightarrow> tenancy_ok (set_join_request_status c rid st admin d)"
  by (auto simp: tenancy_ok_def set_join_request_status_def update_where_map)

lemma step_keeps_ok:
  assumes "tenancy_step acc h c d d'" "tenancy_ok d" "\<And>s. tc_resolve c s \<noteq> Inr []"
  shows "tenancy_ok d'"
  using assms(1)
proof cases
  case (org_seeded oid name desc)
  then show ?thesis using assms(2) by (auto simp: tenancy_ok_def new_organization_def created_ok)
next
  case (org_created oid name desc)
  then show ?thesis using assms(2) by (auto simp: tenancy_ok_def new_organization_def created_ok finds)
next
  case (org_edited f oid)
  then show ?thesis using assms(2)
    by (auto simp: tenancy_ok_def update_org_row_def update_where_map update_where_image update_where_mem)
next
  case (project_created p)
  then show ?thesis using assms(2) by (auto simp: tenancy_ok_def finds created_ok valid_tenancy_id_def)
next
  case (project_edited f pid)
  then show ?thesis using assms(2)
    by (auto simp: tenancy_ok_def update_project_row_def update_where_map update_where_image update_where_mem split: if_splits)
next
  case (org_deleted oid Q)
  then show ?thesis using assms(2)
    by (auto simp: tenancy_ok_def delete_organization_rows_def project_ids_def distinct_filter intro!: in_rest_image)
next
  case (project_deleted pid)
  then show ?thesis using assms(2) by (auto simp: tenancy_ok_def delete_project_requests_def distinct_filter)
next
  case (members_moved oid u)
  then show ?thesis using clear_ok [OF assms(2)] by simp
next
  case (member_added oid who u r d1)
  have "tenancy_ok d1" using member_added(6) assms(2) clear_ok by (cases "oid = [] \<or> u = []") simp_all
  moreover have "find_member oid u d1 = None" using member_added by (simp add: clear_keeps_find)
  ultimately show ?thesis using member_added(1,5) add_row_ok [of d1 "org_row oid u r c"] by simp
next
  case (role_set oid u r)
  then show ?thesis using assms(2)
    by (auto simp: tenancy_ok_def set_member_role_def update_where_map update_where_mem)
next
  case (member_removed oid u)
  then show ?thesis using assms(2) by (auto simp: tenancy_ok_def remove_member_def distinct_filter)
next
  case (invited v)
  then show ?thesis using assms(2)
    by (auto simp: tenancy_ok_def find_invitation_def find_invitation_by_hash_def find_None_iff)
next
  case (invitation_closed v vid st)
  then show ?thesis using status_keeps_ok [OF assms(2)] by simp
next
  case (invitation_resent v vid k t)
  then show ?thesis using assms(2)
    by (auto simp: tenancy_ok_def update_invitation_def update_where_map update_where_mem rehash_distinct)
next
  case (invitee_joined v u email d1)
  have "plain_role (iv_role v)" using invitee_joined(2) assms(2) by (simp add: tenancy_ok_def)
  then have "tenancy_ok d1" using invitee_joined(9) assms(2) add_row_ok [OF assms(2), of "org_row (iv_org v) u (iv_role v) c"]
    by simp
  then show ?thesis using invitee_joined(10) status_keeps_ok by blast
next
  case (join_requested j)
  then show ?thesis using assms(2) by (auto simp: tenancy_ok_def)
next
  case (join_rejected rid st admin)
  then show ?thesis using join_status_ok [OF assms(2)] by simp
next
  case (member_admitted oid u d1 rid admin)
  have "tenancy_ok d1" using member_admitted(3,4) add_row_ok [OF assms(2), of "org_row oid u RoleMember c"]
    by (simp add: plain_role_def)
  then show ?thesis using member_admitted(5) join_status_ok by blast
next
  case (project_member_admitted pid u d1 rid admin)
  have "tenancy_ok d1" using project_member_admitted(1-3) assms(2)
    by (auto simp: tenancy_ok_def finds plain_role_def still_free_def list_member_projects_def filter_empty_conv created_ok)
  then show ?thesis using project_member_admitted(4) join_status_ok by blast
next
  case (project_member_moved u pid)
  then show ?thesis using assms(2) by (auto simp: tenancy_ok_def distinct_filter)
next
  case (project_member_added pid u r d1)
  then show ?thesis using assms(2,3)
    by (auto simp: tenancy_ok_def distinct_filter finds created_ok)
next
  case (project_member_edited f pid u)
  then show ?thesis using assms(2)
    by (auto simp: tenancy_ok_def update_project_member_def update_where_map update_where_mem)
next
  case (project_member_removed pid u)
  then show ?thesis using assms(2) by (auto simp: tenancy_ok_def distinct_filter)
next
  case (user_quota_stored q oid u)
  then show ?thesis using assms(2) by (auto simp: tenancy_ok_def distinct_filter)
qed (use assms(2) in simp)

lemma requests_invariant:
  assumes "\<And>c r s. (c, r) \<in> set rs \<Longrightarrow> I s \<Longrightarrow> I (snd (run_tenancy h c r s))" "I d"
  shows "I (run_requests h rs d)"
  using assms unfolding run_requests_def
proof (induction rs arbitrary: d)
  case (Cons a rs)
  obtain c r where a: "a = (c, r)" by fastforce
  have "I (snd (run_tenancy h c r d))" using Cons.prems a by simp
  then show ?case using Cons.IH [of "snd (run_tenancy h c r d)"] Cons.prems(1) a by simp
qed simp

lemma requests_keep_ok:
  assumes "\<forall>(c, r)\<in>set rs. \<forall>s. tc_resolve c s \<noteq> Inr []" "tenancy_ok d"
  shows "tenancy_ok (run_requests h rs d)"
proof (rule requests_invariant [where I = tenancy_ok])
  fix c r s
  assume "(c, r) \<in> set rs" "tenancy_ok s"
  then show "tenancy_ok (snd (run_tenancy h c r s))"
    using step_keeps_ok [OF request_is_step] assms(1) by fastforce
qed (rule assms)

text \<open>C26. Whatever requests the tenancy service answers, whoever sends them and whichever of their writes fail, its
  tables stay well formed: identifiers, memberships, invitation tokens and join requests are stored once, a
  project belongs to an organization that exists, an account belongs to at most one project and that project
  exists, no request makes anybody an owner, and every limit is in its range: of an organization or an account 0 to
  10000 requests and batch jobs and 0 or 64 to 32768 output tokens, of a project or a member 0 to 1000000.
\<close>

theorem tenancy_well_formed:
  assumes "\<forall>(c, r)\<in>set rs. \<forall>s. tc_resolve c s \<noteq> Inr []"
  shows "tenancy_ok (run_requests h rs empty_tenancy)"
  by (rule requests_keep_ok [OF assms]) (simp add: tenancy_ok_def empty_tenancy_def)

section \<open>One organization per account\<close>

definition tenant_rows :: "tenancy_db \<Rightarrow> org_member list" where
  "tenant_rows d = filter (\<lambda>m. om_org m \<noteq> platform_org \<and> om_org m \<noteq> []) (org_members d)"

definition one_tenant :: "tenancy_db \<Rightarrow> bool" where
  "one_tenant d = distinct (map om_user (tenant_rows d))"

lemma one_tenant_sub:
  assumes "one_tenant d" "org_members d' = filter P (org_members d)"
  shows "one_tenant d'"
proof -
  have "tenant_rows d' = filter P (tenant_rows d)" by (simp add: tenant_rows_def assms(2) filter_filter conj_commute)
  then show ?thesis using assms(1) by (simp add: one_tenant_def distinct_filter)
qed

lemma one_tenant_add:
  assumes "one_tenant d" "org_members d' = org_members d @ [m]"
    "om_org m \<noteq> platform_org \<Longrightarrow> om_org m \<noteq> [] \<Longrightarrow> \<forall>n\<in>set (tenant_rows d). om_user n \<noteq> om_user m"
  shows "one_tenant d'"
  using assms by (auto simp: one_tenant_def tenant_rows_def)

lemma clear_leaves_one:
  "m \<in> set (tenant_rows (clear_other_orgs oid u d)) \<Longrightarrow> om_user m = u \<Longrightarrow> om_org m = oid"
  by (auto simp: tenant_rows_def clear_other_orgs_def)

lemma org_members_frame [simp]:
  "org_members (update_org_row oid f d) = org_members d" "org_members (update_project_row pid p d) = org_members d"
  "org_members (delete_project_requests pids d) = org_members d"
  "org_members (update_invitation vid g d) = org_members d" "org_members (set_invitation_status vid st d) = org_members d"
  "org_members (set_join_request_status c rid js admin d) = org_members d"
  "org_members (update_project_member pid u k d) = org_members d"
  by (simp_all add: update_org_row_def update_project_row_def delete_project_requests_def update_invitation_def
      set_invitation_status_def set_join_request_status_def update_project_member_def)

lemma role_update_filter:
  assumes "\<And>m. P (m\<lparr>om_role := r\<rparr>) = P m"
  shows "map om_user (filter P (update_where Q (\<lambda>m. m\<lparr>om_role := r\<rparr>) ms)) = map om_user (filter P ms)"
  using assms by (induction ms) (auto simp: update_where_def)

lemma step_keeps_one:
  assumes "tenancy_step False h c d d'" "one_tenant d" "\<And>s. tc_resolve c s \<noteq> Inr []"
  shows "one_tenant d'"
  using assms(1)
proof cases
  case (org_deleted oid Q)
  then show ?thesis using assms(2) by - (rule one_tenant_sub [of d], simp_all add: delete_organization_rows_def)
next
  case (members_moved oid u)
  then show ?thesis using assms(2) by - (rule one_tenant_sub [of d], simp_all add: clear_other_orgs_def)
next
  case (member_added oid who u r d1)
  have d1: "one_tenant d1" using member_added(6) assms(2)
    by (auto intro: one_tenant_sub [of d] simp: clear_other_orgs_def)
  have "\<forall>n\<in>set (tenant_rows d1). om_user n \<noteq> u" if "oid \<noteq> []"
  proof
    fix n
    assume n: "n \<in> set (tenant_rows d1)"
    have "u \<noteq> []" using member_added assms(3) by auto
    then have e: "d1 = clear_other_orgs oid u d" using member_added that by simp
    have "om_user n = u \<Longrightarrow> om_org n = oid" using n unfolding e by (rule clear_leaves_one)
    moreover have "n \<in> set (org_members d)" using n unfolding e by (simp add: tenant_rows_def clear_other_orgs_def)
    ultimately show "om_user n \<noteq> u" using member_added by (auto simp: finds)
  qed
  then show ?thesis using d1 member_added by - (rule one_tenant_add [of d1], auto)
next
  case (role_set oid u r)
  have "map om_user (tenant_rows d') = map om_user (tenant_rows d)"
    unfolding role_set tenant_rows_def set_member_role_def by (simp add: role_update_filter)
  then show ?thesis using assms(2) by (simp add: one_tenant_def)
next
  case (member_removed oid u)
  then show ?thesis using assms(2) by - (rule one_tenant_sub [of d], simp_all add: remove_member_def)
next
  case (member_admitted oid u d1 rid admin)
  have "\<forall>n\<in>set (tenant_rows d). om_user n \<noteq> u"
    using member_admitted by (auto simp: still_free_def real_org_memberships_def list_member_orgs_def tenant_rows_def filter_empty_conv)
  then show ?thesis using assms(2) member_admitted by - (rule one_tenant_add [of d], auto)
qed (use assms(2) in \<open>auto simp: one_tenant_def tenant_rows_def\<close>)

text \<open>C23. An account belongs to at most one tenant organization, whatever organizations administrators add it to,
  as long as nobody accepts an invitation.  (The organization without a name, which cannot be created, and
  the platform's own do not count.)
\<close>

theorem one_tenant_per_account:
  assumes "\<forall>(c, r)\<in>set rs. (\<forall>s. tc_resolve c s \<noteq> Inr []) \<and> (\<forall>raw. r \<noteq> AcceptInvitation raw)"
  shows "distinct (map om_user (tenant_rows (run_requests h rs empty_tenancy)))"
proof -
  have "one_tenant (run_requests h rs empty_tenancy)"
  proof (rule requests_invariant [where I = one_tenant])
    fix c r s
    assume m: "(c, r) \<in> set rs" and o: "one_tenant s"
    have "\<not> joins_by_invitation r" using m assms by (cases r) (fastforce simp: joins_by_invitation_def)+
    then have "tenancy_step False h c s (snd (run_tenancy h c r s))" using request_is_step [of r h c s] by simp
    then show "one_tenant (snd (run_tenancy h c r s))" using step_keeps_one o m assms by fastforce
  qed (simp add: one_tenant_def tenant_rows_def empty_tenancy_def)
  then show ?thesis by (simp add: one_tenant_def)
qed

section \<open>Who changes a roster\<close>

definition roster :: "string \<Rightarrow> tenancy_db \<Rightarrow> org_member list" where
  "roster oid d = filter (\<lambda>m. om_org m = oid) (org_members d)"

lemma roster_frame: "org_members d' = org_members d \<Longrightarrow> roster oid d' = roster oid d"
  by (simp add: roster_def)

lemma find_project_clear [simp]: "projects (clear_other_orgs oid u d) = projects d"
  by (simp add: clear_other_orgs_def)

lemma clear_roster:
  assumes "roster oid (clear_other_orgs other u d) \<noteq> roster oid d" "owned_org_ids u other d = []"
  shows "oid \<noteq> other" "roster oid (clear_other_orgs other u d) = filter (\<lambda>m. om_user m \<noteq> u) (roster oid d)"
    "\<forall>m\<in>set (roster oid d). om_user m = u \<longrightarrow> om_role m \<noteq> RoleOwner"
proof -
  have r: "roster oid (clear_other_orgs other u d)
      = filter (\<lambda>m. \<not> (om_user m = u \<and> oid \<noteq> other \<and> oid \<noteq> platform_org)) (roster oid d)"
    by (auto simp: roster_def clear_other_orgs_def intro!: filter_cong)
  have o: "oid \<noteq> other \<and> oid \<noteq> platform_org" using assms(1) unfolding r by (cases "oid \<noteq> other \<and> oid \<noteq> platform_org") auto
  then show "oid \<noteq> other" "roster oid (clear_other_orgs other u d) = filter (\<lambda>m. om_user m \<noteq> u) (roster oid d)"
    unfolding r by auto
  show "\<forall>m\<in>set (roster oid d). om_user m = u \<longrightarrow> om_role m \<noteq> RoleOwner"
    using assms(2) o by (auto simp: owned_org_ids_def real_org_memberships_def list_member_orgs_def roster_def filter_empty_conv)
qed

text \<open>What a request can do to the roster of an organization: the row an invitee gets, or the loss of a mover.\<close>

definition joins_roster :: "(string \<Rightarrow> string) \<Rightarrow> tenancy_call \<Rightarrow> string \<Rightarrow> tenancy_db \<Rightarrow> tenancy_db \<Rightarrow> bool" where
  "joins_roster h c oid d d' = (\<exists>v\<in>set (invitations d). \<exists>u email.
     iv_org v = oid \<and> iv_status v = InvitationPending \<and> in_time c v
     \<and> tc_user c = Inr u \<and> tc_email c = Inr email \<and> same_fold email (iv_email v)
     \<and> roster oid d' = roster oid d @ [org_row oid u (iv_role v) c])"

definition moved_away :: "tenancy_call \<Rightarrow> string \<Rightarrow> tenancy_db \<Rightarrow> tenancy_db \<Rightarrow> bool" where
  "moved_away c oid d d' = (\<exists>other u. other \<noteq> oid \<and> manages_roster c other d \<and> find_member other u d = None
     \<and> (\<forall>m\<in>set (roster oid d). om_user m = u \<longrightarrow> om_role m \<noteq> RoleOwner)
     \<and> roster oid d' = filter (\<lambda>m. om_user m \<noteq> u) (roster oid d))"

lemma step_roster:
  assumes "tenancy_step acc h c d d'" "roster oid d' \<noteq> roster oid d"
  shows "manages_roster c oid d \<or> acc \<and> joins_roster h c oid d d' \<or> moved_away c oid d d'"
  using assms(1)
proof cases
  case (org_deleted other Q)
  then show ?thesis by (simp add: manages_roster_def)
next
  case (members_moved other u)
  then show ?thesis using clear_roster [of oid other u d] assms(2) by (auto simp: moved_away_def)
next
  case (member_added other who u r d1)
  show ?thesis
  proof (cases "other = oid")
    case False
    have "roster oid d' = roster oid d1" using member_added(1) False by (simp add: roster_def)
    then show ?thesis using member_added False clear_roster [of oid other u d] assms(2)
      by (auto simp: moved_away_def split: if_splits)
  qed (use member_added in simp)
next
  case (role_set other u r)
  have "roster oid d' = roster oid d" if "other \<noteq> oid"
  proof -
    have "filter (\<lambda>m. om_org m = oid) (update_where (\<lambda>m. om_org m = other \<and> om_user m = u) (\<lambda>m. m\<lparr>om_role := r\<rparr>) ms)
        = filter (\<lambda>m. om_org m = oid) ms" for ms using that by (induction ms) (auto simp: update_where_def)
    then show ?thesis by (simp add: role_set roster_def set_member_role_def)
  qed
  then show ?thesis using role_set assms(2) by auto
next
  case (member_removed other u)
  have "roster oid d' = roster oid d" if "other \<noteq> oid"
    using that by (auto simp: member_removed roster_def remove_member_def filter_filter intro!: filter_cong)
  then show ?thesis using member_removed assms(2) by auto
next
  case (invitee_joined v u email d1)
  have "roster oid d' = roster oid d1" using invitee_joined(10) by (auto intro: roster_frame)
  then have "iv_org v = oid" "roster oid d' = roster oid d @ [org_row oid u (iv_role v) c]"
    using invitee_joined(9) assms(2) by (auto simp: roster_def split: if_splits)
  then show ?thesis using invitee_joined by (auto simp: joins_roster_def)
next
  case (member_admitted other u d1 rid admin)
  have "roster oid d' = roster oid d1" using member_admitted by (auto intro: roster_frame)
  then show ?thesis using member_admitted assms(2) by (auto simp: roster_def split: if_splits)
next
  case (project_member_admitted pid u d1 rid admin)
  then have "roster oid d' = roster oid d" by (auto intro: roster_frame)
  then show ?thesis using assms(2) by simp
next
  case (project_member_added pid u r who d1)
  then have "roster oid d' = roster oid d" by (auto intro: roster_frame)
  then show ?thesis using assms(2) by simp
qed (use assms(2) in \<open>simp_all add: roster_def\<close>)

text \<open>C22. The roster of an organization changes only by an administrator of it or of the platform, by an invited
  person who accepts an invitation to it that is pending, in time and for that person's address, or because
  an administrator of another organization moves a member who does not own it over there.
\<close>

theorem roster_guarded:
  assumes "roster oid (snd (run_tenancy h c r d)) \<noteq> roster oid d"
  shows "manages_roster c oid d \<or> joins_by_invitation r \<and> joins_roster h c oid d (snd (run_tenancy h c r d))
    \<or> moved_away c oid d (snd (run_tenancy h c r d))"
  by (rule step_roster [OF request_is_step assms])

section \<open>Invitations\<close>

definition used_up :: "string \<Rightarrow> tenancy_db \<Rightarrow> bool" where
  "used_up k d = (\<forall>v\<in>set (invitations d). iv_hash v = k \<longrightarrow> iv_status v \<noteq> InvitationPending)"

lemma step_keeps_used:
  assumes "tenancy_step acc h c d d'" "used_up k d" "h (tc_token c) \<noteq> k"
  shows "used_up k d'"
  using assms(1)
proof cases
  case (org_deleted oid Q)
  then show ?thesis using assms(2) by (simp add: used_up_def delete_organization_rows_def)
next
  case (invited v)
  then show ?thesis using assms(2,3) by (auto simp: used_up_def)
next
  case (invitation_closed v vid st)
  then show ?thesis using assms(2)
    by (auto simp: used_up_def set_invitation_status_def update_invitation_def update_where_mem split: if_splits)
next
  case (invitation_resent v vid k' t)
  then show ?thesis using assms(2,3) by (auto simp: used_up_def update_invitation_def update_where_mem split: if_splits)
next
  case (invitee_joined v u email d1)
  have "used_up k d1" using invitee_joined(9) assms(2) by (auto simp: used_up_def split: if_splits)
  then show ?thesis using invitee_joined(10)
    by (auto simp: used_up_def set_invitation_status_def update_invitation_def update_where_mem split: if_splits)
next
  case (member_admitted oid u d1 rid admin)
  then show ?thesis using assms(2) by (auto simp: used_up_def set_join_request_status_def)
next
  case (project_member_admitted pid u d1 rid admin)
  then show ?thesis using assms(2) by (auto simp: used_up_def set_join_request_status_def)
qed (use assms(2) in \<open>auto simp: used_up_def update_org_row_def update_project_row_def delete_project_requests_def
    clear_other_orgs_def set_member_role_def remove_member_def set_join_request_status_def update_project_member_def\<close>)

lemma requests_keep_used:
  assumes "\<forall>(k, r)\<in>set rs. h (tc_token k) \<noteq> x" "used_up x d"
  shows "used_up x (run_requests h rs d)"
proof (rule requests_invariant [where I = "used_up x"])
  fix c r s
  assume "(c, r) \<in> set rs" "used_up x s"
  then show "used_up x (snd (run_tenancy h c r s))" using step_keeps_used [OF request_is_step] assms(1) by fastforce
qed (rule assms)

lemma accepted_is_used_up:
  assumes "accept_invitation h c raw d = (None, d1)" "distinct (map iv_hash (invitations d))"
  shows "used_up (h raw) d1"
proof -
  have frame: "invitations (snd (add_member c i m d)) = invitations d" for i m
    by (simp add: add_member_def writes_def guarded_def refuse_if_def split: option.split)
  have "\<exists>u v. usable_invitation h c raw d = Inr v
      \<and> d1 = set_invitation_status (iv_id v) InvitationAccepted (snd (add_member c 0 (org_row (iv_org v) u (iv_role v) c) d))"
    using assms(1) by (auto simp: accept_invitation_def guarded_def writes_def refuse_if_def split_beta
        split: sum.splits option.splits if_splits)
  then obtain v d0 where a: "usable_invitation h c raw d = Inr v" "invitations d0 = invitations d"
    "d1 = set_invitation_status (iv_id v) InvitationAccepted d0" using frame by blast
  have "w = v" if "w \<in> set (invitations d)" "iv_hash w = h raw" for w
    using that usableD(2,3) [OF a(1)] assms(2) by (metis distinct_map inj_onD)
  then have w: "iv_hash w = h raw \<Longrightarrow> w = v" if "w \<in> set (invitations d)" for w using that by blast
  show ?thesis unfolding used_up_def
  proof (intro ballI impI)
    fix x
    assume x: "x \<in> set (invitations d1)" "iv_hash x = h raw"
    then obtain r where r: "r \<in> set (invitations d)"
      "x = (if iv_id r = iv_id v then r\<lparr>iv_status := InvitationAccepted\<rparr> else r)"
      by (auto simp: a(2,3) set_invitation_status_def update_invitation_def update_where_mem)
    have "iv_hash r = h raw" using x(2) r(2) by (simp split: if_splits)
    then show "iv_status x \<noteq> InvitationPending" using w [OF r(1)] r(2) by simp
  qed
qed

text \<open>C24. An invitation admits once: after it was accepted its token opens nothing, whatever requests came in
  between and whoever presents it, as long as no later token has its digest.
\<close>

theorem invitation_used_once:
  assumes "tenancy_ok d" "accept_invitation h c raw d = (None, d1)"
    "\<forall>(k, r)\<in>set rs. h (tc_token k) \<noteq> h raw" "tc_user k = Inr u"
  shows "accept_invitation h k raw (run_requests h rs d1) = (Some CodeInvitationNotFound, run_requests h rs d1)"
proof -
  have "used_up (h raw) (run_requests h rs d1)"
    using requests_keep_used [OF assms(3)] accepted_is_used_up [OF assms(2)] assms(1) by (simp add: tenancy_ok_def)
  then have "usable_invitation h k raw (run_requests h rs d1) = Inl CodeInvitationNotFound"
    by (auto simp: used_up_def usable_invitation_def pending_invitation_def split: option.splits dest: find_invitationD)
  then show ?thesis using assms(4) by (simp add: accept_invitation_def)
qed

section \<open>The strictest limit wins\<close>

definition strictest :: "int list \<Rightarrow> int" where
  "strictest ns = (if \<forall>n\<in>set ns. n = 0 then 0 else Min (set ns - {0}))"

lemma min_non_zero_min: "a \<noteq> 0 \<Longrightarrow> b \<noteq> 0 \<Longrightarrow> min_non_zero a b = min a b"
  by (simp add: min_non_zero_def)

lemma fold_strictest: "foldl min_non_zero a ns = strictest (a # ns)"
proof (induction ns arbitrary: a)
  case (Cons n ns)
  have "strictest (min_non_zero a n # ns) = strictest (a # n # ns)"
  proof (cases "a = 0 \<or> n = 0")
    case True
    then show ?thesis by (auto simp: min_non_zero_def strictest_def insert_commute)
  next
    case False
    then have m: "min_non_zero a n = min a n" "min a n \<noteq> 0" by (auto simp: min_non_zero_min min_def)
    have "Min (insert (min a n) (set ns - {0})) = Min (insert a (insert n (set ns - {0})))"
    proof (cases "set ns - {0} = {}")
      case True
      show ?thesis unfolding True by (simp add: min.commute)
    qed (simp add: min.assoc)
    then show ?thesis using False m by (simp add: strictest_def insert_Diff_if)
  qed
  then show ?case by (simp add: Cons.IH)
qed (simp add: strictest_def)

lemma combine_fold:
  "foldl combine_two q ls = \<lparr>ql_concurrent = foldl min_non_zero (ql_concurrent q) (map ql_concurrent ls),
     ql_batch = foldl min_non_zero (ql_batch q) (map ql_batch ls), ql_output = foldl min_non_zero (ql_output q) (map ql_output ls),
     ql_spend = foldl min_non_zero (ql_spend q) (map ql_spend ls)\<rparr>"
  by (induction ls arbitrary: q) (simp_all add: combine_two_def)

lemma strictest_zero: "strictest (0 # ns) = strictest ns"
  by (simp add: strictest_def)

lemma combine_strictest:
  "combine_limits ls = \<lparr>ql_concurrent = strictest (map ql_concurrent ls), ql_batch = strictest (map ql_batch ls),
     ql_output = strictest (map ql_output ls), ql_spend = strictest (map ql_spend ls)\<rparr>"
  by (simp add: combine_limits_def combine_fold fold_strictest no_limits_def strictest_zero)

text \<open>C25. Per dimension the limit in force is the smallest of the organization's, the project's, the person's and
  the project member's that is set: a tier can tighten the others and never loosen them.
\<close>

theorem effective_quota_is_strictest:
  "effective_quota oid pid u d =
     (let tiers = [org_quota oid d, project_quota_limits pid d,
        if u \<noteq> [] \<and> oid \<noteq> [] then user_quota_limits oid u d else no_limits, project_member_quota_limits pid u d]
      in \<lparr>ql_concurrent = strictest (map ql_concurrent tiers), ql_batch = strictest (map ql_batch tiers),
          ql_output = strictest (map ql_output tiers), ql_spend = strictest (map ql_spend tiers)\<rparr>)"
  by (simp only: effective_quota_def combine_strictest Let_def)

section \<open>Evaluations\<close>

definition call_as :: "string \<Rightarrow> bool \<Rightarrow> string \<Rightarrow> tenancy_call" where
  "call_as u platform k =
     \<lparr>tc_user = Inr u, tc_email = Inr (u @ ''@x.io''), tc_platform = Inr platform, tc_active_org = Inr [],
      tc_resolve = (\<lambda>s. if s = [] then Inl CodeUserNotFound else Inr s), tc_is_uuid = (\<lambda>s. True), tc_now = 10 ^ 18,
      tc_id = k, tc_token = k, tc_ttl = 3600 * 10 ^ 9, tc_up = (\<lambda>i. True), tc_in_use = (\<lambda>oid. (0, 0))\<rparr>"

definition demo_requests :: "(tenancy_call \<times> tenancy_op) list" where
  "demo_requests =
     [(call_as ''root'' True ''k1'', CreateOrganization ''acme'' ''Acme'' []),
      (call_as ''root'' True ''k2'', CreateOrganization ''bolt'' ''Bolt'' []),
      (call_as ''root'' True ''k3'', AddOrgMember ''acme'' ''ann'' ''admin''),
      (call_as ''root'' True ''k4'', AddOrgMember ''bolt'' ''bob'' ''admin''),
      (call_as ''ann'' False ''k5'', CreateProject ''web'' ''acme'' ''Web'' []),
      (call_as ''ann'' False ''k6'', AddProjectMember ''web'' ''bob'' ''member''),
      (call_as ''cyd'' False ''k7'', CreateJoinRequest ''organization'' ''acme'' []),
      (call_as ''ann'' False ''k8'', ApproveJoinRequest ''k7'')]"

definition demo_tenancy :: tenancy_db where
  "demo_tenancy = run_requests (\<lambda>s. s) demo_requests empty_tenancy"

lemma demo_tenancy_rows:
  "demo_tenancy =
     \<lparr>organizations = [new_organization ''acme'' ''Acme'' [], new_organization ''bolt'' ''Bolt'' []],
      projects = [\<lparr>pj_id = ''web'', pj_org = ''acme'', pj_name = ''Web'', pj_description = [], pj_state = StateActive,
        pj_quota = no_limits, pj_quota_by = [], pj_quota_at = None\<rparr>],
      org_members = [\<lparr>om_org = ''acme'', om_user = ''ann'', om_role = RoleAdmin, om_joined = 10 ^ 9\<rparr>,
        \<lparr>om_org = ''bolt'', om_user = ''bob'', om_role = RoleAdmin, om_joined = 10 ^ 9\<rparr>,
        \<lparr>om_org = ''acme'', om_user = ''cyd'', om_role = RoleMember, om_joined = 10 ^ 9\<rparr>],
      project_members = [\<lparr>pm_project = ''web'', pm_user = ''bob'', pm_role = RoleMember, pm_joined = 10 ^ 9,
        pm_quota = no_limits, pm_quota_by = [], pm_quota_at = None\<rparr>],
      invitations = [],
      join_requests = [\<lparr>jr_id = ''k7'', jr_user = ''cyd'', jr_target = JoinOrganization ''acme'', jr_status = JoinApproved,
        jr_message = [], jr_decided_by = ''ann'', jr_decided_at = 10 ^ 9\<rparr>],
      user_quotas = []\<rparr>"
  by code_simp

lemma demo_sound: "\<forall>(c, r)\<in>set demo_requests. (\<forall>s. tc_resolve c s \<noteq> Inr []) \<and> (\<forall>raw. r \<noteq> AcceptInvitation raw)"
  by (simp add: demo_requests_def call_as_def)

text \<open>
  Limits of an organization outside the documented range are refused; a project takes the same number, and an
  output limit below the documented least.
\<close>

definition demo_patch :: "int \<Rightarrow> int \<Rightarrow> quota_patch" where
  "demo_patch n k = \<lparr>qp_concurrent = Some n, qp_batch = None, qp_output = Some k, qp_spend = Some 5000\<rparr>"

definition demo_quota_requests :: "(tenancy_call \<times> tenancy_op) list" where
  "demo_quota_requests = demo_requests @
     [(call_as ''root'' True ''k9'', UpdateOrganizationQuota ''acme'' (demo_patch 100 64)),
      (call_as ''root'' True ''k9'', UpdateOrganizationQuota ''acme'' (demo_patch 20000 64)),
      (call_as ''ann'' False ''k9'', UpdateProjectQuota ''web'' (demo_patch 20000 10))]"

lemma demo_quotas:
  "map (\<lambda>og. ql_concurrent (og_quota og)) (organizations (run_requests (\<lambda>s. s) demo_quota_requests empty_tenancy)) = [100, 0]"
  "map (\<lambda>p. (ql_concurrent (pj_quota p), ql_output (pj_quota p))) (projects (run_requests (\<lambda>s. s) demo_quota_requests empty_tenancy))
     = [(20000, 10)]"
  by code_simp+

lemma project_limits_exceed_documented_range:
  "\<exists>p\<in>set (projects (run_requests (\<lambda>s. s) demo_quota_requests empty_tenancy)). \<not> limits_ok (pj_quota p)"
proof -
  let ?ps = "projects (run_requests (\<lambda>s. s) demo_quota_requests empty_tenancy)"
  have "(20000, 10) \<in> set (map (\<lambda>p. (ql_concurrent (pj_quota p), ql_output (pj_quota p))) ?ps)"
    unfolding demo_quotas(2) by simp
  then obtain p where "p \<in> set ?ps" "ql_concurrent (pj_quota p) = 20000" by auto
  then show ?thesis by (intro bexI [of _ p]) (simp_all add: limits_ok_def)
qed

theorem tenancy_well_formed_witness:
  "tenancy_ok (run_requests (\<lambda>s. s) demo_quota_requests empty_tenancy)
   \<and> map (\<lambda>og. ql_concurrent (og_quota og)) (organizations (run_requests (\<lambda>s. s) demo_quota_requests empty_tenancy)) = [100, 0]
   \<and> length (project_members demo_tenancy) = 1 \<and> length (join_requests demo_tenancy) = 1"
proof (intro conjI)
  have "\<forall>(c, r)\<in>set demo_quota_requests. \<forall>s. tc_resolve c s \<noteq> Inr []"
    using demo_sound by (auto simp: demo_quota_requests_def call_as_def)
  then show "tenancy_ok (run_requests (\<lambda>s. s) demo_quota_requests empty_tenancy)" by (rule tenancy_well_formed)
qed (simp_all add: demo_tenancy_rows demo_quotas)

theorem one_tenant_per_account_witness:
  "distinct (map om_user (tenant_rows demo_tenancy)) \<and> map om_user (tenant_rows demo_tenancy) = [''ann'', ''bob'', ''cyd'']"
proof (rule conjI)
  show "distinct (map om_user (tenant_rows demo_tenancy))"
    unfolding demo_tenancy_def by (rule one_tenant_per_account [OF demo_sound])
qed (simp add: demo_tenancy_rows tenant_rows_def platform_org_def)

text \<open>
  Accepting an invitation does not move the account: it keeps its old organization.  A member of a project
  need not belong to its organization, and the administrator of one organization can take a member, here an
  administrator, out of another.
\<close>

lemma acceptance_gives_two_tenants:
  "map (\<lambda>m. (om_org m, om_user m)) (tenant_rows (run_requests (\<lambda>s. s)
     [(call_as ''root'' True ''k9'', CreateInvitation ''bolt'' ''cyd@x.io'' ''member'' 0),
      (call_as ''cyd'' False ''k10'', AcceptInvitation ''k9'')] demo_tenancy))
   = [(''acme'', ''ann''), (''bolt'', ''bob''), (''acme'', ''cyd''), (''bolt'', ''cyd'')]"
  unfolding demo_tenancy_rows by code_simp

lemma project_member_outside_organization:
  "find_project_member ''web'' ''bob'' demo_tenancy \<noteq> None \<and> find_member ''acme'' ''bob'' demo_tenancy = None"
  unfolding demo_tenancy_rows by code_simp

lemma foreign_admin_takes_member:
  "roster ''acme'' demo_tenancy \<noteq> []
   \<and> find_member ''acme'' ''ann'' (snd (run_tenancy (\<lambda>s. s) (call_as ''bob'' False ''k9'')
       (AddOrgMember ''bolt'' ''ann'' ''viewer'') demo_tenancy)) = None"
  unfolding demo_tenancy_rows by code_simp

text \<open>No role is asked of who disables an organization, and a viewer's gate lets everybody in.\<close>

lemma anyone_disables_organization:
  assumes "find_organization oid d \<noteq> None" "tc_up c 0"
  shows "set_organization_state c oid StateDisabled d = (None, update_org_row oid (\<lambda>og. og\<lparr>og_state := StateDisabled\<rparr>) d)"
  using assms by (simp add: set_organization_state_def writes_def guarded_def refuse_if_def)

lemma viewer_gate_is_open: "require_role c oid u RoleViewer d = None"
  by (simp add: require_role_def less_role_def)

text \<open>The quota gate looks at the session's organization only.\<close>

lemma other_tenants_quota_edited:
  "fst (run_tenancy (\<lambda>s. s) ((call_as ''ann'' False ''k9'')\<lparr>tc_active_org := Inr ''acme''\<rparr>)
     (UpdateOrganizationQuota ''bolt'' \<lparr>qp_concurrent = Some 1, qp_batch = None, qp_output = None, qp_spend = None\<rparr>)
     demo_tenancy) = None"
  unfolding demo_tenancy_rows by code_simp

text \<open>
  Requests that interleave between the move and the insert leave two organizations; a negative spend limit of a
  project member is stored as no limit; personal quotas outlive their organization; and a platform
  administrator can fill the roster of an organization that does not exist.
\<close>

lemma interleaved_moves_give_two_tenants:
  "map om_org (tenant_rows (snd (add_member c 1 (org_row ''acme'' ''eve'' RoleMember (call_as ''root'' True []))
     (snd (add_member c 1 (org_row ''bolt'' ''eve'' RoleMember (call_as ''root'' True []))
        (clear_other_orgs ''acme'' ''eve'' (clear_other_orgs ''bolt'' ''eve'' empty_tenancy))))))) = [''bolt'', ''acme'']"
  if "c = call_as ''root'' True []" for c
  unfolding that by code_simp

lemma negative_limit_is_none: "optional_quota (Some (- 5)) = Some 0"
  by (simp add: optional_quota_def)

lemma personal_quota_outlives_organization:
  "user_quotas (delete_organization_rows oid (delete_project_requests pids d)) = user_quotas d"
  by (simp add: delete_organization_rows_def delete_project_requests_def)

lemma roster_of_unknown_organization:
  "roster ''ghost'' (snd (run_tenancy (\<lambda>s. s) (call_as ''root'' True ''k9'')
     (AddOrgMember ''ghost'' ''cyd'' ''admin'') demo_tenancy)) \<noteq> []"
  unfolding demo_tenancy_rows by code_simp

theorem roster_guarded_witness:
  "moved_away (call_as ''bob'' False ''k9'') ''acme'' demo_tenancy
     (snd (run_tenancy (\<lambda>s. s) (call_as ''bob'' False ''k9'') (AddOrgMember ''bolt'' ''ann'' ''viewer'') demo_tenancy))"
proof -
  have "roster ''acme'' (snd (run_tenancy (\<lambda>s. s) (call_as ''bob'' False ''k9'') (AddOrgMember ''bolt'' ''ann'' ''viewer'')
      demo_tenancy)) \<noteq> roster ''acme'' demo_tenancy" unfolding demo_tenancy_rows by code_simp
  moreover have "\<not> manages_roster (call_as ''bob'' False ''k9'') ''acme'' demo_tenancy"
  proof -
    have "resolve_member_role ''acme'' ''bob'' demo_tenancy = RoleNone" unfolding demo_tenancy_rows by code_simp
    then show ?thesis by (simp add: manages_roster_def caller_is_platform_admin_def call_as_def less_eq_role_def)
  qed
  moreover have "\<not> joins_by_invitation (AddOrgMember ''bolt'' ''ann'' ''viewer'')" by (simp add: joins_by_invitation_def)
  ultimately show ?thesis using roster_guarded by blast
qed

theorem invitation_used_once_witness:
  "\<exists>d1. accept_invitation (\<lambda>s. s) (call_as ''cyd'' False ''k10'') ''k9''
     (run_requests (\<lambda>s. s) [(call_as ''root'' True ''k9'', CreateInvitation ''bolt'' ''cyd@x.io'' ''member'' 0)] demo_tenancy)
       = (None, d1)
   \<and> fst (accept_invitation (\<lambda>s. s) (call_as ''cyd'' False ''k12'') ''k9''
       (run_requests (\<lambda>s. s) [(call_as ''bob'' False ''k11'', RemoveOrgMember ''bolt'' ''cyd'')] d1)) = Some CodeInvitationNotFound"
proof -
  let ?d = "run_requests (\<lambda>s. s) [(call_as ''root'' True ''k9'', CreateInvitation ''bolt'' ''cyd@x.io'' ''member'' 0)] demo_tenancy"
  have "tenancy_ok ?d"
    by (rule requests_keep_ok) (simp add: call_as_def, simp add: demo_tenancy_def, rule requests_keep_ok,
      use demo_sound in fast, simp add: tenancy_ok_def empty_tenancy_def)
  moreover have "fst (accept_invitation (\<lambda>s. s) (call_as ''cyd'' False ''k10'') ''k9'' ?d) = None" unfolding demo_tenancy_rows by code_simp
  then obtain d1 where a: "accept_invitation (\<lambda>s. s) (call_as ''cyd'' False ''k10'') ''k9'' ?d = (None, d1)"
    by (metis surjective_pairing)
  ultimately show ?thesis
    using invitation_used_once [of ?d "\<lambda>s. s" "call_as ''cyd'' False ''k10''" "''k9''" d1
        "[(call_as ''bob'' False ''k11'', RemoveOrgMember ''bolt'' ''cyd'')]" "call_as ''cyd'' False ''k12''" "''cyd''"]
    by (simp add: call_as_def)
qed

end
