(* ===== verification/AuthStore.thy ===== *)
theory AuthStore
  imports GoJson
begin

text \<open>
  What the authentication service keeps in Redis and how passwords are stored: \<open>session_store.go\<close>,
  \<open>email_code.go\<close>, the puzzle of \<open>captcha.go\<close> and \<open>password_crypto.go\<close>.  Times are nanoseconds since 1970.  A
  key whose time to live is over is not there.  The kinds of keys have different prefixes and are different
  fields here.  Roles and organizations of a session are stored as JSON arrays; the lists stand for them.
\<close>

section \<open>Configuration and one request\<close>

datatype auth_error =
    InvalidCredentials | UserNotFound | UserExists | UserDisabled | PasswordPolicy | CaptchaInvalid
  | RateLimitExceeded | SessionInvalid | AccessForbidden | TextInvalid | OrganizationUnknown | AuthInternal
  | ProviderInvalid | ProviderNotFound | ProviderExists | ProviderDisabled | InvalidState | AuthFailed
  | NoAccount | BindingExists

text \<open>
  The configuration, with the key derivation function (password, salt, time, memory in KiB, threads) and the
  base64 coding of the standard library.
\<close>

record auth_config =
  cf_email_verification :: bool
  cf_captcha :: bool
  cf_admin_name :: string
  cf_admin_roles :: "string list"
  cf_ttl :: int
  cf_time :: int
  cf_memory :: int
  cf_threads :: int
  cf_kdf :: "string \<Rightarrow> string \<Rightarrow> int \<Rightarrow> int \<Rightarrow> int \<Rightarrow> string"
  cf_b64 :: "string \<Rightarrow> string"
  cf_unb64 :: "string \<Rightarrow> string option"

section \<open>Passwords\<close>

datatype char_class = UpperCase | LowerCase | DigitClass | SpecialClass

definition char_class_of :: "char \<Rightarrow> char_class" where
  "char_class_of c =
     (if 65 \<le> byte c \<and> byte c \<le> 90 then UpperCase
      else if 97 \<le> byte c \<and> byte c \<le> 122 then LowerCase
      else if is_digit c then DigitClass else SpecialClass)"

definition validate_password_policy :: "string \<Rightarrow> bool" where
  "validate_password_policy pw =
     (8 \<le> length pw \<and> length pw \<le> 256
      \<and> 3 \<le> length (filter (\<lambda>k. k \<in> char_class_of ` set pw) [UpperCase, LowerCase, DigitClass, SpecialClass]))"

definition clamp_uint32 :: "int \<Rightarrow> int" where
  "clamp_uint32 v = (if v < 0 then 0 else if 4294967295 < v then 4294967295 else v)"

definition clamp_uint8 :: "int \<Rightarrow> int" where
  "clamp_uint8 v = (if v < 0 then 0 else if 255 < v then 255 else v)"

definition argon2_memory_kib :: "int \<Rightarrow> int" where
  "argon2_memory_kib mib = (let kib = wrap64 (mib * 1024) in if kib < 0 \<or> 4294967295 < kib then 4294967295 else kib)"

definition or_default :: "int \<Rightarrow> int \<Rightarrow> int" where
  "or_default v d = (if v \<le> 0 then d else v)"

definition derive_key :: "auth_config \<Rightarrow> string \<Rightarrow> string \<Rightarrow> int \<Rightarrow> int \<Rightarrow> int \<Rightarrow> string" where
  "derive_key g pw salt t m p = cf_kdf g pw salt (clamp_uint32 t) (argon2_memory_kib m) (clamp_uint8 p)"

definition hash_password :: "auth_config \<Rightarrow> string \<Rightarrow> string \<Rightarrow> string" where
  "hash_password g salt pw =
     (let t = or_default (cf_time g) 1; m = or_default (cf_memory g) 64; p = or_default (cf_threads g) 1
      in ''argon2id$v=19$m='' @ go_int m @ '',t='' @ go_int t @ '',p='' @ go_int p @ ''$'' @ cf_b64 g salt @ ''$''
         @ cf_b64 g (derive_key g pw salt t m p))"

text \<open>\<open>fmt.Sscanf\<close> with the format \<open>m=%d,t=%d,p=%d\<close>; text after the last number is not looked at.\<close>

definition scan_int :: "string \<Rightarrow> (int \<times> string) option" where
  "scan_int s0 =
     (let s = dropWhile (\<lambda>c. is_space c \<and> c \<noteq> CHR 0x0A) s0;
          neg = next_is (CHR ''-'') s; u = (if neg \<or> next_is (CHR ''+'') s then tl s else s);
          ds = takeWhile is_digit u; n = int (dec_val 0 ds); v = (if neg then - n else n)
      in if ds = [] \<or> \<not> in_int64 v then None else Some (v, drop (length ds) u))"

definition scan_literal :: "string \<Rightarrow> string \<Rightarrow> string option" where
  "scan_literal p s = (if has_prefix s p then Some (drop (length p) s) else None)"

definition scan_params :: "string \<Rightarrow> (int \<times> int \<times> int) option" where
  "scan_params s =
     Option.bind (scan_literal ''m='' s) (\<lambda>s1. Option.bind (scan_int s1) (\<lambda>(m, s2).
     Option.bind (scan_literal '',t='' s2) (\<lambda>s3. Option.bind (scan_int s3) (\<lambda>(t, s4).
     Option.bind (scan_literal '',p='' s4) (\<lambda>s5. Option.bind (scan_int s5) (\<lambda>(p, s6).
     Some (m, t, p)))))))"

definition verify_password :: "auth_config \<Rightarrow> string \<Rightarrow> string \<Rightarrow> bool" where
  "verify_password g pw stored =
     (let parts = split_at (CHR ''$'') stored in
      length parts = 5 \<and> parts ! 0 = ''argon2id''
      \<and> (case (scan_params (parts ! 2), cf_unb64 g (parts ! 3), cf_unb64 g (parts ! 4)) of
           (Some (m, t, p), Some salt, Some expected) \<Rightarrow> derive_key g pw salt t m p = expected
         | _ \<Rightarrow> False))"

section \<open>Redis\<close>

record login_session =
  ls_user :: string
  ls_name :: string
  ls_email :: string
  ls_roles :: "string list"
  ls_orgs :: "string list"
  ls_active :: string
  ls_expires :: int
  ls_created :: int
  ls_realm :: string

text \<open>Keys with plain values, session hashes, and the sets of session ids per account, each with its expiry.\<close>

record redis =
  rd_values :: "string \<Rightarrow> (string \<times> int) option"
  rd_sessions :: "string \<Rightarrow> (login_session \<times> int option) option"
  rd_index :: "string \<Rightarrow> (string list \<times> int option) option"

definition empty_redis :: redis where
  "empty_redis = \<lparr>rd_values = Map.empty, rd_sessions = Map.empty, rd_index = Map.empty\<rparr>"

text \<open>
  What one request meets: its \<open>Authorization\<close> values, the clock, the instant of its Redis commands, the
  commands and writes that succeed, random values and generated ids, the password salt, which texts are
  UUIDs, the membership rows and organizations of the tenancy service (\<open>None\<close> is a failed lookup), and the
  answer of the identity provider.
\<close>

record identity =
  idn_subject :: string
  idn_name :: string
  idn_email :: string

record auth_call =
  ac_header :: "string list"
  ac_now :: int
  ac_redis :: int
  ac_up :: "nat \<Rightarrow> bool"
  ac_id :: string
  ac_user_id :: string
  ac_binding_id :: string
  ac_code :: string
  ac_salt :: string
  ac_is_uuid :: "string \<Rightarrow> bool"
  ac_memberships :: "string \<Rightarrow> (string \<times> string) list option"
  ac_org_exists :: "string \<Rightarrow> bool"
  ac_identity :: "auth_error + identity"

definition lasts :: "int \<Rightarrow> int option \<Rightarrow> bool" where
  "lasts t e = (case e of None \<Rightarrow> True | Some x \<Rightarrow> t \<le> x)"

definition value_at :: "int \<Rightarrow> string \<Rightarrow> redis \<Rightarrow> string option" where
  "value_at t k r = (case rd_values r k of None \<Rightarrow> None | Some (v, e) \<Rightarrow> if t \<le> e then Some v else None)"

definition session_at :: "int \<Rightarrow> string \<Rightarrow> redis \<Rightarrow> login_session option" where
  "session_at t sid r = (case rd_sessions r sid of None \<Rightarrow> None | Some (se, e) \<Rightarrow> if lasts t e then Some se else None)"

definition index_at :: "int \<Rightarrow> string \<Rightarrow> redis \<Rightarrow> string list" where
  "index_at t u r = (case rd_index r u of None \<Rightarrow> [] | Some (ids, e) \<Rightarrow> if lasts t e then ids else [])"

definition set_value :: "string \<Rightarrow> string \<Rightarrow> int \<Rightarrow> redis \<Rightarrow> redis" where
  "set_value k v e r = r\<lparr>rd_values := (rd_values r)(k \<mapsto> (v, e))\<rparr>"

definition del_value :: "string \<Rightarrow> redis \<Rightarrow> redis" where
  "del_value k r = r\<lparr>rd_values := (rd_values r)(k := None)\<rparr>"

text \<open>\<open>EXPIRE\<close> takes whole seconds: the client rounds a positive fraction of one up, the rest down; a time that is
  not positive deletes the key.\<close>

definition expire_seconds :: "int \<Rightarrow> int" where
  "expire_seconds d = (if 0 < d \<and> d < 1000000000 then 1 else d div 1000000000)"

definition expiring :: "int \<Rightarrow> int \<Rightarrow> ('a \<times> int option) option \<Rightarrow> ('a \<times> int option) option" where
  "expiring t d entry =
     (case entry of None \<Rightarrow> None
      | Some (v, e) \<Rightarrow> if lasts t e \<and> 0 < expire_seconds d then Some (v, Some (t + expire_seconds d * 1000000000)) else None)"

definition index_add :: "int \<Rightarrow> string \<Rightarrow> string \<Rightarrow> redis \<Rightarrow> redis" where
  "index_add t u sid r = r\<lparr>rd_index := (rd_index r)(u \<mapsto>
     (case rd_index r u of
        None \<Rightarrow> ([sid], None)
      | Some (ids, e) \<Rightarrow> if lasts t e then (if sid \<in> set ids then ids else ids @ [sid], e) else ([sid], None)))\<rparr>"

definition index_remove :: "string \<Rightarrow> string \<Rightarrow> redis \<Rightarrow> redis" where
  "index_remove u sid r = r\<lparr>rd_index := (rd_index r)(u :=
     (case rd_index r u of
        None \<Rightarrow> None
      | Some (ids, e) \<Rightarrow> let rest = filter (\<lambda>x. x \<noteq> sid) ids in if rest = [] then None else Some (rest, e)))\<rparr>"

definition index_expire :: "int \<Rightarrow> string \<Rightarrow> int \<Rightarrow> redis \<Rightarrow> redis" where
  "index_expire t u d r = r\<lparr>rd_index := (rd_index r)(u := expiring t d (rd_index r u))\<rparr>"

definition index_del :: "string \<Rightarrow> redis \<Rightarrow> redis" where
  "index_del u r = r\<lparr>rd_index := (rd_index r)(u := None)\<rparr>"

definition session_put :: "int \<Rightarrow> string \<Rightarrow> login_session \<Rightarrow> redis \<Rightarrow> redis" where
  "session_put t sid se r = r\<lparr>rd_sessions := (rd_sessions r)(sid \<mapsto>
     (se, case rd_sessions r sid of None \<Rightarrow> None | Some (_, e) \<Rightarrow> if lasts t e then e else None))\<rparr>"

definition session_expire :: "int \<Rightarrow> string \<Rightarrow> int \<Rightarrow> redis \<Rightarrow> redis" where
  "session_expire t sid d r = r\<lparr>rd_sessions := (rd_sessions r)(sid := expiring t d (rd_sessions r sid))\<rparr>"

definition session_del :: "string \<Rightarrow> redis \<Rightarrow> redis" where
  "session_del sid r = r\<lparr>rd_sessions := (rd_sessions r)(sid := None)\<rparr>"

section \<open>The session store\<close>

text \<open>Commands in a row, numbered from \<open>i\<close>; the first that fails ends them.\<close>

fun commands :: "auth_call \<Rightarrow> nat \<Rightarrow> (redis \<Rightarrow> redis) list \<Rightarrow> redis \<Rightarrow> bool \<times> redis" where
  "commands c i [] r = (True, r)"
| "commands c i (f # fs) r = (if ac_up c i then commands c (Suc i) fs (f r) else (False, r))"

text \<open>The last command stores the access token, which nothing reads.\<close>

definition create_session :: "auth_config \<Rightarrow> auth_call \<Rightarrow> string \<Rightarrow> login_session \<Rightarrow> redis \<Rightarrow> bool \<times> redis" where
  "create_session g c sid se r = commands c 10
     ((if ls_user se = [] then []
       else [index_add (ac_redis c) (ls_user se) sid, index_expire (ac_redis c) (ls_user se) (cf_ttl g)])
      @ [session_put (ac_redis c) sid se, session_expire (ac_redis c) sid (cf_ttl g), id]) r"

definition out_of_date :: "auth_call \<Rightarrow> login_session \<Rightarrow> bool" where
  "out_of_date c se = (0 < ls_expires se \<and> ls_expires se < ac_now c div 1000000000)"

definition get_session :: "auth_call \<Rightarrow> string \<Rightarrow> redis \<Rightarrow> (auth_error + login_session) \<times> redis" where
  "get_session c sid r =
     (if \<not> ac_up c 18 then (Inl AuthInternal, r)
      else case session_at (ac_redis c) sid r of
        None \<Rightarrow> (Inl SessionInvalid, r)
      | Some se \<Rightarrow>
          if out_of_date c se then (Inl SessionInvalid, if ac_up c 20 then session_del sid r else r)
          else (Inr se, r))"

definition update_org :: "auth_call \<Rightarrow> string \<Rightarrow> string \<Rightarrow> redis \<Rightarrow> auth_error option \<times> redis" where
  "update_org c sid oid r =
     (if \<not> ac_up c 19 then (Some AuthInternal, r)
      else case rd_sessions r sid of
        None \<Rightarrow> (Some SessionInvalid, r)
      | Some (se, e) \<Rightarrow>
          if \<not> lasts (ac_redis c) e then (Some SessionInvalid, r)
          else if \<not> ac_up c 21 then (Some AuthInternal, r)
          else (None, r\<lparr>rd_sessions := (rd_sessions r)(sid \<mapsto> (se\<lparr>ls_active := oid\<rparr>, e))\<rparr>))"

text \<open>The index entry is dropped at best effort; deleting the session decides.\<close>

definition revoke_session :: "auth_call \<Rightarrow> nat \<Rightarrow> string \<Rightarrow> redis \<Rightarrow> bool \<times> redis" where
  "revoke_session c i sid r =
     (let r1 = (case session_at (ac_redis c) sid r of
           None \<Rightarrow> r
         | Some se \<Rightarrow> if ls_user se \<noteq> [] \<and> ac_up c i then index_remove (ls_user se) sid r else r)
      in if ac_up c (Suc i) then (True, session_del sid r1) else (False, r1))"

fun revoke_each :: "auth_call \<Rightarrow> nat \<Rightarrow> string list \<Rightarrow> redis \<Rightarrow> bool \<times> redis" where
  "revoke_each c i [] r = (True, r)"
| "revoke_each c i (sid # sids) r =
     (case revoke_session c i sid r of (ok, r1) \<Rightarrow> if ok then revoke_each c (i + 2) sids r1 else (False, r1))"

definition revoke_user_sessions :: "auth_call \<Rightarrow> string \<Rightarrow> redis \<Rightarrow> bool \<times> redis" where
  "revoke_user_sessions c u r =
     (if u = [] then (True, r)
      else if \<not> ac_up c 30 then (False, r)
      else case revoke_each c 32 (index_at (ac_redis c) u r) r of
        (ok, r1) \<Rightarrow> if \<not> ok then (False, r1) else if ac_up c 31 then (True, index_del u r1) else (False, r1))"

section \<open>E-mail codes and puzzles\<close>

definition email_code_ttl :: int where
  "email_code_ttl = 300000000000"

definition email_code_cooldown :: int where
  "email_code_cooldown = 60000000000"

definition code_key :: "string \<Rightarrow> string \<Rightarrow> string" where
  "code_key email purpose = ''auth:email-code:'' @ email @ '':'' @ purpose"

definition cooldown_key :: "string \<Rightarrow> string \<Rightarrow> string" where
  "cooldown_key email purpose = ''auth:email-code-cooldown:'' @ email @ '':'' @ purpose"

text \<open>\<open>TTL\<close> answers whole seconds, to the nearest.\<close>

definition ttl_left :: "int \<Rightarrow> string \<Rightarrow> redis \<Rightarrow> int" where
  "ttl_left t k r = (case rd_values r k of None \<Rightarrow> - 2
     | Some (v, e) \<Rightarrow> if t \<le> e then (e - t + 500000000) div 1000000000 else - 2)"

definition code_purposes :: "string list" where
  "code_purposes = [''register'', ''login'', ''change_email'']"

text \<open>\<open>generateEmailCode\<close> prints a random number below a million with six digits.\<close>

definition email_code :: "nat \<Rightarrow> string" where
  "email_code n = map (\<lambda>i. digit_char (n div 10 ^ i mod 10)) [5, 4, 3, 2, 1, 0]"

definition store_email_code :: "auth_call \<Rightarrow> string \<Rightarrow> string \<Rightarrow> redis \<Rightarrow> auth_error option \<times> redis" where
  "store_email_code c email purpose r =
     (if 0 < ttl_left (ac_redis c) (cooldown_key email purpose) r then (Some RateLimitExceeded, r)
      else case commands c 40
        [set_value (code_key email purpose) (ac_code c) (ac_redis c + email_code_ttl),
         set_value (cooldown_key email purpose) ''1'' (ac_redis c + email_code_cooldown)] r of
        (ok, r1) \<Rightarrow> (if ok then None else Some AuthInternal, r1))"

definition verify_email_code ::
  "auth_config \<Rightarrow> auth_call \<Rightarrow> string \<Rightarrow> string \<Rightarrow> string \<Rightarrow> redis \<Rightarrow> auth_error option \<times> redis" where
  "verify_email_code g c email purpose code r =
     (if \<not> cf_email_verification g then (None, r)
      else if email = [] \<or> code = [] then (Some InvalidCredentials, r)
      else case value_at (ac_redis c) (code_key email purpose) r of
        None \<Rightarrow> (Some InvalidCredentials, r)
      | Some stored \<Rightarrow>
          if stored \<noteq> code then (Some InvalidCredentials, r)
          else (None, if ac_up c 7 then del_value (code_key email purpose) r else r))"

definition captcha_ttl :: int where
  "captcha_ttl = 180000000000"

definition captcha_key :: "string \<Rightarrow> string" where
  "captcha_key k = ''auth:captcha:'' @ k"

definition ascii_upper :: "char \<Rightarrow> char" where
  "ascii_upper c = (if 97 \<le> byte c \<and> byte c \<le> 122 then char_of (byte c - 32) else c)"

definition to_upper :: "string \<Rightarrow> string" where
  "to_upper s = map ascii_upper s"

text \<open>A wrong answer uses the puzzle up, too.\<close>

definition verify_captcha :: "auth_call \<Rightarrow> string \<Rightarrow> string \<Rightarrow> redis \<Rightarrow> auth_error option \<times> redis" where
  "verify_captcha c k answer r =
     (if trim_space k = [] \<or> trim_space answer = [] then (Some CaptchaInvalid, r)
      else if \<not> ac_up c 2 then (Some AuthInternal, r)
      else case value_at (ac_redis c) (captcha_key (trim_space k)) r of
        None \<Rightarrow> (Some CaptchaInvalid, r)
      | Some stored \<Rightarrow>
          (if to_upper stored = to_upper (trim_space answer) then None else Some CaptchaInvalid,
           if ac_up c 3 then del_value (captcha_key (trim_space k)) r else r))"

end
