(* ===== verification/Accounts.thy ===== *)
theory Accounts
  imports AuthStore
begin

text \<open>
  The accounts of the platform: the tables of \<open>sso_model.go\<close> with \<open>sso_repository.go\<close>, and every request of the
  authentication service that changes them or a session: \<open>local_account.go\<close>, \<open>email_code.go\<close>, \<open>captcha.go\<close>,
  \<open>sso_service.go\<close>, \<open>sso_password_login.go\<close>, \<open>sso_switch_surface.go\<close>, \<open>platform_admin.go\<close>, \<open>user_directory.go\<close>,
  \<open>user_profile.go\<close> and the seed of \<open>sso_seed.go\<close>.  The membership resolver, the organization guard, the session
  store and the reaper are wired as in \<open>apps/taas-server/main.go\<close>.  Reading the tables succeeds, except where the
  code goes on after a failed read.
\<close>

section \<open>Tables\<close>

record user =
  us_id :: string
  us_name :: string
  us_email :: string
  us_display :: string
  us_avatar :: string
  us_hash :: string
  us_active :: bool
  us_admin :: bool

datatype provider_type = ProviderTypeOIDC | ProviderTypeSAML | ProviderTypeLDAP

record sso_provider =
  pv_id :: string
  pv_type :: provider_type
  pv_display :: string
  pv_issuer :: string
  pv_client_id :: string
  pv_client_secret :: string
  pv_redirect_uri :: string
  pv_scopes :: string
  pv_metadata_url :: string
  pv_entity_id :: string
  pv_acs_url :: string
  pv_host :: string
  pv_port :: int
  pv_bind_dn :: string
  pv_base_dn :: string
  pv_user_filter :: string
  pv_enabled :: bool
  pv_default_org :: string
  pv_auto :: bool
  pv_password_login :: bool
  pv_mapping :: string

record identity_binding =
  bd_id :: string
  bd_provider :: string
  bd_subject :: string
  bd_user :: string

record account_db =
  users :: "user list"
  providers :: "sso_provider list"
  bindings :: "identity_binding list"
  redis :: redis

definition empty_accounts :: account_db where
  "empty_accounts = \<lparr>users = [], providers = [], bindings = [], redis = empty_redis\<rparr>"

type_synonym 'a reply = "(auth_error + 'a) \<times> account_db"

text \<open>How the code goes on: after a check, after a call, after a call that may only fail.\<close>

definition demand :: "bool \<Rightarrow> auth_error \<Rightarrow> account_db \<Rightarrow> 'a reply \<Rightarrow> 'a reply" where
  "demand b e s k = (if b then k else (Inl e, s))"

definition on_ok :: "'a reply \<Rightarrow> ('a \<Rightarrow> account_db \<Rightarrow> 'b reply) \<Rightarrow> 'b reply" where
  "on_ok r k = (case r of (Inl e, s) \<Rightarrow> (Inl e, s) | (Inr x, s) \<Rightarrow> k x s)"

definition on_redis :: "auth_error option \<times> redis \<Rightarrow> account_db \<Rightarrow> (account_db \<Rightarrow> 'a reply) \<Rightarrow> 'a reply" where
  "on_redis r s k = (case r of (Some e, d) \<Rightarrow> (Inl e, s\<lparr>redis := d\<rparr>) | (None, d) \<Rightarrow> k (s\<lparr>redis := d\<rparr>))"

section \<open>Repository\<close>

definition find_user :: "string \<Rightarrow> account_db \<Rightarrow> user option" where
  "find_user u s = find (\<lambda>x. us_id x = u) (users s)"

definition find_user_by_name :: "string \<Rightarrow> account_db \<Rightarrow> user option" where
  "find_user_by_name n s = find (\<lambda>x. us_name x = n) (users s)"

definition find_user_by_email :: "string \<Rightarrow> account_db \<Rightarrow> user option" where
  "find_user_by_email e s = find (\<lambda>x. us_email x = e) (users s)"

definition find_provider :: "string \<Rightarrow> account_db \<Rightarrow> sso_provider option" where
  "find_provider p s = find (\<lambda>x. pv_id x = p) (providers s)"

definition find_binding :: "string \<Rightarrow> string \<Rightarrow> account_db \<Rightarrow> identity_binding option" where
  "find_binding p sub s = find (\<lambda>b. bd_provider b = p \<and> bd_subject b = sub) (bindings s)"

text \<open>The id column has type \<open>uuid\<close>: another text is an error of the database.\<close>

definition user_row :: "auth_call \<Rightarrow> string \<Rightarrow> account_db \<Rightarrow> auth_error + user" where
  "user_row c u s = (if \<not> ac_is_uuid c u then Inl AuthInternal
     else case find_user u s of None \<Rightarrow> Inl UserNotFound | Some x \<Rightarrow> Inr x)"

text \<open>User names and e-mail addresses are unique, the empty address too.\<close>

definition insert_user :: "auth_call \<Rightarrow> user \<Rightarrow> account_db \<Rightarrow> user reply" where
  "insert_user c x s =
     demand (ac_up c 8) AuthInternal s (
     demand (find_user (us_id x) s = None \<and> find_user_by_name (us_name x) s = None
       \<and> find_user_by_email (us_email x) s = None) UserExists s
       (Inr x, s\<lparr>users := users s @ [x]\<rparr>))"

definition update_user :: "string \<Rightarrow> (user \<Rightarrow> user) \<Rightarrow> account_db \<Rightarrow> account_db" where
  "update_user u f s = s\<lparr>users := update_where (\<lambda>x. us_id x = u) f (users s)\<rparr>"

definition insert_binding :: "auth_call \<Rightarrow> identity_binding \<Rightarrow> account_db \<Rightarrow> unit reply" where
  "insert_binding c b s =
     demand (ac_up c 9) AuthInternal s (
     demand (find_binding (bd_provider b) (bd_subject b) s = None \<and> (\<forall>x\<in>set (bindings s). bd_id x \<noteq> bd_id b)) BindingExists s
       (Inr (), s\<lparr>bindings := bindings s @ [b]\<rparr>))"

definition count_platform_admins :: "account_db \<Rightarrow> nat" where
  "count_platform_admins s = length (filter us_admin (users s))"

section \<open>Sessions\<close>

definition realm_user :: string where "realm_user = ''user''"
definition realm_admin :: string where "realm_admin = ''admin''"
definition platform_admin_role :: string where "platform_admin_role = ''platform-admin''"

definition session_ttl :: "auth_config \<Rightarrow> int" where
  "session_ttl g = (if 0 < cf_ttl g then cf_ttl g else 86400000000000)"

definition admin_roles :: "auth_config \<Rightarrow> string list" where
  "admin_roles g = (if cf_admin_roles g = [] then [''platform-admin'', ''org-admin'', ''admin'', ''owner''] else cf_admin_roles g)"

definition is_admin_role :: "auth_config \<Rightarrow> string list \<Rightarrow> bool" where
  "is_admin_role g roles = list_ex (\<lambda>r. r \<in> set (admin_roles g)) roles"

definition trim_prefix :: "string \<Rightarrow> string \<Rightarrow> string" where
  "trim_prefix p s = (if has_prefix s p then drop (length p) s else s)"

text \<open>The token of a request: the prefix is optional.\<close>

definition session_token :: "auth_call \<Rightarrow> string" where
  "session_token c = (case ac_header c of [] \<Rightarrow> [] | v # vs \<Rightarrow> trim_space (trim_prefix ''Bearer '' (trim_space v)))"

definition session_from_context :: "auth_call \<Rightarrow> account_db \<Rightarrow> (string \<times> login_session) reply" where
  "session_from_context c s =
     demand (session_token c \<noteq> []) SessionInvalid s (
     case get_session c (session_token c) (redis s) of
       (Inl e, r) \<Rightarrow> (Inl e, s\<lparr>redis := r\<rparr>)
     | (Inr se, r) \<Rightarrow> (Inr (session_token c, se), s\<lparr>redis := r\<rparr>))"

definition session_user_id :: "auth_call \<Rightarrow> account_db \<Rightarrow> string reply" where
  "session_user_id c s = on_ok (session_from_context c s) (\<lambda>(sid, se) s1.
     demand (ls_user se \<noteq> []) SessionInvalid s1 (Inr (ls_user se), s1))"

definition session_user_email :: "auth_call \<Rightarrow> account_db \<Rightarrow> string reply" where
  "session_user_email c s = on_ok (session_from_context c s) (\<lambda>(sid, se) s1.
     demand (ls_email se \<noteq> []) SessionInvalid s1 (Inr (ls_email se), s1))"

definition session_roles :: "auth_call \<Rightarrow> account_db \<Rightarrow> string list reply" where
  "session_roles c s = on_ok (session_from_context c s) (\<lambda>(sid, se) s1. (Inr (ls_roles se), s1))"

definition session_active_org :: "auth_call \<Rightarrow> account_db \<Rightarrow> string \<times> account_db" where
  "session_active_org c s = (case session_from_context c s of
     (Inl e, s1) \<Rightarrow> ([], s1) | (Inr (sid, se), s1) \<Rightarrow> (ls_active se, s1))"

definition session_realm :: "auth_call \<Rightarrow> string \<Rightarrow> account_db \<Rightarrow> string reply" where
  "session_realm c token s =
     (case get_session c token (redis s) of
        (Inl e, r) \<Rightarrow> (Inl e, s\<lparr>redis := r\<rparr>)
      | (Inr se, r) \<Rightarrow> demand (ls_realm se = realm_user \<or> ls_realm se = realm_admin) SessionInvalid (s\<lparr>redis := r\<rparr>)
          (Inr (ls_realm se), s\<lparr>redis := r\<rparr>))"

definition mint_session ::
  "auth_config \<Rightarrow> auth_call \<Rightarrow> string \<Rightarrow> string \<Rightarrow> string \<Rightarrow> string list \<times> string list \<times> string \<Rightarrow> string \<Rightarrow> account_db \<Rightarrow> string reply" where
  "mint_session g c u n e m realm s =
     (case m of (roles, orgs, active) \<Rightarrow>
      case create_session g c (ac_id c)
        \<lparr>ls_user = u, ls_name = n, ls_email = e, ls_roles = roles, ls_orgs = orgs, ls_active = active,
         ls_expires = (ac_now c + session_ttl g) div 1000000000, ls_created = ac_now c div 1000000000, ls_realm = realm\<rparr>
        (redis s) of
      (ok, r) \<Rightarrow> demand ok AuthInternal (s\<lparr>redis := r\<rparr>) (Inr (ac_id c), s\<lparr>redis := r\<rparr>))"

section \<open>Roles and organizations of an account\<close>

definition is_platform_admin_user :: "auth_call \<Rightarrow> nat \<Rightarrow> string \<Rightarrow> account_db \<Rightarrow> bool" where
  "is_platform_admin_user c i u s =
     (ac_up c i \<and> (case find_user u s of None \<Rightarrow> False | Some x \<Rightarrow> us_admin x)
      \<or> (case ac_memberships c u of None \<Rightarrow> False | Some ms \<Rightarrow> list_ex (\<lambda>(oid, r). r = platform_admin_role) ms))"

definition platform_roles :: "user \<Rightarrow> string list" where
  "platform_roles x = (if us_admin x then [platform_admin_role] else [])"

definition add_roles :: "(string \<times> string) list \<Rightarrow> string list \<Rightarrow> string list" where
  "add_roles ms roles = foldl (\<lambda>rs (oid, r). if r \<in> set rs then rs else rs @ [r]) roles ms"

definition pick_org :: "string \<Rightarrow> string list \<Rightarrow> string" where
  "pick_org dflt orgs = (if dflt \<noteq> [] \<and> dflt \<in> set orgs then dflt
     else case orgs of [] \<Rightarrow> [] | oid # rest \<Rightarrow> oid)"

text \<open>\<open>localMembership\<close> is this one with no default organization.\<close>

definition map_membership :: "auth_call \<Rightarrow> string \<Rightarrow> user \<Rightarrow> auth_error + string list \<times> string list \<times> string" where
  "map_membership c dflt x =
     (case ac_memberships c (us_id x) of
        None \<Rightarrow> Inl AuthInternal
      | Some ms \<Rightarrow> Inr (add_roles ms (platform_roles x), map fst ms, pick_org dflt (map fst ms)))"

definition realm_of :: "auth_config \<Rightarrow> string list \<Rightarrow> string" where
  "realm_of g roles = (if is_admin_role g roles then realm_admin else realm_user)"

section \<open>Registration and login\<close>

definition bootstrap_admin_name :: "auth_config \<Rightarrow> string" where
  "bootstrap_admin_name g = (if trim_space (cf_admin_name g) \<noteq> [] then trim_space (cf_admin_name g) else ''admin'')"

definition captcha_required :: "auth_config \<Rightarrow> auth_call \<Rightarrow> string \<Rightarrow> account_db \<Rightarrow> bool" where
  "captcha_required g c name s =
     (cf_captcha g \<and> trim_space name \<noteq> []
      \<and> (same_fold (trim_space name) (bootstrap_admin_name g)
         \<or> ac_up c 0 \<and> (case find_user_by_name (trim_space name) s of
              None \<Rightarrow> False
            | Some x \<Rightarrow> us_admin x \<or> is_platform_admin_user c 1 (us_id x) s)))"

text \<open>The answer is the id of the puzzle, empty when none is needed.\<close>

definition get_captcha :: "auth_config \<Rightarrow> auth_call \<Rightarrow> string \<Rightarrow> account_db \<Rightarrow> string reply" where
  "get_captcha g c name s =
     (if \<not> captcha_required g c name s then (Inr [], s)
      else on_redis (if ac_up c 2 then (None, set_value (captcha_key (ac_id c)) (ac_code c) (ac_redis c + captcha_ttl) (redis s))
          else (Some AuthInternal, redis s)) s
        (\<lambda>s1. (Inr (ac_id c), s1)))"

definition create_user :: "auth_config \<Rightarrow> auth_call \<Rightarrow> string \<Rightarrow> string \<Rightarrow> string \<Rightarrow> string \<Rightarrow> account_db \<Rightarrow> string reply" where
  "create_user g c name pw email code s =
     demand (trim_space name \<noteq> [] \<and> length (trim_space name) \<le> 128) UserNotFound s (
     demand (validate_password_policy pw) PasswordPolicy s (
     demand (\<not> cf_email_verification g \<or> trim_space email \<noteq> []) UserNotFound s (
     on_redis (verify_email_code g c (trim_space email) ''register'' code (redis s)) s (\<lambda>s1.
     on_ok (insert_user c \<lparr>us_id = ac_user_id c, us_name = trim_space name, us_email = trim_space email, us_display = [],
         us_avatar = [], us_hash = hash_password g (ac_salt c) pw, us_active = True, us_admin = False\<rparr> s1)
       (\<lambda>x s2. (Inr (us_id x), s2))))))"

text \<open>Whether the comparison of a login's password is reached, and in which state.\<close>

definition solve_captcha :: "auth_config \<Rightarrow> auth_call \<Rightarrow> string \<Rightarrow> string \<Rightarrow> string \<Rightarrow> account_db \<Rightarrow> auth_error option \<times> redis" where
  "solve_captcha g c name k answer s =
     (if captcha_required g c name s then verify_captcha c k answer (redis s) else (None, redis s))"

definition check_login_code :: "auth_config \<Rightarrow> auth_call \<Rightarrow> user \<Rightarrow> string \<Rightarrow> account_db \<Rightarrow> auth_error option \<times> redis" where
  "check_login_code g c x code s =
     (if \<not> cf_email_verification g \<or> is_platform_admin_user c 5 (us_id x) s then (None, redis s)
      else if us_email x = [] then (Some InvalidCredentials, redis s)
      else verify_email_code g c (us_email x) ''login'' code (redis s))"

record login_form =
  lf_name :: string
  lf_password :: string
  lf_captcha_id :: string
  lf_captcha_code :: string
  lf_email_code :: string

definition login :: "auth_config \<Rightarrow> auth_call \<Rightarrow> login_form \<Rightarrow> account_db \<Rightarrow> string reply" where
  "login g c f s =
     (let name = trim_space (lf_name f) in
      demand (name \<noteq> [] \<and> lf_password f \<noteq> []) InvalidCredentials s (
      on_redis (solve_captcha g c name (lf_captcha_id f) (lf_captcha_code f) s) s (\<lambda>s1.
      case find_user_by_name name s1 of
        None \<Rightarrow> (Inl InvalidCredentials, s1)
      | Some x \<Rightarrow>
          demand (us_active x) UserDisabled s1 (
          demand (us_hash x \<noteq> [] \<and> verify_password g (lf_password f) (us_hash x)) InvalidCredentials s1 (
          on_redis (check_login_code g c x (lf_email_code f) s1) s1 (\<lambda>s2.
          case map_membership c [] x of
            Inl e \<Rightarrow> (Inl e, s2)
          | Inr (roles, rest) \<Rightarrow>
              mint_session g c (us_id x) (us_name x) (us_email x) (roles, rest) (realm_of g roles) s2))))))"

section \<open>Single sign-on\<close>

definition bind_identity :: "auth_call \<Rightarrow> sso_provider \<Rightarrow> identity \<Rightarrow> user \<Rightarrow> account_db \<Rightarrow> user reply" where
  "bind_identity c p idn x s =
     on_ok (insert_binding c \<lparr>bd_id = ac_binding_id c, bd_provider = pv_id p, bd_subject = idn_subject idn, bd_user = us_id x\<rparr> s)
       (\<lambda>_ s1. (Inr x, s1))"

text \<open>An existing account with the identity's address, or else with its user name, is taken over.\<close>

definition provision :: "auth_call \<Rightarrow> sso_provider \<Rightarrow> identity \<Rightarrow> account_db \<Rightarrow> user reply" where
  "provision c p idn s =
     (let name = (if idn_name idn = [] then idn_subject idn else idn_name idn);
          fresh = \<lparr>us_id = ac_user_id c, us_name = name, us_email = idn_email idn, us_display = [], us_avatar = [],
                   us_hash = [], us_active = True, us_admin = False\<rparr>
      in case insert_user c fresh s of
           (Inr x, s1) \<Rightarrow> bind_identity c p idn x s1
         | (Inl e, s1) \<Rightarrow>
             if e \<noteq> UserExists then (Inl e, s1)
             else (case find_user_by_name name s1 of
                None \<Rightarrow> (Inl AuthInternal, s1)
              | Some x \<Rightarrow> bind_identity c p idn x s1))"

definition resolve_identity :: "auth_call \<Rightarrow> sso_provider \<Rightarrow> identity \<Rightarrow> account_db \<Rightarrow> user reply" where
  "resolve_identity c p idn s =
     (case find_binding (pv_id p) (idn_subject idn) s of
        Some b \<Rightarrow> (case find_user (bd_user b) s of None \<Rightarrow> (Inl NoAccount, s) | Some x \<Rightarrow> (Inr x, s))
      | None \<Rightarrow>
          demand (pv_auto p) NoAccount s (
          case (if idn_email idn = [] then None else find_user_by_email (idn_email idn) s) of
            Some x \<Rightarrow> bind_identity c p idn x s
          | None \<Rightarrow> provision c p idn s))"

text \<open>The common end of both single sign-on logins; without a realm it follows from the roles.\<close>

definition finish_sso :: "auth_config \<Rightarrow> auth_call \<Rightarrow> sso_provider \<Rightarrow> string option \<Rightarrow> account_db \<Rightarrow> string reply" where
  "finish_sso g c p realm s =
     (case ac_identity c of
        Inl e \<Rightarrow> (Inl e, s)
      | Inr idn \<Rightarrow>
          on_ok (resolve_identity c p idn s) (\<lambda>x s1.
          case map_membership c (pv_default_org p) x of
            Inl e \<Rightarrow> (Inl e, s1)
          | Inr (roles, rest) \<Rightarrow>
              mint_session g c (us_id x) (us_name x) (us_email x) (roles, rest) (opt_or realm (realm_of g roles)) s1))"

definition sso_callback :: "auth_config \<Rightarrow> auth_call \<Rightarrow> string \<Rightarrow> string \<Rightarrow> account_db \<Rightarrow> string reply" where
  "sso_callback g c pid realm s =
     (case find_provider pid s of
        None \<Rightarrow> (Inl ProviderNotFound, s)
      | Some p \<Rightarrow> finish_sso g c p (Some realm) s)"

definition sso_password_login :: "auth_config \<Rightarrow> auth_call \<Rightarrow> string \<Rightarrow> string \<Rightarrow> string \<Rightarrow> account_db \<Rightarrow> string reply" where
  "sso_password_login g c pid name pw s =
     (case find_provider pid s of
        None \<Rightarrow> (Inl ProviderNotFound, s)
      | Some p \<Rightarrow>
          demand (pv_enabled p) ProviderDisabled s (
          demand (pv_type p \<noteq> ProviderTypeSAML \<and> pv_password_login p) ProviderInvalid s (
          demand (trim_space name \<noteq> [] \<and> length (trim_space name) \<le> 128 \<and> pw \<noteq> [] \<and> length pw \<le> 256) AuthFailed s (
          finish_sso g c p None s))))"

text \<open>\<open>newState\<close> is base64 without dots; \<open>sign\<close> is the keyed digest of \<open>signState\<close>.\<close>

definition signed_state :: "(string \<Rightarrow> string) \<Rightarrow> string \<Rightarrow> string" where
  "signed_state sign st = st @ ''.'' @ sign st"

definition validate_state :: "(string \<Rightarrow> string) \<Rightarrow> string \<Rightarrow> auth_error option" where
  "validate_state sign st =
     (let head = takeWhile (\<lambda>c. c \<noteq> CHR ''.'') st; rest = drop (length head) st
      in if rest \<noteq> [] \<and> sign head = tl rest then None else Some InvalidState)"

section \<open>The session's own requests\<close>

definition update_session_org :: "auth_call \<Rightarrow> string \<Rightarrow> account_db \<Rightarrow> unit reply" where
  "update_session_org c org s =
     (let oid = trim_space org in
      on_ok (session_from_context c s) (\<lambda>(sid, se) s1.
      demand (oid \<in> set (ls_orgs se) \<or> oid \<noteq> [] \<and> platform_admin_role \<in> set (ls_roles se) \<and> ac_org_exists c oid)
        OrganizationUnknown s1 (
      on_redis (update_org c sid oid (redis s1)) s1 (\<lambda>s2. (Inr (), s2)))))"

definition logout :: "auth_call \<Rightarrow> account_db \<Rightarrow> unit reply" where
  "logout c s = on_ok (session_from_context c s) (\<lambda>(sid, se) s1.
     case revoke_session c 22 sid (redis s1) of
       (ok, r) \<Rightarrow> demand ok AuthInternal (s1\<lparr>redis := r\<rparr>) (Inr (), s1\<lparr>redis := r\<rparr>))"

definition switch_surface :: "auth_config \<Rightarrow> auth_call \<Rightarrow> bool \<Rightarrow> account_db \<Rightarrow> string reply" where
  "switch_surface g c to_admin s = on_ok (session_from_context c s) (\<lambda>(sid, se) s1.
     demand (to_admin \<longrightarrow> is_admin_role g (ls_roles se)) AccessForbidden s1 (
     mint_session g c (ls_user se) (ls_name se) (ls_email se) (ls_roles se, ls_orgs se, ls_active se)
       (if to_admin then realm_admin else realm_user) s1))"

definition send_email_code :: "auth_config \<Rightarrow> auth_call \<Rightarrow> string \<Rightarrow> string \<Rightarrow> account_db \<Rightarrow> unit reply" where
  "send_email_code g c address what s =
     (let email = trim_space address; purpose = trim_space what in
      demand (cf_email_verification g) ProviderInvalid s (
      demand (email \<noteq> [] \<and> purpose \<in> set code_purposes) UserNotFound s (
      on_ok (if purpose \<noteq> ''change_email'' then (Inr (), s)
          else case find_user_by_email email s of
            None \<Rightarrow> (Inr (), s)
          | Some x \<Rightarrow> (case session_user_id c s of
              (Inr u, s1) \<Rightarrow> demand (us_id x = u) UserExists s1 (Inr (), s1)
            | (Inl e, s1) \<Rightarrow> (Inl UserExists, s1))) (\<lambda>_ s1.
      on_redis (store_email_code c email purpose (redis s1)) s1 (\<lambda>s2. (Inr (), s2))))))"

text \<open>The address is unique: another account's is refused by the database.\<close>

definition apply_email_change :: "auth_config \<Rightarrow> auth_call \<Rightarrow> string \<Rightarrow> string \<Rightarrow> string \<Rightarrow> account_db \<Rightarrow> unit reply" where
  "apply_email_change g c u email code s =
     (case user_row c u s of
        Inl e \<Rightarrow> (Inl e, s)
      | Inr x \<Rightarrow>
          if same_fold (us_email x) email then (Inr (), s)
          else on_redis (verify_email_code g c email ''change_email'' (trim_space code) (redis s)) s (\<lambda>s1.
            demand (ac_up c 50) AuthInternal s1 (
            demand (\<forall>y\<in>set (users s1). us_email y = email \<longrightarrow> us_id y = u) UserExists s1
              (Inr (), update_user u (\<lambda>y. y\<lparr>us_email := email\<rparr>) s1))))"

definition update_user_profile ::
  "auth_config \<Rightarrow> auth_call \<Rightarrow> string \<Rightarrow> string \<Rightarrow> string \<Rightarrow> string \<Rightarrow> account_db \<Rightarrow> unit reply" where
  "update_user_profile g c display avatar email code s =
     (let d = trim_space display; a = trim_space avatar; m = trim_space email in
      on_ok (session_user_id c s) (\<lambda>u s1.
      demand (length d \<le> 128 \<and> length a \<le> 700000 \<and> (a = [] \<or> has_prefix a ''data:image/'') \<and> length m \<le> 256) TextInvalid s1 (
      on_ok (if m = [] then (Inr (), s1) else apply_email_change g c u m code s1) (\<lambda>_ s2.
      demand (ac_up c 51) AuthInternal s2 (
      case user_row c u s2 of
        Inl e \<Rightarrow> (Inl e, s2)
      | Inr x \<Rightarrow> (Inr (), update_user u (\<lambda>y. y\<lparr>us_display := d, us_avatar := a\<rparr>) s2))))))"

section \<open>Platform administrators and the directory\<close>

definition require_platform_admin :: "auth_call \<Rightarrow> account_db \<Rightarrow> string reply" where
  "require_platform_admin c s = on_ok (session_user_id c s) (\<lambda>u s1.
     case user_row c u s1 of
       Inl e \<Rightarrow> (Inl e, s1)
     | Inr x \<Rightarrow> demand (us_admin x) AccessForbidden s1 (Inr (us_id x), s1))"

text \<open>A failure to revoke the sessions is logged.\<close>

definition reap_sessions :: "auth_call \<Rightarrow> string \<Rightarrow> account_db \<Rightarrow> account_db" where
  "reap_sessions c u s = s\<lparr>redis := snd (revoke_user_sessions c u (redis s))\<rparr>"

definition set_user_platform_admin :: "auth_call \<Rightarrow> string \<Rightarrow> bool \<Rightarrow> account_db \<Rightarrow> unit reply" where
  "set_user_platform_admin c u b s =
     demand (ac_up c 52) AuthInternal s (Inr (), reap_sessions c u (update_user u (\<lambda>x. x\<lparr>us_admin := b\<rparr>) s))"

definition grant_platform_admin :: "auth_call \<Rightarrow> string \<Rightarrow> account_db \<Rightarrow> unit reply" where
  "grant_platform_admin c who s = on_ok (require_platform_admin c s) (\<lambda>actor s1.
     case user_row c (trim_space who) s1 of
       Inl e \<Rightarrow> (Inl e, s1)
     | Inr x \<Rightarrow>
         demand (us_active x) AccessForbidden s1 (
         if us_admin x then (Inr (), s1) else set_user_platform_admin c (us_id x) True s1))"

definition revoke_platform_admin :: "auth_call \<Rightarrow> string \<Rightarrow> account_db \<Rightarrow> unit reply" where
  "revoke_platform_admin c who s = on_ok (require_platform_admin c s) (\<lambda>actor s1.
     case user_row c (trim_space who) s1 of
       Inl e \<Rightarrow> (Inl e, s1)
     | Inr x \<Rightarrow>
         demand (us_id x \<noteq> actor) AccessForbidden s1 (
         if \<not> us_admin x then (Inr (), s1)
         else demand (1 < count_platform_admins s1) AccessForbidden s1 (set_user_platform_admin c (us_id x) False s1)))"

definition set_user_state :: "auth_call \<Rightarrow> string \<Rightarrow> bool \<Rightarrow> account_db \<Rightarrow> unit reply" where
  "set_user_state c u active s =
     demand (ac_up c 53) AuthInternal s (
     case user_row c u s of
       Inl e \<Rightarrow> (Inl e, s)
     | Inr x \<Rightarrow>
         let s1 = update_user u (\<lambda>y. y\<lparr>us_active := active\<rparr>) s
         in (Inr (), if active then s1 else reap_sessions c (us_id x) s1))"

definition delete_user :: "auth_call \<Rightarrow> string \<Rightarrow> account_db \<Rightarrow> unit reply" where
  "delete_user c u s =
     demand (ac_up c 54) AuthInternal s (
     case user_row c u s of
       Inl e \<Rightarrow> (Inl e, s)
     | Inr x \<Rightarrow> (Inr (), s\<lparr>bindings := filter (\<lambda>b. bd_user b \<noteq> u) (bindings s),
                          users := filter (\<lambda>y. us_id y \<noteq> u) (users s)\<rparr>))"

section \<open>Providers and bindings\<close>

record attribute_mapping =
  am_username :: string
  am_email :: string
  am_org :: string
  am_project :: string
  am_role :: string

definition mapping_fields :: "(string \<times> attribute_mapping field_setter) list" where
  "mapping_fields =
     [(''username'', str_setter (\<lambda>v m. m\<lparr>am_username := v\<rparr>)), (''email'', str_setter (\<lambda>v m. m\<lparr>am_email := v\<rparr>)),
      (''org'', str_setter (\<lambda>v m. m\<lparr>am_org := v\<rparr>)), (''project'', str_setter (\<lambda>v m. m\<lparr>am_project := v\<rparr>)),
      (''role'', str_setter (\<lambda>v m. m\<lparr>am_role := v\<rparr>))]"

definition parse_attribute_mapping :: "string \<Rightarrow> attribute_mapping option" where
  "parse_attribute_mapping raw =
     (let m = \<lparr>am_username = [], am_email = [], am_org = [], am_project = [], am_role = []\<rparr>
      in if trim_space raw = [] then Some m else go_unmarshal mapping_fields m raw)"

definition validate_provider_type :: "sso_provider \<Rightarrow> bool" where
  "validate_provider_type p =
     (case pv_type p of
        ProviderTypeOIDC \<Rightarrow> pv_issuer p \<noteq> [] \<and> pv_client_id p \<noteq> [] \<and> pv_redirect_uri p \<noteq> []
      | ProviderTypeSAML \<Rightarrow> pv_metadata_url p \<noteq> [] \<or> pv_entity_id p \<noteq> [] \<and> pv_acs_url p \<noteq> []
      | ProviderTypeLDAP \<Rightarrow> pv_host p \<noteq> [] \<and> pv_base_dn p \<noteq> [])"

definition provider_id_char :: "char \<Rightarrow> bool" where
  "provider_id_char ch = (97 \<le> byte ch \<and> byte ch \<le> 122 \<or> is_digit ch)"

definition valid_provider_id :: "string \<Rightarrow> bool" where
  "valid_provider_id s = (3 \<le> length s \<and> length s \<le> 64 \<and> provider_id_char (hd s)
     \<and> list_all (\<lambda>ch. provider_id_char ch \<or> ch = CHR ''-'') s)"

text \<open>The texts of a request are trimmed, except the secret, the bind name and the mapping.\<close>

definition trimmed_provider :: "sso_provider \<Rightarrow> sso_provider" where
  "trimmed_provider p = p\<lparr>pv_id := trim_space (pv_id p), pv_display := trim_space (pv_display p),
     pv_issuer := trim_space (pv_issuer p), pv_client_id := trim_space (pv_client_id p),
     pv_redirect_uri := trim_space (pv_redirect_uri p), pv_scopes := trim_space (pv_scopes p),
     pv_metadata_url := trim_space (pv_metadata_url p), pv_entity_id := trim_space (pv_entity_id p),
     pv_acs_url := trim_space (pv_acs_url p), pv_host := trim_space (pv_host p), pv_base_dn := trim_space (pv_base_dn p),
     pv_user_filter := trim_space (pv_user_filter p), pv_default_org := trim_space (pv_default_org p), pv_enabled := False\<rparr>"

definition validate_provider :: "sso_provider \<Rightarrow> auth_error + sso_provider" where
  "validate_provider q =
     (let p = trimmed_provider q in
      if valid_provider_id (pv_id p) \<and> 1 \<le> length (pv_display p) \<and> length (pv_display p) \<le> 128
        \<and> validate_provider_type p \<and> parse_attribute_mapping (pv_mapping p) \<noteq> None
      then Inr p else Inl ProviderInvalid)"

definition create_provider :: "auth_call \<Rightarrow> sso_provider \<Rightarrow> account_db \<Rightarrow> unit reply" where
  "create_provider c q s =
     (case validate_provider q of
        Inl e \<Rightarrow> (Inl e, s)
      | Inr p \<Rightarrow>
          demand (ac_up c 55) AuthInternal s (
          demand (find_provider (pv_id p) s = None) ProviderExists s
            (Inr (), s\<lparr>providers := providers s @ [p\<lparr>pv_mapping := (if pv_mapping p = [] then ''{}'' else pv_mapping p)\<rparr>]\<rparr>)))"

definition or_kept :: "string \<Rightarrow> string \<Rightarrow> string" where
  "or_kept v old = (if v = [] then old else v)"

definition merge_provider :: "sso_provider \<Rightarrow> sso_provider \<Rightarrow> sso_provider" where
  "merge_provider old q =
     (let p = trimmed_provider q in
      old\<lparr>pv_display := or_kept (pv_display p) (pv_display old), pv_issuer := or_kept (pv_issuer p) (pv_issuer old),
        pv_client_id := or_kept (pv_client_id p) (pv_client_id old),
        pv_client_secret := or_kept (pv_client_secret p) (pv_client_secret old),
        pv_redirect_uri := or_kept (pv_redirect_uri p) (pv_redirect_uri old), pv_scopes := or_kept (pv_scopes p) (pv_scopes old),
        pv_metadata_url := or_kept (pv_metadata_url p) (pv_metadata_url old),
        pv_entity_id := or_kept (pv_entity_id p) (pv_entity_id old), pv_acs_url := or_kept (pv_acs_url p) (pv_acs_url old),
        pv_host := or_kept (pv_host p) (pv_host old), pv_port := (if pv_port p = 0 then pv_port old else pv_port p),
        pv_bind_dn := or_kept (pv_bind_dn p) (pv_bind_dn old), pv_base_dn := or_kept (pv_base_dn p) (pv_base_dn old),
        pv_user_filter := or_kept (pv_user_filter p) (pv_user_filter old),
        pv_default_org := or_kept (pv_default_org p) (pv_default_org old),
        pv_mapping := or_kept (trim_space (pv_mapping p)) (pv_mapping old),
        pv_auto := pv_auto p, pv_password_login := pv_password_login p\<rparr>)"

definition update_provider :: "auth_call \<Rightarrow> string \<Rightarrow> sso_provider option \<Rightarrow> account_db \<Rightarrow> unit reply" where
  "update_provider c pid req s =
     (case find_provider pid s of
        None \<Rightarrow> (Inl ProviderNotFound, s)
      | Some old \<Rightarrow>
          (case req of
             None \<Rightarrow> (Inl ProviderInvalid, s)
           | Some q \<Rightarrow>
               demand (validate_provider_type (merge_provider old q)
                 \<and> parse_attribute_mapping (pv_mapping (merge_provider old q)) \<noteq> None) ProviderInvalid s (
               demand (ac_up c 56) AuthInternal s
                 (Inr (), s\<lparr>providers := update_where (\<lambda>p. pv_id p = pid) (\<lambda>p. merge_provider old q) (providers s)\<rparr>))))"

definition set_provider_enabled :: "auth_call \<Rightarrow> string \<Rightarrow> bool \<Rightarrow> account_db \<Rightarrow> unit reply" where
  "set_provider_enabled c pid b s =
     demand (ac_up c 57) AuthInternal s (
     demand (find_provider pid s \<noteq> None) ProviderNotFound s
       (Inr (), s\<lparr>providers := update_where (\<lambda>p. pv_id p = pid) (\<lambda>p. p\<lparr>pv_enabled := b\<rparr>) (providers s)\<rparr>))"

definition delete_provider :: "auth_call \<Rightarrow> string \<Rightarrow> account_db \<Rightarrow> unit reply" where
  "delete_provider c pid s =
     demand (find_provider pid s \<noteq> None) ProviderNotFound s (
     demand (\<forall>b\<in>set (bindings s). bd_provider b \<noteq> pid) BindingExists s (
     demand (ac_up c 58) AuthInternal s
       (Inr (), s\<lparr>providers := filter (\<lambda>p. pv_id p \<noteq> pid) (providers s)\<rparr>)))"

definition create_binding :: "auth_call \<Rightarrow> string \<Rightarrow> string \<Rightarrow> string \<Rightarrow> account_db \<Rightarrow> unit reply" where
  "create_binding c pid sub who s =
     (let p = trim_space pid; x = trim_space sub; u = trim_space who in
      demand (p \<noteq> [] \<and> x \<noteq> [] \<and> u \<noteq> []) ProviderInvalid s (
      demand (find_provider p s \<noteq> None) ProviderNotFound s (
      case user_row c u s of
        Inl e \<Rightarrow> (Inl (if e = UserNotFound then OrganizationUnknown else e), s)
      | Inr _ \<Rightarrow> insert_binding c \<lparr>bd_id = ac_binding_id c, bd_provider = p, bd_subject = x, bd_user = u\<rparr> s)))"

definition delete_binding :: "auth_call \<Rightarrow> string \<Rightarrow> account_db \<Rightarrow> unit reply" where
  "delete_binding c bid s =
     demand (ac_up c 59) AuthInternal s (Inr (), s\<lparr>bindings := filter (\<lambda>b. bd_id b \<noteq> bid) (bindings s)\<rparr>)"

section \<open>First boot\<close>

definition subject_from_external :: "string \<Rightarrow> string \<Rightarrow> string" where
  "subject_from_external external issuer =
     (let prefix = issuer @ '':'' in
      if length prefix < length external \<and> has_prefix external prefix then drop (length prefix) external else [])"

text \<open>The account that carries the platform role: created, or found by its name and given the role and a password.\<close>

definition seed_admin_user :: "auth_config \<Rightarrow> auth_call \<Rightarrow> string \<Rightarrow> string \<Rightarrow> account_db \<Rightarrow> user reply" where
  "seed_admin_user g c name pw s =
     (let hash = hash_password g (ac_salt c) pw in
      case find_user_by_name name s of
        None \<Rightarrow> insert_user c \<lparr>us_id = ac_user_id c, us_name = name, us_email = ''admin@example.com'', us_display = ''Administrator'',
          us_avatar = [], us_hash = hash, us_active = True, us_admin = False\<rparr> s
      | Some x \<Rightarrow>
          if us_hash x \<noteq> [] then (Inr x, s)
          else demand (ac_up c 60) AuthInternal s
            (Inr (x\<lparr>us_hash := hash\<rparr>), update_user (us_id x) (\<lambda>y. y\<lparr>us_hash := hash\<rparr>) s))"

definition seed_admin_binding :: "auth_call \<Rightarrow> sso_provider \<Rightarrow> user \<Rightarrow> account_db \<Rightarrow> unit reply" where
  "seed_admin_binding c p x s =
     (case ac_identity c of
        Inl e \<Rightarrow> (Inr (), s)
      | Inr idn \<Rightarrow>
          let sub = subject_from_external (idn_subject idn) (pv_issuer p); external = pv_issuer p @ '':'' @ sub in
          if sub = [] \<or> find_binding (pv_id p) external s \<noteq> None then (Inr (), s)
          else insert_binding c \<lparr>bd_id = ac_binding_id c, bd_provider = pv_id p, bd_subject = external, bd_user = us_id x\<rparr> s)"

text \<open>The provider is seeded when configured; a setting that is empty keeps its built-in value.\<close>

record seed_settings =
  sd_provider :: string
  sd_issuer :: string
  sd_client :: string
  sd_secret :: string
  sd_redirect :: string

definition seeded_provider :: "seed_settings \<Rightarrow> sso_provider" where
  "seeded_provider q =
     \<lparr>pv_id = or_kept (sd_provider q) ''keycloak'', pv_type = ProviderTypeOIDC, pv_display = ''Keycloak'',
      pv_issuer = or_kept (sd_issuer q) ''http://keycloak:8080/realms/go-taas'',
      pv_client_id = or_kept (sd_client q) ''go-taas-console'',
      pv_client_secret = or_kept (sd_secret q) ''go-taas-console-secret'',
      pv_redirect_uri = or_kept (sd_redirect q) ''http://localhost:9091/api/v1/auth/sso/*'',
      pv_scopes = ''openid profile email'', pv_metadata_url = [], pv_entity_id = [], pv_acs_url = [], pv_host = [], pv_port = 0,
      pv_bind_dn = [], pv_base_dn = [], pv_user_filter = [], pv_enabled = True, pv_default_org = [], pv_auto = True,
      pv_password_login = True,
      pv_mapping = ''{\"username\":\"preferred_username\",\"email\":\"email\",\"role\":\"realm_access.roles\"}''\<rparr>"

definition seed_accounts ::
  "auth_config \<Rightarrow> auth_call \<Rightarrow> seed_settings option \<Rightarrow> string \<Rightarrow> string \<Rightarrow> account_db \<Rightarrow> unit reply" where
  "seed_accounts g c prov name pw s =
     on_ok (case prov of
         None \<Rightarrow> (Inr (), s)
       | Some q \<Rightarrow> (let p = seeded_provider q in if find_provider (pv_id p) s \<noteq> None then (Inr (), s)
           else demand (ac_up c 61) AuthInternal s (Inr (), s\<lparr>providers := providers s @ [p]\<rparr>))) (\<lambda>_ s1.
     on_ok (seed_admin_user g c name pw s1) (\<lambda>x s2.
     on_ok (if us_admin x then (Inr (), s2)
         else demand (ac_up c 62) AuthInternal s2 (Inr (), update_user (us_id x) (\<lambda>y. y\<lparr>us_admin := True\<rparr>) s2)) (\<lambda>_ s3.
     case prov of
       None \<Rightarrow> (Inr (), s3)
     | Some p \<Rightarrow> (case find_provider (pv_id (seeded_provider p)) s3 of
         None \<Rightarrow> (Inl AuthInternal, s3)
       | Some q \<Rightarrow> seed_admin_binding c q x s3))))"

section \<open>Histories\<close>

datatype account_op =
    SendEmailCode string string
  | GetCaptcha string
  | CreateUser string string string string
  | Login login_form
  | SsoPasswordLogin string string string
  | SsoCallback string bool
  | GetSession
  | UpdateSessionOrg string
  | Logout
  | SwitchSurface bool
  | UpdateUserProfile string string string string
  | GrantPlatformAdmin string
  | RevokePlatformAdmin string
  | SetUserState string bool
  | DeleteUser string
  | CreateProvider sso_provider
  | UpdateProvider string "sso_provider option"
  | SetProviderEnabled string bool
  | DeleteProvider string
  | CreateBinding string string string
  | DeleteBinding string
  | SeedAccounts "seed_settings option" string string

fun run_account :: "auth_config \<Rightarrow> auth_call \<Rightarrow> account_op \<Rightarrow> account_db \<Rightarrow> account_db" where
  "run_account g c (SendEmailCode address what) s = snd (send_email_code g c address what s)"
| "run_account g c (GetCaptcha name) s = snd (get_captcha g c name s)"
| "run_account g c (CreateUser name pw email code) s = snd (create_user g c name pw email code s)"
| "run_account g c (Login f) s = snd (login g c f s)"
| "run_account g c (SsoPasswordLogin pid name pw) s = snd (sso_password_login g c pid name pw s)"
| "run_account g c (SsoCallback pid adm) s = snd (sso_callback g c pid (if adm then realm_admin else realm_user) s)"
| "run_account g c GetSession s = snd (session_from_context c s)"
| "run_account g c (UpdateSessionOrg org) s = snd (update_session_org c org s)"
| "run_account g c Logout s = snd (logout c s)"
| "run_account g c (SwitchSurface adm) s = snd (switch_surface g c adm s)"
| "run_account g c (UpdateUserProfile d a e code) s = snd (update_user_profile g c d a e code s)"
| "run_account g c (GrantPlatformAdmin who) s = snd (grant_platform_admin c who s)"
| "run_account g c (RevokePlatformAdmin who) s = snd (revoke_platform_admin c who s)"
| "run_account g c (SetUserState u b) s = snd (set_user_state c u b s)"
| "run_account g c (DeleteUser u) s = snd (delete_user c u s)"
| "run_account g c (CreateProvider p) s = snd (create_provider c p s)"
| "run_account g c (UpdateProvider pid q) s = snd (update_provider c pid q s)"
| "run_account g c (SetProviderEnabled pid b) s = snd (set_provider_enabled c pid b s)"
| "run_account g c (DeleteProvider pid) s = snd (delete_provider c pid s)"
| "run_account g c (CreateBinding pid sub u) s = snd (create_binding c pid sub u s)"
| "run_account g c (DeleteBinding bid) s = snd (delete_binding c bid s)"
| "run_account g c (SeedAccounts prov name pw) s = snd (seed_accounts g c prov name pw s)"

definition run_accounts :: "auth_config \<Rightarrow> (auth_call \<times> account_op) list \<Rightarrow> account_db \<Rightarrow> account_db" where
  "run_accounts g rs s = foldl (\<lambda>s (c, r). run_account g c r s) s rs"

end
