(* ===== verification/AccountSteps.thy ===== *)
theory AccountSteps
  imports Accounts
begin

text \<open>
  The changes the requests of the authentication service make, one by one, as an inductive relation on the
  tables and Redis; every request is a sequence of them.
\<close>

section \<open>Changes\<close>

text \<open>A stored hash is none or comes from a password.\<close>

definition hash_ok :: "auth_config \<Rightarrow> string \<Rightarrow> bool" where
  "hash_ok g h = (h = [] \<or> (\<exists>salt pw. h = hash_password g salt pw))"

definition provider_ok :: "sso_provider \<Rightarrow> bool" where
  "provider_ok p = (validate_provider_type p \<and> parse_attribute_mapping (pv_mapping p) \<noteq> None)"

text \<open>Two sessions of one login.\<close>

definition same_login :: "login_session \<Rightarrow> login_session \<Rightarrow> bool" where
  "same_login a b = (ls_user a = ls_user b \<and> ls_name a = ls_name b \<and> ls_email a = ls_email b \<and> ls_roles a = ls_roles b
     \<and> ls_orgs a = ls_orgs b)"

text \<open>
  \<open>M\<close> says which sessions may be minted, \<open>V\<close> which plain keys may be set to what and until when, \<open>D\<close> whether accounts may be deleted.
\<close>

inductive account_step ::
  "(login_session \<Rightarrow> bool) \<Rightarrow> (string \<Rightarrow> string \<Rightarrow> int \<Rightarrow> bool) \<Rightarrow> bool \<Rightarrow> auth_config \<Rightarrow> auth_call \<Rightarrow> account_db \<Rightarrow> account_db \<Rightarrow> bool"
  for M :: "login_session \<Rightarrow> bool" and V :: "string \<Rightarrow> string \<Rightarrow> int \<Rightarrow> bool" and D :: bool and g :: auth_config and c :: auth_call where
  user_added: "find_user (us_id x) s = None \<Longrightarrow> find_user_by_name (us_name x) s = None \<Longrightarrow>
    find_user_by_email (us_email x) s = None \<Longrightarrow> \<not> us_admin x \<Longrightarrow> hash_ok g (us_hash x) \<Longrightarrow>
    account_step M V D g c s (s\<lparr>users := users s @ [x]\<rparr>)"
| user_edited: "(\<And>y. us_id (f y) = us_id y \<and> us_name (f y) = us_name y \<and> us_email (f y) = us_email y \<and> us_hash (f y) = us_hash y
      \<and> us_admin (f y) = us_admin y) \<Longrightarrow>
    account_step M V D g c s (update_user u f s)"
| email_changed: "(\<forall>y\<in>set (users s). us_email y = e \<longrightarrow> us_id y = u) \<Longrightarrow>
    account_step M V D g c s (update_user u (\<lambda>y. y\<lparr>us_email := e\<rparr>) s)"
| password_set: "account_step M V D g c s (update_user u (\<lambda>y. y\<lparr>us_hash := hash_password g salt pw\<rparr>) s)"
| admin_granted: "account_step M V D g c s (update_user u (\<lambda>y. y\<lparr>us_admin := True\<rparr>) s)"
| admin_revoked: "1 < count_platform_admins s \<Longrightarrow>
    account_step M V D g c s (update_user u (\<lambda>y. y\<lparr>us_admin := False\<rparr>) s)"
| user_deleted: "D \<Longrightarrow>
    account_step M V D g c s (s\<lparr>bindings := filter (\<lambda>b. bd_user b \<noteq> u) (bindings s), users := filter (\<lambda>y. us_id y \<noteq> u) (users s)\<rparr>)"
| provider_added: "find_provider (pv_id p) s = None \<Longrightarrow> provider_ok p \<Longrightarrow>
    account_step M V D g c s (s\<lparr>providers := providers s @ [p]\<rparr>)"
| provider_edited: "(\<And>p. p \<in> set (providers s) \<Longrightarrow> pv_id p = pid \<Longrightarrow> pv_id (f p) = pid \<and> (provider_ok p \<longrightarrow> provider_ok (f p))) \<Longrightarrow>
    account_step M V D g c s (s\<lparr>providers := update_where (\<lambda>p. pv_id p = pid) f (providers s)\<rparr>)"
| provider_deleted: "(\<forall>b\<in>set (bindings s). bd_provider b \<noteq> pid) \<Longrightarrow>
    account_step M V D g c s (s\<lparr>providers := filter (\<lambda>p. pv_id p \<noteq> pid) (providers s)\<rparr>)"
| binding_added: "find_binding (bd_provider b) (bd_subject b) s = None \<Longrightarrow> (\<forall>x\<in>set (bindings s). bd_id x \<noteq> bd_id b) \<Longrightarrow>
    find_provider (bd_provider b) s \<noteq> None \<Longrightarrow> find_user (bd_user b) s \<noteq> None \<Longrightarrow>
    account_step M V D g c s (s\<lparr>bindings := bindings s @ [b]\<rparr>)"
| binding_deleted: "account_step M V D g c s (s\<lparr>bindings := filter P (bindings s)\<rparr>)"
| value_set: "V k v e \<Longrightarrow> account_step M V D g c s (s\<lparr>redis := set_value k v e (redis s)\<rparr>)"
| value_deleted: "account_step M V D g c s (s\<lparr>redis := del_value k (redis s)\<rparr>)"
| session_minted: "M se \<Longrightarrow> ls_expires se = (ac_now c + session_ttl g) div 1000000000 \<Longrightarrow>
    account_step M V D g c s (s\<lparr>redis := snd (create_session g c sid se (redis s))\<rparr>)"
| session_switched: "session_at (ac_redis c) sid0 (redis s) = Some se0 \<Longrightarrow> same_login se se0 \<Longrightarrow>
    (ls_realm se = realm_admin \<longrightarrow> is_admin_role g (ls_roles se)) \<Longrightarrow> ls_expires se = (ac_now c + session_ttl g) div 1000000000 \<Longrightarrow>
    account_step M V D g c s (s\<lparr>redis := snd (create_session g c sid se (redis s))\<rparr>)"
| org_switched: "account_step M V D g c s (s\<lparr>redis := snd (update_org c sid oid (redis s))\<rparr>)"
| session_dropped: "session_at (ac_redis c) sid (redis s) = Some se \<Longrightarrow>
    account_step M V D g c s (s\<lparr>redis := session_del sid (redis s)\<rparr>)"
| session_revoked: "session_at (ac_redis c) sid (redis s) = Some se \<Longrightarrow>
    account_step M V D g c s (s\<lparr>redis := snd (revoke_session c 22 sid (redis s))\<rparr>)"
| account_reaped: "account_step M V D g c s (reap_sessions c u s)"

definition account_steps ::
  "(login_session \<Rightarrow> bool) \<Rightarrow> (string \<Rightarrow> string \<Rightarrow> int \<Rightarrow> bool) \<Rightarrow> bool \<Rightarrow> auth_config \<Rightarrow> auth_call \<Rightarrow> account_db \<Rightarrow> account_db \<Rightarrow> bool" where
  "account_steps M V D g c = (account_step M V D g c)\<^sup>*\<^sup>*"

lemma steps_refl [intro]: "account_steps M V D g c s s"
  by (simp add: account_steps_def)

lemma steps_one [intro]: "account_step M V D g c s s' \<Longrightarrow> account_steps M V D g c s s'"
  by (simp add: account_steps_def r_into_rtranclp)

lemma steps_trans: "account_steps M V D g c s s1 \<Longrightarrow> account_steps M V D g c s1 s2 \<Longrightarrow> account_steps M V D g c s s2"
  unfolding account_steps_def by (rule rtranclp_trans)

section \<open>The combinators\<close>

lemma demand_steps: "account_steps M V D g c s0 s \<Longrightarrow> (b \<Longrightarrow> account_steps M V D g c s0 (snd k)) \<Longrightarrow>
    account_steps M V D g c s0 (snd (demand b e s k))"
  by (simp add: demand_def)

lemma demand_Inr: "demand b e s k = (Inr x, s') \<longleftrightarrow> b \<and> k = (Inr x, s')"
  by (simp add: demand_def)

lemma on_ok_steps:
  assumes "account_steps M V D g c s0 (snd r)" "\<And>x s1. r = (Inr x, s1) \<Longrightarrow> account_steps M V D g c s0 s1 \<Longrightarrow> account_steps M V D g c s0 (snd (k x s1))"
  shows "account_steps M V D g c s0 (snd (on_ok r k))"
proof (cases r)
  case (Pair a s1)
  then show ?thesis using assms by (cases a) (auto simp: on_ok_def)
qed

lemma on_ok_Inr: "on_ok r k = (Inr y, s') \<longleftrightarrow> (\<exists>x s1. r = (Inr x, s1) \<and> k x s1 = (Inr y, s'))"
  by (cases r; cases "fst r") (auto simp: on_ok_def)

lemma on_redis_steps:
  assumes "account_steps M V D g c s0 (s\<lparr>redis := snd r\<rparr>)"
    "account_steps M V D g c s0 (s\<lparr>redis := snd r\<rparr>) \<Longrightarrow> account_steps M V D g c s0 (snd (k (s\<lparr>redis := snd r\<rparr>)))"
  shows "account_steps M V D g c s0 (snd (on_redis r s k))"
  using assms by (cases r; cases "fst r") (auto simp: on_redis_def)

lemma on_redis_Inr: "on_redis r s k = (Inr y, s') \<longleftrightarrow> fst r = None \<and> k (s\<lparr>redis := snd r\<rparr>) = (Inr y, s')"
  by (cases r; cases "fst r") (auto simp: on_redis_def)

lemmas steps_intro = demand_steps on_ok_steps on_redis_steps

lemma if_steps: "(b \<Longrightarrow> account_steps M V D g c s0 (snd x)) \<Longrightarrow> (\<not> b \<Longrightarrow> account_steps M V D g c s0 (snd y)) \<Longrightarrow>
    account_steps M V D g c s0 (snd (if b then x else y))"
  by simp

lemma redis_same [simp]: "s\<lparr>redis := redis s\<rparr> = s"
  by simp

section \<open>Sessions and codes\<close>

lemma session_from_context_Inr:
  "session_from_context c s = (Inr (sid, se), s1) \<Longrightarrow>
    s1 = s \<and> sid = session_token c \<and> session_at (ac_redis c) sid (redis s) = Some se \<and> \<not> out_of_date c se"
  by (auto simp: session_from_context_def demand_def get_session_def split: if_splits option.splits)

lemma session_from_context_steps: "account_steps M V D g c s (snd (session_from_context c s))"
  by (auto simp: session_from_context_def demand_def get_session_def split: option.splits intro: session_dropped [THEN steps_one])

lemma session_user_steps: "account_steps M V D g c s (snd (session_user_id c s))"
  unfolding session_user_id_def
  by (intro on_ok_steps session_from_context_steps) (auto intro!: demand_steps)

lemma session_user_Inr: "session_user_id c s = (Inr u, s1) \<Longrightarrow>
    s1 = s \<and> u \<noteq> [] \<and> (\<exists>se. session_at (ac_redis c) (session_token c) (redis s) = Some se \<and> ls_user se = u \<and> \<not> out_of_date c se)"
  by (auto simp: session_user_id_def on_ok_Inr demand_Inr dest: session_from_context_Inr)

lemma del_code_steps: "account_steps M V D g c s (s\<lparr>redis := (if b then del_value k (redis s) else redis s)\<rparr>)"
  by (auto intro: value_deleted [THEN steps_one])

lemma verify_email_steps: "account_steps M V D g c s (s\<lparr>redis := snd (verify_email_code h c e p code (redis s))\<rparr>)"
  by (auto simp: verify_email_code_def split: option.splits intro: value_deleted [THEN steps_one])

lemma verify_captcha_steps: "account_steps M V D g c s (s\<lparr>redis := snd (verify_captcha c k a (redis s))\<rparr>)"
  by (auto simp: verify_captcha_def split: option.splits intro: value_deleted [THEN steps_one])

lemma insert_user_steps: "\<not> us_admin x \<Longrightarrow> hash_ok g (us_hash x) \<Longrightarrow> account_steps M V D g c s (snd (insert_user c x s))"
  by (auto simp: insert_user_def demand_def intro: user_added [THEN steps_one])

lemma insert_user_Inr: "insert_user c x s = (Inr y, s1) \<Longrightarrow> y = x \<and> s1 = s\<lparr>users := users s @ [x]\<rparr> \<and> find_user (us_id x) s = None"
  by (auto simp: insert_user_def demand_def split: if_splits)

lemma insert_binding_steps:
  assumes "find_provider (bd_provider b) s \<noteq> None" "find_user (bd_user b) s \<noteq> None"
  shows "account_steps M V D g c s (snd (insert_binding c b s))"
  using assms by (auto simp: insert_binding_def demand_def intro: binding_added [THEN steps_one])

section \<open>Every request makes such changes\<close>

definition presents_password :: "auth_config \<Rightarrow> account_op \<Rightarrow> account_db \<Rightarrow> user \<Rightarrow> bool" where
  "presents_password g r s x = (\<exists>f. r = Login f \<and> find_user_by_name (trim_space (lf_name f)) s = Some x \<and> us_active x
     \<and> us_hash x \<noteq> [] \<and> verify_password g (lf_password f) (us_hash x))"

text \<open>
  Which account an identity opens, stated over the tables: the one the provider's binding of the subject names; or,
  where the provider has no binding for the subject and may create accounts, the account with the identity's
  (nonempty) address, else the one with its name, else a new account with neither password nor platform rights.
\<close>

definition bound :: "string \<Rightarrow> string \<Rightarrow> account_db \<Rightarrow> string \<Rightarrow> bool" where
  "bound q sub s u = (\<exists>b\<in>set (bindings s). bd_provider b = q \<and> bd_subject b = sub \<and> bd_user b = u)"

definition identity_name :: "identity \<Rightarrow> string" where
  "identity_name idn = (if idn_name idn = [] then idn_subject idn else idn_name idn)"

definition opens_account :: "auth_call \<Rightarrow> sso_provider \<Rightarrow> identity \<Rightarrow> account_db \<Rightarrow> user \<Rightarrow> bool" where
  "opens_account c p idn s x =
     (x \<in> set (users s) \<and> bound (pv_id p) (idn_subject idn) s (us_id x)
      \<or> (\<forall>u. \<not> bound (pv_id p) (idn_subject idn) s u) \<and> pv_auto p \<and>
        (if idn_email idn \<noteq> [] \<and> idn_email idn \<in> us_email ` set (users s)
         then x \<in> set (users s) \<and> us_email x = idn_email idn
         else x \<in> set (users s) \<and> us_name x = identity_name idn
           \<or> us_id x \<notin> us_id ` set (users s) \<and> us_name x = identity_name idn \<and> us_email x = idn_email idn
             \<and> us_id x = ac_user_id c \<and> us_hash x = [] \<and> us_active x \<and> \<not> us_admin x))"

definition presents_identity :: "auth_call \<Rightarrow> account_op \<Rightarrow> account_db \<Rightarrow> user \<Rightarrow> bool" where
  "presents_identity c r s x = (\<exists>pid p idn. ((\<exists>b. r = SsoCallback pid b) \<or> (\<exists>n pw. r = SsoPasswordLogin pid n pw) \<and> pv_enabled p)
     \<and> find_provider pid s = Some p \<and> ac_identity c = Inr idn \<and> opens_account c p idn s x)"

text \<open>The session a login of the account may mint.\<close>

definition authentic :: "auth_config \<Rightarrow> auth_call \<Rightarrow> account_op \<Rightarrow> account_db \<Rightarrow> login_session \<Rightarrow> bool" where
  "authentic g c r s se = (\<exists>x ms. (presents_password g r s x \<or> presents_identity c r s x) \<and> ac_memberships c (us_id x) = Some ms
     \<and> ls_user se = us_id x \<and> ls_name se = us_name x \<and> ls_email se = us_email x \<and> ls_roles se = add_roles ms (platform_roles x)
     \<and> ls_orgs se = map fst ms
     \<and> (ls_realm se = realm_admin \<longrightarrow> is_admin_role g (ls_roles se) \<or> (\<exists>pid. r = SsoCallback pid True)))"

definition may_set :: "auth_call \<Rightarrow> account_op \<Rightarrow> string \<Rightarrow> string \<Rightarrow> int \<Rightarrow> bool" where
  "may_set c r k v e =
     ((\<exists>n. r = GetCaptcha n) \<and> k = captcha_key (ac_id c) \<and> v = ac_code c \<and> e = ac_redis c + captcha_ttl
      \<or> (\<exists>a w. r = SendEmailCode a w \<and> (k = code_key (trim_space a) (trim_space w) \<and> v = ac_code c \<and> e = ac_redis c + email_code_ttl
            \<or> k = cooldown_key (trim_space a) (trim_space w))))"

definition deletes_users :: "account_op \<Rightarrow> bool" where
  "deletes_users r = (\<exists>u. r = DeleteUser u)"

abbreviation request_steps :: "auth_config \<Rightarrow> auth_call \<Rightarrow> account_op \<Rightarrow> account_db \<Rightarrow> account_db \<Rightarrow> account_db \<Rightarrow> bool" where
  "request_steps g c r s \<equiv> account_steps (authentic g c r s) (may_set c r) (deletes_users r) g c"

lemma mint_session_steps:
  assumes "\<And>a e t. M \<lparr>ls_user = u, ls_name = n, ls_email = m, ls_roles = roles, ls_orgs = orgs, ls_active = a, ls_expires = e,
      ls_created = t, ls_realm = realm\<rparr>"
  shows "account_steps M V D g c s (snd (mint_session g c u n m (roles, orgs, active) realm s))"
proof -
  let ?se = "\<lparr>ls_user = u, ls_name = n, ls_email = m, ls_roles = roles, ls_orgs = orgs, ls_active = active,
         ls_expires = (ac_now c + session_ttl g) div 1000000000, ls_created = ac_now c div 1000000000, ls_realm = realm\<rparr>"
  have "account_step M V D g c s (s\<lparr>redis := snd (create_session g c (ac_id c) ?se (redis s))\<rparr>)"
    by (rule session_minted) (simp_all add: assms)
  then show ?thesis by (auto simp: mint_session_def demand_def split: prod.splits)
qed

lemma send_email_code_steps: "request_steps g c (SendEmailCode a w) s s (snd (send_email_code g c a w s))"
proof -
  have "account_steps (authentic g c (SendEmailCode a w) s) (may_set c (SendEmailCode a w)) D g c s1
      (s1\<lparr>redis := snd (store_email_code c (trim_space a) (trim_space w) (redis s1))\<rparr>)" for s1 D
  proof -
    let ?k = "code_key (trim_space a) (trim_space w)"
    let ?r = "set_value ?k (ac_code c) (ac_redis c + email_code_ttl) (redis s1)"
    have 1: "account_step (authentic g c (SendEmailCode a w) s) (may_set c (SendEmailCode a w)) D g c s1 (s1\<lparr>redis := ?r\<rparr>)"
      by (rule value_set) (auto simp: may_set_def)
    have "account_step (authentic g c (SendEmailCode a w) s) (may_set c (SendEmailCode a w)) D g c (s1\<lparr>redis := ?r\<rparr>)
        ((s1\<lparr>redis := ?r\<rparr>)\<lparr>redis := set_value (cooldown_key (trim_space a) (trim_space w)) ''1'' (ac_redis c + email_code_cooldown)
          (redis (s1\<lparr>redis := ?r\<rparr>))\<rparr>)"
      by (rule value_set) (auto simp: may_set_def)
    then show ?thesis using 1 steps_trans [OF steps_one steps_one, OF 1]
      by (auto simp: store_email_code_def split: prod.splits)
  qed
  moreover have "account_steps M V D g c s (snd (case session_user_id c s of (Inr u, s1) \<Rightarrow> demand (us_id x = u) UserExists s1 (Inr (), s1)
      | (Inl e, s1) \<Rightarrow> (Inl UserExists, s1)))" for M V D x
    using session_user_steps [of M V D g c s] by (auto simp: demand_def split: prod.splits sum.splits)
  ultimately show ?thesis unfolding send_email_code_def Let_def
    by (intro demand_steps on_ok_steps on_redis_steps steps_refl) (auto split: option.splits intro: steps_trans)
qed

lemma get_captcha_steps: "request_steps g c (GetCaptcha n) s s (snd (get_captcha g c n s))"
  by (auto simp: get_captcha_def on_redis_def may_set_def intro: value_set [THEN steps_one])

lemma create_user_steps: "account_steps M V D g c s (snd (create_user g c n pw e code s))"
  unfolding create_user_def
  by (intro demand_steps on_ok_steps on_redis_steps steps_refl verify_email_steps steps_trans [OF _ insert_user_steps])
    (auto simp: hash_ok_def)

lemma solve_captcha_steps: "account_steps M V D g c s (s\<lparr>redis := snd (solve_captcha g c n k a s)\<rparr>)"
  by (simp add: solve_captcha_def verify_captcha_steps steps_refl)

lemma check_login_code_steps: "account_steps M V D g c s (s\<lparr>redis := snd (check_login_code g c x code s)\<rparr>)"
  by (simp add: check_login_code_def verify_email_steps steps_refl)

lemma find_user_redis [simp]:
  "find_user_by_name n (s\<lparr>redis := r\<rparr>) = find_user_by_name n s" "find_user u (s\<lparr>redis := r\<rparr>) = find_user u s"
  by (simp_all add: find_user_by_name_def find_user_def)

lemma login_steps: "request_steps g c (Login f) s s (snd (login g c f s))"
proof -
  let ?M = "authentic g c (Login f) s" and ?V = "may_set c (Login f)" and ?D = "deletes_users (Login f)"
  have mint: "account_steps ?M ?V ?D g c s2 (snd (case map_membership c [] x of Inl e \<Rightarrow> (Inl e, s2)
      | Inr (roles, rest) \<Rightarrow> mint_session g c (us_id x) (us_name x) (us_email x) (roles, rest) (realm_of g roles) s2))"
    if "presents_password g (Login f) s x" for x s2
  proof (cases "ac_memberships c (us_id x)")
    case (Some ms)
    have "account_steps ?M ?V ?D g c s2 (snd (mint_session g c (us_id x) (us_name x) (us_email x)
        (add_roles ms (platform_roles x), map fst ms, pick_org [] (map fst ms)) (realm_of g (add_roles ms (platform_roles x))) s2))"
      by (rule mint_session_steps) (use that Some in \<open>auto simp: authentic_def realm_of_def realm_admin_def realm_user_def\<close>)
    then show ?thesis by (simp add: map_membership_def Some)
  qed (simp add: map_membership_def steps_refl)
  show ?thesis unfolding login_def Let_def
    by (intro demand_steps on_redis_steps steps_refl solve_captcha_steps)
      (auto split: option.splits intro!: demand_steps on_redis_steps intro: steps_refl solve_captcha_steps
        steps_trans [OF _ check_login_code_steps] steps_trans [OF _ mint] simp: presents_password_def)
qed

lemma find_user_mem: "find_user u s \<noteq> None \<longleftrightarrow> u \<in> us_id ` set (users s)"
  by (auto simp: find_user_def find_None_iff)

lemma find_provider_mem: "find_provider p s \<noteq> None \<longleftrightarrow> p \<in> pv_id ` set (providers s)"
  by (auto simp: find_provider_def find_None_iff)

lemma find_user_SomeD: "find_user u s = Some x \<Longrightarrow> x \<in> set (users s) \<and> us_id x = u"
  by (auto simp: find_user_def dest: find_SomeD)

lemma find_user_by_SomeD:
  "find_user_by_name n s = Some x \<Longrightarrow> x \<in> set (users s) \<and> us_name x = n"
  "find_user_by_email e s = Some x \<Longrightarrow> x \<in> set (users s) \<and> us_email x = e"
  by (auto simp: find_user_by_name_def find_user_by_email_def dest: find_SomeD)

lemma bind_identity_steps:
  assumes "pv_id p \<in> pv_id ` set (providers s)" "us_id x \<in> us_id ` set (users s)"
  shows "account_steps M V D g c s (snd (bind_identity c p idn x s))"
  unfolding bind_identity_def
  by (intro on_ok_steps insert_binding_steps) (simp_all add: assms find_user_mem find_provider_mem del: not_None_eq)

lemma resolve_identity_steps:
  assumes "pv_id p \<in> pv_id ` set (providers s)"
  shows "account_steps M V D g c s (snd (resolve_identity c p idn s))"
proof -
  have "account_steps M V D g c s (snd (provision c p idn s))"
  proof -
    let ?x = "\<lparr>us_id = ac_user_id c, us_name = (if idn_name idn = [] then idn_subject idn else idn_name idn),
      us_email = idn_email idn, us_display = [], us_avatar = [], us_hash = [], us_active = True, us_admin = False\<rparr>"
    have i: "account_steps M V D g c s (snd (insert_user c ?x s))" by (rule insert_user_steps) (simp_all add: hash_ok_def)
    obtain r s1 where r: "insert_user c ?x s = (r, s1)" by force
    have p: "providers s1 = providers s" using r by (auto simp: insert_user_def demand_def split: if_splits)
    show ?thesis
    proof (cases r)
      case (Inl e)
      have "account_steps M V D g c s1 (snd (bind_identity c p idn x s1))"
        if "find_user_by_name (if idn_name idn = [] then idn_subject idn else idn_name idn) s1 = Some x" for x
        by (rule bind_identity_steps) (use assms p find_user_by_SomeD(1) [OF that] in auto)
      then show ?thesis using i r Inl by (auto simp: provision_def Let_def split: option.splits intro: steps_trans)
    next
      case (Inr x)
      have "account_steps M V D g c s1 (snd (bind_identity c p idn x s1))"
        by (rule bind_identity_steps) (use assms p insert_user_Inr [OF r [unfolded Inr]] in auto)
      then show ?thesis using i r Inr by (auto simp: provision_def Let_def intro: steps_trans)
    qed
  qed
  moreover have "account_steps M V D g c s (snd (bind_identity c p idn x s))" if "find_user_by_email e s = Some x" for x e
    by (rule bind_identity_steps) (use assms find_user_by_SomeD(2) [OF that] in auto)
  ultimately show ?thesis
    by (auto simp: resolve_identity_def demand_def split: option.splits intro: steps_refl)
qed

lemma bind_identity_Inr: "bind_identity c p idn x s = (Inr y, s') \<Longrightarrow> y = x"
  by (auto simp: bind_identity_def on_ok_def split: prod.splits sum.splits)

lemma provision_opens:
  assumes "provision c p idn s = (Inr x, s')"
  shows "x \<in> set (users s) \<and> us_name x = identity_name idn
    \<or> us_id x \<notin> us_id ` set (users s) \<and> us_name x = identity_name idn \<and> us_email x = idn_email idn
      \<and> us_id x = ac_user_id c \<and> us_hash x = [] \<and> us_active x \<and> \<not> us_admin x"
proof -
  let ?x = "\<lparr>us_id = ac_user_id c, us_name = identity_name idn, us_email = idn_email idn, us_display = [],
    us_avatar = [], us_hash = [], us_active = True, us_admin = False\<rparr>"
  obtain r s1 where r: "insert_user c ?x s = (r, s1)" by force
  show ?thesis
  proof (cases r)
    case (Inl e)
    then have "users s1 = users s" using r by (auto simp: insert_user_def demand_def split: if_splits)
    then show ?thesis using assms r Inl
      by (auto simp: provision_def Let_def identity_name_def [symmetric] split: option.splits if_splits
          dest!: bind_identity_Inr find_user_by_SomeD(1))
  next
    case (Inr y)
    then have y: "y = ?x" "find_user (ac_user_id c) s = None" using insert_user_Inr [OF r [unfolded Inr]] by auto
    then have "x = ?x" using assms r Inr
      by (auto simp: provision_def Let_def identity_name_def [symmetric] dest!: bind_identity_Inr)
    moreover have "ac_user_id c \<notin> us_id ` set (users s)" using y(2) by (auto simp: find_user_def find_None_iff)
    ultimately show ?thesis by simp
  qed
qed

lemma resolve_identity_opens:
  assumes "resolve_identity c p idn s = (Inr x, s')"
  shows "opens_account c p idn s x"
proof (cases "find_binding (pv_id p) (idn_subject idn) s")
  case (Some b)
  then show ?thesis using assms
    by (auto simp: resolve_identity_def opens_account_def bound_def find_binding_def find_user_def
        dest!: find_SomeD split: option.splits)
next
  case None
  then have n: "\<forall>u. \<not> bound (pv_id p) (idn_subject idn) s u" by (auto simp: find_binding_def find_None_iff bound_def)
  have auto: "pv_auto p" using assms None by (auto simp: resolve_identity_def demand_def split: if_splits)
  show ?thesis
  proof (cases "if idn_email idn = [] then None else find_user_by_email (idn_email idn) s")
    case None2: None
    then have "idn_email idn = [] \<or> idn_email idn \<notin> us_email ` set (users s)"
      by (auto simp: find_user_by_email_def find_None_iff split: if_splits)
    moreover have "provision c p idn s = (Inr x, s')"
      using assms None None2 auto by (simp add: resolve_identity_def demand_def)
    ultimately show ?thesis using n auto provision_opens by (auto simp: opens_account_def)
  next
    case (Some y)
    then have "idn_email idn \<noteq> []" "y \<in> set (users s)" "us_email y = idn_email idn"
      using find_user_by_SomeD(2) by (auto split: if_splits)
    moreover have "x = y" using assms None Some auto by (auto simp: resolve_identity_def demand_def dest: bind_identity_Inr)
    ultimately show ?thesis using n auto by (simp add: opens_account_def) force
  qed
qed

lemma finish_sso_steps:
  assumes "find_provider pid s = Some p" "r = SsoCallback pid b \<and> realm = Some (if b then realm_admin else realm_user)
    \<or> (\<exists>n pw. r = SsoPasswordLogin pid n pw) \<and> pv_enabled p \<and> realm = None"
  shows "request_steps g c r s s (snd (finish_sso g c p realm s))"
proof (cases "ac_identity c")
  case (Inr idn)
  let ?M = "authentic g c r s"
  have p: "pv_id p \<in> pv_id ` set (providers s)" using assms(1) by (auto simp: find_provider_def dest: find_SomeD)
  have mint: "account_steps ?M V D g c s1 (snd (case map_membership c (pv_default_org p) x of Inl e \<Rightarrow> (Inl e, s1)
      | Inr (roles, rest) \<Rightarrow> mint_session g c (us_id x) (us_name x) (us_email x) (roles, rest) (opt_or realm (realm_of g roles)) s1))"
    if "resolve_identity c p idn s = (Inr x, s1)" for x s1 V D
  proof (cases "ac_memberships c (us_id x)")
    case (Some ms)
    have "presents_identity c r s x" using assms resolve_identity_opens [OF that] Inr unfolding presents_identity_def by blast
    then have "account_steps ?M V D g c s1 (snd (mint_session g c (us_id x) (us_name x) (us_email x)
        (add_roles ms (platform_roles x), map fst ms, pick_org (pv_default_org p) (map fst ms))
        (opt_or realm (realm_of g (add_roles ms (platform_roles x)))) s1))"
      by (intro mint_session_steps) (use assms(2) Some in
        \<open>auto simp: authentic_def realm_of_def realm_admin_def realm_user_def opt_or_def split: if_splits\<close>)
    then show ?thesis by (simp add: map_membership_def Some)
  qed (simp add: map_membership_def steps_refl)
  show ?thesis unfolding finish_sso_def using Inr
    by (auto intro!: on_ok_steps resolve_identity_steps [OF p] intro: steps_trans [OF _ mint])
qed (simp add: finish_sso_def steps_refl)

lemma sso_steps:
  "request_steps g c (SsoCallback pid b) s s (snd (sso_callback g c pid (if b then realm_admin else realm_user) s))"
  "request_steps g c (SsoPasswordLogin pid n pw) s s (snd (sso_password_login g c pid n pw s))"
  unfolding sso_callback_def sso_password_login_def
  by (auto split: option.splits intro!: demand_steps finish_sso_steps intro: steps_refl)

lemma update_session_org_steps: "account_steps M V D g c s (snd (update_session_org c org s))"
  unfolding update_session_org_def Let_def
  by (intro on_ok_steps session_from_context_steps)
    (auto intro!: demand_steps on_redis_steps intro: steps_refl steps_trans [OF _ org_switched [THEN steps_one]])

lemma logout_steps: "account_steps M V D g c s (snd (logout c s))"
proof -
  have "account_steps M V D g c s (s\<lparr>redis := r\<rparr>)"
    if "session_at (ac_redis c) sid (redis s) = Some se" "revoke_session c 22 sid (redis s) = (ok, r)" for sid se ok r
    using session_revoked [OF that(1), THEN steps_one] that(2) by simp
  then show ?thesis unfolding logout_def
    by (intro on_ok_steps session_from_context_steps)
      (auto simp: demand_def split: prod.splits dest!: session_from_context_Inr)
qed

lemma switch_surface_steps: "account_steps M V D g c s (snd (switch_surface g c adm s))"
proof -
  have "account_steps M V D g c s (snd (mint_session g c (ls_user se) (ls_name se) (ls_email se) (ls_roles se, ls_orgs se, ls_active se)
        (if adm then realm_admin else realm_user) s))"
    if "session_at (ac_redis c) sid (redis s) = Some se" "adm \<longrightarrow> is_admin_role g (ls_roles se)" for sid se
  proof -
    let ?se = "\<lparr>ls_user = ls_user se, ls_name = ls_name se, ls_email = ls_email se, ls_roles = ls_roles se,
      ls_orgs = ls_orgs se, ls_active = ls_active se, ls_expires = (ac_now c + session_ttl g) div 1000000000,
      ls_created = ac_now c div 1000000000, ls_realm = (if adm then realm_admin else realm_user)\<rparr>"
    have "account_step M V D g c s (s\<lparr>redis := snd (create_session g c (ac_id c) ?se (redis s))\<rparr>)"
      by (rule session_switched [OF that(1)])
        (use that(2) in \<open>auto simp: same_login_def realm_admin_def realm_user_def split: if_splits\<close>)
    then show ?thesis unfolding mint_session_def prod.case by (auto simp: demand_def split: prod.splits)
  qed
  then show ?thesis unfolding switch_surface_def
    by (intro on_ok_steps session_from_context_steps)
      (auto intro!: demand_steps dest!: session_from_context_Inr intro: steps_refl)
qed

lemma apply_email_change_steps: "account_steps M V D g c s (snd (apply_email_change g c u e code s))"
proof -
  have "account_steps M V D g c s1 (snd (demand (ac_up c 50) AuthInternal s1 (
      demand (\<forall>y\<in>set (users s1). us_email y = e \<longrightarrow> us_id y = u) UserExists s1
        (Inr (), update_user u (\<lambda>y. y\<lparr>us_email := e\<rparr>) s1))))" for s1
    by (intro demand_steps steps_refl) (auto intro: email_changed [THEN steps_one])
  then show ?thesis unfolding apply_email_change_def
    by (auto split: sum.splits intro!: on_redis_steps verify_email_steps intro: steps_refl steps_trans [OF verify_email_steps])
qed

lemma profile_edit_step: "account_steps M V D g c s (update_user u (\<lambda>y. y\<lparr>us_display := d, us_avatar := a\<rparr>) s)"
  by (rule steps_one, rule user_edited) simp

lemma state_edit_step: "account_steps M V D g c s (update_user u (\<lambda>y. y\<lparr>us_active := b\<rparr>) s)"
  by (rule steps_one, rule user_edited) simp

lemma update_user_profile_steps: "account_steps M V D g c s (snd (update_user_profile g c d a e code s))"
proof -
  have "account_steps M V D g c s2 (snd (case user_row c u s2 of
      Inl e \<Rightarrow> (Inl e, s2)
    | Inr x \<Rightarrow> (Inr (), update_user u (\<lambda>y. y\<lparr>us_display := trim_space d, us_avatar := trim_space a\<rparr>) s2)))" for s2 u
    by (auto split: sum.splits intro: steps_refl profile_edit_step)
  then show ?thesis unfolding update_user_profile_def Let_def
    by (intro on_ok_steps session_user_steps demand_steps)
      (auto intro: steps_refl steps_trans steps_trans [OF _ apply_email_change_steps])
qed

lemma require_platform_admin_Inr: "require_platform_admin c s = (Inr u, s1) \<Longrightarrow>
    s1 = s \<and> (\<exists>x. find_user u s = Some x \<and> us_admin x \<and> session_user_id c s = (Inr u, s))"
  by (auto simp: require_platform_admin_def on_ok_Inr demand_Inr user_row_def split: sum.splits if_splits option.splits
      dest: session_user_Inr find_user_SomeD)

lemma require_platform_admin_steps: "account_steps M V D g c s (snd (require_platform_admin c s))"
  unfolding require_platform_admin_def
  by (intro on_ok_steps session_user_steps) (auto split: sum.splits intro!: demand_steps)

lemma set_platform_admin_steps:
  assumes "b \<or> Suc 0 < count_platform_admins s"
  shows "account_steps M V D g c s (snd (set_user_platform_admin c u b s))"
proof -
  have "account_step M V D g c s (update_user u (\<lambda>x. x\<lparr>us_admin := b\<rparr>) s)"
    using assms by (cases b) (auto intro: admin_granted admin_revoked)
  then show ?thesis unfolding set_user_platform_admin_def
    by (auto intro!: demand_steps intro: steps_refl steps_trans [OF steps_one account_reaped [THEN steps_one]])
qed

lemma grant_revoke_steps:
  "account_steps M V D g c s (snd (grant_platform_admin c who s))"
  "account_steps M V D g c s (snd (revoke_platform_admin c who s))"
  unfolding grant_platform_admin_def revoke_platform_admin_def
  by (auto split: sum.splits intro!: on_ok_steps require_platform_admin_steps demand_steps
      intro: steps_refl steps_trans [OF _ set_platform_admin_steps])

lemma set_user_state_steps: "account_steps M V D g c s (snd (set_user_state c u b s))"
  unfolding set_user_state_def Let_def
  by (auto split: sum.splits intro!: demand_steps intro: steps_refl state_edit_step
      steps_trans [OF state_edit_step account_reaped [THEN steps_one]])

lemma delete_user_steps: "account_steps M V True g c s (snd (delete_user c u s))"
  unfolding delete_user_def
  by (auto split: sum.splits intro!: demand_steps intro: steps_refl user_deleted [THEN steps_one])

section \<open>Providers, bindings and the seed\<close>

lemma trimmed_mapping [simp]: "pv_mapping (trimmed_provider q) = pv_mapping q"
  by (simp add: trimmed_provider_def)

lemma empty_object_mapping: "parse_attribute_mapping ''{}'' \<noteq> None"
  by code_simp

lemma provider_ok_mapping: "validate_provider_type (p\<lparr>pv_mapping := m\<rparr>) = validate_provider_type p"
  "validate_provider_type (p\<lparr>pv_enabled := b\<rparr>) = validate_provider_type p"
  by (simp_all add: validate_provider_type_def split: provider_type.split)

lemma create_provider_steps: "account_steps M V D g c s (snd (create_provider c q s))"
proof -
  have "provider_ok (p\<lparr>pv_mapping := (if pv_mapping p = [] then ''{}'' else pv_mapping p)\<rparr>)" if "validate_provider q = Inr p" for p
    using that empty_object_mapping by (auto simp: validate_provider_def provider_ok_def provider_ok_mapping Let_def split: if_splits)
  then have "account_steps M V D g c s (s\<lparr>providers := providers s @ [p\<lparr>pv_mapping := (if pv_mapping p = [] then ''{}'' else pv_mapping p)\<rparr>]\<rparr>)"
    if "validate_provider q = Inr p" "find_provider (pv_id p) s = None" for p
    using that by (intro steps_one provider_added) simp_all
  then show ?thesis unfolding create_provider_def
    by (cases "validate_provider q") (simp_all only: sum.case snd_conv steps_refl, intro demand_steps steps_refl, simp)
qed

lemma update_provider_steps: "account_steps M V D g c s (snd (update_provider c pid req s))"
proof -
  have "pv_id (merge_provider old q) = pv_id old" for old q by (simp add: merge_provider_def Let_def)
  then have "account_step M V D g c s (s\<lparr>providers := update_where (\<lambda>p. pv_id p = pid) (\<lambda>p. merge_provider old q) (providers s)\<rparr>)"
    if "find_provider pid s = Some old" "validate_provider_type (merge_provider old q)"
      "parse_attribute_mapping (pv_mapping (merge_provider old q)) \<noteq> None" for old q
    using that by (intro provider_edited) (auto simp: provider_ok_def find_provider_def dest: find_SomeD)
  then show ?thesis unfolding update_provider_def
    by (auto split: option.splits intro!: demand_steps intro: steps_refl)
qed

lemma set_provider_enabled_steps: "account_steps M V D g c s (snd (set_provider_enabled c pid b s))"
  unfolding set_provider_enabled_def snd_conv
  by (intro demand_steps steps_refl) (simp, intro steps_one provider_edited, simp add: provider_ok_def provider_ok_mapping)

lemma delete_provider_steps: "account_steps M V D g c s (snd (delete_provider c pid s))"
  unfolding delete_provider_def
  by (auto intro!: demand_steps intro: steps_refl provider_deleted [THEN steps_one])

lemma create_binding_steps: "account_steps M V D g c s (snd (create_binding c pid sub who s))"
  unfolding create_binding_def Let_def
  by (auto simp: user_row_def split: sum.splits if_splits option.splits
      intro!: demand_steps insert_binding_steps intro: steps_refl dest: find_user_SomeD)

lemma delete_binding_steps: "account_steps M V D g c s (snd (delete_binding c bid s))"
  unfolding delete_binding_def by (auto intro!: demand_steps intro: steps_refl binding_deleted [THEN steps_one])

lemma hash_ok_hash [simp]: "hash_ok g (hash_password g salt pw)"
  by (auto simp: hash_ok_def)

lemma seed_admin_user_steps: "account_steps M V D g c s (snd (seed_admin_user g c n pw s))"
  unfolding seed_admin_user_def Let_def
  by (auto split: option.splits intro!: demand_steps insert_user_steps hash_ok_hash intro: steps_refl password_set [THEN steps_one])

lemma update_user_ids: "(\<And>y. us_id (f y) = us_id y) \<Longrightarrow> us_id ` set (users (update_user u f s)) = us_id ` set (users s)"
  by (simp add: update_user_def) (metis list.set_map update_where_map)

lemma seed_admin_user_Inr: "seed_admin_user g c n pw s = (Inr x, s1) \<Longrightarrow> us_id x \<in> us_id ` set (users s1)"
  by (auto simp: seed_admin_user_def Let_def demand_Inr update_user_def update_where_set split: option.splits if_splits
      dest!: insert_user_Inr find_user_by_SomeD intro!: image_eqI)

lemma seed_admin_binding_steps:
  assumes "pv_id p \<in> pv_id ` set (providers s)" "us_id x \<in> us_id ` set (users s)"
  shows "account_steps M V D g c s (snd (seed_admin_binding c p x s))"
  unfolding seed_admin_binding_def Let_def
  by (auto split: sum.splits intro: steps_refl) (rule insert_binding_steps;
      simp add: assms find_user_mem find_provider_mem del: not_None_eq)

lemma seeded_provider_ok: "provider_ok (seeded_provider q)"
proof -
  have "parse_attribute_mapping ''{\"username\":\"preferred_username\",\"email\":\"email\",\"role\":\"realm_access.roles\"}'' \<noteq> None"
    by code_simp
  then show ?thesis by (simp add: provider_ok_def seeded_provider_def validate_provider_type_def or_kept_def)
qed

lemma seed_accounts_steps: "account_steps M V D g c s (snd (seed_accounts g c prov n pw s))"
proof -
  have 1: "account_steps M V D g c s (snd (case prov of None \<Rightarrow> (Inr (), s)
      | Some q \<Rightarrow> (let p = seeded_provider q in if find_provider (pv_id p) s \<noteq> None then (Inr (), s)
           else demand (ac_up c 61) AuthInternal s (Inr (), s\<lparr>providers := providers s @ [p]\<rparr>))))"
    unfolding Let_def
    by (cases prov) (auto intro!: demand_steps steps_refl provider_added [THEN steps_one, OF _ seeded_provider_ok])
  have 2: "account_steps M V D g c s2 (snd (demand (ac_up c 62) AuthInternal s2
      (Inr (), update_user (us_id x) (\<lambda>y. y\<lparr>us_admin := True\<rparr>) s2)))" for x s2
    by (auto intro!: demand_steps intro: steps_refl admin_granted [THEN steps_one])
  have 3: "us_id x \<in> us_id ` set (users s3)" if "seed_admin_user g c n pw s1 = (Inr x, s2)" "(if us_admin x then (Inr (), s2)
         else demand (ac_up c 62) AuthInternal s2 (Inr (), update_user (us_id x) (\<lambda>y. y\<lparr>us_admin := True\<rparr>) s2)) = (Inr u, s3)"
    for x s1 s2 s3 u
    using seed_admin_user_Inr [OF that(1)] that(2)
    by (auto simp: demand_Inr update_user_ids split: if_splits)
  have 4: "account_steps M V D g c s3 (snd (case prov of None \<Rightarrow> (Inr (), s3)
      | Some p \<Rightarrow> (case find_provider (pv_id (seeded_provider p)) s3 of None \<Rightarrow> (Inl AuthInternal, s3)
         | Some q \<Rightarrow> seed_admin_binding c q x s3)))" if "us_id x \<in> us_id ` set (users s3)" for x s3
    using that by (auto split: option.splits intro!: seed_admin_binding_steps intro: steps_refl simp: find_provider_def dest: find_SomeD)
  show ?thesis unfolding seed_accounts_def
    by (intro on_ok_steps 1) (auto intro!: on_ok_steps intro: steps_trans [OF _ seed_admin_user_steps] steps_trans [OF _ 2]
        steps_trans [OF _ 4 [OF 3]])
qed

text \<open>Every request is a sequence of changes.\<close>

lemma delete_request_steps: "request_steps g c (DeleteUser u) s s (snd (delete_user c u s))"
  using delete_user_steps by (simp add: deletes_users_def)

lemmas handler_steps = send_email_code_steps get_captcha_steps create_user_steps login_steps sso_steps
  session_from_context_steps update_session_org_steps logout_steps switch_surface_steps update_user_profile_steps
  grant_revoke_steps set_user_state_steps delete_request_steps create_provider_steps update_provider_steps
  set_provider_enabled_steps delete_provider_steps create_binding_steps delete_binding_steps seed_accounts_steps

lemma request_makes_steps: "request_steps g c r s s (run_account g c r s)"
  by (cases r; simp only: run_account.simps; rule handler_steps)

end
