(* ===== verification/SessionLaws.thy ===== *)
theory SessionLaws
  imports AccountLaws
begin

text \<open>
  Revoked accounts are out: the index of an account's sessions outlives them, so that revoking by the index
  reaches every session that is still good for two seconds.
\<close>

section \<open>The index covers the sessions\<close>

abbreviation sec :: int where "sec \<equiv> 1000000000"

text \<open>A session is of no use any more shortly after this instant, or its id is in the index until then.\<close>

definition index_covers :: "int \<Rightarrow> redis \<Rightarrow> string \<Rightarrow> login_session \<Rightarrow> bool" where
  "index_covers t r sid se = (ls_expires se * sec - sec < t \<or> (\<exists>ids x. rd_index r (ls_user se) = Some (ids, x) \<and> sid \<in> set ids
     \<and> lasts (ls_expires se * sec - sec) x))"

lemma lasts_weaken: "lasts t x \<Longrightarrow> u \<le> t \<Longrightarrow> lasts u x"
  by (cases x) (auto simp: lasts_def)

definition timed :: "auth_config \<Rightarrow> int \<Rightarrow> login_session \<Rightarrow> bool" where
  "timed g t se = (0 < ls_expires se \<and> ls_expires se * sec \<le> t + cf_ttl g)"

definition indexed :: "auth_config \<Rightarrow> int \<Rightarrow> redis \<Rightarrow> bool" where
  "indexed g t r = (\<forall>sid se e. rd_sessions r sid = Some (se, e) \<longrightarrow> ls_user se \<noteq> [] \<longrightarrow> timed g t se \<and> index_covers t r sid se)"

lemma indexedI:
  "(\<And>sid se e. rd_sessions r sid = Some (se, e) \<Longrightarrow> ls_user se \<noteq> [] \<Longrightarrow> timed g t se \<and> index_covers t r sid se) \<Longrightarrow> indexed g t r"
  unfolding indexed_def by blast

lemma indexedD:
  "indexed g t r \<Longrightarrow> rd_sessions r sid = Some (se, e) \<Longrightarrow> ls_user se \<noteq> [] \<Longrightarrow> timed g t se"
  "indexed g t r \<Longrightarrow> rd_sessions r sid = Some (se, e) \<Longrightarrow> ls_user se \<noteq> [] \<Longrightarrow> index_covers t r sid se"
  unfolding indexed_def by blast+

lemma covered_later: "index_covers t r sid se \<Longrightarrow> t \<le> t' \<Longrightarrow> index_covers t' r sid se"
  unfolding index_covers_def by auto

lemma indexed_later: "indexed g t r \<Longrightarrow> t \<le> t' \<Longrightarrow> indexed g t' r"
  by (rule indexedI) (use indexedD covered_later in \<open>fastforce simp: timed_def\<close>)

lemma indexed_fewer:
  assumes "indexed g t r" "\<And>sid se e. rd_sessions r' sid = Some (se, e) \<Longrightarrow> \<exists>se0 e0. rd_sessions r sid = Some (se0, e0)
      \<and> ls_user se = ls_user se0 \<and> ls_expires se = ls_expires se0" "rd_index r' = rd_index r"
  shows "indexed g t r'"
proof (rule indexedI)
  fix sid se e
  assume "rd_sessions r' sid = Some (se, e)" "ls_user se \<noteq> []"
  then obtain se0 e0 where o: "rd_sessions r sid = Some (se0, e0)" "ls_user se = ls_user se0" "ls_expires se = ls_expires se0"
    using assms(2) by blast
  show "timed g t se \<and> index_covers t r' sid se"
    using indexedD [OF assms(1) o(1)] o(2,3) assms(3) \<open>ls_user se \<noteq> []\<close> by (simp add: timed_def index_covers_def)
qed

lemma index_add_rows: "rd_sessions (index_add t u sid r) = rd_sessions r"
  by (simp add: index_add_def)

lemma index_expire_rows: "rd_sessions (index_expire t u d r) = rd_sessions r"
  by (simp add: index_expire_def)

lemma index_add_covered: "index_covers t r sid' se \<Longrightarrow> index_covers t (index_add t u sid r) sid' se"
  unfolding index_covers_def by (cases "ls_user se = u") (auto simp: index_add_def lasts_def split: option.splits)

lemma index_add_indexed:
  assumes "indexed g t r" shows "indexed g t (index_add t u sid r)"
proof (rule indexedI)
  fix k se e
  assume "rd_sessions (index_add t u sid r) k = Some (se, e)" "ls_user se \<noteq> []"
  then show "timed g t se \<and> index_covers t (index_add t u sid r) k se"
    using indexedD [OF assms, of k se e] index_add_covered [of t r k se u sid] by (simp add: index_add_rows)
qed

lemma expire_seconds_bound: "0 < d \<Longrightarrow> 0 < expire_seconds d \<and> d - sec < expire_seconds d * sec"
  using div_mult_mod_eq [of d sec] pos_mod_bound [of sec d] by (auto simp: expire_seconds_def)

lemma index_expire_covered:
  assumes "index_covers t r sid se" "timed g t se" "0 < cf_ttl g" shows "index_covers t (index_expire t u (cf_ttl g) r) sid se"
proof (cases "ls_user se = u")
  case True
  then show ?thesis using assms expire_seconds_bound [OF assms(3)]
    by (auto simp: index_covers_def timed_def index_expire_def expiring_def lasts_def split: option.splits)
next
  case False
  then show ?thesis using assms(1) by (simp add: index_covers_def index_expire_def)
qed

lemma index_expire_indexed:
  assumes "indexed g t r" "0 < cf_ttl g" shows "indexed g t (index_expire t u (cf_ttl g) r)"
proof (rule indexedI)
  fix k se e
  assume "rd_sessions (index_expire t u (cf_ttl g) r) k = Some (se, e)" "ls_user se \<noteq> []"
  then show "timed g t se \<and> index_covers t (index_expire t u (cf_ttl g) r) k se"
    using indexedD [OF assms(1), of k se e] index_expire_covered [OF _ _ assms(2), of t r k se u] by (simp add: index_expire_rows)
qed

lemma session_put_indexed:
  assumes "indexed g t r" "ls_user se \<noteq> [] \<Longrightarrow> timed g t se \<and> index_covers t r sid se"
  shows "indexed g t (session_put t sid se r)"
proof (rule indexedI)
  fix k x e
  assume *: "rd_sessions (session_put t sid se r) k = Some (x, e)" "ls_user x \<noteq> []"
  have "index_covers t (session_put t sid se r) k x = index_covers t r k x" by (simp add: index_covers_def session_put_def)
  then show "timed g t x \<and> index_covers t (session_put t sid se r) k x"
    using * assms(2) indexedD [OF assms(1), of k x e] by (auto simp: session_put_def split: if_splits)
qed

lemma session_expire_indexed: "indexed g t r \<Longrightarrow> indexed g t (session_expire t sid d r)"
  by (erule indexed_fewer) (auto simp: session_expire_def expiring_def split: if_splits option.splits)

lemma commands_keep:
  assumes "I r" "\<And>f r. f \<in> set fs \<Longrightarrow> I r \<Longrightarrow> I (f r)"
  shows "I (snd (commands c i fs r))"
  using assms by (induction fs arbitrary: i r) auto

lemma create_session_indexed:
  assumes "indexed g (ac_redis c) r" "0 < cf_ttl g" "ls_expires se = (ac_now c + session_ttl g) div sec"
    "ac_now c \<le> ac_redis c" "sec \<le> ac_now c"
  shows "indexed g (ac_redis c) (snd (create_session g c sid se r))"
proof -
  let ?t = "ac_redis c"
  have "ls_expires se = (ac_now c + cf_ttl g) div sec" using assms(2,3) by (simp add: session_ttl_def)
  moreover have "(ac_now c + cf_ttl g) div sec * sec \<le> ac_now c + cf_ttl g"
    using div_mult_mod_eq [of "ac_now c + cf_ttl g" sec] pos_mod_sign [of sec "ac_now c + cf_ttl g"] by linarith
  moreover have "0 < (ac_now c + cf_ttl g) div sec"
    using assms(2,5) by (simp add: pos_imp_zdiv_pos_iff)
  ultimately have x: "timed g ?t se" using assms(4) by (simp add: timed_def)
  have put: "indexed g ?t (snd (commands c i [session_put ?t sid se, session_expire ?t sid (cf_ttl g), id] r))"
    if "indexed g ?t r" "ls_user se \<noteq> [] \<Longrightarrow> index_covers ?t r sid se" for i r
    using session_put_indexed [of g ?t r se sid] session_expire_indexed that x by auto
  show ?thesis
  proof (cases "ls_user se = []")
    case False
    let ?r1 = "index_add ?t (ls_user se) sid r" and ?r2 = "index_expire ?t (ls_user se) (cf_ttl g) (index_add ?t (ls_user se) sid r)"
    have 1: "indexed g ?t ?r1" by (rule index_add_indexed [OF assms(1)])
    have 2: "indexed g ?t ?r2" by (rule index_expire_indexed [OF 1 assms(2)])
    have "\<exists>ids x. rd_index ?r1 (ls_user se) = Some (ids, x) \<and> sid \<in> set ids \<and> lasts ?t x"
      by (auto simp: index_add_def lasts_def split: option.splits)
    then have "index_covers ?t ?r2 sid se" using expire_seconds_bound [OF assms(2)] x
      by (auto simp: index_covers_def timed_def index_expire_def expiring_def lasts_def [of "ls_expires se * sec - sec"])
    then show ?thesis using 1 2 put [OF 2] assms(1) False by (auto simp: create_session_def)
  qed (use put [OF assms(1)] in \<open>simp add: create_session_def\<close>)
qed

section \<open>Revoking\<close>

lemma index_remove_covered: "index_covers t r k se \<Longrightarrow> k \<noteq> sid \<Longrightarrow> index_covers t (index_remove u sid r) k se"
  unfolding index_covers_def
  by (cases "ls_user se = u") (auto simp: index_remove_def Let_def filter_empty_conv split: option.splits)

lemma revoke_session_indexed:
  assumes "indexed g t r" "ac_up c (Suc i)"
  shows "indexed g t (snd (revoke_session c i sid r))"
proof (rule indexedI)
  fix k se e
  assume *: "rd_sessions (snd (revoke_session c i sid r)) k = Some (se, e)" "ls_user se \<noteq> []"
  then have s: "k \<noteq> sid" using assms(2) by (auto simp: revoke_session_def session_del_def Let_def)
  note i = indexedD [OF assms(1) revoke_session_entries [OF *(1)] *(2)]
  have "index_covers t (session_del sid r') k se = index_covers t r' k se" for r' by (simp add: index_covers_def session_del_def)
  then show "timed g t se \<and> index_covers t (snd (revoke_session c i sid r)) k se"
    using i index_remove_covered [OF i(2) s] assms(2) by (simp add: revoke_session_def Let_def split: option.split)
qed

lemma revoke_each_gone:
  assumes "indexed g t r" "\<forall>j\<ge>i. ac_up c j"
  shows "fst (revoke_each c i sids r) \<and> indexed g t (snd (revoke_each c i sids r))
    \<and> (\<forall>sid\<in>set sids. rd_sessions (snd (revoke_each c i sids r)) sid = None)"
  using assms
proof (induction c i sids r rule: revoke_each.induct)
  case (2 c i sid sids r)
  obtain ok r1 where r1: "revoke_session c i sid r = (ok, r1)" by force
  then have ok: ok "rd_sessions r1 sid = None" using 2(3) by (auto simp: revoke_session_def session_del_def Let_def split: if_splits)
  have i: "indexed g t r1" using revoke_session_indexed [OF 2(2), of c i sid] 2(3) r1 by simp
  have "fst (revoke_each c (i + 2) sids r1) \<and> indexed g t (snd (revoke_each c (i + 2) sids r1))
    \<and> (\<forall>sid\<in>set sids. rd_sessions (snd (revoke_each c (i + 2) sids r1)) sid = None)"
    using 2(1) [OF r1 [symmetric] ok(1) i] 2(3) by simp
  moreover have "rd_sessions (snd (revoke_each c (i + 2) sids r1)) sid = None"
    using revoke_each_entries [of c "i + 2" sids r1 sid] ok(2) by (cases "rd_sessions (snd (revoke_each c (i + 2) sids r1)) sid") auto
  ultimately show ?case using r1 ok(1) by simp
qed simp

lemma reap_indexed:
  assumes "indexed g (ac_redis c) (redis s)" "\<forall>j\<ge>20. ac_up c j"
  shows "indexed g (ac_redis c) (redis (reap_sessions c u s))"
    "u \<noteq> [] \<Longrightarrow> rd_sessions (redis (reap_sessions c u s)) sid = Some (se, e) \<Longrightarrow> ls_user se = u \<Longrightarrow>
      ls_expires se * sec - sec < ac_redis c"
proof -
  let ?t = "ac_redis c" and ?r = "redis s"
  let ?r1 = "snd (revoke_each c 32 (index_at ?t u ?r) ?r)"
  have e: "fst (revoke_each c 32 (index_at ?t u ?r) ?r)" "indexed g ?t ?r1"
    "\<forall>sid\<in>set (index_at ?t u ?r). rd_sessions ?r1 sid = None"
    using revoke_each_gone [OF assms(1), of 32 c "index_at ?t u ?r"] assms(2) by auto
  have old: "ls_expires se * sec - sec < ?t"
    if b: "u \<noteq> []" "rd_sessions ?r1 sid = Some (se, e)" "ls_user se = u" for sid se e
  proof (rule ccontr)
    assume n: "\<not> ?thesis"
    have "index_covers ?t ?r sid se" using indexedD(2) [OF assms(1) revoke_each_entries [OF b(2)]] b(1,3) by simp
    then obtain ids x where "rd_index ?r u = Some (ids, x)" "sid \<in> set ids" "lasts ?t x"
      using n b(3) lasts_weaken by (auto simp: index_covers_def)
    then have "sid \<in> set (index_at ?t u ?r)" by (simp add: index_at_def)
    then show False using e(3) b(2) by auto
  qed
  have u: "redis (reap_sessions c u s) = (if u = [] then ?r else index_del u ?r1)"
    using e(1) assms(2) by (auto simp: reap_sessions_def revoke_user_sessions_def split: prod.splits)
  show "indexed g ?t (redis (reap_sessions c u s))"
  proof (cases "u = []")
    case False
    have "indexed g ?t (index_del u ?r1)"
    proof (rule indexedI)
      fix k se e'
      assume *: "rd_sessions (index_del u ?r1) k = Some (se, e')" "ls_user se \<noteq> []"
      then have k: "rd_sessions ?r1 k = Some (se, e')" by (simp add: index_del_def)
      show "timed g ?t se \<and> index_covers ?t (index_del u ?r1) k se"
        using old [OF False k] indexedD [OF e(2) k *(2)] by (cases "ls_user se = u") (auto simp: index_covers_def index_del_def)
    qed
    then show ?thesis using u False by simp
  qed (use u assms(1) in simp)
  show "u \<noteq> [] \<Longrightarrow> rd_sessions (redis (reap_sessions c u s)) sid = Some (se, e) \<Longrightarrow> ls_user se = u \<Longrightarrow> ls_expires se * sec - sec < ?t"
    using old u by (simp add: index_del_def)
qed

lemma step_keeps_index:
  assumes "account_step M V D g c s s'" "indexed g (ac_redis c) (redis s)" "0 < cf_ttl g" "ac_now c \<le> ac_redis c" "\<forall>j\<ge>20. ac_up c j"
    "sec \<le> ac_now c"
  shows "indexed g (ac_redis c) (redis s')"
  using assms
proof (induction rule: account_step.induct)
  case (session_minted se s sid)
  then show ?case by (simp add: create_session_indexed)
next
  case (session_switched sid0 s se0 se sid)
  then show ?case by (simp add: create_session_indexed)
next
  case (org_switched s sid oid)
  have "\<exists>se0 e0. rd_sessions (redis s) k = Some (se0, e0) \<and> ls_user se = ls_user se0 \<and> ls_expires se = ls_expires se0"
    if "rd_sessions (snd (update_org c sid oid (redis s))) k = Some (se, e)" for k se e
    using update_org_entries [OF that] by auto
  moreover have "rd_index (snd (update_org c sid oid (redis s))) = rd_index (redis s)"
    by (auto simp: update_org_def split: option.splits)
  ultimately show ?case using indexed_fewer [OF org_switched(1)] by simp
next
  case (session_dropped sid s se)
  then show ?case by (auto intro!: indexed_fewer [OF session_dropped(2)] simp: session_del_def split: if_splits)
next
  case (session_revoked sid s se)
  then show ?case by (simp add: revoke_session_indexed)
next
  case (account_reaped s u)
  then show ?case using reap_indexed(1) by blast
qed (auto simp: update_user_def set_value_def del_value_def indexed_def index_covers_def)

section \<open>Histories in order\<close>

text \<open>Requests one after the other, each with its clock read before its Redis commands; revocations do not fail half way.\<close>

definition in_order :: "(auth_call \<times> account_op) list \<Rightarrow> bool" where
  "in_order rs = (sorted (map (\<lambda>(c, r). ac_redis c) rs) \<and> (\<forall>(c, r)\<in>set rs. sec \<le> ac_now c \<and> ac_now c \<le> ac_redis c \<and> (\<forall>j\<ge>20. ac_up c j)))"

lemma run_indexed:
  assumes "0 < cf_ttl g" "in_order (rs @ [(c, r)])"
  shows "indexed g (ac_redis c) (redis (run_accounts g rs empty_accounts))"
  using assms(2)
proof (induction rs arbitrary: c r rule: rev_induct)
  case Nil
  then show ?case by (simp add: run_accounts_def empty_accounts_def empty_redis_def indexed_def)
next
  case (snoc x xs)
  obtain d q where x: "x = (d, q)" by force
  have o: "in_order (xs @ [(d, q)])" "ac_redis d \<le> ac_redis c" "ac_now d \<le> ac_redis d" "\<forall>j\<ge>20. ac_up d j" "sec \<le> ac_now d"
    using snoc.prems by (auto simp: in_order_def x sorted_append)
  have "indexed g (ac_redis d) (redis (run_account g d q (run_accounts g xs empty_accounts)))"
    by (rule steps_keep [where I = "\<lambda>s. indexed g (ac_redis d) (redis s)", OF request_makes_steps snoc.IH [OF o(1)]])
      (use step_keeps_index assms(1) o(3,4,5) in blast)
  then show ?case using indexed_later o(2) by (simp add: x run_accounts_snoc)
qed

text \<open>The request disables an account, or takes the platform role from it.\<close>

definition expels :: "auth_call \<Rightarrow> account_op \<Rightarrow> string \<Rightarrow> account_db \<Rightarrow> bool" where
  "expels c r u s = (r = SetUserState u False \<and> fst (set_user_state c u False s) = Inr ()
     \<or> r = RevokePlatformAdmin u \<and> fst (revoke_platform_admin c u s) = Inr () \<and> (\<exists>x. find_user u s = Some x \<and> us_admin x))"

lemma expels_reaps:
  assumes "expels c r u s" "trim_space u = u"
  shows "\<exists>s1. redis s1 = redis s \<and> run_account g c r s = reap_sessions c u s1"
proof -
  have "\<exists>s1. redis s1 = redis s \<and> snd (set_user_state c u False s) = reap_sessions c u s1"
    if ok: "fst (set_user_state c u False s) = Inr ()"
  proof -
    have up: "ac_up c 53" using ok by (simp add: set_user_state_def demand_def split: if_splits)
    then obtain x where x: "user_row c u s = Inr x" "ac_up c 53"
      using ok by (cases "user_row c u s") (auto simp: set_user_state_def demand_def)
    then have "us_id x = u" by (auto simp: user_row_def split: if_splits option.splits dest: find_user_SomeD)
    then show ?thesis using x
      by (intro exI [of _ "update_user u (\<lambda>y. y\<lparr>us_active := False\<rparr>) s"]) (simp add: set_user_state_def demand_def Let_def update_user_def)
  qed
  moreover have "\<exists>s1. redis s1 = redis s \<and> snd (revoke_platform_admin c u s) = reap_sessions c u s1"
    if ok: "fst (revoke_platform_admin c u s) = Inr ()" "find_user u s = Some x" "us_admin x" for x
  proof -
    obtain s' where "revoke_platform_admin c u s = (Inr (), s')" using ok(1) by (metis prod.collapse)
    then obtain actor s1 where p: "require_platform_admin c s = (Inr actor, s1)" by (auto simp: revoke_platform_admin_def on_ok_Inr)
    then have "s1 = s" by (auto dest: require_platform_admin_Inr)
    then obtain y where y: "user_row c u s = Inr y"
        "us_admin y \<longrightarrow> s' = reap_sessions c (us_id y) (update_user (us_id y) (\<lambda>x. x\<lparr>us_admin := False\<rparr>) s)"
      using p assms(2) \<open>revoke_platform_admin c u s = (Inr (), s')\<close>
      by (cases "user_row c u s") (auto simp: revoke_platform_admin_def on_ok_def demand_Inr set_user_platform_admin_def split: if_splits)
    have "y = x" "us_id x = u" using y(1) ok(2) by (auto simp: user_row_def split: if_splits option.splits dest: find_user_SomeD)
    then show ?thesis using y(2) ok(3) \<open>revoke_platform_admin c u s = (Inr (), s')\<close>
      by (intro exI [of _ "update_user u (\<lambda>y. y\<lparr>us_admin := False\<rparr>) s"]) (simp add: update_user_def)
  qed
  ultimately show ?thesis using assms(1) by (auto simp: expels_def)
qed

text \<open>C29. An expelled account is out.  Over any history of requests with ordered clocks whose session reads and revocations
  reach Redis and the database, the expelling request included: two seconds after an account was disabled or
  lost the platform role, no session stored then opens as that account.  (A revocation that fails is only logged,
  and the sessions stay.)
\<close>

theorem expelled_account_is_out:
  assumes "0 < cf_ttl g" "in_order (rs @ [(c, r)])" "expels c r u (run_accounts g rs empty_accounts)" "u \<noteq> []" "trim_space u = u"
    "get_session k sid (redis (run_account g c r (run_accounts g rs empty_accounts))) = (Inr se, r')" "ac_redis c + 2 * sec \<le> ac_now k"
  shows "ls_user se \<noteq> u"
proof
  assume u: "ls_user se = u"
  let ?s = "run_accounts g rs empty_accounts"
  obtain s1 where s1: "redis s1 = redis ?s" "run_account g c r ?s = reap_sessions c u s1" using expels_reaps assms(3,5) by blast
  have "session_at (ac_redis k) sid (redis (reap_sessions c u s1)) = Some se" and d: "\<not> out_of_date k se"
    using assms(6) s1(2) by (auto simp: get_session_def split: option.splits if_splits)
  then obtain e where e: "rd_sessions (redis (reap_sessions c u s1)) sid = Some (se, e)" using session_at_entry by blast
  have up: "\<forall>j\<ge>20. ac_up c j" using assms(2) by (simp add: in_order_def)
  have i: "indexed g (ac_redis c) (redis s1)" using run_indexed [OF assms(1,2)] s1(1) by simp
  have "ls_expires se * sec - sec < ac_redis c" by (rule reap_indexed(2) [OF i up assms(4) e u])
  then have "ls_expires se * sec + sec \<le> ac_now k" using assms(7) by linarith
  moreover have "ac_now k < (ac_now k div sec) * sec + sec"
    using div_mult_mod_eq [of "ac_now k" sec] pos_mod_bound [of sec "ac_now k"] by linarith
  ultimately have "ls_expires se < ac_now k div sec" by linarith
  moreover have "0 < ls_expires se"
    using indexedD(1) [OF reap_indexed(1) [OF i up] e] u assms(4) by (simp add: timed_def)
  ultimately show False using d by (simp add: out_of_date_def)
qed

text \<open>
  Without that hypothesis they stay: a failed revocation changes nothing, and deleting an account revokes nothing.
\<close>

lemma failed_reap_keeps_sessions: "\<not> ac_up c 30 \<Longrightarrow> redis (reap_sessions c u s) = redis s"
  by (simp add: reap_sessions_def revoke_user_sessions_def)

lemma deleted_account_keeps_sessions:
  "get_session k sid (redis (snd (delete_user c u s))) = get_session k sid (redis s)"
  by (simp add: delete_user_def demand_def split: sum.split)

definition demo_logins :: "(auth_call \<times> account_op) list" where
  "demo_logins =
     [(demo_request 1000 ''r'' [], SeedAccounts (Some \<lparr>sd_provider = ''i'', sd_issuer = [], sd_client = [], sd_secret = [], sd_redirect = []\<rparr>) ''a'' ''p''),
      (demo_request 1001 ''1'' [], SsoCallback ''i'' False),
      (demo_request 1002 ''2'' [], SsoCallback ''i'' False)]"

lemma revoke_each_others: "sid \<notin> set sids \<Longrightarrow> rd_sessions (snd (revoke_each c i sids r)) sid = rd_sessions r sid"
proof (induction c i sids r rule: revoke_each.induct)
  case (2 c i k sids r)
  obtain ok r1 where r1: "revoke_session c i k r = (ok, r1)" by force
  then have "rd_sessions r1 sid = rd_sessions r sid" using 2(2)
    by (auto simp: revoke_session_def session_del_def index_remove_def Let_def split: if_splits option.splits)
  then show ?case using 2 r1 by simp
qed simp

lemma reap_others:
  "sid \<notin> set (index_at (ac_redis c) u (redis s)) \<Longrightarrow> rd_sessions (redis (reap_sessions c u s)) sid = rd_sessions (redis s) sid"
  using revoke_each_others [of sid "index_at (ac_redis c) u (redis s)" c 32 "redis s"]
  by (auto simp: reap_sessions_def revoke_user_sessions_def index_del_def split: prod.splits)

lemma demo_disabled:
  "expels (demo_request 1004 ''4'' []) (SetUserState ''u-2'' False) ''u-2'' (run_accounts demo_auth_config demo_logins empty_accounts)
    \<and> (\<exists>se r'. get_session (demo_request 1010 ''5'' []) ''s-1'' (redis (run_account demo_auth_config (demo_request 1004 ''4'' [])
          (SetUserState ''u-2'' False) (run_accounts demo_auth_config demo_logins empty_accounts))) = (Inr se, r'))"
proof -
  let ?s = "run_accounts demo_auth_config demo_logins empty_accounts" and ?c = "demo_request 1004 ''4'' []"
  have "case user_row ?c ''u-2'' ?s of Inr x \<Rightarrow> us_id x = ''u-2'' | _ \<Rightarrow> False"
    "index_at (ac_redis ?c) ''u-2'' (redis ?s) = [''s-2'']"
    "case get_session (demo_request 1010 ''5'' []) ''s-1'' (redis ?s) of (Inr se, r') \<Rightarrow> True | _ \<Rightarrow> False"
    by code_simp+
  then obtain x se r' where x: "user_row ?c ''u-2'' ?s = Inr x" "us_id x = ''u-2''"
    and i: "index_at (ac_redis ?c) ''u-2'' (redis ?s) = [''s-2'']"
    and g: "get_session (demo_request 1010 ''5'' []) ''s-1'' (redis ?s) = (Inr se, r')"
    by (auto split: prod.splits sum.splits)
  let ?s' = "run_account demo_auth_config ?c (SetUserState ''u-2'' False) ?s"
  have up: "ac_up ?c n" for n by (simp add: demo_request_def)
  have "?s' = reap_sessions ?c ''u-2'' (update_user ''u-2'' (\<lambda>y. y\<lparr>us_active := False\<rparr>) ?s)"
    using x up by (simp add: set_user_state_def demand_def Let_def)
  moreover have "rd_sessions (redis (reap_sessions ?c ''u-2'' (update_user ''u-2'' f ?s))) ''s-1'' = rd_sessions (redis ?s) ''s-1''" for f
    using reap_others [of "''s-1''" ?c "''u-2''" "update_user ''u-2'' f ?s"] i by (simp add: update_user_def)
  ultimately have "rd_sessions (redis ?s') ''s-1'' = rd_sessions (redis ?s) ''s-1''" by simp
  then have "\<exists>r''. get_session (demo_request 1010 ''5'' []) ''s-1'' (redis ?s') = (Inr se, r'')"
    using g by (auto simp: get_session_def session_at_def split: option.splits if_splits)
  moreover have "expels ?c (SetUserState ''u-2'' False) ''u-2'' ?s"
    using x up by (simp add: expels_def set_user_state_def demand_def)
  ultimately show ?thesis by blast
qed

theorem expelled_account_is_out_witness:
  "\<exists>se. (\<exists>r'. get_session (demo_request 1010 ''5'' []) ''s-1'' (redis (run_account demo_auth_config (demo_request 1004 ''4'' [])
      (SetUserState ''u-2'' False) (run_accounts demo_auth_config demo_logins empty_accounts))) = (Inr se, r')) \<and> ls_user se \<noteq> ''u-2''"
proof -
  let ?s = "run_accounts demo_auth_config demo_logins empty_accounts" and ?c = "demo_request 1004 ''4'' []"
  obtain se r' where g: "get_session (demo_request 1010 ''5'' []) ''s-1''
      (redis (run_account demo_auth_config ?c (SetUserState ''u-2'' False) ?s)) = (Inr se, r')"
    and x: "expels ?c (SetUserState ''u-2'' False) ''u-2'' ?s"
    using demo_disabled by blast
  have "ls_user se \<noteq> ''u-2''"
    by (rule expelled_account_is_out [OF _ _ x _ _ g])
      (simp_all add: demo_auth_config_def in_order_def demo_logins_def demo_request_def trim_space_def is_space_def trim_right_def)
  then show ?thesis using g by blast
qed

end
