(* ===== verification/Spec2Isabelle.thy ===== *)
theory Spec2Isabelle
  imports Charging BatchLifecycle Payments ModelRouter TenancyLaws SessionLaws
begin

text \<open>
  A verification library of go-taas, a platform that serves language models to tenants and bills their
  use.  File names below are relative to \<open>src/\<close>.

  \<^bold>\<open>The program.\<close>  Inference requests enter through a proxy filter compiled to WebAssembly
  (\<open>wasm/gateway\<close>).  The filter sends the digest of the caller's key to the control plane, which looks the
  key up, checks the model's grants and the tenant's funds, reserves the request's worst case cost and
  answers a verdict.  The filter enforces it: it answers locally, or rewrites and forwards the request
  and reports its token usage afterwards.  The report becomes an event on a queue with two readers.
  Metering keeps a voucher per request and settles closed hours into usage records, whose publication
  lets billing price the hour; billing keeps a usage line per request, prices lines into charges and deducts
  from the tenant's account.  Beside this path stand the routing groups (virtual models), the management
  of keys, payments, batch jobs, the tenants with their rosters, and the accounts with their sessions.

  \<^bold>\<open>Theories and the code they model.\<close>

  \<^item> \<open>Prelude\<close>: byte strings and the functions of package \<open>strings\<close> the code calls, integer conversions, updates of
    rows by a predicate, and the collections the component proofs use.  \<open>GoFloat\<close>: \<open>float64\<close> rounding on exact
    rationals.  \<open>GoJson\<close>: \<open>encoding/json\<close> as the services use it, with the lemmas that a text written by the
    filter or by \<open>json.Marshal\<close> is read back.

  \<^item> The filter: \<open>GatewayJson\<close> (\<open>jsonlite.go\<close>), \<open>GatewayUsage\<close> (\<open>usage.go\<close>), \<open>GatewayAuth\<close> (\<open>auth.go\<close>, \<open>config.go\<close>,
    \<open>verdict_cache.go\<close>, \<open>ratelimit.go\<close>) and \<open>GatewayPlugin\<close> (\<open>plugin.go\<close>, \<open>time.go\<close>): the record \<open>worker\<close> is one
    \<open>pluginContext\<close> with its shared data, \<open>http_ctx\<close> one request, each callback one function, and \<open>event\<close> and \<open>system\<close> the
    steps of a worker with any number of interleaved requests.

  \<^item> Verification of keys: \<open>KeyVerify\<close> (\<open>services/auth\<close>: \<open>VerifyAPIKey\<close> with the verdict, grant and funds caches),
    \<open>KeyRegistry\<close> (the operations of \<open>service.go\<close>, \<open>apikey_ownership.go\<close> and their repositories) and \<open>KeyGateway\<close>
    (\<open>gateway_verifier.go\<close> and the endpoint of \<open>pkg/server/gateway_api.go\<close>, composed with the plugin's parser on one
    side and the funds gate on the other).

  \<^item> Money (\<open>services/billing\<close>): \<open>FundsHolds\<close> (\<open>funds_holds.go\<close>: the three Redis scripts), \<open>Ledger\<close> (both
    repositories), \<open>Pricing\<close> (\<open>pricing.go\<close>), \<open>FundsGate\<close> (\<open>account_service.go\<close>: evaluation and admission) and \<open>Payments\<close>
    (\<open>payment_service.go\<close>).

  \<^item> From usage to charges: \<open>Metering\<close> (\<open>services/metering\<close>: vouchers, settlement, retention), \<open>Pipeline\<close>
    (\<open>gateway_sink.go\<close>, the usage endpoint and the messages on the wire), \<open>Consumers\<close> (billing's
    \<open>event_consumer.go\<close>) and \<open>Charging\<close> (\<open>settlements_consumer.go\<close>, \<open>reconciliation_runner.go\<close>).

  \<^item> Routing (\<open>services/routing\<close>): \<open>Routing\<close> (\<open>resolver.go\<close>), \<open>RoutingRegistry\<close> (\<open>service.go\<close>,
    \<open>routing_repository.go\<close>) and \<open>ModelRouter\<close> (\<open>pkg/modelrouter\<close> and the playground's failover).

  \<^item> Batch jobs (\<open>services/batch\<close>): \<open>BatchInput\<close> (\<open>jsonl_validator.go\<close>), \<open>BatchJobs\<close> (the table, the file store and the
    code as processes that take one statement at a time) and \<open>BatchLifecycle\<close> (what holds of every
    interleaving of them).

  \<^item> Tenants (\<open>services/tenancy\<close>): \<open>Tenancy\<close> (the tables, the role guard and every request that changes
    organizations, projects, rosters, invitations, join requests and quotas), \<open>TenancySteps\<close> (the changes those
    requests make, as a step relation) and \<open>TenancyLaws\<close> (what holds of it).

  \<^item> Accounts (\<open>services/auth\<close>): \<open>AuthStore\<close> (\<open>session_store.go\<close>, \<open>email_code.go\<close>, \<open>captcha.go\<close> and
    \<open>password_crypto.go\<close> over Redis keys that expire), \<open>Accounts\<close> (the tables and every request of registration, login,
    single sign-on, sessions, platform administrators, providers and bindings), \<open>AccountSteps\<close> (the changes those
    requests make, as a step relation), \<open>AccountLaws\<close> (tables, administrators and the origin of sessions) and
    \<open>SessionLaws\<close> (revocation).

  \<^bold>\<open>How state is modelled.\<close>  A Go struct is a record, a table a list of rows in insertion order, a repository
  method a function from tables to tables or to an error.  A statement that fails, a broker or a cache
  that is down and a lost race are arguments, so that a theorem about every argument is one about every
  failure.  Integers are \<open>int\<close>, wrapped to 64 or 32 bits where the code computes and range-checked where the
  database does; strings are byte strings; times are whole seconds or nanoseconds since 1970 as the code
  keeps them.
\<close>

text \<open>
  \<^bold>\<open>What the lemma groups show.\<close>

  \<^item> Parsers and writers: totality, bounds on what is consumed, and round trips with the writer at
    the other end of the wire: the filter's reports and verification requests as read by the server, the server's
    verdicts as read by the filter, cached verdicts, the messages of the queue and of settlements.

  \<^item> Admission: a protected request passes only after an allowing verdict; holds never exceed a ceiling
    whatever the order of admissions, retries and releases, and end one time to live after the last reservation; the
    gate's answer refines the ceilings of every tier; a revoked key dies; what the filter's cache answers was
    answered before, for the same digest and model (\<open>answered\<close> keeps the log of answers beside the system).

  \<^item> The ledger: balances and transaction rows chain; concurrent movements lose no update; charges do
    not drift; a settled line accrues nothing; a payment credits once.

  \<^item> Usage: a report of the filter reaches both consumers as one event; the tokens of a key's hour are conserved
    from vouchers to usage records; two consumers of one queue agree; settlement and reconciliation passes leave
    nothing behind but named failures.

  \<^item> Routing: what a resolution may contain (\<open>may_attempt\<close>, stated without the resolver), in which order, over every
    reachable registry.

  \<^item> Batch: acceptance of an input file is equivalent to a declarative description; every process ends;
    the invariants of the jobs table, of what processes hold and of the files of completed jobs hold over all
    interleavings; an undisturbed pass takes the oldest waiting job from its claim to its completion.

  \<^item> Tenants: the tables stay well formed, an account has one tenant unless it accepts an invitation, who may
    change a roster, the single use of an invitation, and the strictest limit of all tiers.

  \<^item> Accounts: the tables of accounts, providers and bindings stay well formed, an administrator remains, every session
    goes back to a password or a vouched identity that opens the account (\<open>opens_account\<close>, stated over the tables), and
    a disabled or demoted account is out once its revocation succeeded.

  Interfaces are locales, interpreted on the model: \<open>queue_consumer\<close> on both consumers, \<open>batch_delete\<close> on the two
  retention deletes, and those of the earlier components.  Some lemmas record where the code departs from
  its documentation, such as \<open>Metering.late_voucher_is_lost\<close> or \<open>BatchLifecycle.cancelled_job_completes\<close>; they are
  evaluations of the same definitions.

  \<^bold>\<open>Bounds and fuel.\<close>  The filter's JSON parser gets fuel of twice the text's length plus two, which
  suffices as each call either consumes a character or descends once between characters; running out
  counts as malformed and the round trips show that it does not happen.  \<open>encoding/json\<close> stops at a nesting
  of 10000, here too.  Balance updates retry eight times and routing attempts are three, as in the code.  The
  retention loop is a partial function with a theorem that it returns.

  \<^bold>\<open>Parameters.\<close>  SHA-256, Argon2id, regular expressions, UUID parsing, the random source, the catalog,
  the inference engines, the identity providers' answers, the tenancy lookups of the key service, RFC 3339 formatting of times and the host calls of the proxy are
  arguments.  Where a theorem relies on one it says so, for instance that the digest function is injective
  on the keys at hand.
\<close>

text \<open>
  \<^bold>\<open>Not modelled, and simplifications.\<close>

  \<^item> Lua numbers of the reservation scripts are doubles, exact below \<open>2 ^ 53\<close>; the model has integers.

  \<^item> Case folding and white space of \<open>strings.ToLower\<close>, \<open>TrimSpace\<close> and field matching are those of ASCII; in Go's JSON
    bytes from 128 on pass through, where the library replaces invalid UTF-8.

  \<^item> \<open>VerifyAPIKey\<close> reads the clock once in the model.  A \<open>LIMIT\<close> without an order picks rows in table order.
    Columns of type \<open>uuid\<close> are compared as text.  The file store is a map from keys to contents, whose removals may
    fail silently.

  \<^item> A call of \<open>VerifyAPIKey\<close>, a settlement of one bucket and a request of the tenancy and account services are each one
    step.  So a verification that fills the cache while the key is being revoked, and a voucher inserted between the
    sum and the update of its bucket (possible under \<open>READ COMMITTED\<close>), are outside the model.  Requests of the batch
    service, of the filter, the balance updates and the membership moves are split where their interleaving matters.

  \<^item> The funds gate is evaluated on a database that answers: a failed read of the account (an error, no admission) has no
    branch, failed reads of limits and accruals have.

  \<^item> Logging, metrics, audit records, trace capture, protobuf conversions, paged list queries, the ticker loops
    around the passes and the forwarding of HTTP bodies have no effect on the modelled state and are left out.

  \<^item> The account and invoice endpoints, reports, forecasts, dashboards, inference services
    with their autoscaling, the Kubernetes controller and the catalog services are not modelled yet.
\<close>

end
